(* ===== verification/Flp_Prelude.thy ===== *)
theory Flp_Prelude
  imports Main "HOL-Library.Word"
begin

unbundle bit_operations_syntax

text \<open>
  Shared ground of the development: the machine-integer types of the firmware, the
  little-endian byte codecs that every packed struct goes through, the contract of a
  packed wire struct as a locale, and the generic facts on lists, searches and words that
  the component theories rely on.

  Integers of the C++ code are kept at their width as \<open>word\<close>s: arithmetic wraps as on the
  ESP32-S3, \<open>unat\<close> reads an unsigned and \<open>sint\<close> a signed value. \<open>size_t\<close> values (buffer
  lengths, file sizes and offsets) are \<open>nat\<close>; where the code narrows one to a fixed width,
  the narrowing is written out.
\<close>

section \<open>Machine types\<close>

type_synonym u8 = "8 word"
type_synonym u16 = "16 word"
type_synonym u32 = "32 word"
type_synonym i8 = "8 word"
type_synonym i16 = "16 word"
type_synonym i32 = "32 word"
type_synonym bytes = "8 word list"

named_theorems wire_defs \<open>definitions of the encoders and decoders of packed structs\<close>
named_theorems wire_simps \<open>round-trip facts of the byte codecs\<close>

section \<open>Little-endian codecs\<close>

definition le16 :: "u16 \<Rightarrow> bytes" where
  "le16 w = [ucast w, ucast (drop_bit 8 w)]"

definition rd16 :: "u8 \<Rightarrow> u8 \<Rightarrow> u16" where
  "rd16 b0 b1 = ucast b0 OR push_bit 8 (ucast b1)"

definition le32 :: "u32 \<Rightarrow> bytes" where
  "le32 w = [ucast w, ucast (drop_bit 8 w), ucast (drop_bit 16 w), ucast (drop_bit 24 w)]"

definition rd32 :: "u8 \<Rightarrow> u8 \<Rightarrow> u8 \<Rightarrow> u8 \<Rightarrow> u32" where
  "rd32 b0 b1 b2 b3 =
     ucast b0 OR push_bit 8 (ucast b1) OR push_bit 16 (ucast b2) OR push_bit 24 (ucast b3)"

lemma length_le16 [simp]: "length (le16 w) = 2"
  by (simp add: le16_def)

lemma length_le32 [simp]: "length (le32 w) = 4"
  by (simp add: le32_def)

lemma byte_bit_high [simp]: "8 \<le> n \<Longrightarrow> \<not> bit (b :: u8) n"
  using bit_imp_le_length by fastforce

lemma rd16_split [wire_simps]: "rd16 (ucast w) (ucast (drop_bit 8 w)) = w"
  unfolding rd16_def by (rule bit_word_eqI) (auto simp: bit_simps)

lemma rd16_lo [wire_simps]: "ucast (rd16 a b) = a"
  unfolding rd16_def by (rule bit_word_eqI) (auto simp: bit_simps)

lemma rd16_hi [wire_simps]: "ucast (drop_bit 8 (rd16 a b)) = b"
  unfolding rd16_def by (rule bit_word_eqI) (auto simp: bit_simps)

lemma rd32_split [wire_simps]:
  "rd32 (ucast w) (ucast (drop_bit 8 w)) (ucast (drop_bit 16 w)) (ucast (drop_bit 24 w)) = w"
  unfolding rd32_def
proof (rule bit_word_eqI)
  fix n :: nat
  assume "n < LENGTH(32)"
  then consider "n < 8" | "8 \<le> n" "n < 16" | "16 \<le> n" "n < 24" | "24 \<le> n" "n < 32"
    by fastforce
  then show "bit ((ucast (ucast w :: u8) OR push_bit 8 (ucast (ucast (drop_bit 8 w) :: u8)) OR
        push_bit 16 (ucast (ucast (drop_bit 16 w) :: u8)) OR
        push_bit 24 (ucast (ucast (drop_bit 24 w) :: u8))) :: u32) n = bit w n"
    by cases (auto simp: bit_simps)
qed

lemma rd32_0 [wire_simps]: "ucast (rd32 a b c d) = a"
  unfolding rd32_def by (rule bit_word_eqI) (auto simp: bit_simps)

lemma rd32_1 [wire_simps]: "ucast (drop_bit 8 (rd32 a b c d)) = b"
  unfolding rd32_def by (rule bit_word_eqI) (auto simp: bit_simps)

lemma rd32_2 [wire_simps]: "ucast (drop_bit 16 (rd32 a b c d)) = c"
  unfolding rd32_def by (rule bit_word_eqI) (auto simp: bit_simps)

lemma rd32_3 [wire_simps]: "ucast (drop_bit 24 (rd32 a b c d)) = d"
  unfolding rd32_def by (rule bit_word_eqI) (auto simp: bit_simps)

lemma rd16_le16 [wire_simps]: "rd16 (le16 w ! 0) (le16 w ! 1) = w"
  by (simp add: le16_def wire_simps)

lemma le16_rd16 [wire_simps]: "le16 (rd16 a b) = [a, b]"
  by (simp add: le16_def wire_simps)

lemma le32_rd32 [wire_simps]: "le32 (rd32 a b c d) = [a, b, c, d]"
  by (simp add: le32_def wire_simps)

section \<open>The contract of a packed wire struct\<close>

text \<open>
  A packed struct of the protocol is written with \<open>memcpy(buf, &s, sizeof s)\<close> and read back,
  after a length check, with \<open>memcpy(&s, payload, sizeof s)\<close>. The locale states what the
  handlers rely on: the encoding has \<open>sizeof s\<close> bytes, a buffer that starts with it decodes
  to the struct whatever follows, a shorter buffer is rejected, and decoding loses nothing.
\<close>

locale wire_struct =
  fixes enc :: "'a \<Rightarrow> bytes"
    and dec :: "bytes \<Rightarrow> 'a option"
    and sz :: nat
  assumes enc_length: "length (enc x) = sz"
    and dec_enc_append: "dec (enc x @ rest) = Some x"
    and dec_short: "length bs < sz \<Longrightarrow> dec bs = None"
    and enc_dec: "dec bs = Some x \<Longrightarrow> enc x = take sz bs"
    and dec_total: "sz \<le> length bs \<Longrightarrow> \<exists>x. dec bs = Some x"
begin

lemma dec_enc: "dec (enc x) = Some x"
  using dec_enc_append [of x "[]"] by simp

lemma enc_inject: "enc x = enc y \<longleftrightarrow> x = y"
  using dec_enc by (metis option.inject)

lemma accepts_iff: "(\<exists>x. dec bs = Some x) \<longleftrightarrow> sz \<le> length bs"
  using dec_short dec_total by (metis leI option.distinct(1))

lemma dec_prefix_only: "sz \<le> length bs \<Longrightarrow> dec bs = dec (take sz bs @ other)"
  using dec_total enc_dec dec_enc_append by metis

end

section \<open>Word facts\<close>

lemma unat_u16_bound [simp]: "unat (w :: u16) < 65536"
  using unsigned_less [of w, where 'a = nat] by simp

lemma unat_u8_bound [simp]: "unat (w :: u8) < 256"
  using unsigned_less [of w, where 'a = nat] by simp

lemma unat_u32_bound [simp]: "unat (w :: u32) < 4294967296"
  using unsigned_less [of w, where 'a = nat] by simp

lemma unat_ucast_u8_u16 [simp]: "unat (ucast (x :: u8) :: u16) = unat x"
proof -
  have "unat x < 2 ^ 16" by (rule less_trans [OF unat_u8_bound]) simp
  then show ?thesis by (simp add: unsigned_ucast_eq take_bit_nat_eq_self)
qed

lemma unat_ucast_u8_u32 [simp]: "unat (ucast (x :: u8) :: u32) = unat x"
proof -
  have "unat x < 2 ^ 32" by (rule less_trans [OF unat_u8_bound]) simp
  then show ?thesis by (simp add: unsigned_ucast_eq take_bit_nat_eq_self)
qed

lemma unat_ucast_u16_u32 [simp]: "unat (ucast (x :: u16) :: u32) = unat x"
proof -
  have "unat x < 2 ^ 32" by (rule less_trans [OF unat_u16_bound]) simp
  then show ?thesis by (simp add: unsigned_ucast_eq take_bit_nat_eq_self)
qed

section \<open>Searching an array prefix\<close>

text \<open>
  Most loops of the code scan an array prefix for the first entry with a property and act on
  that entry alone. \<open>find_idx\<close> is that scan; \<open>update_first\<close> is the scan followed by an update
  in place and a \<open>return\<close> or \<open>break\<close>.
\<close>

fun find_idx :: "('a \<Rightarrow> bool) \<Rightarrow> 'a list \<Rightarrow> nat option" where
  "find_idx P [] = None"
| "find_idx P (x # xs) = (if P x then Some 0 else map_option Suc (find_idx P xs))"

fun update_first :: "('a \<Rightarrow> bool) \<Rightarrow> ('a \<Rightarrow> 'a) \<Rightarrow> 'a list \<Rightarrow> 'a list" where
  "update_first P f [] = []"
| "update_first P f (x # xs) = (if P x then f x # xs else x # update_first P f xs)"

lemma find_idx_None_iff: "find_idx P xs = None \<longleftrightarrow> (\<forall>x \<in> set xs. \<not> P x)"
  by (induction xs) auto

lemma find_idx_SomeD:
  "find_idx P xs = Some i \<Longrightarrow> i < length xs \<and> P (xs ! i) \<and> (\<forall>j < i. \<not> P (xs ! j))"
proof (induction xs arbitrary: i)
  case Nil
  then show ?case by simp
next
  case (Cons x xs)
  show ?case
  proof (cases "P x")
    case True
    with Cons.prems show ?thesis by auto
  next
    case False
    with Cons.prems obtain k where k: "find_idx P xs = Some k" "i = Suc k" by auto
    then have "k < length xs \<and> P (xs ! k) \<and> (\<forall>j < k. \<not> P (xs ! j))"
      using Cons.IH by blast
    with k(2) False show ?thesis by (auto simp: less_Suc_eq_0_disj)
  qed
qed

lemma length_update_first [simp]: "length (update_first P f xs) = length xs"
  by (induction xs) auto

lemma update_first_id: "(\<And>x. x \<in> set xs \<Longrightarrow> \<not> P x) \<Longrightarrow> update_first P f xs = xs"
  by (induction xs) auto

lemma map_update_first:
  "(\<And>x. g (f x) = g x) \<Longrightarrow> map g (update_first P f xs) = map g xs"
  by (induction xs) auto

lemma set_update_first_subset: "set (update_first P f xs) \<subseteq> set xs \<union> f ` {x \<in> set xs. P x}"
  by (induction xs) auto

lemma update_first_list_all:
  "list_all Q xs \<Longrightarrow> (\<And>x. P x \<Longrightarrow> Q x \<Longrightarrow> Q (f x)) \<Longrightarrow> list_all Q (update_first P f xs)"
  by (induction xs) auto

lemma find_update_first:
  "(\<And>x. P x \<Longrightarrow> P (f x)) \<Longrightarrow>
   List.find P (update_first P f xs) = map_option f (List.find P xs)"
  by (induction xs) auto

lemma find_update_first_other:
  "(\<And>x. P x \<Longrightarrow> \<not> Q x) \<Longrightarrow> (\<And>x. P x \<Longrightarrow> \<not> Q (f x)) \<Longrightarrow>
   List.find Q (update_first P f xs) = List.find Q xs"
  by (induction xs) auto

lemma find_append_first:
  "List.find P (xs @ ys) = (case List.find P xs of None \<Rightarrow> List.find P ys | Some x \<Rightarrow> Some x)"
  by (induction xs) auto

lemma count_update:
  "i < length xs \<Longrightarrow> length (filter P (xs[i := y])) + (if P (xs ! i) then 1 else 0) =
     length (filter P xs) + (if P y then 1 else 0)"
proof (induction xs arbitrary: i)
  case (Cons x xs)
  then show ?case by (cases i) auto
qed simp

section \<open>Writing into a byte array\<close>

text \<open>\<open>memcpy(dst + off, src, n)\<close> for a write that stays inside the array.\<close>

definition write_at :: "nat \<Rightarrow> 'a list \<Rightarrow> 'a list \<Rightarrow> 'a list" where
  "write_at off src dst = take off dst @ src @ drop (off + length src) dst"

lemma length_write_at [simp]:
  "off + length src \<le> length dst \<Longrightarrow> length (write_at off src dst) = length dst"
  by (simp add: write_at_def)

lemma nth_write_at:
  assumes "off + length src \<le> length dst" and "i < length dst"
  shows "write_at off src dst ! i =
    (if off \<le> i \<and> i < off + length src then src ! (i - off) else dst ! i)"
  using assms by (auto simp: write_at_def nth_append min_def)

lemma write_at_Nil [simp]: "write_at off [] dst = dst"
  by (simp add: write_at_def)

end
