(* ===== verification/Packet.thy ===== *)
theory Packet
  imports Flp_Prelude
begin

text \<open>
  Model of \<^verbatim>\<open>components/protocol/include/packet.hpp\<close>: protocol constants, packet types, the
  8-byte packet header with its bit fields, the packed payload structs, and the congestion
  flag carried in the sequence number of ACK and NACK packets. Every packed struct is shown
  to satisfy the contract \<^theory_text>\<open>wire_struct\<close> of the prelude.
\<close>

unbundle bit_operations_syntax

section \<open>Constants\<close>

abbreviation (input) BROADCAST_ADDR :: u16 where "BROADCAST_ADDR \<equiv> 0xFFFF"
abbreviation (input) EXIT_ANY_ADDR :: u16 where "EXIT_ANY_ADDR \<equiv> 0xFFFE"
abbreviation (input) PROTOCOL_VERSION :: u8 where "PROTOCOL_VERSION \<equiv> 1"
abbreviation (input) DEFAULT_TTL :: u8 where "DEFAULT_TTL \<equiv> 8"
abbreviation (input) MAX_MTU :: nat where "MAX_MTU \<equiv> 1470"
abbreviation (input) ARQ_WINDOW :: nat where "ARQ_WINDOW \<equiv> 64"
abbreviation (input) MAX_RETRIES :: u8 where "MAX_RETRIES \<equiv> 12"
abbreviation (input) MAX_NEIGHBORS :: nat where "MAX_NEIGHBORS \<equiv> 16"
abbreviation (input) MAX_EXIT_NODES :: nat where "MAX_EXIT_NODES \<equiv> 4"
abbreviation (input) FEC_GROUP_SIZE :: nat where "FEC_GROUP_SIZE \<equiv> 7"
abbreviation (input) PACKET_HEADER_SIZE :: nat where "PACKET_HEADER_SIZE \<equiv> 8"
abbreviation (input) LORA_MAX_PAYLOAD :: nat where "LORA_MAX_PAYLOAD \<equiv> 255 - PACKET_HEADER_SIZE"
abbreviation (input) ESPNOW_MAX_PAYLOAD :: nat where "ESPNOW_MAX_PAYLOAD \<equiv> MAX_MTU - PACKET_HEADER_SIZE"
abbreviation (input) TRANSFER_FRAGMENT_ALIGN :: nat where "TRANSFER_FRAGMENT_ALIGN \<equiv> 8"
abbreviation (input) DEFAULT_TRANSFER_FRAGMENT_SIZE :: nat where
  "DEFAULT_TRANSFER_FRAGMENT_SIZE \<equiv>
     (ESPNOW_MAX_PAYLOAD div TRANSFER_FRAGMENT_ALIGN) * TRANSFER_FRAGMENT_ALIGN"

section \<open>Packet types\<close>

text \<open>
  \<open>enum class PacketType : uint8_t\<close>. The accessor casts six header bits to the enum without
  a check, so a value with no enumerator is possible; it is \<open>PT_OTHER\<close>.
\<close>

datatype PacketType =
    DATA | ACK | NACK | PARITY | DISCOVERY | ROUTE_REPLY | ROUTE_ERROR
  | TRANSFER_AD | TRANSFER_ACK | EXIT_OFFLINE | TRANSFER_DONE | MESH_PUB | MESH_CMD
  | PT_OTHER u8

fun pt_code :: "PacketType \<Rightarrow> u8" where
  "pt_code DATA = 0x01"
| "pt_code ACK = 0x02"
| "pt_code NACK = 0x03"
| "pt_code PARITY = 0x06"
| "pt_code DISCOVERY = 0x10"
| "pt_code ROUTE_REPLY = 0x12"
| "pt_code ROUTE_ERROR = 0x13"
| "pt_code TRANSFER_AD = 0x20"
| "pt_code TRANSFER_ACK = 0x21"
| "pt_code EXIT_OFFLINE = 0x22"
| "pt_code TRANSFER_DONE = 0x23"
| "pt_code MESH_PUB = 0x30"
| "pt_code MESH_CMD = 0x31"
| "pt_code (PT_OTHER c) = c"

definition named_types :: "PacketType list" where
  "named_types = [DATA, ACK, NACK, PARITY, DISCOVERY, ROUTE_REPLY, ROUTE_ERROR, TRANSFER_AD,
     TRANSFER_ACK, EXIT_OFFLINE, TRANSFER_DONE, MESH_PUB, MESH_CMD]"

definition pt_of :: "u8 \<Rightarrow> PacketType" where
  "pt_of c = (case List.find (\<lambda>t. pt_code t = c) named_types of Some t \<Rightarrow> t | None \<Rightarrow> PT_OTHER c)"

lemma pt_code_pt_of [simp]: "pt_code (pt_of c) = c"
  by (auto simp: pt_of_def find_Some_iff split: option.splits)

lemma pt_of_pt_code: "t \<in> set named_types \<Longrightarrow> pt_of (pt_code t) = t"
  by (auto simp: named_types_def pt_of_def)

lemma named_code_six_bits: "t \<in> set named_types \<Longrightarrow> pt_code t AND 0x3F = pt_code t"
  by (auto simp: named_types_def)

section \<open>Packet header\<close>

record PacketHeader =
  ver_type :: u8
  src_addr :: u16
  dst_addr :: u16
  ttl_hops :: u8
  seq_num :: u16

definition hdr_version :: "PacketHeader \<Rightarrow> u8" where
  "hdr_version h = drop_bit 6 (ver_type h)"

definition hdr_type :: "PacketHeader \<Rightarrow> PacketType" where
  "hdr_type h = pt_of (ver_type h AND 0x3F)"

definition hdr_ttl :: "PacketHeader \<Rightarrow> u8" where
  "hdr_ttl h = drop_bit 4 (ttl_hops h)"

definition hdr_hop_count :: "PacketHeader \<Rightarrow> u8" where
  "hdr_hop_count h = ttl_hops h AND 0x0F"

definition set_ver_type :: "u8 \<Rightarrow> PacketType \<Rightarrow> PacketHeader \<Rightarrow> PacketHeader" where
  "set_ver_type ver t h = h\<lparr>ver_type := push_bit 6 ver OR (pt_code t AND 0x3F)\<rparr>"

definition set_ttl_hops :: "u8 \<Rightarrow> u8 \<Rightarrow> PacketHeader \<Rightarrow> PacketHeader" where
  "set_ttl_hops ttl hops h = h\<lparr>ttl_hops := push_bit 4 ttl OR (hops AND 0x0F)\<rparr>"

text \<open>The packed struct on the wire: field order, little endian, no padding.\<close>

definition enc_header :: "PacketHeader \<Rightarrow> bytes" where
  [wire_defs]: "enc_header h =
     [ver_type h] @ le16 (src_addr h) @ le16 (dst_addr h) @ [ttl_hops h] @ le16 (seq_num h)"

definition dec_header :: "bytes \<Rightarrow> PacketHeader option" where
  [wire_defs]: "dec_header bs =
     (if length bs < PACKET_HEADER_SIZE then None
      else Some \<lparr>ver_type = bs ! 0, src_addr = rd16 (bs ! 1) (bs ! 2),
                 dst_addr = rd16 (bs ! 3) (bs ! 4), ttl_hops = bs ! 5,
                 seq_num = rd16 (bs ! 6) (bs ! 7)\<rparr>)"

section \<open>Payload structs\<close>

record DiscoveryPayload =
  disc_flags :: u8
  disc_hops_to_internet :: u8
  disc_rssi :: i8
  disc_inet_seq :: u16
  disc_inet_origin :: u16
  disc_queue_load :: u8

definition enc_discovery :: "DiscoveryPayload \<Rightarrow> bytes" where
  [wire_defs]: "enc_discovery d =
     [disc_flags d, disc_hops_to_internet d, disc_rssi d] @ le16 (disc_inet_seq d) @
     le16 (disc_inet_origin d) @ [disc_queue_load d]"

definition dec_discovery :: "bytes \<Rightarrow> DiscoveryPayload option" where
  [wire_defs]: "dec_discovery bs =
     (if length bs < 8 then None
      else Some \<lparr>disc_flags = bs ! 0, disc_hops_to_internet = bs ! 1, disc_rssi = bs ! 2,
                 disc_inet_seq = rd16 (bs ! 3) (bs ! 4), disc_inet_origin = rd16 (bs ! 5) (bs ! 6),
                 disc_queue_load = bs ! 7\<rparr>)"

record RouteErrorPayload =
  re_dead_addr :: u16
  re_inet_origin :: u16
  re_last_known_seq :: u16

definition enc_route_error :: "RouteErrorPayload \<Rightarrow> bytes" where
  [wire_defs]: "enc_route_error r =
     le16 (re_dead_addr r) @ le16 (re_inet_origin r) @ le16 (re_last_known_seq r)"

definition dec_route_error :: "bytes \<Rightarrow> RouteErrorPayload option" where
  [wire_defs]: "dec_route_error bs =
     (if length bs < 6 then None
      else Some \<lparr>re_dead_addr = rd16 (bs ! 0) (bs ! 1), re_inet_origin = rd16 (bs ! 2) (bs ! 3),
                 re_last_known_seq = rd16 (bs ! 4) (bs ! 5)\<rparr>)"

record TransferAckPayload =
  ta_session_id :: u16
  ta_exit_node_addr :: u16
  ta_rssi_to_gw :: i8
  ta_hops_to_gw :: u8
  ta_active_transfers :: u8

definition enc_transfer_ack :: "TransferAckPayload \<Rightarrow> bytes" where
  [wire_defs]: "enc_transfer_ack a =
     le16 (ta_session_id a) @ le16 (ta_exit_node_addr a) @
     [ta_rssi_to_gw a, ta_hops_to_gw a, ta_active_transfers a]"

definition dec_transfer_ack :: "bytes \<Rightarrow> TransferAckPayload option" where
  [wire_defs]: "dec_transfer_ack bs =
     (if length bs < 7 then None
      else Some \<lparr>ta_session_id = rd16 (bs ! 0) (bs ! 1), ta_exit_node_addr = rd16 (bs ! 2) (bs ! 3),
                 ta_rssi_to_gw = bs ! 4, ta_hops_to_gw = bs ! 5, ta_active_transfers = bs ! 6\<rparr>)"

text \<open>\<open>ExitOfflinePayload\<close> and \<open>TransferDonePayload\<close> have the same two fields.\<close>

record ExitOfflinePayload =
  eo_session_id :: u16
  eo_exit_node_addr :: u16

definition enc_exit_offline :: "ExitOfflinePayload \<Rightarrow> bytes" where
  [wire_defs]: "enc_exit_offline e = le16 (eo_session_id e) @ le16 (eo_exit_node_addr e)"

definition dec_exit_offline :: "bytes \<Rightarrow> ExitOfflinePayload option" where
  [wire_defs]: "dec_exit_offline bs =
     (if length bs < 4 then None
      else Some \<lparr>eo_session_id = rd16 (bs ! 0) (bs ! 1), eo_exit_node_addr = rd16 (bs ! 2) (bs ! 3)\<rparr>)"

record TransferDonePayload =
  td_session_id :: u16
  td_exit_node_addr :: u16

definition enc_transfer_done :: "TransferDonePayload \<Rightarrow> bytes" where
  [wire_defs]: "enc_transfer_done e = le16 (td_session_id e) @ le16 (td_exit_node_addr e)"

definition dec_transfer_done :: "bytes \<Rightarrow> TransferDonePayload option" where
  [wire_defs]: "dec_transfer_done bs =
     (if length bs < 4 then None
      else Some \<lparr>td_session_id = rd16 (bs ! 0) (bs ! 1), td_exit_node_addr = rd16 (bs ! 2) (bs ! 3)\<rparr>)"

text \<open>
  \<open>TransferAdPayload\<close>: 46 bytes, the last 33 (name length and name) optional on the wire.
  The receiver zero-initialises the struct and copies what arrived, \<^term>\<open>46\<close> bytes at most.
\<close>

record TransferAdPayload =
  ad_session_id :: u16
  ad_file_size :: u32
  ad_fragment_size_d8 :: u8
  ad_crc32 :: u32
  ad_fragment_count :: u16
  ad_filename_len :: u8
  ad_filename :: bytes

abbreviation (input) MIN_TRANSFER_AD_LEN :: nat where "MIN_TRANSFER_AD_LEN \<equiv> 46 - 32 - 1"

definition enc_transfer_ad :: "TransferAdPayload \<Rightarrow> bytes" where
  [wire_defs]: "enc_transfer_ad a =
     le16 (ad_session_id a) @ le32 (ad_file_size a) @ [ad_fragment_size_d8 a] @ le32 (ad_crc32 a) @
     le16 (ad_fragment_count a) @ [ad_filename_len a] @ ad_filename a"

definition dec_transfer_ad :: "bytes \<Rightarrow> TransferAdPayload option" where
  "dec_transfer_ad payload =
     (if length payload < MIN_TRANSFER_AD_LEN then None
      else let bs = take 46 payload @ replicate (46 - length payload) 0 in
        Some \<lparr>ad_session_id = rd16 (bs ! 0) (bs ! 1),
              ad_file_size = rd32 (bs ! 2) (bs ! 3) (bs ! 4) (bs ! 5),
              ad_fragment_size_d8 = bs ! 6,
              ad_crc32 = rd32 (bs ! 7) (bs ! 8) (bs ! 9) (bs ! 10),
              ad_fragment_count = rd16 (bs ! 11) (bs ! 12),
              ad_filename_len = bs ! 13,
              ad_filename = drop 14 bs\<rparr>)"

section \<open>Congestion flag\<close>

abbreviation (input) CONGESTION_FLAG :: u16 where "CONGESTION_FLAG \<equiv> 0x8000"

definition seq_with_congestion :: "u16 \<Rightarrow> bool \<Rightarrow> u16" where
  "seq_with_congestion seq congested = (if congested then seq OR CONGESTION_FLAG else seq)"

definition seq_has_congestion :: "u16 \<Rightarrow> bool" where
  "seq_has_congestion raw = (raw AND CONGESTION_FLAG \<noteq> 0)"

definition seq_strip_congestion :: "u16 \<Rightarrow> u16" where
  "seq_strip_congestion raw = raw AND NOT CONGESTION_FLAG"

section \<open>The structs satisfy the wire contract\<close>

lemma take_nth_list8:
  "8 \<le> length bs \<Longrightarrow>
   take 8 bs = [bs ! 0, bs ! 1, bs ! 2, bs ! 3, bs ! 4, bs ! 5, bs ! 6, bs ! 7]"
  by (rule nth_equalityI) (auto simp: nth_Cons' numeral_eq_Suc less_Suc_eq)

lemma take_nth_list7:
  "7 \<le> length bs \<Longrightarrow> take 7 bs = [bs ! 0, bs ! 1, bs ! 2, bs ! 3, bs ! 4, bs ! 5, bs ! 6]"
  by (rule nth_equalityI) (auto simp: nth_Cons' numeral_eq_Suc less_Suc_eq)

lemma take_nth_list6:
  "6 \<le> length bs \<Longrightarrow> take 6 bs = [bs ! 0, bs ! 1, bs ! 2, bs ! 3, bs ! 4, bs ! 5]"
  by (rule nth_equalityI) (auto simp: nth_Cons' numeral_eq_Suc less_Suc_eq)

lemma take_nth_list4:
  "4 \<le> length bs \<Longrightarrow> take 4 bs = [bs ! 0, bs ! 1, bs ! 2, bs ! 3]"
  by (rule nth_equalityI) (auto simp: nth_Cons' numeral_eq_Suc less_Suc_eq)

interpretation wheader: wire_struct enc_header dec_header 8
  by unfold_locales
    (auto simp: wire_defs wire_simps le16_def take_nth_list8 split: if_splits)

interpretation wdisc: wire_struct enc_discovery dec_discovery 8
  by unfold_locales
    (auto simp: wire_defs wire_simps le16_def take_nth_list8 split: if_splits)

interpretation wrerr: wire_struct enc_route_error dec_route_error 6
  by unfold_locales
    (auto simp: wire_defs wire_simps le16_def take_nth_list6 split: if_splits)

interpretation wtack: wire_struct enc_transfer_ack dec_transfer_ack 7
  by unfold_locales
    (auto simp: wire_defs wire_simps le16_def take_nth_list7 split: if_splits)

interpretation weoff: wire_struct enc_exit_offline dec_exit_offline 4
  by unfold_locales
    (auto simp: wire_defs wire_simps le16_def take_nth_list4 split: if_splits)

interpretation wtdone: wire_struct enc_transfer_done dec_transfer_done 4
  by unfold_locales
    (auto simp: wire_defs wire_simps le16_def take_nth_list4 split: if_splits)

section \<open>Bit fields of the header\<close>

lemma masks_u8: "0x3F = (mask 6 :: u8)" "0x0F = (mask 4 :: u8)" "3 = (mask 2 :: u8)"
  by (simp_all add: mask_eq_exp_minus_1)

lemma ver_type_fields:
  "drop_bit 6 (push_bit 6 v OR (c AND 0x3F)) = v AND (3 :: u8)"
  "(push_bit 6 v OR (c AND 0x3F)) AND 0x3F = c AND (0x3F :: u8)"
  unfolding masks_u8 by (rule bit_word_eqI; auto simp: bit_simps)+

lemma ttl_hops_fields:
  "drop_bit 4 (push_bit 4 t OR (c AND 0x0F)) = t AND (0x0F :: u8)"
  "(push_bit 4 t OR (c AND 0x0F)) AND 0x0F = c AND (0x0F :: u8)"
  unfolding masks_u8 by (rule bit_word_eqI; auto simp: bit_simps)+

lemma hdr_set_ver_type:
  "hdr_version (set_ver_type v t h) = v AND 3"
  "hdr_type (set_ver_type v t h) = pt_of (pt_code t AND 0x3F)"
proof -
  have e: "ver_type (set_ver_type v t h) = push_bit 6 v OR (pt_code t AND 0x3F)"
    by (simp add: set_ver_type_def)
  show "hdr_version (set_ver_type v t h) = v AND 3"
    unfolding hdr_version_def e ver_type_fields ..
  show "hdr_type (set_ver_type v t h) = pt_of (pt_code t AND 0x3F)"
    unfolding hdr_type_def e ver_type_fields ..
qed

lemma hdr_set_ttl_hops:
  "hdr_ttl (set_ttl_hops t c h) = t AND 0x0F"
  "hdr_hop_count (set_ttl_hops t c h) = c AND 0x0F"
proof -
  have e: "ttl_hops (set_ttl_hops t c h) = push_bit 4 t OR (c AND 0x0F)"
    by (simp add: set_ttl_hops_def)
  show "hdr_ttl (set_ttl_hops t c h) = t AND 0x0F"
    unfolding hdr_ttl_def e ttl_hops_fields ..
  show "hdr_hop_count (set_ttl_hops t c h) = c AND 0x0F"
    unfolding hdr_hop_count_def e ttl_hops_fields ..
qed

lemma hdr_set_other [simp]:
  "hdr_ttl (set_ver_type v t h) = hdr_ttl h"
  "hdr_hop_count (set_ver_type v t h) = hdr_hop_count h"
  "hdr_version (set_ttl_hops a b h) = hdr_version h"
  "hdr_type (set_ttl_hops a b h) = hdr_type h"
  "src_addr (set_ttl_hops a b h) = src_addr h"
  "dst_addr (set_ttl_hops a b h) = dst_addr h"
  "seq_num (set_ttl_hops a b h) = seq_num h"
  "src_addr (set_ver_type v t h) = src_addr h"
  "dst_addr (set_ver_type v t h) = dst_addr h"
  "seq_num (set_ver_type v t h) = seq_num h"
  by (simp_all add: hdr_ttl_def hdr_hop_count_def hdr_version_def hdr_type_def set_ver_type_def
      set_ttl_hops_def)

lemma hdr_ttl_nat: "unat (hdr_ttl h) = unat (ttl_hops h) div 16"
  by (simp add: hdr_ttl_def drop_bit_eq_div unat_div)

lemma hdr_hop_count_nat: "unat (hdr_hop_count h) = unat (ttl_hops h) mod 16"
proof -
  have "hdr_hop_count h = take_bit 4 (ttl_hops h)"
    by (simp add: hdr_hop_count_def masks_u8 flip: take_bit_eq_mask)
  then show ?thesis by (simp add: take_bit_eq_mod unat_mod)
qed

section \<open>Properties of the packet layer\<close>

text \<open>
  A header built by the sender and copied to the wire is read back unchanged by every
  receiver, whatever payload follows it, and its bit fields hold the version, the type, the
  TTL and the hop count that were set, for the protocol's 2-bit versions, its named types
  and 4-bit counters. Frames below eight bytes are never decoded.
\<close>

theorem header_roundtrip:
  assumes "v < 4" and "t \<in> set named_types" and "ttl < 16" and "hops < 16"
  shows "\<exists>h'. dec_header (enc_header (set_ttl_hops ttl hops (set_ver_type v t h)) @ payload) = Some h'
    \<and> hdr_version h' = v \<and> hdr_type h' = t \<and> hdr_ttl h' = ttl \<and> hdr_hop_count h' = hops
    \<and> src_addr h' = src_addr h \<and> dst_addr h' = dst_addr h \<and> seq_num h' = seq_num h
    \<and> (\<forall>bs. dec_header bs = None \<longleftrightarrow> length bs < PACKET_HEADER_SIZE)"
proof -
  have "v AND 3 = v" "ttl AND 0x0F = ttl" "hops AND 0x0F = hops"
    using assms less_mask_eq [of v 2] less_mask_eq [of ttl 4] less_mask_eq [of hops 4]
    by (simp_all add: masks_u8)
  moreover have "dec_header bs = None \<longleftrightarrow> length bs < PACKET_HEADER_SIZE" for bs
    by (simp add: dec_header_def)
  ultimately show ?thesis
    using assms(2)
    by (simp add: wheader.dec_enc_append hdr_set_ver_type hdr_set_ttl_hops named_code_six_bits
        pt_of_pt_code)
qed

theorem header_roundtrip_witness:
  "\<exists>h'. dec_header (enc_header (set_ttl_hops 8 0 (set_ver_type 1 TRANSFER_AD
      \<lparr>ver_type = 0, src_addr = 0xA1B2, dst_addr = EXIT_ANY_ADDR, ttl_hops = 0, seq_num = 7\<rparr>))
      @ [1, 2, 3]) = Some h' \<and> hdr_type h' = TRANSFER_AD \<and> hdr_ttl h' = 8 \<and> src_addr h' = 0xA1B2"
  using header_roundtrip [of 1 TRANSFER_AD 8 0
      "\<lparr>ver_type = 0, src_addr = 0xA1B2, dst_addr = EXIT_ANY_ADDR, ttl_hops = 0, seq_num = 7\<rparr>"
      "[1, 2, 3]"]
  by (auto simp: named_types_def)

lemma enc_transfer_ad_length: "length (ad_filename a) = 32 \<Longrightarrow> length (enc_transfer_ad a) = 46"
  by (simp add: enc_transfer_ad_def)

lemma dec_transfer_ad_prefix:
  assumes "length (ad_filename a) = 32" and "13 \<le> n" and "n \<le> 46"
  shows "dec_transfer_ad (take n (enc_transfer_ad a)) =
    Some (a\<lparr>ad_filename_len := (if n = 13 then 0 else ad_filename_len a),
            ad_filename := take (n - 14) (ad_filename a) @ replicate (46 - max 14 n) 0\<rparr>)"
proof -
  define fixd where "fixd = le16 (ad_session_id a) @ le32 (ad_file_size a) @ [ad_fragment_size_d8 a] @
     le32 (ad_crc32 a) @ le16 (ad_fragment_count a)"
  have len: "length fixd = 13" by (simp add: fixd_def)
  have enc: "enc_transfer_ad a = fixd @ ad_filename_len a # ad_filename a"
    by (simp add: enc_transfer_ad_def fixd_def)
  have n14: "n \<noteq> 13 \<Longrightarrow> n - 13 = Suc (n - 14)" using assms(2) by simp
  have tk: "take n (enc_transfer_ad a) =
    (if n = 13 then fixd else fixd @ ad_filename_len a # take (n - 14) (ad_filename a))"
    using assms(2) len n14 by (simp add: enc)
  have lentk: "length (take n (enc_transfer_ad a)) = n"
    using assms by (simp add: enc_transfer_ad_length)
  show ?thesis
  proof (cases "n = 13")
    case True
    then have "replicate (46 - n) (0::u8) = 0 # replicate 32 0" by (simp add: numeral_eq_Suc)
    with True lentk tk show ?thesis
      by (simp add: dec_transfer_ad_def Let_def) (simp add: fixd_def le16_def le32_def wire_simps)
  next
    case False
    with lentk tk assms(2,3) show ?thesis
      by (simp add: dec_transfer_ad_def Let_def) (simp add: fixd_def le16_def le32_def wire_simps)
  qed
qed

text \<open>
  The transfer advertisement survives the wire: a full 46-byte payload decodes to the
  advertised struct, and a payload cut anywhere after the 13 mandatory bytes decodes to the
  same mandatory fields with the missing name bytes read as zero.
\<close>

theorem transfer_ad_roundtrip:
  assumes "length (ad_filename a) = 32" and "MIN_TRANSFER_AD_LEN \<le> n" and "n \<le> 46"
  shows "dec_transfer_ad (enc_transfer_ad a) = Some a \<and>
    dec_transfer_ad (take n (enc_transfer_ad a)) =
      Some (a\<lparr>ad_filename_len := (if n = 13 then 0 else ad_filename_len a),
              ad_filename := take (n - 14) (ad_filename a) @ replicate (46 - max 14 n) 0\<rparr>)"
  using dec_transfer_ad_prefix [of a n] dec_transfer_ad_prefix [of a 46] assms
  by (simp add: enc_transfer_ad_length)

theorem transfer_ad_roundtrip_witness:
  "dec_transfer_ad (take 16 (enc_transfer_ad
      \<lparr>ad_session_id = 0x1234, ad_file_size = 5000, ad_fragment_size_d8 = 182, ad_crc32 = 77,
       ad_fragment_count = 4, ad_filename_len = 2, ad_filename = 0x61 # 0x62 # replicate 30 0\<rparr>)) =
    Some \<lparr>ad_session_id = 0x1234, ad_file_size = 5000, ad_fragment_size_d8 = 182, ad_crc32 = 77,
       ad_fragment_count = 4, ad_filename_len = 2, ad_filename = [0x61, 0x62] @ replicate 30 0\<rparr>"
  using transfer_ad_roundtrip [of "\<lparr>ad_session_id = 0x1234, ad_file_size = 5000,
       ad_fragment_size_d8 = 182, ad_crc32 = 77, ad_fragment_count = 4, ad_filename_len = 2,
       ad_filename = 0x61 # 0x62 # replicate 30 0\<rparr>" 16]
  by simp

lemma bit_congestion_flag: "bit CONGESTION_FLAG n \<longleftrightarrow> n = 15" "bit (0x8000 :: int) n \<longleftrightarrow> n = 15"
  using bit_exp_iff [where 'a = u16, of 15 n] bit_exp_iff [where 'a = int, of 15 n]
  by (auto simp: possible_bit_def)

lemma seq_strip_take_bit: "seq_strip_congestion raw = take_bit 15 raw"
proof -
  have "NOT CONGESTION_FLAG = (mask 15 :: u16)" by (simp add: mask_eq_exp_minus_1)
  then show ?thesis by (simp only: seq_strip_congestion_def take_bit_eq_mask)
qed

lemma seq_strip_with: "seq_strip_congestion (seq_with_congestion seq c) = take_bit 15 seq"
  unfolding seq_strip_take_bit seq_with_congestion_def
  by (rule bit_word_eqI) (auto simp: bit_simps bit_congestion_flag)

lemma take_bit_15_iff: "take_bit 15 (seq :: u16) = seq \<longleftrightarrow> seq < 0x8000"
  using mask_eq_iff_w2p [of 15 seq] by (simp add: take_bit_eq_mask word_size)

lemma seq_has_with: "seq < 0x8000 \<Longrightarrow> seq_has_congestion (seq_with_congestion seq c) = c"
proof -
  assume "seq < 0x8000"
  then have "take_bit 15 seq = seq" by (simp add: take_bit_15_iff)
  then have "\<not> bit seq 15" by (metis bit_take_bit_iff less_irrefl)
  moreover have "bit (seq_with_congestion seq c AND CONGESTION_FLAG) 15 \<longleftrightarrow> bit seq 15 \<or> c"
    by (simp add: seq_with_congestion_def bit_simps bit_congestion_flag)
  moreover have "seq_with_congestion seq False AND CONGESTION_FLAG = 0" if "\<not> bit seq 15"
    by (rule bit_word_eqI) (use that in \<open>auto simp: seq_with_congestion_def bit_simps bit_congestion_flag\<close>)
  ultimately show ?thesis by (cases c) (auto simp: seq_has_congestion_def)
qed

text \<open>
  The congestion flag shares bit 15 with the sequence number. The piggybacked flag and
  the sequence number are both recovered by the receiver exactly for sequence numbers below
  \<open>0x8000\<close>: at and above it bit 15 of the sequence number is lost.
\<close>

theorem congestion_flag_exact_iff:
  "(\<forall>c. seq_strip_congestion (seq_with_congestion seq c) = seq \<and>
        seq_has_congestion (seq_with_congestion seq c) = c) \<longleftrightarrow> seq < 0x8000"
  using seq_has_with by (auto simp: seq_strip_with take_bit_15_iff)

end
