(* ===== verification/Fec_Codec.thy ===== *)
theory Fec_Codec
  imports Packet
begin

text \<open>
  Model of \<^verbatim>\<open>components/protocol/include/fec_codec.hpp\<close>: the XOR parity encoder of the
  sender and the two-group erasure decoder of the receiver. Heap allocation is a boolean
  argument (did \<open>heap_caps_calloc\<close> succeed). Byte arrays that the code zeroes before use are
  lists; an encoder write past the parity buffer is the value \<open>None\<close>.

  The correctness of the code is stated against authentic packets: a function from sequence
  numbers to the packet contents the sender produced, whose parity packets are the padded
  XOR of their group.
\<close>

unbundle bit_operations_syntax

section \<open>Encoder\<close>

record FecEncoder =
  fe_parity :: "bytes option"
  fe_parity_len :: nat
  fe_count :: u8

definition FecEncoder_new :: FecEncoder where
  "FecEncoder_new = \<lparr>fe_parity = None, fe_parity_len = 0, fe_count = 0\<rparr>"

definition enc_ensure_allocated :: "bool \<Rightarrow> FecEncoder \<Rightarrow> FecEncoder" where
  "enc_ensure_allocated ok e =
     (case fe_parity e of
        Some _ \<Rightarrow> e
      | None \<Rightarrow> e\<lparr>fe_parity := (if ok then Some (replicate MAX_MTU 0) else None)\<rparr>)"

definition enc_reset :: "bool \<Rightarrow> FecEncoder \<Rightarrow> FecEncoder" where
  "enc_reset ok e =
     (let e1 = enc_ensure_allocated ok (e\<lparr>fe_count := 0, fe_parity_len := 0\<rparr>) in
      case fe_parity e1 of
        None \<Rightarrow> e1
      | Some _ \<Rightarrow> e1\<lparr>fe_parity := Some (replicate MAX_MTU 0)\<rparr>)"

text \<open>The loop \<open>for (i = 0; i < len; i++) buf[i] ^= src[i]\<close>, for \<open>len\<close> within the buffer.\<close>

fun xor_into :: "bytes \<Rightarrow> bytes \<Rightarrow> bytes" where
  "xor_into (b # bs) (s # ss) = (b XOR s) # xor_into bs ss"
| "xor_into bs ss = bs"

definition enc_ingest :: "bool \<Rightarrow> bytes \<Rightarrow> FecEncoder \<Rightarrow> FecEncoder option" where
  "enc_ingest ok frag e =
     (let e1 = enc_ensure_allocated ok e in
      case fe_parity e1 of
        None \<Rightarrow> Some e1
      | Some p \<Rightarrow>
          if length p < length frag then None
          else Some (e1\<lparr>fe_parity_len := max (fe_parity_len e1) (length frag),
                        fe_parity := Some (xor_into p frag),
                        fe_count := fe_count e1 + 1\<rparr>))"

definition group_complete :: "FecEncoder \<Rightarrow> bool" where
  "group_complete e \<longleftrightarrow> of_nat FEC_GROUP_SIZE \<le> fe_count e"

text \<open>The packet that the sender hands out: \<open>parity_data()\<close> cut at \<open>parity_len()\<close>.\<close>

definition enc_parity_packet :: "FecEncoder \<Rightarrow> bytes" where
  "enc_parity_packet e = (case fe_parity e of None \<Rightarrow> [] | Some p \<Rightarrow> take (fe_parity_len e) p)"

fun enc_ingest_all :: "bool \<Rightarrow> bytes list \<Rightarrow> FecEncoder \<Rightarrow> FecEncoder option" where
  "enc_ingest_all ok [] e = Some e"
| "enc_ingest_all ok (f # fs) e =
     (case enc_ingest ok f e of None \<Rightarrow> None | Some e' \<Rightarrow> enc_ingest_all ok fs e')"

section \<open>Decoder\<close>

record Slot =
  sl_data :: bytes
  sl_len :: nat
  sl_received :: bool
  sl_is_parity :: bool

definition empty_slot :: Slot where
  "empty_slot = \<lparr>sl_data = [], sl_len = 0, sl_received = False, sl_is_parity = False\<rparr>"

record GroupState =
  slots :: "Slot list"
  slot_count :: u8
  current_group :: u16
  grp_active :: bool

definition group_reset :: GroupState where
  "group_reset = \<lparr>slots = replicate (FEC_GROUP_SIZE + 1) empty_slot, slot_count = 0,
     current_group = 0, grp_active = False\<rparr>"

record HeapState =
  groups :: "GroupState list"
  recovered_buf :: bytes

record FecDecoder =
  fd_heap_mem :: "HeapState option"
  fd_last_used :: u8
  fd_missing_idx :: int
  fd_recovered :: bool
  fd_recovered_len :: nat
  fd_recovered_group :: u16

definition FecDecoder_new :: FecDecoder where
  "FecDecoder_new = \<lparr>fd_heap_mem = None, fd_last_used = 0, fd_missing_idx = -1, fd_recovered = False,
     fd_recovered_len = 0, fd_recovered_group = 0\<rparr>"

definition dec_ensure_allocated :: "bool \<Rightarrow> FecDecoder \<Rightarrow> FecDecoder" where
  "dec_ensure_allocated ok d =
     (case fd_heap_mem d of
        Some _ \<Rightarrow> d
      | None \<Rightarrow> d\<lparr>fd_heap_mem := (if ok then Some \<lparr>groups = replicate 2 group_reset,
                                    recovered_buf = replicate MAX_MTU 0\<rparr> else None)\<rparr>)"

definition dec_reset :: "bool \<Rightarrow> FecDecoder \<Rightarrow> FecDecoder" where
  "dec_reset ok d =
     (let d1 = dec_ensure_allocated ok d in
      case fd_heap_mem d1 of
        None \<Rightarrow> d1
      | Some h \<Rightarrow> d1\<lparr>fd_heap_mem := Some (h\<lparr>groups := map (\<lambda>_. group_reset) (groups h)\<rparr>),
                     fd_missing_idx := -1, fd_recovered := False, fd_recovered_len := 0,
                     fd_last_used := 0\<rparr>)"

definition has_parity_check :: "GroupState \<Rightarrow> bool" where
  "has_parity_check g \<longleftrightarrow>
     list_ex (\<lambda>i. sl_received (slots g ! i) \<and> sl_is_parity (slots g ! i)) [0..<FEC_GROUP_SIZE + 1]"

text \<open>
  The scan for the missing slot: \<open>Inl ()\<close> is the early \<open>return false\<close> at a second gap,
  \<open>Inr m\<close> the value of \<open>missing\<close> after the loop.
\<close>

fun find_missing :: "Slot list \<Rightarrow> nat list \<Rightarrow> int \<Rightarrow> unit + int" where
  "find_missing sl [] missing = Inr missing"
| "find_missing sl (i # is) missing =
     (if \<not> sl_received (sl ! i)
      then (if 0 \<le> missing then Inl () else find_missing sl is (int i))
      else find_missing sl is missing)"

fun xor_slots :: "Slot list \<Rightarrow> int \<Rightarrow> nat list \<Rightarrow> bytes \<times> nat \<Rightarrow> bytes \<times> nat" where
  "xor_slots sl missing [] acc = acc"
| "xor_slots sl missing (i # is) (buf, len) =
     (if int i = missing then xor_slots sl missing is (buf, len)
      else xor_slots sl missing is
             (xor_into buf (take (sl_len (sl ! i)) (sl_data (sl ! i))),
              max len (sl_len (sl ! i))))"

definition try_recover :: "GroupState \<Rightarrow> FecDecoder \<Rightarrow> bool \<times> FecDecoder" where
  "try_recover g d =
     (case fd_heap_mem d of
        None \<Rightarrow> (False, d)
      | Some h \<Rightarrow>
         (case find_missing (slots g) [0..<FEC_GROUP_SIZE + 1] (-1) of
            Inl _ \<Rightarrow> (False, d)
          | Inr missing \<Rightarrow>
              if missing < 0 then (False, d)
              else if missing = int FEC_GROUP_SIZE \<and> \<not> has_parity_check g then (False, d)
              else
                let (buf, len) = xor_slots (slots g) missing [0..<FEC_GROUP_SIZE + 1]
                                   (replicate MAX_MTU 0, 0) in
                (True, d\<lparr>fd_missing_idx := missing, fd_recovered_group := current_group g,
                         fd_heap_mem := Some (h\<lparr>recovered_buf := buf\<rparr>),
                         fd_recovered_len := len, fd_recovered := True\<rparr>)))"

text \<open>Slot selection: the active buffer of the group, else the one not used last, reset.\<close>

definition select_group :: "u16 \<Rightarrow> u8 \<Rightarrow> GroupState list \<Rightarrow> nat \<times> GroupState list" where
  "select_group grp lastu gs =
     (case find_idx (\<lambda>g. grp_active g \<and> current_group g = grp) gs of
        Some gi \<Rightarrow> (gi, gs)
      | None \<Rightarrow>
          let gi = (if lastu = 0 then 1 else 0) in
          (gi, gs[gi := group_reset\<lparr>current_group := grp, grp_active := True\<rparr>]))"

definition fill_slot :: "nat \<Rightarrow> bytes \<Rightarrow> bool \<Rightarrow> GroupState \<Rightarrow> GroupState" where
  "fill_slot idx data is_parity g =
     (if \<not> sl_received (slots g ! idx)
      then g\<lparr>slots := (slots g)[idx := \<lparr>sl_data = data, sl_len = length data,
                                        sl_received = True, sl_is_parity = is_parity\<rparr>],
             slot_count := slot_count g + 1\<rparr>
      else g)"

definition dec_ingest :: "u16 \<Rightarrow> bytes \<Rightarrow> bool \<Rightarrow> FecDecoder \<Rightarrow> bool \<times> FecDecoder" where
  "dec_ingest seq data is_parity d =
     (case fd_heap_mem d of
        None \<Rightarrow> (False, d)
      | Some h \<Rightarrow>
          if MAX_MTU < length data then (False, d)
          else
            let grp = seq div of_nat (FEC_GROUP_SIZE + 1);
                idx = unat (seq mod of_nat (FEC_GROUP_SIZE + 1)) in
            if FEC_GROUP_SIZE < idx then (False, d)
            else
              let (gi, gs) = select_group grp (fd_last_used d) (groups h);
                  g = fill_slot idx data is_parity (gs ! gi);
                  d1 = d\<lparr>fd_last_used := of_nat gi,
                         fd_heap_mem := Some (h\<lparr>groups := gs[gi := g]\<rparr>)\<rparr> in
              if slot_count g = of_nat FEC_GROUP_SIZE then try_recover g d1 else (False, d1))"

definition recovered_seq :: "FecDecoder \<Rightarrow> u16" where
  "recovered_seq d = fd_recovered_group d * of_nat (FEC_GROUP_SIZE + 1) + of_int (fd_missing_idx d)"

text \<open>\<open>recovered_data()\<close> cut at \<open>recovered_len()\<close>.\<close>

definition recovered_packet :: "FecDecoder \<Rightarrow> bytes" where
  "recovered_packet d =
     (case fd_heap_mem d of None \<Rightarrow> [] | Some h \<Rightarrow> take (fd_recovered_len d) (recovered_buf h))"

section \<open>XOR sums of padded packets\<close>

text \<open>\<open>pad p j\<close> is byte \<open>j\<close> of packet \<open>p\<close> read as if the packet were followed by zeros.\<close>

definition pad :: "bytes \<Rightarrow> nat \<Rightarrow> u8" where
  "pad p j = (if j < length p then p ! j else 0)"

definition xsum :: "u8 list \<Rightarrow> u8" where
  "xsum xs = foldr (XOR) xs 0"

lemma xsum_simps [simp]: "xsum [] = 0" "xsum (x # xs) = x XOR xsum xs"
  by (simp_all add: xsum_def)

lemma xsum_append [simp]: "xsum (xs @ ys) = xsum xs XOR xsum ys"
  by (induction xs) (simp_all add: xor.assoc)

lemma xsum_recover_one:
  assumes "k < length xs"
  shows "xsum (take k xs @ drop (Suc k) xs) XOR xsum xs = xs ! k"
proof -
  let ?a = "xsum (take k xs)" and ?b = "xsum (drop (Suc k) xs)"
  have "xsum xs = ?a XOR (xs ! k XOR ?b)"
    using arg_cong [OF id_take_nth_drop [OF assms], of xsum] by simp
  then have "xsum (take k xs @ drop (Suc k) xs) XOR xsum xs = (?a XOR ?b) XOR (?a XOR (xs ! k XOR ?b))"
    by simp
  also have "\<dots> = xs ! k" by (simp add: ac_simps)
  finally show ?thesis .
qed

lemma length_xor_into [simp]: "length (xor_into b s) = length b"
  by (induction b s rule: xor_into.induct) auto

lemma pad_simps [simp]: "pad [] j = 0" "pad (x # xs) (Suc j) = pad xs j" "pad (x # xs) 0 = x"
  by (simp_all add: pad_def)

lemma pad_xor_into: "length s \<le> length b \<Longrightarrow> pad (xor_into b s) j = pad b j XOR pad s j"
proof (induction b s arbitrary: j rule: xor_into.induct)
  case (1 b bs s ss)
  then show ?case by (cases j) auto
qed auto

lemma pad_replicate_0 [simp]: "pad (replicate n 0) j = 0"
  by (simp add: pad_def)

lemma pad_take: "pad (take n p) j = (if j < n then pad p j else 0)"
  by (simp add: pad_def)

lemma pad_beyond: "length p \<le> j \<Longrightarrow> pad p j = 0"
  by (simp add: pad_def)

lemma pad_append_zeros [simp]: "pad (p @ replicate n 0) j = pad p j"
  by (simp add: pad_def nth_append)

lemma list_eq_by_pad: "length p = length q \<Longrightarrow> (\<And>j. pad p j = pad q j) \<Longrightarrow> p = q"
  by (rule nth_equalityI) (auto simp: pad_def, metis)

section \<open>Reference parity and the encoder\<close>

definition max_len :: "bytes list \<Rightarrow> nat" where
  "max_len fs = foldr max (map length fs) 0"

lemma max_len_simps [simp]: "max_len [] = 0" "max_len (f # fs) = max (length f) (max_len fs)"
  by (simp_all add: max_len_def)

lemma max_len_ge: "f \<in> set fs \<Longrightarrow> length f \<le> max_len fs"
  by (induction fs) auto

lemma max_len_le: "(\<And>f. f \<in> set fs \<Longrightarrow> length f \<le> n) \<Longrightarrow> max_len fs \<le> n"
  by (induction fs) auto

definition fec_parity_of :: "bytes list \<Rightarrow> bytes" where
  "fec_parity_of fs = map (\<lambda>j. xsum (map (\<lambda>f. pad f j) fs)) [0..<max_len fs]"

lemma length_fec_parity_of [simp]: "length (fec_parity_of fs) = max_len fs"
  by (simp add: fec_parity_of_def)

lemma xsum_zero: "(\<And>x. x \<in> set xs \<Longrightarrow> x = 0) \<Longrightarrow> xsum xs = 0"
  by (induction xs) auto

lemma pad_fec_parity_of: "pad (fec_parity_of fs) j = xsum (map (\<lambda>f. pad f j) fs)"
proof (cases "j < max_len fs")
  case True
  then show ?thesis by (simp add: pad_def [of "fec_parity_of fs"]) (simp add: fec_parity_of_def)
next
  case False
  then have "pad f j = 0" if "f \<in> set fs" for f
    using max_len_ge [OF that] by (simp add: pad_def)
  then have "xsum (map (\<lambda>f. pad f j) fs) = 0" by (intro xsum_zero) auto
  with False show ?thesis by (simp add: pad_def [of "fec_parity_of fs"])
qed

lemma enc_ingest_Some:
  assumes "fe_parity e = Some p" and "length f \<le> length p"
  shows "enc_ingest ok f e = Some (e\<lparr>fe_parity_len := max (fe_parity_len e) (length f),
    fe_parity := Some (xor_into p f), fe_count := fe_count e + 1\<rparr>)"
  using assms by (simp add: enc_ingest_def enc_ensure_allocated_def)

lemma enc_ingest_all_spec:
  assumes "fe_parity e = Some p" and "\<And>f. f \<in> set fs \<Longrightarrow> length f \<le> length p"
  shows "\<exists>e' p'. enc_ingest_all ok fs e = Some e' \<and> fe_parity e' = Some p' \<and> length p' = length p \<and>
    fe_parity_len e' = max (fe_parity_len e) (max_len fs) \<and>
    fe_count e' = fe_count e + of_nat (length fs) \<and>
    (\<forall>j. pad p' j = pad p j XOR xsum (map (\<lambda>f. pad f j) fs))"
  using assms
proof (induction fs arbitrary: e p)
  case Nil
  then show ?case by simp
next
  case (Cons f fs)
  let ?e1 = "e\<lparr>fe_parity_len := max (fe_parity_len e) (length f),
    fe_parity := Some (xor_into p f), fe_count := fe_count e + 1\<rparr>"
  have step: "enc_ingest ok f e = Some ?e1"
    using Cons.prems by (intro enc_ingest_Some) auto
  obtain e' p' where "enc_ingest_all ok fs ?e1 = Some e'" "fe_parity e' = Some p'"
    "length p' = length (xor_into p f)" "fe_parity_len e' = max (fe_parity_len ?e1) (max_len fs)"
    "fe_count e' = fe_count ?e1 + of_nat (length fs)"
    "\<forall>j. pad p' j = pad (xor_into p f) j XOR xsum (map (\<lambda>f. pad f j) fs)"
    using Cons.IH [of ?e1 "xor_into p f"] Cons.prems by auto
  with step Cons.prems(2) [of f] show ?case by (auto simp: pad_xor_into xor.assoc)
qed

text \<open>
  C15. The parity packet the sender transmits after resetting the encoder and ingesting the
  data fragments of a group is the padded XOR of these fragments, as long as the longest one;
  no ingest writes outside the parity buffer, and the group is complete from the seventh
  fragment on.
\<close>

theorem encoder_computes_parity:
  assumes "\<forall>f \<in> set fs. length f \<le> MAX_MTU" and "length fs < 256"
  shows "\<exists>e'. enc_ingest_all ok fs (enc_reset True e) = Some e' \<and>
    enc_parity_packet e' = fec_parity_of fs \<and>
    (group_complete e' \<longleftrightarrow> FEC_GROUP_SIZE \<le> length fs)"
proof -
  let ?e0 = "enc_reset True e"
  have e0: "fe_parity ?e0 = Some (replicate MAX_MTU 0)" "fe_parity_len ?e0 = 0" "fe_count ?e0 = 0"
    by (auto simp: enc_reset_def enc_ensure_allocated_def Let_def split: option.splits)
  obtain e' p' where e': "enc_ingest_all ok fs ?e0 = Some e'" "fe_parity e' = Some p'"
    "length p' = MAX_MTU" "fe_parity_len e' = max_len fs" "fe_count e' = of_nat (length fs)"
    "\<forall>j. pad p' j = xsum (map (\<lambda>f. pad f j) fs)"
    using enc_ingest_all_spec [OF e0(1), of fs ok] assms(1) e0(2,3) by auto
  have "max_len fs \<le> MAX_MTU" using assms(1) by (blast intro: max_len_le)
  then have "enc_parity_packet e' = fec_parity_of fs"
    using e' by (intro list_eq_by_pad)
      (auto simp: enc_parity_packet_def pad_take pad_fec_parity_of pad_beyond
        simp flip: pad_fec_parity_of)
  moreover have "group_complete e' \<longleftrightarrow> FEC_GROUP_SIZE \<le> length fs"
    using e'(5) assms(2) by (simp add: group_complete_def word_le_nat_alt unat_of_nat)
  ultimately show ?thesis using e'(1) by blast
qed

theorem encoder_computes_parity_witness:
  "\<exists>e'. enc_ingest_all True [[1, 2], [3, 4, 5]] (enc_reset True FecEncoder_new) = Some e' \<and>
    enc_parity_packet e' = [2, 6, 5]"
  using encoder_computes_parity [of "[[1, 2], [3, 4, 5]]" True FecEncoder_new]
  by (auto simp: fec_parity_of_def pad_def upt_rec)

section \<open>The decoder on authentic packets\<close>

text \<open>
  \<open>pk s\<close> is the packet the sender produced for sequence number \<open>s\<close>. Group \<open>g\<close> is coded when
  its eighth packet is the parity of the seven before it.
\<close>

definition group_coded :: "(nat \<Rightarrow> bytes) \<Rightarrow> nat \<Rightarrow> bool" where
  "group_coded pk g \<longleftrightarrow> pk (8 * g + 7) = fec_parity_of (map (\<lambda>i. pk (8 * g + i)) [0..<7])"

definition slot_ok :: "(nat \<Rightarrow> bytes) \<Rightarrow> nat \<Rightarrow> nat \<Rightarrow> Slot \<Rightarrow> bool" where
  "slot_ok pk g i s \<longleftrightarrow> (sl_received s \<longrightarrow>
     sl_data s = pk (8 * g + i) \<and> sl_len s = length (sl_data s) \<and> sl_len s \<le> MAX_MTU \<and>
     (sl_is_parity s \<longleftrightarrow> i = FEC_GROUP_SIZE))"

definition group_ok :: "(nat \<Rightarrow> bytes) \<Rightarrow> GroupState \<Rightarrow> bool" where
  "group_ok pk g \<longleftrightarrow> length (slots g) = 8 \<and> unat (current_group g) < 8192 \<and>
     unat (slot_count g) = length (filter sl_received (slots g)) \<and>
     (\<forall>i < 8. slot_ok pk (unat (current_group g)) i (slots g ! i))"

definition dec_ok :: "(nat \<Rightarrow> bytes) \<Rightarrow> FecDecoder \<Rightarrow> bool" where
  "dec_ok pk d \<longleftrightarrow> (case fd_heap_mem d of None \<Rightarrow> True
     | Some h \<Rightarrow> length (groups h) = 2 \<and> (\<forall>g \<in> set (groups h). group_ok pk g))"

lemma empty_slot_simps [simp]: "\<not> sl_received empty_slot" "slot_ok pk g i empty_slot"
  by (simp_all add: empty_slot_def slot_ok_def)

lemma group_ok_reset: "unat grp < 8192 \<Longrightarrow> group_ok pk (group_reset\<lparr>current_group := grp, grp_active := a\<rparr>)"
  by (simp add: group_ok_def group_reset_def)

lemma group_ok_reset0: "group_ok pk group_reset"
  using group_ok_reset [of 0 pk False] by (simp add: group_reset_def)

lemma dec_ok_reset: "dec_ok pk d \<Longrightarrow> dec_ok pk (dec_reset ok d)"
  by (auto simp: dec_ok_def dec_reset_def dec_ensure_allocated_def Let_def group_ok_reset0
      split: option.splits)

lemma dec_ok_new: "dec_ok pk FecDecoder_new"
  by (simp add: dec_ok_def FecDecoder_new_def)

lemma length_filter_update:
  "i < length xs \<Longrightarrow> \<not> P (xs ! i) \<Longrightarrow> P y \<Longrightarrow>
   length (filter P (xs[i := y])) = Suc (length (filter P xs))"
  by (induction xs arbitrary: i) (auto split: nat.splits)

lemma fill_slot_ok:
  assumes "group_ok pk g" and "idx < 8" and "data = pk (8 * unat (current_group g) + idx)"
    and "length data \<le> MAX_MTU" and "par \<longleftrightarrow> idx = FEC_GROUP_SIZE"
  shows "group_ok pk (fill_slot idx data par g)"
proof (cases "sl_received (slots g ! idx)")
  case True
  with assms show ?thesis by (simp add: fill_slot_def)
next
  case False
  have "length (filter sl_received (slots g)) < 8"
    using False assms(1,2) length_filter_less [of "slots g ! idx" "slots g" sl_received]
    by (simp add: group_ok_def)
  then have "unat (slot_count g + 1) = Suc (unat (slot_count g))"
    using assms(1) by (simp add: group_ok_def unat_word_ariths)
  with False assms show ?thesis
    by (auto simp: fill_slot_def group_ok_def length_filter_update slot_ok_def nth_list_update)
qed

lemma fill_slot_group [simp]: "current_group (fill_slot idx data par g) = current_group g"
  by (simp add: fill_slot_def)

lemma select_group_ok:
  assumes "select_group grp lastu gs = (gi, gs')" and "length gs = 2"
    and "\<forall>g \<in> set gs. group_ok pk g" and "unat grp < 8192"
  shows "gi < 2 \<and> length gs' = 2 \<and> (\<forall>g \<in> set gs'. group_ok pk g) \<and> current_group (gs' ! gi) = grp"
  using assms find_idx_SomeD [of "\<lambda>g. grp_active g \<and> current_group g = grp" gs]
  by (auto simp: select_group_def Let_def group_ok_reset group_ok_reset [of grp pk True]
      nth_list_update dest!: set_update_subset_insert [THEN subsetD]
      split: option.splits if_splits)

lemma find_missing_set:
  "0 \<le> m \<Longrightarrow> find_missing sl is m =
     (if \<forall>i \<in> set is. sl_received (sl ! i) then Inr m else Inl ())"
  by (induction "is") auto

lemma find_missing_eq:
  "distinct is \<Longrightarrow> find_missing sl is (-1) = Inr m \<longleftrightarrow>
     (m = -1 \<and> (\<forall>i \<in> set is. sl_received (sl ! i))) \<or>
     (\<exists>i \<in> set is. m = int i \<and> \<not> sl_received (sl ! i) \<and>
        (\<forall>j \<in> set is. j \<noteq> i \<longrightarrow> sl_received (sl ! j)))"
  by (induction "is") (auto simp: find_missing_set)

lemma xor_slots_pad:
  "\<forall>i \<in> set is. int i \<noteq> m \<longrightarrow> sl_len (sl ! i) = length (sl_data (sl ! i)) \<and>
      length (sl_data (sl ! i)) \<le> length buf \<Longrightarrow>
   xor_slots sl m is (buf, len) = (buf', len') \<Longrightarrow>
   length buf' = length buf \<and>
   len' = max len (max_len (map (\<lambda>i. sl_data (sl ! i)) (filter (\<lambda>i. int i \<noteq> m) is))) \<and>
   (\<forall>j. pad buf' j = pad buf j XOR
      xsum (map (\<lambda>i. pad (sl_data (sl ! i)) j) (filter (\<lambda>i. int i \<noteq> m) is)))"
proof (induction "is" arbitrary: buf len)
  case Nil
  then show ?case by simp
next
  case (Cons i ks)
  show ?case
  proof (cases "int i = m")
    case True
    with Cons.IH [of buf len] Cons.prems show ?thesis by auto
  next
    case False
    let ?d = "sl_data (sl ! i)"
    have d: "sl_len (sl ! i) = length ?d" "length ?d \<le> length buf"
      using Cons.prems(1) False by auto
    have "xor_slots sl m ks (xor_into buf ?d, max len (length ?d)) = (buf', len')"
      using Cons.prems(2) False d by simp
    from Cons.IH [OF _ this] show ?thesis
      using Cons.prems(1) False d by (auto simp: pad_xor_into xor.assoc)
  qed
qed

lemma filter_skip_upt:
  assumes "m < 7"
  shows "filter (\<lambda>i. int i \<noteq> int m) [0..<8] = (take m [0..<7] @ drop (Suc m) [0..<7]) @ [7]"
proof -
  consider "m = 0" | "m = 1" | "m = 2" | "m = 3" | "m = 4" | "m = 5" | "m = 6"
    using assms by fastforce
  then show ?thesis by cases (simp_all add: upt_rec)
qed

lemma max_len_append [simp]: "max_len (xs @ ys) = max (max_len xs) (max_len ys)"
  by (induction xs) auto

text \<open>What the XOR over the seven received slots of a coded group yields.\<close>

lemma recover_padded:
  assumes "m < 7" and coded: "group_coded pk g"
  defines "ks \<equiv> filter (\<lambda>i. int i \<noteq> int m) [0..<8]"
  defines "fs \<equiv> map (\<lambda>i. pk (8 * g + i)) [0..<7]"
  shows "max_len (map (\<lambda>i. pk (8 * g + i)) ks) = max_len fs"
    and "xsum (map (\<lambda>i. pad (pk (8 * g + i)) j) ks) = pad (pk (8 * g + m)) j"
proof -
  let ?dat = "\<lambda>i. pk (8 * g + i)"
  have ks: "ks = (take m [0..<7] @ drop (Suc m) [0..<7]) @ [7]"
    unfolding ks_def using assms(1) by (rule filter_skip_upt)
  have par: "?dat 7 = fec_parity_of fs" using coded by (simp add: group_coded_def fs_def)
  have "set ks \<subseteq> {0..<8}" by (auto simp: ks_def)
  have "max_len (map ?dat (take m [0..<7] @ drop (Suc m) [0..<7])) \<le> max_len fs"
  proof (rule max_len_le)
    fix f assume "f \<in> set (map ?dat (take m [0..<7] @ drop (Suc m) [0..<7]))"
    then have "f \<in> set fs"
      by (auto simp: fs_def dest: in_set_takeD in_set_dropD)
    then show "length f \<le> max_len fs" by (rule max_len_ge)
  qed
  then show "max_len (map ?dat ks) = max_len fs"
    by (simp add: ks par)
  let ?xs = "map (\<lambda>i. pad (?dat i) j) [0..<7]"
  have "xsum (map (\<lambda>i. pad (?dat i) j) ks) =
      xsum (take m ?xs @ drop (Suc m) ?xs) XOR pad (?dat 7) j"
    by (simp add: ks take_map drop_map xor.assoc)
  also have "pad (?dat 7) j = xsum ?xs"
    by (simp add: par pad_fec_parity_of fs_def o_def)
  also have "xsum (take m ?xs @ drop (Suc m) ?xs) XOR xsum ?xs = ?xs ! m"
    using assms(1) by (intro xsum_recover_one) simp
  finally show "xsum (map (\<lambda>i. pad (?dat i) j) ks) = pad (?dat m) j"
    using assms(1) by simp
qed

text \<open>A data packet as the decoder returns it: zero-extended to the length of its parity.\<close>

definition padded_packet :: "(nat \<Rightarrow> bytes) \<Rightarrow> nat \<Rightarrow> bytes" where
  "padded_packet pk s =
     pk s @ replicate (length (pk (8 * (s div 8) + 7)) - length (pk s)) 0"

lemma unat_group_seq: "unat g < 8192 \<Longrightarrow> m < 8 \<Longrightarrow> unat ((g :: u16) * 8 + of_nat m) = 8 * unat g + m"
  by (simp add: unat_word_ariths unat_of_nat)

lemma find_missing_group:
  "find_missing (slots g) [0..<8] (-1) = Inr m \<Longrightarrow> 0 \<le> m \<Longrightarrow>
   nat m < 8 \<and> \<not> sl_received (slots g ! nat m) \<and>
   (\<forall>j < 8. j \<noteq> nat m \<longrightarrow> sl_received (slots g ! j))"
  using find_missing_eq [of "[0..<8]" "slots g" m] by auto

lemma has_parity_check_iff:
  "group_ok pk g \<Longrightarrow> has_parity_check g \<longleftrightarrow> sl_received (slots g ! FEC_GROUP_SIZE)"
  by (auto simp: has_parity_check_def list_ex_iff group_ok_def slot_ok_def)

lemma try_recover_True:
  assumes ok: "group_ok pk g" and "try_recover g d = (True, d')"
  obtains m h buf len where "m < 7" "\<not> sl_received (slots g ! m)"
    "\<forall>j < 8. j \<noteq> m \<longrightarrow> sl_received (slots g ! j)" "fd_heap_mem d = Some h"
    "xor_slots (slots g) (int m) [0..<8] (replicate MAX_MTU 0, 0) = (buf, len)"
    "d' = d\<lparr>fd_missing_idx := int m, fd_recovered_group := current_group g,
            fd_heap_mem := Some (h\<lparr>recovered_buf := buf\<rparr>), fd_recovered_len := len,
            fd_recovered := True\<rparr>"
proof -
  obtain h where h: "fd_heap_mem d = Some h"
    using assms(2) by (auto simp: try_recover_def split: option.splits)
  obtain m where m: "find_missing (slots g) [0..<8] (-1) = Inr m" "0 \<le> m"
    "\<not> (m = 7 \<and> \<not> has_parity_check g)"
    using assms(2) h by (auto simp: try_recover_def split: sum.splits if_splits)
  note miss = find_missing_group [OF m(1,2)]
  have "m \<noteq> 7" using m(3) miss has_parity_check_iff [OF ok] by auto
  moreover obtain buf len where "xor_slots (slots g) (int (nat m)) [0..<8] (replicate MAX_MTU 0, 0) = (buf, len)"
    by (cases "xor_slots (slots g) (int (nat m)) [0..<8] (replicate MAX_MTU 0, 0)")
  ultimately show ?thesis
    using that [of "nat m" h buf len] miss h m assms(2) by (auto simp: try_recover_def Let_def)
qed

lemma try_recover_missing:
  assumes "group_ok pk g" and "try_recover g d = (True, d')"
  shows "\<not> sl_received (slots g ! (unat (recovered_seq d') mod 8))"
proof -
  obtain m h buf len where m: "m < 7" "\<not> sl_received (slots g ! m)"
    and d': "d' = d\<lparr>fd_missing_idx := int m, fd_recovered_group := current_group g,
      fd_heap_mem := Some (h\<lparr>recovered_buf := buf\<rparr>), fd_recovered_len := len, fd_recovered := True\<rparr>"
    by (rule try_recover_True [OF assms])
  have "fd_missing_idx d' = int m" "fd_recovered_group d' = current_group g" by (simp_all add: d')
  with m have "unat (recovered_seq d') = 8 * unat (current_group g) + m"
    using assms(1) unat_group_seq [of "current_group g" m] by (simp add: recovered_seq_def group_ok_def)
  with m show ?thesis by simp
qed

lemma try_recover_sound:
  assumes ok: "group_ok pk g" and rec: "try_recover g d = (True, d')"
    and coded: "group_coded pk (unat (current_group g))"
  shows "unat (recovered_seq d') div 8 = unat (current_group g) \<and> unat (recovered_seq d') mod 8 < 7 \<and>
    recovered_packet d' = padded_packet pk (unat (recovered_seq d'))"
proof -
  obtain m h buf len where m: "m < 7" "\<not> sl_received (slots g ! m)"
    "\<forall>j < 8. j \<noteq> m \<longrightarrow> sl_received (slots g ! j)" "fd_heap_mem d = Some h"
    "xor_slots (slots g) (int m) [0..<8] (replicate MAX_MTU 0, 0) = (buf, len)"
    "d' = d\<lparr>fd_missing_idx := int m, fd_recovered_group := current_group g,
            fd_heap_mem := Some (h\<lparr>recovered_buf := buf\<rparr>), fd_recovered_len := len,
            fd_recovered := True\<rparr>"
    using try_recover_True [OF ok rec] by blast
  let ?G = "unat (current_group g)"
  let ?fs = "map (\<lambda>i. pk (8 * ?G + i)) [0..<7]"
  let ?ks = "filter (\<lambda>i. int i \<noteq> int m) [0..<8]"
  have slots: "sl_data (slots g ! i) = pk (8 * ?G + i) \<and> sl_len (slots g ! i) = length (sl_data (slots g ! i))
      \<and> length (pk (8 * ?G + i)) \<le> MAX_MTU" if "i < 8" "i \<noteq> m" for i
    using ok m(3) that by (metis group_ok_def slot_ok_def)
  have cong: "map (\<lambda>i. f (sl_data (slots g ! i))) ?ks = map (\<lambda>i. f (pk (8 * ?G + i))) ?ks" for f
    using slots by (auto intro!: map_cong)
  have pre: "\<forall>i \<in> set [0..<8]. int i \<noteq> int m \<longrightarrow> sl_len (slots g ! i) = length (sl_data (slots g ! i)) \<and>
      length (sl_data (slots g ! i)) \<le> length (replicate MAX_MTU (0::u8))"
    using slots by auto
  note xs = xor_slots_pad [OF pre m(5)]
  have x1: "length buf = MAX_MTU" using xs by simp
  have x2: "len = max_len ?fs"
    using xs cong [of "\<lambda>p. p"] recover_padded(1) [OF m(1) coded] by (simp del: map_eq_conv)
  have x3: "pad buf j = pad (pk (8 * ?G + m)) j" for j
    using xs cong [of "\<lambda>p. pad p j"] recover_padded(2) [OF m(1) coded, of j]
    by (simp del: map_eq_conv)
  have seq: "unat (recovered_seq d') = 8 * ?G + m"
    using m(1,6) ok unat_group_seq [of "current_group g" m]
    by (simp add: recovered_seq_def group_ok_def)
  have par: "length (pk (8 * ?G + 7)) = max_len ?fs"
    using coded by (simp add: group_coded_def)
  have lens: "length (pk (8 * ?G + m)) \<le> max_len ?fs" using m(1) by (intro max_len_ge) auto
  have "max_len ?fs \<le> MAX_MTU" using slots [of 7] m(1) par by simp
  then have "recovered_packet d' = padded_packet pk (8 * ?G + m)"
    using m(1,6) x1 x2 x3 lens par
    by (intro list_eq_by_pad) (auto simp: recovered_packet_def padded_packet_def pad_take
        pad_beyond)
  with seq m(1) show ?thesis by simp
qed

section \<open>The decoder's contract\<close>

text \<open>
  What the receiver relies on. \<open>ok pk d\<close> says that everything the decoder holds came from the
  authentic packets \<open>pk\<close>; ingesting an authentic packet keeps it, and a reported recovery in
  a coded group yields the authentic packet of a data slot of that group, zero-extended.
\<close>

locale erasure_decoder =
  fixes ingest :: "u16 \<Rightarrow> bytes \<Rightarrow> bool \<Rightarrow> 'd \<Rightarrow> bool \<times> 'd"
    and rec_seq :: "'d \<Rightarrow> u16"
    and rec_packet :: "'d \<Rightarrow> bytes"
    and ok :: "(nat \<Rightarrow> bytes) \<Rightarrow> 'd \<Rightarrow> bool"
  assumes ingest_ok:
    "ok pk d \<Longrightarrow> length (pk (unat s)) \<le> MAX_MTU \<Longrightarrow>
     ok pk (snd (ingest s (pk (unat s)) (unat s mod 8 = FEC_GROUP_SIZE) d))"
    and ingest_sound:
    "ok pk d \<Longrightarrow> length (pk (unat s)) \<le> MAX_MTU \<Longrightarrow> group_coded pk (unat s div 8) \<Longrightarrow>
     ingest s (pk (unat s)) (unat s mod 8 = FEC_GROUP_SIZE) d = (True, d') \<Longrightarrow>
     unat (rec_seq d') div 8 = unat s div 8 \<and> unat (rec_seq d') mod 8 < FEC_GROUP_SIZE \<and>
     rec_packet d' = padded_packet pk (unat (rec_seq d'))"
begin

lemma run_ok:
  "ok pk d \<Longrightarrow> \<forall>s \<in> set ss. length (pk (unat s)) \<le> MAX_MTU \<Longrightarrow>
   ok pk (fold (\<lambda>s. snd \<circ> ingest s (pk (unat s)) (unat s mod 8 = FEC_GROUP_SIZE)) ss d)"
  by (induction ss arbitrary: d) (auto simp: ingest_ok)

lemma run_sound:
  assumes "ok pk d" and "\<forall>s \<in> set (ss @ [t]). length (pk (unat s)) \<le> MAX_MTU"
    and "group_coded pk (unat t div 8)"
    and "ingest t (pk (unat t)) (unat t mod 8 = FEC_GROUP_SIZE)
      (fold (\<lambda>s. snd \<circ> ingest s (pk (unat s)) (unat s mod 8 = FEC_GROUP_SIZE)) ss d) = (True, d')"
  shows "unat (rec_seq d') div 8 = unat t div 8 \<and> unat (rec_seq d') mod 8 < FEC_GROUP_SIZE \<and>
    rec_packet d' = padded_packet pk (unat (rec_seq d'))"
  using run_ok [OF assms(1)] assms(2-4) by (intro ingest_sound) auto

end

lemma dec_ingest_group:
  assumes "dec_ok pk d" and "fd_heap_mem d = Some h" and "length (pk (unat s)) \<le> MAX_MTU"
    and "par \<longleftrightarrow> unat s mod 8 = FEC_GROUP_SIZE"
  obtains gi gs g d1 where "select_group (s div 8) (fd_last_used d) (groups h) = (gi, gs)"
    "g = fill_slot (unat s mod 8) (pk (unat s)) par (gs ! gi)"
    "d1 = d\<lparr>fd_last_used := of_nat gi, fd_heap_mem := Some (h\<lparr>groups := gs[gi := g]\<rparr>)\<rparr>"
    "dec_ingest s (pk (unat s)) par d = (if slot_count g = 7 then try_recover g d1 else (False, d1))"
    "dec_ok pk d1" "group_ok pk g" "unat (current_group g) = unat s div 8"
proof -
  obtain gi gs where sel: "select_group (s div 8) (fd_last_used d) (groups h) = (gi, gs)"
    by (cases "select_group (s div 8) (fd_last_used d) (groups h)")
  have lt: "unat (s div 8) < 8192" by (simp add: unat_div less_mult_imp_div_less)
  have sok: "gi < 2" "length gs = 2" "\<forall>g \<in> set gs. group_ok pk g" "current_group (gs ! gi) = s div 8"
    using select_group_ok [OF sel _ _ lt, of pk] assms(1,2) by (auto simp: dec_ok_def)
  let ?g = "fill_slot (unat s mod 8) (pk (unat s)) par (gs ! gi)"
  have cur: "unat (current_group (gs ! gi)) = unat s div 8"
    using sok(4) by (simp add: unat_div)
  have gok: "group_ok pk ?g"
    using sok assms(3,4) cur by (intro fill_slot_ok) (auto simp: mult.commute)
  have ok1: "dec_ok pk (d\<lparr>fd_last_used := of_nat gi, fd_heap_mem := Some (h\<lparr>groups := gs[gi := ?g]\<rparr>)\<rparr>)"
    using sok gok by (auto simp: dec_ok_def dest!: set_update_subset_insert [THEN subsetD])
  have nidx: "\<not> 7 < unat s mod 8" using mod_less_divisor [of 8 "unat s"] by linarith
  have "dec_ingest s (pk (unat s)) par d = (if slot_count ?g = 7
      then try_recover ?g (d\<lparr>fd_last_used := of_nat gi, fd_heap_mem := Some (h\<lparr>groups := gs[gi := ?g]\<rparr>)\<rparr>)
      else (False, d\<lparr>fd_last_used := of_nat gi, fd_heap_mem := Some (h\<lparr>groups := gs[gi := ?g]\<rparr>)\<rparr>))"
    using assms(2,3) sel nidx by (simp add: dec_ingest_def Let_def unat_mod)
  from that [OF sel refl refl this ok1 gok] cur show ?thesis by simp
qed

lemma try_recover_dec_ok: "dec_ok pk d \<Longrightarrow> dec_ok pk (snd (try_recover g d))"
  by (auto simp: try_recover_def dec_ok_def Let_def split: option.splits sum.splits prod.splits)

interpretation xdec: erasure_decoder dec_ingest recovered_seq recovered_packet dec_ok
proof
  fix pk d and s :: u16
  assume ok: "dec_ok pk d" and len: "length (pk (unat s)) \<le> MAX_MTU"
  show "dec_ok pk (snd (dec_ingest s (pk (unat s)) (unat s mod 8 = FEC_GROUP_SIZE) d))"
  proof (cases "fd_heap_mem d")
    case None
    with ok show ?thesis by (simp add: dec_ingest_def)
  next
    case (Some h)
    show ?thesis
      using dec_ingest_group [OF ok Some len refl]
      by (metis try_recover_dec_ok snd_conv)
  qed
next
  fix pk d d' and s :: u16
  assume ok: "dec_ok pk d" and len: "length (pk (unat s)) \<le> MAX_MTU"
    and coded: "group_coded pk (unat s div 8)"
    and rec: "dec_ingest s (pk (unat s)) (unat s mod 8 = FEC_GROUP_SIZE) d = (True, d')"
  obtain h where h: "fd_heap_mem d = Some h"
    using rec by (cases "fd_heap_mem d") (auto simp: dec_ingest_def)
  obtain g d1 where "dec_ingest s (pk (unat s)) (unat s mod 8 = FEC_GROUP_SIZE) d =
      (if slot_count g = 7 then try_recover g d1 else (False, d1))"
    "group_ok pk g" "unat (current_group g) = unat s div 8"
    using dec_ingest_group [OF ok h len refl] by metis
  then show "unat (recovered_seq d') div 8 = unat s div 8 \<and>
      unat (recovered_seq d') mod 8 < FEC_GROUP_SIZE \<and>
      recovered_packet d' = padded_packet pk (unat (recovered_seq d'))"
    using rec coded try_recover_sound [of pk g d1 d'] by (simp split: if_splits)
qed

section \<open>Properties of the erasure code\<close>

text \<open>A concrete sender for the witnesses: only packet 3 of a group carries bytes.\<close>

definition ex_pk :: "nat \<Rightarrow> bytes" where
  "ex_pk s = (if s mod 8 = 7 then [0x0F, 1] else if s mod 8 = 3 then [0x0F, 1] else [])"

lemma ex_pk_coded: "group_coded ex_pk 1"
  by (simp add: group_coded_def fec_parity_of_def ex_pk_def pad_def upt_rec max_len_def xsum_def)

lemma ex_pk_length: "length (ex_pk s) \<le> MAX_MTU"
  by (simp add: ex_pk_def)

abbreviation (input) ex_run :: "FecDecoder" where
  "ex_run \<equiv> fold (\<lambda>s. snd \<circ> dec_ingest s (ex_pk (unat s)) (unat s mod 8 = FEC_GROUP_SIZE))
     [8, 10, 9, 14, 13, 12] (dec_reset True FecDecoder_new)"

lemma fst_True_ex: "fst p \<Longrightarrow> \<exists>d. p = (True, d)"
  by (cases p) simp

lemma ex_run_recovers: "fst (dec_ingest 15 (ex_pk (unat (15 :: u16))) (unat (15 :: u16) mod 8 = FEC_GROUP_SIZE) ex_run)"
  by code_simp

text \<open>
  C14. Whatever authentic packets reach a freshly reset decoder, in any order, with losses and
  duplicates and interleaved groups: when the decoder reports a recovery in a coded group, the
  recovered sequence number is a data slot of that group and the recovered bytes are the
  packet the sender produced for it, followed by zeros up to the parity length.
\<close>

theorem decoder_recovers_only_authentic:
  assumes "\<forall>s \<in> set (ss @ [t]). length (pk (unat s)) \<le> MAX_MTU"
    and "group_coded pk (unat t div 8)"
    and "dec_ingest t (pk (unat t)) (unat t mod 8 = FEC_GROUP_SIZE)
      (fold (\<lambda>s. snd \<circ> dec_ingest s (pk (unat s)) (unat s mod 8 = FEC_GROUP_SIZE)) ss
        (dec_reset alloc FecDecoder_new)) = (True, d')"
  shows "unat (recovered_seq d') div 8 = unat t div 8 \<and>
    unat (recovered_seq d') mod 8 < FEC_GROUP_SIZE \<and>
    recovered_packet d' = padded_packet pk (unat (recovered_seq d'))"
  using xdec.run_sound [OF dec_ok_reset [OF dec_ok_new] assms] .

theorem decoder_recovers_only_authentic_witness:
  "\<exists>d'. dec_ingest 15 (ex_pk (unat (15 :: u16))) (unat (15 :: u16) mod 8 = FEC_GROUP_SIZE) ex_run = (True, d') \<and>
    unat (recovered_seq d') div 8 = 1 \<and> unat (recovered_seq d') mod 8 < 7 \<and>
    recovered_packet d' = padded_packet ex_pk (unat (recovered_seq d'))"
proof -
  obtain d' where d: "dec_ingest 15 (ex_pk (unat (15 :: u16))) (unat (15 :: u16) mod 8 = FEC_GROUP_SIZE) ex_run = (True, d')"
    using fst_True_ex [OF ex_run_recovers] by blast
  have "\<forall>s \<in> set ([8, 10, 9, 14, 13, 12] @ [15 :: u16]). length (ex_pk (unat s)) \<le> MAX_MTU"
    using ex_pk_length by blast
  moreover have u: "unat (15 :: u16) div 8 = 1" by simp
  moreover have "group_coded ex_pk (unat (15 :: u16) div 8)" unfolding u by (rule ex_pk_coded)
  ultimately show ?thesis
    using decoder_recovers_only_authentic [OF _ _ d] d unfolding u by blast
qed

text \<open>Progress of the group under reception: which slots of group \<open>g\<close> are filled.\<close>

definition group_filled :: "u16 \<Rightarrow> nat set \<Rightarrow> FecDecoder \<Rightarrow> bool" where
  "group_filled grp S d \<longleftrightarrow> (\<exists>h gi. fd_heap_mem d = Some h \<and>
     find_idx (\<lambda>g. grp_active g \<and> current_group g = grp) (groups h) = Some gi \<and>
     (\<forall>i < 8. sl_received (slots (groups h ! gi) ! i) \<longleftrightarrow> i \<in> S))"

lemma find_idx_update:
  "find_idx P xs = Some i \<Longrightarrow> P y \<Longrightarrow> find_idx P (xs[i := y]) = Some i"
  by (induction xs arbitrary: i) (auto split: if_splits)

lemma find_idx_new:
  "find_idx P xs = None \<Longrightarrow> i < length xs \<Longrightarrow> P y \<Longrightarrow> find_idx P (xs[i := y]) = Some i"
  by (induction xs arbitrary: i) (auto split: nat.splits if_splits)

lemma fill_slot_received:
  "idx < length (slots g) \<Longrightarrow> i < length (slots g) \<Longrightarrow>
   sl_received (slots (fill_slot idx data par g) ! i) \<longleftrightarrow> i = idx \<or> sl_received (slots g ! i)"
  by (auto simp: fill_slot_def nth_list_update)

lemma fill_slot_active [simp]: "grp_active (fill_slot idx data par g) = grp_active g"
  by (simp add: fill_slot_def)

lemma length_filter_received:
  assumes "length xs = n" and "\<forall>i < n. P (xs ! i) \<longleftrightarrow> i \<in> S" and "S \<subseteq> {..<n}"
  shows "length (filter P xs) = card S"
proof -
  have "length (filter P xs) = card {i. i < length xs \<and> P (xs ! i)}"
    by (rule length_filter_conv_card)
  also have "{i. i < length xs \<and> P (xs ! i)} = S" using assms by auto
  finally show ?thesis .
qed

lemma group_filled_select:
  assumes "group_filled grp S d \<or>
      (S = {} \<and> (\<exists>h. fd_heap_mem d = Some h \<and> (\<forall>g \<in> set (groups h). \<not> grp_active g)))"
    and "fd_heap_mem d = Some h" and "length (groups h) = 2"
    and "select_group grp lastu (groups h) = (gi, gs)"
  shows "find_idx (\<lambda>g. grp_active g \<and> current_group g = grp) gs = Some gi \<and>
    (\<forall>i < 8. sl_received (slots (gs ! gi) ! i) \<longleftrightarrow> i \<in> S)"
proof (cases "find_idx (\<lambda>g. grp_active g \<and> current_group g = grp) (groups h)")
  case None
  then have S: "S = {}" using assms(1,2) by (auto simp: group_filled_def)
  define k where "k = (if lastu = 0 then 1 else 0 :: nat)"
  have k: "gi = k" "gs = (groups h)[k := group_reset\<lparr>current_group := grp, grp_active := True\<rparr>]" "k < 2"
    using None assms(4) by (auto simp: select_group_def k_def Let_def)
  have "find_idx (\<lambda>g. grp_active g \<and> current_group g = grp) gs = Some gi"
    unfolding k(1,2) using None k(3) assms(3) by (intro find_idx_new) auto
  with S k assms(3) show ?thesis by (simp add: group_reset_def)
next
  case (Some a)
  with assms show ?thesis
    by (auto simp: select_group_def group_filled_def find_idx_None_iff dest!: find_idx_SomeD [of _ "groups h"])
qed

lemma try_recover_groups:
  "group_filled grp S (snd (try_recover g d)) \<longleftrightarrow> group_filled grp S d"
  by (auto simp: try_recover_def group_filled_def Let_def split: option.splits sum.splits prod.splits)

lemma card7_missing:
  assumes "S \<subseteq> {..<8::nat}" and "card S = 7"
  obtains m where "m < 8" "m \<notin> S" "\<forall>j < 8. j \<noteq> m \<longrightarrow> j \<in> S"
proof -
  have "card ({..<8} - S) = 1"
    using assms by (simp add: card_Diff_subset finite_subset)
  then obtain m where "{..<8} - S = {m}" by (auto simp: card_1_singleton_iff)
  then show ?thesis using that [of m] by blast
qed

lemma try_recover_iff:
  assumes ok: "group_ok pk g" and h: "fd_heap_mem d = Some h"
    and rec: "\<forall>i < 8. sl_received (slots g ! i) \<longleftrightarrow> i \<in> S" and S: "S \<subseteq> {..<8}" "card S = 7"
  shows "fst (try_recover g d) \<longleftrightarrow> 7 \<in> S"
proof -
  obtain m where m: "m < 8" "m \<notin> S" "\<forall>j < 8. j \<noteq> m \<longrightarrow> j \<in> S"
    using card7_missing [OF S] by blast
  then have "find_missing (slots g) [0..<8] (-1) = Inr (int m)"
    using rec by (subst find_missing_eq) auto
  then show ?thesis
    using h m rec has_parity_check_iff [OF ok]
    by (auto simp: try_recover_def Let_def split: prod.splits)
qed

lemma dec_ingest_filled:
  assumes ok: "dec_ok pk d" and len: "length (pk (unat s)) \<le> MAX_MTU" and S: "S \<subseteq> {..<8}"
    and st: "group_filled (s div 8) S d \<or>
      (S = {} \<and> (\<exists>h. fd_heap_mem d = Some h \<and> (\<forall>g \<in> set (groups h). \<not> grp_active g)))"
  defines "S' \<equiv> insert (unat s mod 8) S"
    and "res \<equiv> dec_ingest s (pk (unat s)) (unat s mod 8 = FEC_GROUP_SIZE) d"
  shows "group_filled (s div 8) S' (snd res) \<and> (fst res \<longleftrightarrow> card S' = 7 \<and> 7 \<in> S') \<and>
    (fst res \<longrightarrow> unat (recovered_seq (snd res)) mod 8 \<notin> S')"
proof -
  obtain h where h: "fd_heap_mem d = Some h" using st by (auto simp: group_filled_def)
  obtain gi gs g d1 where sel: "select_group (s div 8) (fd_last_used d) (groups h) = (gi, gs)"
    and g: "g = fill_slot (unat s mod 8) (pk (unat s)) (unat s mod 8 = FEC_GROUP_SIZE) (gs ! gi)"
    and d1: "d1 = d\<lparr>fd_last_used := of_nat gi, fd_heap_mem := Some (h\<lparr>groups := gs[gi := g]\<rparr>)\<rparr>"
    and res: "res = (if slot_count g = 7 then try_recover g d1 else (False, d1))"
    and gok: "group_ok pk g"
    unfolding res_def using dec_ingest_group [OF ok h len refl] by metis
  have len2: "length (groups h) = 2" using ok h by (simp add: dec_ok_def)
  note fs = group_filled_select [OF st h len2 sel]
  have gi: "gi < length gs" "grp_active (gs ! gi)" "current_group (gs ! gi) = s div 8"
    using fs find_idx_SomeD [of _ gs gi] by auto
  have lg: "length (slots (gs ! gi)) = 8" using gok g by (auto simp: group_ok_def fill_slot_def split: if_splits)
  have rec: "\<forall>i < 8. sl_received (slots g ! i) \<longleftrightarrow> i \<in> S'"
    using fs lg by (auto simp: g fill_slot_received S'_def)
  have filled: "group_filled (s div 8) S' d1"
    using fs gi rec by (auto simp: d1 group_filled_def g intro!: exI [of _ gi] find_idx_update)
  have S8: "S' \<subseteq> {..<8}" using S by (auto simp: S'_def)
  have "unat (slot_count g) = card S'"
    using gok rec S8 length_filter_received [of "slots g" 8 sl_received S'] by (simp add: group_ok_def)
  then have "slot_count g = 7 \<longleftrightarrow> card S' = 7" by (auto simp: word_unat_eq_iff)
  moreover have "fd_heap_mem d1 \<noteq> None" by (simp add: d1)
  moreover have "unat (recovered_seq (snd res)) mod 8 \<notin> S'" if "fst res"
  proof -
    have "try_recover g d1 = (True, snd res)"
      using that res by (auto simp: prod_eq_iff split: if_splits)
    then have "\<not> sl_received (slots g ! (unat (recovered_seq (snd res)) mod 8))"
      using try_recover_missing [OF gok] by blast
    with rec show ?thesis by simp
  qed
  ultimately show ?thesis
    using res filled rec S8 gok try_recover_iff [of pk g d1 _ S'] try_recover_groups [of _ S' g d1]
    by auto
qed

lemma run_filled:
  assumes "dec_ok pk d" and "S \<subseteq> {..<8}"
    and "group_filled grp S d \<or>
      (S = {} \<and> (\<exists>h. fd_heap_mem d = Some h \<and> (\<forall>g \<in> set (groups h). \<not> grp_active g)))"
    and "\<forall>s \<in> set ss. s div 8 = grp \<and> length (pk (unat s)) \<le> MAX_MTU"
  defines "run \<equiv> fold (\<lambda>s. snd \<circ> dec_ingest s (pk (unat s)) (unat s mod 8 = FEC_GROUP_SIZE))"
  shows "dec_ok pk (run ss d) \<and>
    (group_filled grp (S \<union> (\<lambda>s. unat s mod 8) ` set ss) (run ss d) \<or>
     (ss = [] \<and> run ss d = d))"
  using assms(1-4)
proof (induction ss arbitrary: d S)
  case Nil
  then show ?case by (simp add: run_def)
next
  case (Cons s ss)
  let ?d1 = "snd (dec_ingest s (pk (unat s)) (unat s mod 8 = FEC_GROUP_SIZE) d)"
  let ?S1 = "insert (unat s mod 8) S"
  have 1: "dec_ok pk ?d1" using Cons.prems by (intro xdec.ingest_ok) auto
  have 2: "group_filled grp ?S1 ?d1"
    using dec_ingest_filled [OF Cons.prems(1) _ Cons.prems(2), of s] Cons.prems(3,4) by auto
  have 3: "?S1 \<subseteq> {..<8}" using Cons.prems(2) by auto
  have "run (s # ss) d = run ss ?d1" by (simp add: run_def)
  moreover have "S \<union> (\<lambda>s. unat s mod 8) ` set (s # ss) = ?S1 \<union> (\<lambda>s. unat s mod 8) ` set ss" by auto
  ultimately show ?case
    using Cons.IH [OF 1 3] 2 Cons.prems(4) by (cases ss) (auto simp: run_def)
qed

text \<open>
  C13. Completeness of the code: let seven of the eight packets of a coded group reach a freshly reset
  decoder, in any order. If the parity packet is one of them, the last of the seven makes the decoder
  report a recovery, and what it recovers is the data packet that did not arrive. If the parity packet
  is the missing one, all data has arrived and the decoder reports nothing.
\<close>

theorem decoder_recovers_single_loss:
  assumes "distinct is" and "length is = 6" and "set is \<subseteq> {..<8}" and "t < 8" and "t \<notin> set is"
    and "g < 8192" and "group_coded pk g"
    and "\<forall>i < 8. length (pk (8 * g + i)) \<le> MAX_MTU"
  defines "sq \<equiv> \<lambda>i. (of_nat (8 * g + i) :: u16)"
  defines "feed \<equiv> \<lambda>i. dec_ingest (sq i) (pk (8 * g + i)) (i = FEC_GROUP_SIZE)"
  shows "if 7 \<in> insert t (set is)
    then \<exists>d' m. feed t (fold (\<lambda>i. snd \<circ> feed i) is (dec_reset True FecDecoder_new)) = (True, d') \<and>
      m < 7 \<and> m \<notin> insert t (set is) \<and> unat (recovered_seq d') = 8 * g + m \<and>
      recovered_packet d' = padded_packet pk (8 * g + m)
    else fst (feed t (fold (\<lambda>i. snd \<circ> feed i) is (dec_reset True FecDecoder_new))) = False"
proof -
  have sq: "unat (sq i) = 8 * g + i" "sq i div 8 = of_nat g" if "i < 8" for i
  proof -
    show u: "unat (sq i) = 8 * g + i"
      unfolding sq_def unat_of_nat using that assms(6) by simp
    show "sq i div 8 = of_nat g" using that assms(6) u
      by (simp add: word_unat_eq_iff unat_div unat_of_nat)
  qed
  let ?ing = "\<lambda>s. dec_ingest s (pk (unat s)) (unat s mod 8 = FEC_GROUP_SIZE)"
  have feed: "feed i = ?ing (sq i)" if "i < 8" for i using that sq by (simp add: feed_def)
  let ?init = "dec_reset True FecDecoder_new"
  let ?d = "fold (\<lambda>s. snd \<circ> ?ing s) (map sq is) ?init"
  have fold: "fold (\<lambda>i. snd \<circ> feed i) is ?init = ?d"
    unfolding fold_map by (rule fold_cong [OF refl refl]) (use assms(3) feed in auto)
  have img: "(\<lambda>s. unat s mod 8) ` set (map sq is) = set is"
    using assms(3) sq by (force simp: image_image)
  have mtu: "\<forall>s \<in> set (map sq is). s div 8 = of_nat g \<and> length (pk (unat s)) \<le> MAX_MTU"
    using assms(3,8) sq by auto
  have d0: "\<exists>h. fd_heap_mem ?init = Some h \<and> (\<forall>g \<in> set (groups h). \<not> grp_active g)"
    by (auto simp: dec_reset_def dec_ensure_allocated_def FecDecoder_new_def group_reset_def)
  have "is \<noteq> []" using assms(2) by auto
  then have run: "dec_ok pk ?d" "group_filled (of_nat g) (set is) ?d"
    using run_filled [OF dec_ok_reset [OF dec_ok_new] _ _ mtu, of "{}" True] d0 img by auto
  have lt: "length (pk (unat (sq t))) \<le> MAX_MTU" using assms(4,8) sq by simp
  have card: "card (insert t (set is)) = 7" using assms(1,2,5) by (simp add: distinct_card)
  let ?res = "?ing (sq t) ?d"
  have feed_t: "feed t (fold (\<lambda>i. snd \<circ> feed i) is ?init) = ?res" unfolding fold feed [OF assms(4)] ..
  have res: "fst ?res \<longleftrightarrow> 7 \<in> insert t (set is)" "fst ?res \<Longrightarrow> unat (recovered_seq (snd ?res)) mod 8 \<notin> insert t (set is)"
    using dec_ingest_filled [OF run(1) lt assms(3)] run(2) sq [OF assms(4)] card assms(4) by auto
  show ?thesis
  proof (cases "7 \<in> insert t (set is)")
    case True
    with res(1) have r: "fst ?res" by blast
    have snd: "unat (recovered_seq (snd ?res)) div 8 = g" "unat (recovered_seq (snd ?res)) mod 8 < 7"
      "recovered_packet (snd ?res) = padded_packet pk (unat (recovered_seq (snd ?res)))"
      using xdec.ingest_sound [OF run(1) lt, of "snd ?res"] r sq [OF assms(4)] assms(4,7)
      by (auto simp: prod_eq_iff)
    define m where "m = unat (recovered_seq (snd ?res)) mod 8"
    have seq: "unat (recovered_seq (snd ?res)) = 8 * g + m"
      using snd(1) mult_div_mod_eq [of 8 "unat (recovered_seq (snd ?res))"] by (simp add: m_def)
    have "?res = (True, snd ?res)" using r by (simp add: prod_eq_iff)
    moreover have "m < 7" "m \<notin> insert t (set is)" using snd(2) res(2) [OF r] by (simp_all add: m_def)
    ultimately show ?thesis unfolding if_P [OF True] feed_t using seq snd(3) [unfolded seq] by blast
  next
    case False
    then show ?thesis unfolding if_not_P [OF False] feed_t using res(1) by blast
  qed
qed

theorem decoder_recovers_single_loss_witness:
  "(\<exists>d'. dec_ingest 15 (ex_pk 15) True
     (fold (\<lambda>i. snd \<circ> dec_ingest (of_nat (8 * 1 + i)) (ex_pk (8 * 1 + i)) (i = FEC_GROUP_SIZE)) [0, 2, 1, 6, 5, 4]
       (dec_reset True FecDecoder_new)) = (True, d') \<and>
     unat (recovered_seq d') = 11 \<and> recovered_packet d' = padded_packet ex_pk 11) \<and>
   \<not> fst (dec_ingest 11 (ex_pk 11) False
     (fold (\<lambda>i. snd \<circ> dec_ingest (of_nat (8 * 1 + i)) (ex_pk (8 * 1 + i)) (i = FEC_GROUP_SIZE)) [0, 2, 1, 6, 5, 4]
       (dec_reset True FecDecoder_new)))"
proof -
  let ?feed = "\<lambda>i. dec_ingest (of_nat (8 * 1 + i)) (ex_pk (8 * 1 + i)) (i = FEC_GROUP_SIZE)"
  let ?d = "fold (\<lambda>i. snd \<circ> ?feed i) [0, 2, 1, 6, 5, 4] (dec_reset True FecDecoder_new)"
  have r: "if 7 \<in> insert t (set [0, 2, 1, 6, 5, 4])
    then \<exists>d' m. ?feed t ?d = (True, d') \<and> m < 7 \<and> m \<notin> insert t (set [0, 2, 1, 6, 5, 4]) \<and>
      unat (recovered_seq d') = 8 * 1 + m \<and> recovered_packet d' = padded_packet ex_pk (8 * 1 + m)
    else fst (?feed t ?d) = False" if "t < 8" and "t \<notin> {0, 2, 1, 6, 5, 4}" for t
    by (rule decoder_recovers_single_loss) (use that in \<open>simp_all add: ex_pk_coded [simplified] ex_pk_length\<close>)
  obtain d' m where d: "?feed 7 ?d = (True, d')" and m: "m < 7" "m \<notin> {7, 0, 2, 1, 6, 5, 4}"
    and rec: "unat (recovered_seq d') = 8 + m" "recovered_packet d' = padded_packet ex_pk (8 + m)"
    using r [of 7] by (auto simp del: fold_simps of_nat_add)
  from m have "m = 3" by auto
  moreover have "\<not> fst (?feed 3 ?d)" using r [of 3] by (simp del: fold_simps of_nat_add)
  ultimately show ?thesis using d rec by auto
qed

end
