(* ===== verification/Selective_Repeat.thy ===== *)
theory Selective_Repeat
  imports Fec_Codec "HOL-Library.Multiset"
begin

text \<open>
  The sender half of the selective-repeat ARQ
  (\<open>components/protocol/include/selective_repeat.hpp\<close>, \<open>selective_repeat.cpp\<close>). The record holds
  the whole class, receiver fields included; the receiver's operations are in the theory
  \<open>Arq_Receiver\<close>. The outbound callback \<open>send_cb_\<close> belongs to the mesh layer: it is an argument,
  a function over an arbitrary world \<open>'w\<close> that returns the code's \<open>int\<close> result, or \<open>None\<close> when no
  callback is set. \<open>now_ms()\<close> is an argument as well.
\<close>

section \<open>State\<close>

abbreviation (input) TRANSPORT_SEND_BACKPRESSURE :: int where "TRANSPORT_SEND_BACKPRESSURE \<equiv> -2"
abbreviation (input) RTO_MIN_MS :: u32 where "RTO_MIN_MS \<equiv> 200"
abbreviation (input) RTO_MAX_MS :: u32 where "RTO_MAX_MS \<equiv> 5000"
abbreviation (input) UINT16_MAX :: u16 where "UINT16_MAX \<equiv> 0xFFFF"

type_synonym 'w SendCallback = "(u16 \<Rightarrow> PacketType \<Rightarrow> u16 \<Rightarrow> bytes \<Rightarrow> 'w \<Rightarrow> int \<times> 'w) option"

definition call_cb :: "'w SendCallback \<Rightarrow> u16 \<Rightarrow> PacketType \<Rightarrow> u16 \<Rightarrow> bytes \<Rightarrow> 'w \<Rightarrow> int \<times> 'w" where
  "call_cb cb dst ty sq payload w = (case cb of None \<Rightarrow> (0, w) | Some f \<Rightarrow> f dst ty sq payload w)"

record FragmentSlot =
  fs_data :: bytes
  fs_len :: nat
  fs_send_time_ms :: u32
  fs_seq_tag :: u16
  fs_acked :: bool
  fs_sent :: bool
  fs_retries :: u8

record SelectiveRepeat =
  sr_window :: "FragmentSlot list option"
  sr_window_size :: u8
  sr_timeout_ms :: u32
  sr_base_seq :: u16
  sr_next_seq :: u16
  sr_exit_stride :: u8
  sr_exit_offset :: u8
  sr_sender_failed :: bool
  sr_in_flight :: u16
  sr_srtt_ms :: u32
  sr_rttvar_ms :: u32
  sr_rto_ms :: u32
  sr_rtt_initialized :: bool
  sr_min_rto_floor_ms :: u32
  sr_reassembly_buf :: "bytes option"
  sr_recv_bitmap :: "bytes option"
  sr_nack_sent_ms :: "u32 list option"
  sr_total_fragments :: u16
  sr_fragments_received :: u16
  sr_expected_seq :: u16
  sr_fragment_size :: nat
  sr_file_size :: nat
  sr_receiver_active :: bool
  sr_fec_decoder :: FecDecoder
  sr_peer_addr :: u16

definition SelectiveRepeat_new :: SelectiveRepeat where
  "SelectiveRepeat_new = \<lparr>sr_window = None, sr_window_size = 0, sr_timeout_ms = 0, sr_base_seq = 0,
     sr_next_seq = 0, sr_exit_stride = 1, sr_exit_offset = 0, sr_sender_failed = False,
     sr_in_flight = 0, sr_srtt_ms = 0, sr_rttvar_ms = 0, sr_rto_ms = 0, sr_rtt_initialized = False,
     sr_min_rto_floor_ms = RTO_MIN_MS, sr_reassembly_buf = None, sr_recv_bitmap = None,
     sr_nack_sent_ms = None, sr_total_fragments = 0, sr_fragments_received = 0,
     sr_expected_seq = 0, sr_fragment_size = 0, sr_file_size = 0, sr_receiver_active = False,
     sr_fec_decoder = FecDecoder_new, sr_peer_addr = BROADCAST_ADDR\<rparr>"

section \<open>Operations of the sender\<close>

definition zero_slot :: FragmentSlot where
  "zero_slot = \<lparr>fs_data = replicate MAX_MTU 0, fs_len = 0, fs_send_time_ms = 0, fs_seq_tag = 0,
     fs_acked = False, fs_sent = False, fs_retries = 0\<rparr>"

definition reset_sender :: "SelectiveRepeat \<Rightarrow> SelectiveRepeat" where
  "reset_sender a = a\<lparr>sr_base_seq := 0, sr_next_seq := 0, sr_exit_stride := 1, sr_exit_offset := 0,
     sr_sender_failed := False, sr_in_flight := 0, sr_srtt_ms := 0, sr_rttvar_ms := 0,
     sr_rto_ms := 0, sr_rtt_initialized := False,
     sr_window := map_option (\<lambda>_. replicate ARQ_WINDOW (zero_slot\<lparr>fs_seq_tag := UINT16_MAX\<rparr>)) (sr_window a)\<rparr>"

text \<open>\<open>init\<close>; the first argument says whether the heap can serve the window.\<close>

definition sr_init :: "bool \<Rightarrow> u8 \<Rightarrow> u32 \<Rightarrow> SelectiveRepeat \<Rightarrow> bool \<times> SelectiveRepeat" where
  "sr_init alloc_ok window_size timeout_ms a =
    (let a1 = a\<lparr>sr_window_size := (if of_nat ARQ_WINDOW < window_size then of_nat ARQ_WINDOW else window_size),
                sr_timeout_ms := timeout_ms\<rparr> in
     case sr_window a1 of
       Some _ \<Rightarrow> (True, reset_sender a1)
     | None \<Rightarrow>
         if alloc_ok then (True, reset_sender (a1\<lparr>sr_window := Some (replicate ARQ_WINDOW zero_slot)\<rparr>))
         else (False, a1))"

definition clear_slot :: "FragmentSlot \<Rightarrow> FragmentSlot" where
  "clear_slot s = s\<lparr>fs_len := 0, fs_send_time_ms := 0, fs_seq_tag := UINT16_MAX, fs_acked := False,
     fs_sent := False, fs_retries := 0\<rparr>"

fun lowest_pending :: "FragmentSlot list \<Rightarrow> bool \<times> u16 \<Rightarrow> bool \<times> u16" where
  "lowest_pending [] acc = acc"
| "lowest_pending (s # ss) (any_pending, lowest) =
    (if \<not> fs_sent s \<or> fs_len s = 0 \<or> fs_seq_tag s = UINT16_MAX then lowest_pending ss (any_pending, lowest)
     else if \<not> any_pending \<or> fs_seq_tag s < lowest then lowest_pending ss (True, fs_seq_tag s)
     else lowest_pending ss (any_pending, lowest))"

definition recompute_sender_bounds :: "SelectiveRepeat \<Rightarrow> SelectiveRepeat" where
  "recompute_sender_bounds a = (case sr_window a of
      None \<Rightarrow> a\<lparr>sr_base_seq := sr_next_seq a\<rparr>
    | Some w \<Rightarrow>
        let (any_pending, lowest) = lowest_pending (take (unat (sr_window_size a)) w) (False, UINT16_MAX)
        in a\<lparr>sr_base_seq := (if any_pending then lowest else sr_next_seq a)\<rparr>)"

definition sender_window_full :: "SelectiveRepeat \<Rightarrow> bool" where
  "sender_window_full a \<longleftrightarrow> ucast (sr_window_size a) \<le> sr_in_flight a"

definition slot_idx :: "SelectiveRepeat \<Rightarrow> u16 \<Rightarrow> nat" where
  "slot_idx a sq = unat sq mod unat (sr_window_size a)"

definition can_send_sequence :: "u16 \<Rightarrow> SelectiveRepeat \<Rightarrow> bool" where
  "can_send_sequence sq a = (case sr_window a of
      None \<Rightarrow> False
    | Some w \<Rightarrow>
        if sr_window_size a = 0 then False
        else let slot = w ! slot_idx a sq in
          if fs_sent slot then fs_seq_tag slot = sq
          else sr_in_flight a < ucast (sr_window_size a))"

definition contains_sequence :: "u16 \<Rightarrow> SelectiveRepeat \<Rightarrow> bool" where
  "contains_sequence sq a = (case sr_window a of
      None \<Rightarrow> False
    | Some w \<Rightarrow>
        if sr_window_size a = 0 then False
        else let slot = w ! slot_idx a sq in
          fs_sent slot \<and> fs_seq_tag slot = sq \<and> 0 < fs_len slot)"

text \<open>
  \<open>snapshot_pending_sequences\<close>: the first loop collects at most \<open>max\<close> tags, the second is an
  insertion sort in place. Inserting \<open>key\<close> into the sorted prefix \<open>out[0..i)\<close> moves the larger
  elements up from the right end, which is \<open>insert_key\<close> on the reversed prefix.
\<close>

fun collect_tags :: "FragmentSlot list \<Rightarrow> nat \<Rightarrow> u16 list" where
  "collect_tags [] room = []"
| "collect_tags (s # ss) room =
    (if room = 0 then []
     else if \<not> fs_sent s \<or> fs_len s = 0 \<or> fs_seq_tag s = UINT16_MAX then collect_tags ss room
     else fs_seq_tag s # collect_tags ss (room - 1))"

fun insert_key :: "u16 \<Rightarrow> u16 list \<Rightarrow> u16 list" where
  "insert_key key [] = [key]"
| "insert_key key (x # rprefix) = (if key < x then x # insert_key key rprefix else key # x # rprefix)"

fun insertion_sort :: "u16 list \<Rightarrow> u16 list \<Rightarrow> u16 list" where
  "insertion_sort rprefix [] = rev rprefix"
| "insertion_sort rprefix (key # rest) = insertion_sort (insert_key key rprefix) rest"

definition snapshot_pending_sequences :: "u16 \<Rightarrow> SelectiveRepeat \<Rightarrow> u16 list" where
  "snapshot_pending_sequences mx a = (case sr_window a of
      None \<Rightarrow> []
    | Some w \<Rightarrow>
        if mx = 0 then []
        else insertion_sort [] (collect_tags (take (unat (sr_window_size a)) w) (unat mx)))"

definition get_send_time :: "u16 \<Rightarrow> SelectiveRepeat \<Rightarrow> u32" where
  "get_send_time sq a = (case sr_window a of
      None \<Rightarrow> 0
    | Some w \<Rightarrow> let slot = w ! slot_idx a sq in
        if \<not> fs_sent slot \<or> fs_seq_tag slot \<noteq> sq then 0 else fs_send_time_ms slot)"

definition set_slot :: "nat \<Rightarrow> FragmentSlot \<Rightarrow> SelectiveRepeat \<Rightarrow> SelectiveRepeat" where
  "set_slot i s a = a\<lparr>sr_window := map_option (\<lambda>w. w[i := s]) (sr_window a)\<rparr>"

text \<open>\<open>send_fragment\<close>; a null \<open>data\<close> pointer is \<open>None\<close>.\<close>

definition send_fragment ::
  "'w SendCallback \<Rightarrow> u32 \<Rightarrow> u16 \<Rightarrow> bytes option \<Rightarrow> SelectiveRepeat \<Rightarrow> 'w \<Rightarrow> int \<times> SelectiveRepeat \<times> 'w" where
  "send_fragment cb now sq data a w = (case (sr_window a, data) of
      (Some win, Some bs) \<Rightarrow>
        if length bs = 0 then (-1, a, w)
        else if ESPNOW_MAX_PAYLOAD < length bs then (-1, a, w)
        else let idx = slot_idx a sq; slot = win ! idx; prev_next_seq = sr_next_seq a in
          if fs_sent slot \<and> fs_seq_tag slot = sq then (0, a, w)
          else if fs_sent slot \<and> fs_seq_tag slot \<noteq> sq then (-1, a, w)
          else if sender_window_full a then (-1, a, w)
          else
            let slot' = slot\<lparr>fs_data := write_at 0 bs (fs_data slot), fs_len := length bs,
                  fs_send_time_ms := now, fs_seq_tag := sq, fs_acked := False, fs_sent := True,
                  fs_retries := 0\<rparr>;
                a1 = (set_slot idx slot' a)\<lparr>sr_in_flight := sr_in_flight a + 1,
                  sr_next_seq := (if sr_next_seq a \<le> sq then sq + 1 else sr_next_seq a)\<rparr>;
                (rc, w1) = call_cb cb (sr_peer_addr a) DATA sq bs w
            in if rc < 0 then
                 (-1, recompute_sender_bounds
                   ((set_slot idx (clear_slot slot') a1)\<lparr>sr_next_seq := prev_next_seq,
                     sr_in_flight := (if 0 < sr_in_flight a1 then sr_in_flight a1 - 1 else sr_in_flight a1)\<rparr>), w1)
               else (0, recompute_sender_bounds a1, w1)
    | _ \<Rightarrow> (-1, a, w))"

text \<open>The RTT sample of \<open>handle_ack\<close>: smoothed RTT, variance and the clamped RTO.\<close>

definition clamp_rto :: "u32 \<Rightarrow> u32 \<Rightarrow> u32" where
  "clamp_rto floor rto =
    (let rto = (if rto < RTO_MIN_MS then RTO_MIN_MS else rto);
         rto = (if rto < floor then floor else rto)
     in if RTO_MAX_MS < rto then RTO_MAX_MS else rto)"

definition rtt_sample :: "u32 \<Rightarrow> SelectiveRepeat \<Rightarrow> SelectiveRepeat" where
  "rtt_sample rtt a =
    (let a1 = (if \<not> sr_rtt_initialized a
               then a\<lparr>sr_srtt_ms := rtt, sr_rttvar_ms := rtt div 2, sr_rtt_initialized := True\<rparr>
               else let delta = rtt - sr_srtt_ms a;
                        abs_delta = (if sint delta < 0 then - delta else delta)
                    in a\<lparr>sr_rttvar_ms := (3 * sr_rttvar_ms a + abs_delta) div 4,
                         sr_srtt_ms := (7 * sr_srtt_ms a + rtt) div 8\<rparr>)
     in a1\<lparr>sr_rto_ms := clamp_rto (sr_min_rto_floor_ms a1) (sr_srtt_ms a1 + 4 * sr_rttvar_ms a1)\<rparr>)"

definition handle_ack :: "u32 \<Rightarrow> u16 \<Rightarrow> SelectiveRepeat \<Rightarrow> SelectiveRepeat" where
  "handle_ack now sq a = (case sr_window a of
      None \<Rightarrow> a
    | Some win \<Rightarrow>
        let idx = slot_idx a sq; slot = win ! idx in
        if \<not> fs_sent slot \<or> fs_seq_tag slot \<noteq> sq \<or> fs_len slot = 0 then a
        else
          let a1 = (if fs_sent slot \<and> \<not> fs_acked slot \<and> fs_retries slot = 0
                    then rtt_sample (now - fs_send_time_ms slot) a else a);
              a2 = (if fs_sent slot \<and> \<not> fs_acked slot \<and> 0 < sr_in_flight a1
                    then a1\<lparr>sr_in_flight := sr_in_flight a1 - 1\<rparr> else a1)
          in recompute_sender_bounds (set_slot idx (clear_slot slot) a2))"

definition handle_nack ::
  "'w SendCallback \<Rightarrow> u32 \<Rightarrow> u16 \<Rightarrow> SelectiveRepeat \<Rightarrow> 'w \<Rightarrow> SelectiveRepeat \<times> 'w" where
  "handle_nack cb now sq a w = (case sr_window a of
      None \<Rightarrow> (a, w)
    | Some win \<Rightarrow>
        let idx = slot_idx a sq; slot = win ! idx in
        if \<not> fs_sent slot \<or> fs_seq_tag slot \<noteq> sq \<or> fs_len slot = 0 then (a, w)
        else if \<not> fs_sent slot \<or> fs_acked slot \<or> fs_len slot = 0 then (a, w)
        else
          let (rc, w1) = call_cb cb (sr_peer_addr a) DATA sq (take (fs_len slot) (fs_data slot)) w in
          if rc = TRANSPORT_SEND_BACKPRESSURE then (set_slot idx (slot\<lparr>fs_send_time_ms := now\<rparr>) a, w1)
          else if rc < 0 then (a, w1)
          else
            let slot1 = slot\<lparr>fs_retries := fs_retries slot + 1\<rparr> in
            if MAX_RETRIES \<le> fs_retries slot1
            then ((set_slot idx slot1 a)\<lparr>sr_sender_failed := True\<rparr>, w1)
            else (set_slot idx (slot1\<lparr>fs_send_time_ms := now\<rparr>) a, w1))"

definition tick_backoff :: "SelectiveRepeat \<Rightarrow> FragmentSlot \<Rightarrow> u32" where
  "tick_backoff a slot =
    (let base_rto = (if sr_rtt_initialized a then sr_rto_ms a else sr_timeout_ms a);
         base_rto = (if base_rto < sr_min_rto_floor_ms a then sr_min_rto_floor_ms a else base_rto);
         backoff = push_bit (unat (fs_retries slot)) base_rto
     in if RTO_MAX_MS < backoff then RTO_MAX_MS else backoff)"

text \<open>The loop of \<open>tick\<close> over the slot indices; ending the recursion is \<open>break\<close>.\<close>

fun tick_loop :: "'w SendCallback \<Rightarrow> u32 \<Rightarrow> u8 \<Rightarrow> nat list \<Rightarrow> u8 \<Rightarrow> SelectiveRepeat \<Rightarrow> 'w \<Rightarrow>
    u8 \<times> SelectiveRepeat \<times> 'w" where
  "tick_loop cb now max_sends [] retx a w = (retx, a, w)"
| "tick_loop cb now max_sends (idx # idxs) retx a w =
    (let slot = the (sr_window a) ! idx in
     if \<not> fs_sent slot \<or> fs_acked slot \<or> fs_len slot = 0 \<or> fs_seq_tag slot = UINT16_MAX
     then tick_loop cb now max_sends idxs retx a w
     else if tick_backoff a slot \<le> now - fs_send_time_ms slot then
       if MAX_RETRIES \<le> fs_retries slot then tick_loop cb now max_sends idxs retx a w
       else if fs_len slot = 0
       then tick_loop cb now max_sends idxs retx (set_slot idx (slot\<lparr>fs_send_time_ms := now\<rparr>) a) w
       else if max_sends \<le> retx then (retx, a, w)
       else
         let (rc, w1) = call_cb cb (sr_peer_addr a) DATA (fs_seq_tag slot)
               (take (fs_len slot) (fs_data slot)) w in
         if rc = TRANSPORT_SEND_BACKPRESSURE
         then (retx, set_slot idx (slot\<lparr>fs_send_time_ms := now\<rparr>) a, w1)
         else if rc < 0 then (retx, a, w1)
         else tick_loop cb now max_sends idxs (retx + 1)
           (set_slot idx (slot\<lparr>fs_retries := fs_retries slot + 1, fs_send_time_ms := now\<rparr>) a) w1
     else tick_loop cb now max_sends idxs retx a w)"

definition tick :: "'w SendCallback \<Rightarrow> u32 \<Rightarrow> u8 \<Rightarrow> SelectiveRepeat \<Rightarrow> 'w \<Rightarrow> u8 \<times> SelectiveRepeat \<times> 'w" where
  "tick cb now max_sends a w = (case sr_window a of
      None \<Rightarrow> (0, a, w)
    | Some _ \<Rightarrow> tick_loop cb now max_sends [0..<unat (sr_window_size a)] 0 a w)"

definition set_peer_addr :: "u16 \<Rightarrow> SelectiveRepeat \<Rightarrow> SelectiveRepeat" where
  "set_peer_addr addr a = a\<lparr>sr_peer_addr := addr\<rparr>"

definition set_timeout :: "u32 \<Rightarrow> SelectiveRepeat \<Rightarrow> SelectiveRepeat" where
  "set_timeout t a = a\<lparr>sr_timeout_ms := t\<rparr>"

definition set_min_rto_floor :: "u32 \<Rightarrow> SelectiveRepeat \<Rightarrow> SelectiveRepeat" where
  "set_min_rto_floor t a = a\<lparr>sr_min_rto_floor_ms := t\<rparr>"

definition set_exit_stride :: "u8 \<Rightarrow> u8 \<Rightarrow> SelectiveRepeat \<Rightarrow> SelectiveRepeat" where
  "set_exit_stride stride offs a = a\<lparr>sr_exit_stride := stride, sr_exit_offset := offs\<rparr>"

section \<open>Invariant and abstraction\<close>

text \<open>
  \<open>pending a\<close> is the abstract state of the sender: the fragments sent and not yet acknowledged,
  by sequence number. \<open>sender_ok\<close> says that every occupied slot sits at the index of its
  sequence number with a non-empty payload that fits, that \<open>in_flight_\<close> counts the occupied
  slots, that \<open>base_seq_\<close> is up to date and that a measured RTO is within its bounds.
\<close>

definition pend_of :: "nat \<Rightarrow> FragmentSlot list \<Rightarrow> u16 \<Rightarrow> bytes option" where
  "pend_of ws w sq = (let s = w ! (unat sq mod ws) in
     if fs_sent s \<and> fs_seq_tag s = sq then Some (take (fs_len s) (fs_data s)) else None)"

definition pending :: "SelectiveRepeat \<Rightarrow> u16 \<Rightarrow> bytes option" where
  "pending a sq = (case sr_window a of None \<Rightarrow> None | Some w \<Rightarrow> pend_of (unat (sr_window_size a)) w sq)"

definition slot_wf :: "nat \<Rightarrow> nat \<Rightarrow> FragmentSlot \<Rightarrow> bool" where
  "slot_wf ws i s \<longleftrightarrow> length (fs_data s) = MAX_MTU \<and>
     (fs_sent s \<longrightarrow> \<not> fs_acked s \<and> 0 < fs_len s \<and> fs_len s \<le> ESPNOW_MAX_PAYLOAD \<and>
        unat (fs_seq_tag s) mod ws = i)"

definition window_wf :: "nat \<Rightarrow> FragmentSlot list \<Rightarrow> bool" where
  "window_wf ws w \<longleftrightarrow> length w = ARQ_WINDOW \<and> 0 < ws \<and> ws \<le> ARQ_WINDOW \<and>
     (\<forall>i < ARQ_WINDOW. slot_wf ws i (w ! i))"

definition rto_wf :: "SelectiveRepeat \<Rightarrow> bool" where
  "rto_wf a \<longleftrightarrow> (sr_rtt_initialized a \<longrightarrow> RTO_MIN_MS \<le> sr_rto_ms a \<and> sr_rto_ms a \<le> RTO_MAX_MS)"

definition sender_ok :: "SelectiveRepeat \<Rightarrow> bool" where
  "sender_ok a \<longleftrightarrow> (\<exists>w. sr_window a = Some w \<and> window_wf (unat (sr_window_size a)) w \<and>
     unat (sr_in_flight a) = length (filter fs_sent w)) \<and>
     sr_base_seq (recompute_sender_bounds a) = sr_base_seq a \<and> rto_wf a"

subsection \<open>Updating one slot\<close>

lemma window_wf_update:
  "window_wf ws w \<Longrightarrow> slot_wf ws i s \<Longrightarrow> window_wf ws (w[i := s])"
  by (auto simp: window_wf_def) (metis nth_list_update nth_list_update_neq)

lemma slot_wf_nth: "window_wf ws w \<Longrightarrow> i < ws \<Longrightarrow> slot_wf ws i (w ! i)"
  by (simp add: window_wf_def)

lemma idx_bound: "window_wf ws w \<Longrightarrow> unat (sq :: u16) mod ws < length w"
  by (auto simp: window_wf_def intro: less_le_trans [OF mod_less_divisor])

lemma clear_slot_sent [simp]: "\<not> fs_sent (clear_slot s)"
  by (simp add: clear_slot_def)

lemma slot_wf_clear: "slot_wf ws i s \<Longrightarrow> slot_wf ws j (clear_slot s)"
  by (simp add: slot_wf_def clear_slot_def)

definition same_view :: "FragmentSlot \<Rightarrow> FragmentSlot \<Rightarrow> bool" where
  "same_view s t \<longleftrightarrow> fs_data s = fs_data t \<and> fs_len s = fs_len t \<and> fs_seq_tag s = fs_seq_tag t \<and>
     fs_acked s = fs_acked t \<and> fs_sent s = fs_sent t"

lemma slot_wf_view: "same_view s t \<Longrightarrow> slot_wf ws i s = slot_wf ws i t"
  by (simp add: same_view_def slot_wf_def)

lemma pend_of_view:
  assumes "i < length w" and "same_view (w ! i) s"
  shows "pend_of ws (w[i := s]) = pend_of ws w"
  using assms by (auto simp: pend_of_def Let_def same_view_def fun_eq_iff nth_list_update)

lemma pend_of_clear:
  assumes wf: "window_wf ws w" and "\<forall>sq'. fs_sent (w ! (unat sq mod ws)) \<longrightarrow> fs_seq_tag (w ! (unat sq mod ws)) = sq"
  shows "pend_of ws (w[unat sq mod ws := clear_slot s]) = (pend_of ws w)(sq := None)"
  using idx_bound [OF wf, of sq] assms
  by (auto simp: pend_of_def Let_def clear_slot_def fun_eq_iff nth_list_update)

lemma pend_of_put:
  assumes wf: "window_wf ws w" and "\<not> fs_sent (w ! (unat sq mod ws))"
    and "fs_sent s" "fs_seq_tag s = sq" "take (fs_len s) (fs_data s) = bs"
  shows "pend_of ws (w[unat sq mod ws := s]) = (pend_of ws w)(sq \<mapsto> bs)"
  using idx_bound [OF wf, of sq] assms
  by (auto simp: pend_of_def Let_def fun_eq_iff nth_list_update)

subsection \<open>The lowest pending sequence number\<close>

definition tags :: "FragmentSlot list \<Rightarrow> u16 list" where
  "tags ss = map fs_seq_tag (filter (\<lambda>s. fs_sent s \<and> fs_len s \<noteq> 0 \<and> fs_seq_tag s \<noteq> UINT16_MAX) ss)"

lemma tags_simps [simp]:
  "tags [] = []"
  "tags (s # ss) = (if fs_sent s \<and> fs_len s \<noteq> 0 \<and> fs_seq_tag s \<noteq> UINT16_MAX
     then fs_seq_tag s # tags ss else tags ss)"
  by (simp_all add: tags_def)

lemma min_if_less: "min (t :: u16) l = (if t < l then t else l)"
  by (simp add: min_def order_le_less)

lemma lowest_pending_any:
  "lowest_pending ss (True, l) = (True, Min (set (l # tags ss)))"
  unfolding Min.set_eq_fold by (induction ss arbitrary: l) (simp_all add: min_if_less)

lemma lowest_pending_none:
  "lowest_pending ss (False, l) = (if tags ss = [] then (False, l) else (True, Min (set (tags ss))))"
  by (induction ss) (simp_all add: lowest_pending_any)

lemmas lowest_pending_tags = lowest_pending_any lowest_pending_none

lemma recompute_base:
  "sr_window a = Some w \<Longrightarrow> sr_base_seq (recompute_sender_bounds a) =
     (let ts = tags (take (unat (sr_window_size a)) w) in
      if ts = [] then sr_next_seq a else Min (set ts))"
  by (auto simp: recompute_sender_bounds_def lowest_pending_tags Let_def)

lemma recompute_fields [simp]:
  "sr_window (recompute_sender_bounds a) = sr_window a"
  "sr_window_size (recompute_sender_bounds a) = sr_window_size a"
  "sr_in_flight (recompute_sender_bounds a) = sr_in_flight a"
  "sr_next_seq (recompute_sender_bounds a) = sr_next_seq a"
  "sr_rto_ms (recompute_sender_bounds a) = sr_rto_ms a"
  "sr_rtt_initialized (recompute_sender_bounds a) = sr_rtt_initialized a"
  "sr_peer_addr (recompute_sender_bounds a) = sr_peer_addr a"
  "sr_sender_failed (recompute_sender_bounds a) = sr_sender_failed a"
  "sr_timeout_ms (recompute_sender_bounds a) = sr_timeout_ms a"
  "sr_min_rto_floor_ms (recompute_sender_bounds a) = sr_min_rto_floor_ms a"
  by (auto simp: recompute_sender_bounds_def split: option.splits prod.splits)

lemma recompute_idem [simp]:
  "recompute_sender_bounds (recompute_sender_bounds a) = recompute_sender_bounds a"
  by (auto simp: recompute_sender_bounds_def split: option.splits prod.splits)

lemma rto_wf_recompute [simp]: "rto_wf (recompute_sender_bounds a) = rto_wf a"
  by (simp add: rto_wf_def)

lemma pending_recompute [simp]: "pending (recompute_sender_bounds a) = pending a"
  by (rule ext) (simp only: pending_def recompute_fields)

lemma tags_pend_of:
  assumes wf: "window_wf ws w"
  shows "set (tags (take ws w)) = dom (pend_of ws w) - {UINT16_MAX}"
proof (intro set_eqI iffI)
  fix sq assume "sq \<in> set (tags (take ws w))"
  then obtain i where i: "i < ws" "i < length w" "fs_sent (w ! i)" "fs_seq_tag (w ! i) = sq" "sq \<noteq> UINT16_MAX"
    by (auto simp: tags_def in_set_conv_nth)
  with slot_wf_nth [OF wf, of i] have "unat sq mod ws = i" by (auto simp: slot_wf_def)
  with i show "sq \<in> dom (pend_of ws w) - {UINT16_MAX}" by (auto simp: pend_of_def Let_def)
next
  fix sq assume sq: "sq \<in> dom (pend_of ws w) - {UINT16_MAX}"
  let ?i = "unat sq mod ws"
  have "?i < ws" using wf by (simp add: window_wf_def)
  then have "slot_wf ws ?i (w ! ?i)" "w ! ?i \<in> set (take ws w)"
    using slot_wf_nth [OF wf] idx_bound [OF wf, of sq] by (auto simp: in_set_conv_nth)
  with sq show "sq \<in> set (tags (take ws w))"
    by (force simp: tags_def pend_of_def Let_def slot_wf_def split: if_splits)
qed

lemma base_is_lowest:
  assumes "sender_ok a"
  shows "sr_base_seq a = (let S = dom (pending a) - {UINT16_MAX} in
    if S = {} then sr_next_seq a else Min S)"
proof -
  obtain w where w: "sr_window a = Some w" "window_wf (unat (sr_window_size a)) w"
    and b: "sr_base_seq (recompute_sender_bounds a) = sr_base_seq a"
    using assms by (auto simp: sender_ok_def)
  have "dom (pending a) = dom (pend_of (unat (sr_window_size a)) w)"
    using w by (auto simp: pending_def)
  then have "dom (pending a) - {UINT16_MAX} = set (tags (take (unat (sr_window_size a)) w))"
    unfolding tags_pend_of [OF w(2)] by simp
  with recompute_base [OF w(1)] show ?thesis unfolding b by (simp add: Let_def)
qed

subsection \<open>The invariant under slot updates\<close>

lemma tags_concat:
  "tags ss = concat (map (\<lambda>s. if fs_sent s \<and> fs_len s \<noteq> 0 \<and> fs_seq_tag s \<noteq> UINT16_MAX
     then [fs_seq_tag s] else []) ss)"
  by (induction ss) auto

lemma tags_update:
  assumes "i < length w" and "tags [s] = tags [w ! i]"
  shows "tags (take n (w[i := s])) = tags (take n w)"
proof (cases "i < n")
  case True
  let ?tg = "\<lambda>s. if fs_sent s \<and> fs_len s \<noteq> 0 \<and> fs_seq_tag s \<noteq> UINT16_MAX then [fs_seq_tag s] else []"
  have "?tg s = ?tg (w ! i)" using assms(2) by (simp add: tags_concat)
  then have "map ?tg ((take n w)[i := s]) = map ?tg (take n w)"
    using True assms(1) by (simp add: map_update list_update_same_conv)
  then show ?thesis by (simp add: tags_concat take_update_swap)
next
  case False
  then show ?thesis by (simp add: take_update_cancel)
qed

lemma tags_view: "i < length w \<Longrightarrow> same_view (w ! i) s \<Longrightarrow> tags (take n (w[i := s])) = tags (take n w)"
  by (rule tags_update) (auto simp: same_view_def)

lemma set_slot_fields [simp]:
  "sr_window (set_slot i s a) = map_option (\<lambda>w. w[i := s]) (sr_window a)"
  "sr_window_size (set_slot i s a) = sr_window_size a"
  "sr_in_flight (set_slot i s a) = sr_in_flight a"
  "sr_next_seq (set_slot i s a) = sr_next_seq a"
  "sr_base_seq (set_slot i s a) = sr_base_seq a"
  "sr_rto_ms (set_slot i s a) = sr_rto_ms a"
  "sr_rtt_initialized (set_slot i s a) = sr_rtt_initialized a"
  "sr_peer_addr (set_slot i s a) = sr_peer_addr a"
  "sr_timeout_ms (set_slot i s a) = sr_timeout_ms a"
  "sr_min_rto_floor_ms (set_slot i s a) = sr_min_rto_floor_ms a"
  by (simp_all add: set_slot_def)

lemma rto_wf_set_slot [simp]: "rto_wf (set_slot i s a) = rto_wf a"
  by (simp add: rto_wf_def)

lemma view_update:
  assumes ok: "sender_ok a" and w: "sr_window a = Some w" and i: "i < length w" and v: "same_view (w ! i) s"
  shows "sender_ok (set_slot i s a)" and "pending (set_slot i s a) = pending a"
proof -
  have wf: "window_wf (unat (sr_window_size a)) w" and fl: "unat (sr_in_flight a) = length (filter fs_sent w)"
    and b: "sr_base_seq (recompute_sender_bounds a) = sr_base_seq a" and r: "rto_wf a"
    using ok w by (auto simp: sender_ok_def)
  have "slot_wf (unat (sr_window_size a)) i s"
    using wf i unfolding window_wf_def slot_wf_view [OF v, symmetric] by simp
  then have "window_wf (unat (sr_window_size a)) (w[i := s])" by (rule window_wf_update [OF wf])
  moreover have "length (filter fs_sent (w[i := s])) = length (filter fs_sent w)"
    using count_update [OF i, of fs_sent s] v by (auto simp: same_view_def split: if_splits)
  moreover have "sr_base_seq (recompute_sender_bounds (set_slot i s a)) = sr_base_seq a"
    using recompute_base [of "set_slot i s a" "w[i := s]"] recompute_base [OF w] tags_view [OF i v] b w
    by (simp add: Let_def)
  ultimately show "sender_ok (set_slot i s a)" using w fl r by (simp add: sender_ok_def)
  show "pending (set_slot i s a) = pending a"
    using w pend_of_view [OF i v] by (simp add: pending_def fun_eq_iff)
qed

text \<open>\<open>recompute_sender_bounds\<close> restores the invariant once the window and the counter fit.\<close>

lemma sender_ok_recompute:
  assumes "sr_window a = Some w" and "window_wf (unat (sr_window_size a)) w"
    and "unat (sr_in_flight a) = length (filter fs_sent w)" and "rto_wf a"
  shows "sender_ok (recompute_sender_bounds a)"
  using assms by (simp add: sender_ok_def)

lemma clear_update:
  assumes ok: "sender_ok a" and w: "sr_window a = Some w" and i: "i < length w"
    and sent: "fs_sent (w ! i)" and rto: "rto_wf a'"
    and a': "sr_window a' = Some (w[i := clear_slot (w ! i)])" "sr_window_size a' = sr_window_size a"
      "sr_in_flight a' = sr_in_flight a - 1"
  shows "sender_ok (recompute_sender_bounds a')"
    and "pending (recompute_sender_bounds a') = (pending a)(fs_seq_tag (w ! i) := None)"
    and "0 < sr_in_flight a"
proof -
  have wf: "window_wf (unat (sr_window_size a)) w" and fl: "unat (sr_in_flight a) = length (filter fs_sent w)"
    using ok w by (auto simp: sender_ok_def)
  have s: "slot_wf (unat (sr_window_size a)) i (w ! i)" using wf i by (simp add: window_wf_def)
  have cnt: "length (filter fs_sent (w[i := clear_slot (w ! i)])) + 1 = length (filter fs_sent w)"
    using count_update [OF i, of fs_sent "clear_slot (w ! i)"] sent by simp
  then have "0 < unat (sr_in_flight a)" using fl by linarith
  then show pos: "0 < sr_in_flight a" by (simp add: word_less_nat_alt)
  have "unat (sr_in_flight a - 1) = unat (sr_in_flight a) - 1"
    using pos by (intro unat_minus_one) (simp add: word_gt_0)
  then have "unat (sr_in_flight a') = length (filter fs_sent (w[i := clear_slot (w ! i)]))"
    using cnt fl a' by simp
  then show "sender_ok (recompute_sender_bounds a')"
    using a' rto window_wf_update [OF wf slot_wf_clear [OF s], of i] by (intro sender_ok_recompute) auto
  have "unat (fs_seq_tag (w ! i)) mod unat (sr_window_size a) = i" using s sent by (simp add: slot_wf_def)
  then show "pending (recompute_sender_bounds a') = (pending a)(fs_seq_tag (w ! i) := None)"
    using pend_of_clear [OF wf, of "fs_seq_tag (w ! i)"] a' w by (simp add: pending_def fun_eq_iff)
qed

section \<open>What each operation does\<close>

lemma tags_unsent: "\<forall>s \<in> set ss. \<not> fs_sent s \<Longrightarrow> tags ss = []"
  by (induction ss) auto

lemma sender_ok_reset:
  assumes "sr_window a \<noteq> None" and "0 < sr_window_size a" and "sr_window_size a \<le> 64"
  shows "sender_ok (reset_sender a)" and "pending (reset_sender a) = Map.empty"
    and "sr_base_seq (reset_sender a) = 0" and "sr_next_seq (reset_sender a) = 0"
proof -
  let ?w = "replicate ARQ_WINDOW (zero_slot\<lparr>fs_seq_tag := UINT16_MAX\<rparr>)"
  have w: "sr_window (reset_sender a) = Some ?w" using assms(1) by (auto simp: reset_sender_def)
  have ws: "sr_window_size (reset_sender a) = sr_window_size a" by (simp add: reset_sender_def)
  have unsent: "\<forall>s \<in> set ?w. \<not> fs_sent s" by (simp add: zero_slot_def)
  have "\<forall>s \<in> set (take (unat (sr_window_size a)) ?w). \<not> fs_sent s"
    using unsent by (metis in_set_takeD)
  then have "tags (take (unat (sr_window_size a)) ?w) = []" by (rule tags_unsent)
  then have "sr_base_seq (recompute_sender_bounds (reset_sender a)) = sr_base_seq (reset_sender a)"
    unfolding recompute_base [OF w] ws by (simp add: Let_def reset_sender_def)
  moreover have "window_wf (unat (sr_window_size a)) ?w"
    using assms(2,3) by (auto simp: window_wf_def slot_wf_def zero_slot_def word_le_nat_alt unat_gt_0 word_gt_0)
  moreover have "filter fs_sent ?w = []" using unsent by (simp add: zero_slot_def)
  ultimately show "sender_ok (reset_sender a)"
    unfolding sender_ok_def ws using w by (simp add: reset_sender_def rto_wf_def)
  have "\<not> fs_sent (?w ! (unat sq mod unat (sr_window_size a)))" for sq :: u16
  proof -
    have "unat sq mod unat (sr_window_size a) < 64"
      using assms(2,3) by (auto simp: word_le_nat_alt word_less_nat_alt intro: less_le_trans [OF mod_less_divisor])
    then show ?thesis by (simp add: zero_slot_def)
  qed
  then show "pending (reset_sender a) = Map.empty"
    unfolding pending_def w ws by (simp add: pend_of_def Let_def)
qed (simp_all add: reset_sender_def)

lemma sender_ok_init:
  assumes "sr_init alloc_ok ws t a = (True, a')" and "0 < ws"
  shows "sender_ok a'" and "pending a' = Map.empty" and "sr_window_size a' = min ws 64"
    and "sr_base_seq a' = 0" and "sr_next_seq a' = 0"
proof -
  let ?b = "a\<lparr>sr_window_size := min ws 64, sr_timeout_ms := t\<rparr>"
  have m: "(if of_nat ARQ_WINDOW < ws then of_nat ARQ_WINDOW else ws) = min ws 64" by (auto simp: min_def)
  have "a' = reset_sender ?b \<and> sr_window ?b \<noteq> None \<or>
      a' = reset_sender (?b\<lparr>sr_window := Some (replicate ARQ_WINDOW zero_slot)\<rparr>)"
    using assms(1) unfolding sr_init_def m by (auto simp: Let_def split: option.splits if_splits)
  then obtain b where b: "a' = reset_sender b" "sr_window b \<noteq> None" "sr_window_size b = min ws 64"
    by auto
  moreover have "0 < min ws (64 :: u8)" "min ws (64 :: u8) \<le> 64" using assms(2) by (auto simp: min_def)
  ultimately show "sender_ok a'" "pending a' = Map.empty" "sr_base_seq a' = 0" "sr_next_seq a' = 0"
    using sender_ok_reset [of b] by auto
  show "sr_window_size a' = min ws 64" using b by (simp add: reset_sender_def)
qed

lemma sender_okD:
  assumes "sender_ok a"
  obtains w where "sr_window a = Some w" "window_wf (unat (sr_window_size a)) w"
    "unat (sr_in_flight a) = length (filter fs_sent w)"
    "sr_base_seq (recompute_sender_bounds a) = sr_base_seq a" "rto_wf a"
  using assms by (auto simp: sender_ok_def)

lemma slot_idx_bound: "sender_ok a \<Longrightarrow> sr_window a = Some w \<Longrightarrow> slot_idx a sq < length w"
  by (auto simp: sender_ok_def slot_idx_def idx_bound)

lemma pending_slot:
  "sr_window a = Some w \<Longrightarrow> pending a sq =
     (if fs_sent (w ! slot_idx a sq) \<and> fs_seq_tag (w ! slot_idx a sq) = sq
      then Some (take (fs_len (w ! slot_idx a sq)) (fs_data (w ! slot_idx a sq))) else None)"
  by (simp add: pending_def pend_of_def slot_idx_def Let_def)

lemma in_flight_suc:
  assumes "sender_ok a" and "\<not> sender_window_full a"
  shows "unat (sr_in_flight a + 1) = unat (sr_in_flight a) + 1"
proof -
  have "unat (sr_in_flight a) < unat (sr_window_size a)"
    using assms(2) by (simp add: sender_window_full_def word_less_nat_alt not_le)
  also have "\<dots> < 256" by simp
  finally show ?thesis by (simp add: unat_word_ariths)
qed

text \<open>What a new fragment looks like in its slot, before the callback is asked to send it.\<close>

definition filled_slot :: "u32 \<Rightarrow> u16 \<Rightarrow> bytes \<Rightarrow> FragmentSlot \<Rightarrow> FragmentSlot" where
  "filled_slot now sq bs slot = slot\<lparr>fs_data := write_at 0 bs (fs_data slot), fs_len := length bs,
     fs_send_time_ms := now, fs_seq_tag := sq, fs_acked := False, fs_sent := True, fs_retries := 0\<rparr>"

lemma slot_wf_filled:
  assumes "slot_wf ws i slot" and "bs \<noteq> []" and "length bs \<le> ESPNOW_MAX_PAYLOAD" and "unat sq mod ws = i"
  shows "slot_wf ws i (filled_slot now sq bs slot)"
    and "take (fs_len (filled_slot now sq bs slot)) (fs_data (filled_slot now sq bs slot)) = bs"
  using assms by (auto simp: slot_wf_def filled_slot_def write_at_def)

lemma send_fragment_new:
  assumes ok: "sender_ok a" and win: "sr_window a = Some win"
    and free: "\<not> fs_sent (win ! slot_idx a sq)" and room: "\<not> sender_window_full a"
    and bs: "bs \<noteq> []" "length bs \<le> ESPNOW_MAX_PAYLOAD"
    and a1: "a1 = (set_slot (slot_idx a sq) (filled_slot now sq bs (win ! slot_idx a sq)) a)
        \<lparr>sr_in_flight := sr_in_flight a + 1, sr_next_seq := nx\<rparr>"
  shows "sender_ok (recompute_sender_bounds a1)"
    and "pending (recompute_sender_bounds a1) = (pending a)(sq \<mapsto> bs)"
proof -
  let ?i = "slot_idx a sq" and ?ws = "unat (sr_window_size a)"
  let ?s = "filled_slot now sq bs (win ! ?i)"
  have wf: "window_wf ?ws win" and fl: "unat (sr_in_flight a) = length (filter fs_sent win)" and r: "rto_wf a"
    using ok win by (auto simp: sender_ok_def)
  have i: "?i < length win" using slot_idx_bound [OF ok win] .
  have si: "slot_wf ?ws ?i (win ! ?i)" using wf i by (simp add: window_wf_def)
  have im: "unat sq mod ?ws = ?i" by (simp add: slot_idx_def)
  note f = slot_wf_filled [OF si bs im, of now]
  have "length (filter fs_sent (win[?i := ?s])) = length (filter fs_sent win) + 1"
    using count_update [OF i, of fs_sent ?s] free by (simp add: filled_slot_def)
  then have "unat (sr_in_flight a1) = length (filter fs_sent (win[?i := ?s]))"
    using fl in_flight_suc [OF ok room] by (simp add: a1)
  then show "sender_ok (recompute_sender_bounds a1)"
    using win window_wf_update [OF wf f(1)] r
    by (intro sender_ok_recompute [of _ "win[?i := ?s]"]) (auto simp: a1 rto_wf_def)
  show "pending (recompute_sender_bounds a1) = (pending a)(sq \<mapsto> bs)"
    using pend_of_put [OF wf, of sq ?s bs] free f(2) win
    by (auto simp: pending_def a1 fun_eq_iff slot_idx_def filled_slot_def)
qed

lemma send_fragment_rollback:
  assumes ok: "sender_ok a" and win: "sr_window a = Some win"
    and free: "\<not> fs_sent (win ! slot_idx a sq)"
    and s: "slot_wf (unat (sr_window_size a)) (slot_idx a sq) s"
    and a2: "sr_window a2 = Some (win[slot_idx a sq := clear_slot s])" "sr_window_size a2 = sr_window_size a"
      "sr_in_flight a2 = sr_in_flight a" "sr_next_seq a2 = sr_next_seq a" "rto_wf a2"
  shows "sender_ok (recompute_sender_bounds a2)" and "pending (recompute_sender_bounds a2) = pending a"
    and "sr_base_seq (recompute_sender_bounds a2) = sr_base_seq a"
proof -
  let ?i = "slot_idx a sq" and ?ws = "unat (sr_window_size a)"
  have wf: "window_wf ?ws win" and fl: "unat (sr_in_flight a) = length (filter fs_sent win)"
    and b: "sr_base_seq (recompute_sender_bounds a) = sr_base_seq a"
    using ok win by (auto simp: sender_ok_def)
  have i: "?i < length win" using slot_idx_bound [OF ok win] .
  have "length (filter fs_sent (win[?i := clear_slot s])) = length (filter fs_sent win)"
    using count_update [OF i, of fs_sent "clear_slot s"] free by simp
  then show "sender_ok (recompute_sender_bounds a2)"
    using a2 fl window_wf_update [OF wf slot_wf_clear [OF s]]
    by (intro sender_ok_recompute [of _ "win[?i := clear_slot s]"]) auto
  have "pend_of ?ws (win[?i := clear_slot s]) = pend_of ?ws win"
    using pend_of_clear [OF wf, of sq s] free by (auto simp: slot_idx_def pend_of_def fun_eq_iff)
  then show "pending (recompute_sender_bounds a2) = pending a"
    using a2 win by (simp add: pending_def fun_eq_iff)
  have "tags (take ?ws (win[?i := clear_slot s])) = tags (take ?ws win)"
    using i free by (intro tags_update) auto
  then show "sr_base_seq (recompute_sender_bounds a2) = sr_base_seq a"
    using recompute_base [OF a2(1)] recompute_base [OF win] a2 b by (simp add: Let_def)
qed

lemma send_fragment_unfold:
  fixes now :: u32
  assumes "sr_window a = Some win" and "bs \<noteq> []" and "length bs \<le> ESPNOW_MAX_PAYLOAD"
    and "\<not> fs_sent (win ! slot_idx a sq)" and "\<not> sender_window_full a"
    and "call_cb cb (sr_peer_addr a) DATA sq bs w = (r, w1)"
  defines "s \<equiv> filled_slot now sq bs (win ! slot_idx a sq)"
  defines "a1 \<equiv> (set_slot (slot_idx a sq) s a)\<lparr>sr_in_flight := sr_in_flight a + 1,
    sr_next_seq := (if sr_next_seq a \<le> sq then sq + 1 else sr_next_seq a)\<rparr>"
  shows "send_fragment cb now sq (Some bs) a w =
    (if r < 0 then
       (-1, recompute_sender_bounds ((set_slot (slot_idx a sq) (clear_slot s) a1)\<lparr>sr_next_seq := sr_next_seq a,
          sr_in_flight := (if 0 < sr_in_flight a1 then sr_in_flight a1 - 1 else sr_in_flight a1)\<rparr>), w1)
     else (0, recompute_sender_bounds a1, w1))"
  using assms(1-6) unfolding send_fragment_def a1_def s_def filled_slot_def by (simp add: Let_def)

definition send_result ::
  "'w SendCallback \<Rightarrow> u16 \<Rightarrow> bytes \<Rightarrow> SelectiveRepeat \<Rightarrow> 'w \<Rightarrow> int \<Rightarrow> SelectiveRepeat \<Rightarrow> 'w \<Rightarrow> bool" where
  "send_result cb sq bs a w rc a' w' \<longleftrightarrow>
     rc = 0 \<and> pending a sq \<noteq> None \<and> a' = a \<and> w' = w \<or>
     rc = 0 \<and> pending a sq = None \<and> pending a' = (pending a)(sq \<mapsto> bs) \<and>
       (\<exists>r \<ge> 0. call_cb cb (sr_peer_addr a) DATA sq bs w = (r, w')) \<or>
     rc = -1 \<and> pending a' = pending a \<and> sr_next_seq a' = sr_next_seq a \<and>
       sr_in_flight a' = sr_in_flight a \<and> sr_base_seq a' = sr_base_seq a \<and>
       (w' = w \<or> w' = snd (call_cb cb (sr_peer_addr a) DATA sq bs w))"

lemma send_fragment_spec:
  assumes ok: "sender_ok a" and sf: "send_fragment cb now sq (Some bs) a w = (rc, a', w')"
  shows "sender_ok a' \<and> send_result cb sq bs a w rc a' w' \<and>
    sr_peer_addr a' = sr_peer_addr a \<and> sr_window_size a' = sr_window_size a"
proof -
  obtain win where win: "sr_window a = Some win" using ok by (auto simp: sender_ok_def)
  let ?i = "slot_idx a sq"
  let ?slot = "win ! ?i"
  let ?s = "filled_slot now sq bs ?slot"
  have len: "?i < length win" using slot_idx_bound [OF ok win] .
  have wf: "slot_wf (unat (sr_window_size a)) ?i ?slot"
    using ok win len by (auto simp: sender_ok_def window_wf_def)
  consider (refused) "bs = [] \<or> ESPNOW_MAX_PAYLOAD < length bs \<or> fs_sent ?slot \<or> sender_window_full a"
    | (new) "bs \<noteq> []" "length bs \<le> ESPNOW_MAX_PAYLOAD" "\<not> fs_sent ?slot" "\<not> sender_window_full a"
    by fastforce
  then show ?thesis
  proof cases
    case refused
    then have "a' = a \<and> w' = w \<and> (rc = 0 \<and> fs_sent ?slot \<and> fs_seq_tag ?slot = sq \<or> rc = -1)"
      using sf win by (auto simp: send_fragment_def Let_def split: if_splits)
    with ok show ?thesis using pending_slot [OF win, of sq] by (auto simp: send_result_def)
  next
    case new
    obtain r w1 where r: "call_cb cb (sr_peer_addr a) DATA sq bs w = (r, w1)" by fastforce
    define a1 where "a1 = (set_slot ?i ?s a)\<lparr>sr_in_flight := sr_in_flight a + 1,
      sr_next_seq := (if sr_next_seq a \<le> sq then sq + 1 else sr_next_seq a)\<rparr>"
    define a2 where "a2 = (set_slot ?i (clear_slot ?s) a1)\<lparr>sr_next_seq := sr_next_seq a,
      sr_in_flight := (if 0 < sr_in_flight a1 then sr_in_flight a1 - 1 else sr_in_flight a1)\<rparr>"
    have res: "(rc, a', w') = (if r < 0 then (-1, recompute_sender_bounds a2, w1)
        else (0, recompute_sender_bounds a1, w1))"
      using send_fragment_unfold [OF win new r, of now] sf by (simp add: a1_def a2_def)
    have none: "pending a sq = None" using pending_slot [OF win] new(3) by simp
    have "sr_in_flight a1 - 1 = sr_in_flight a" "sr_in_flight a1 \<noteq> 0"
      using in_flight_suc [OF ok new(4)] by (auto simp: a1_def)
    then have a2: "sr_window a2 = Some (win[?i := clear_slot ?s])" "sr_window_size a2 = sr_window_size a"
      "sr_in_flight a2 = sr_in_flight a" "sr_next_seq a2 = sr_next_seq a" "rto_wf a2"
      using ok win by (auto simp: a2_def a1_def sender_ok_def rto_wf_def word_gt_0)
    have same: "sr_peer_addr a1 = sr_peer_addr a" "sr_peer_addr a2 = sr_peer_addr a"
      "sr_window_size a1 = sr_window_size a" by (simp_all add: a1_def a2_def)
    have s: "slot_wf (unat (sr_window_size a)) ?i ?s"
      by (rule slot_wf_filled [OF wf new(1,2)]) (simp add: slot_idx_def)
    show ?thesis
    proof (cases "r < 0")
      case True
      with res a2 same r send_fragment_rollback [OF ok win new(3) s a2] show ?thesis
        by (simp add: send_result_def)
    next
      case False
      with res none r same send_fragment_new [OF ok win new(3,4,1,2) a1_def] show ?thesis
        by (auto simp: send_result_def)
    qed
  qed
qed

lemma rtt_sample_fields [simp]:
  "sr_window (rtt_sample r a) = sr_window a"
  "sr_window_size (rtt_sample r a) = sr_window_size a"
  "sr_in_flight (rtt_sample r a) = sr_in_flight a"
  "sr_next_seq (rtt_sample r a) = sr_next_seq a"
  "sr_peer_addr (rtt_sample r a) = sr_peer_addr a"
  "sr_min_rto_floor_ms (rtt_sample r a) = sr_min_rto_floor_ms a"
  by (simp_all add: rtt_sample_def Let_def)

lemma clamp_rto_bounds: "RTO_MIN_MS \<le> clamp_rto fl r" "clamp_rto fl r \<le> RTO_MAX_MS"
  by (auto simp: clamp_rto_def Let_def not_less)

lemma rto_wf_sample: "rto_wf (rtt_sample r a)"
  by (simp add: rtt_sample_def rto_wf_def Let_def clamp_rto_bounds)

lemma handle_ack_spec:
  assumes ok: "sender_ok a"
  shows "sender_ok (handle_ack now sq a)" and "pending (handle_ack now sq a) = (pending a)(sq := None)"
    and "sr_next_seq (handle_ack now sq a) = sr_next_seq a"
    and "sr_window_size (handle_ack now sq a) = sr_window_size a"
    and "sr_peer_addr (handle_ack now sq a) = sr_peer_addr a"
proof -
  obtain win where win: "sr_window a = Some win" using ok by (auto simp: sender_ok_def)
  let ?i = "slot_idx a sq"
  let ?slot = "win ! ?i"
  let ?a' = "handle_ack now sq a"
  have i: "?i < length win" using slot_idx_bound [OF ok win] .
  have wf: "slot_wf (unat (sr_window_size a)) ?i ?slot"
    using ok win i by (auto simp: sender_ok_def window_wf_def)
  have "sender_ok ?a' \<and> pending ?a' = (pending a)(sq := None) \<and> sr_next_seq ?a' = sr_next_seq a \<and>
    sr_window_size ?a' = sr_window_size a \<and> sr_peer_addr ?a' = sr_peer_addr a"
  proof (cases "fs_sent ?slot \<and> fs_seq_tag ?slot = sq")
    case False
    then have "?a' = a" using win by (auto simp: handle_ack_def Let_def)
    with False ok pending_slot [OF win, of sq] show ?thesis by (auto simp: fun_eq_iff)
  next
    case True
    define a1 where "a1 = (if fs_retries ?slot = 0 then rtt_sample (now - fs_send_time_ms ?slot) a else a)"
    define a2 where "a2 = (if 0 < sr_in_flight a1 then a1\<lparr>sr_in_flight := sr_in_flight a1 - 1\<rparr> else a1)"
    have a': "?a' = recompute_sender_bounds (set_slot ?i (clear_slot ?slot) a2)"
      using True wf win by (simp add: handle_ack_def Let_def a1_def a2_def slot_wf_def)
    have a1: "sr_window a1 = Some win" "sr_window_size a1 = sr_window_size a" "sr_in_flight a1 = sr_in_flight a"
      "rto_wf a1" "sr_next_seq a1 = sr_next_seq a" "sr_peer_addr a1 = sr_peer_addr a"
      using win ok rto_wf_sample by (auto simp: a1_def sender_ok_def)
    have pos: "0 < sr_in_flight a"
      by (rule clear_update(3) [OF ok win i, of
            "a1\<lparr>sr_window := Some (win[?i := clear_slot ?slot]), sr_in_flight := sr_in_flight a - 1\<rparr>"])
        (use True a1 in \<open>auto simp: rto_wf_def\<close>)
    then have b: "rto_wf (set_slot ?i (clear_slot ?slot) a2)"
      "sr_window (set_slot ?i (clear_slot ?slot) a2) = Some (win[?i := clear_slot ?slot])"
      "sr_window_size (set_slot ?i (clear_slot ?slot) a2) = sr_window_size a"
      "sr_in_flight (set_slot ?i (clear_slot ?slot) a2) = sr_in_flight a - 1"
      using a1 by (auto simp: a2_def rto_wf_def)
    have sent: "fs_sent ?slot" using True by simp
    have "sr_next_seq ?a' = sr_next_seq a" "sr_window_size ?a' = sr_window_size a" "sr_peer_addr ?a' = sr_peer_addr a"
      using a1 by (simp_all add: a' a2_def)
    with True clear_update(1,2) [OF ok win i sent b] show ?thesis unfolding a' by simp
  qed
  then show "sender_ok ?a'" "pending ?a' = (pending a)(sq := None)" "sr_next_seq ?a' = sr_next_seq a"
    "sr_window_size ?a' = sr_window_size a" "sr_peer_addr ?a' = sr_peer_addr a" by blast+
qed

text \<open>
  \<open>sends_ok\<close>: the callback keeps a property \<open>Q\<close> of the world as long as it is asked to send
  pending fragments, as data, to the peer.
\<close>

definition sends_ok :: "('w \<Rightarrow> bool) \<Rightarrow> 'w SendCallback \<Rightarrow> u16 \<Rightarrow> (u16 \<Rightarrow> bytes option) \<Rightarrow> bool" where
  "sends_ok Q cb peer P \<longleftrightarrow> (\<forall>sq bs w. P sq = Some bs \<longrightarrow> Q w \<longrightarrow> Q (snd (call_cb cb peer DATA sq bs w)))"

lemma handle_nack_spec:
  assumes ok: "sender_ok a" and Q: "sends_ok Q cb (sr_peer_addr a) (pending a)" "Q w"
    and h: "handle_nack cb now sq a w = (a', w')"
  shows "sender_ok a'" and "pending a' = pending a" and "Q w'"
    and "sr_next_seq a' = sr_next_seq a" and "sr_peer_addr a' = sr_peer_addr a"
    and "sr_window_size a' = sr_window_size a" and "pending a sq = None \<Longrightarrow> a' = a \<and> w' = w"
proof -
  obtain win where win: "sr_window a = Some win" using ok by (auto simp: sender_ok_def)
  let ?i = "slot_idx a sq"
  let ?slot = "win ! ?i"
  have i: "?i < length win" using slot_idx_bound [OF ok win] .
  have wf: "slot_wf (unat (sr_window_size a)) ?i ?slot"
    using ok win i by (auto simp: sender_ok_def window_wf_def)
  have sf: "sender_ok (b\<lparr>sr_sender_failed := x\<rparr>) = sender_ok b" "pending (b\<lparr>sr_sender_failed := x\<rparr>) = pending b" for b x
    by (auto simp: sender_ok_def rto_wf_def pending_def recompute_sender_bounds_def split: option.splits prod.splits)
  have v: "sender_ok (set_slot ?i (?slot\<lparr>fs_retries := r, fs_send_time_ms := t\<rparr>) a)"
      "pending (set_slot ?i (?slot\<lparr>fs_retries := r, fs_send_time_ms := t\<rparr>) a) = pending a" for r t
    by (rule view_update [OF ok win i]; simp add: same_view_def)+
  have v': "sender_ok (set_slot ?i (?slot\<lparr>fs_retries := r\<rparr>) a)"
      "pending (set_slot ?i (?slot\<lparr>fs_retries := r\<rparr>) a) = pending a"
      "sender_ok (set_slot ?i (?slot\<lparr>fs_send_time_ms := t\<rparr>) a)"
      "pending (set_slot ?i (?slot\<lparr>fs_send_time_ms := t\<rparr>) a) = pending a" for r t
    by (rule view_update [OF ok win i]; simp add: same_view_def)+
  have "sender_ok a' \<and> pending a' = pending a \<and> Q w' \<and> sr_next_seq a' = sr_next_seq a \<and>
    sr_peer_addr a' = sr_peer_addr a \<and> sr_window_size a' = sr_window_size a \<and>
    (pending a sq = None \<longrightarrow> a' = a \<and> w' = w)"
  proof (cases "fs_sent ?slot \<and> fs_seq_tag ?slot = sq")
    case False
    then have "a' = a" "w' = w" using h win by (auto simp: handle_nack_def Let_def)
    with ok Q(2) show ?thesis by simp
  next
    case True
    then have p: "pending a sq = Some (take (fs_len ?slot) (fs_data ?slot))" using pending_slot [OF win] by simp
    obtain r w1 where c: "call_cb cb (sr_peer_addr a) DATA sq (take (fs_len ?slot) (fs_data ?slot)) w = (r, w1)"
      by fastforce
    have "Q w1" using Q p c unfolding sends_ok_def by (metis snd_conv)
    with True h win wf c p ok v v' sf show ?thesis
      by (auto simp: handle_nack_def Let_def slot_wf_def split: if_splits)
  qed
  then show "sender_ok a'" "pending a' = pending a" "Q w'" "sr_next_seq a' = sr_next_seq a"
    "sr_peer_addr a' = sr_peer_addr a" "sr_window_size a' = sr_window_size a"
    "pending a sq = None \<Longrightarrow> a' = a \<and> w' = w" by blast+
qed

lemma tick_loop_spec:
  assumes "sender_ok a" and "sends_ok Q cb (sr_peer_addr a) (pending a)" and "Q w"
    and "set idxs \<subseteq> {..<ARQ_WINDOW}" and "retx \<le> max_sends"
    and "tick_loop cb now max_sends idxs retx a w = (n, a', w')"
  shows "sender_ok a' \<and> pending a' = pending a \<and> Q w' \<and> n \<le> max_sends \<and>
    unat n \<le> unat retx + length idxs \<and> sr_next_seq a' = sr_next_seq a \<and> sr_peer_addr a' = sr_peer_addr a \<and>
    sr_window_size a' = sr_window_size a"
  using assms
proof (induction idxs arbitrary: retx a w)
  case Nil
  then show ?case by simp
next
  case (Cons idx idxs)
  obtain win where win: "sr_window a = Some win" using Cons.prems(1) by (auto simp: sender_ok_def)
  let ?slot = "win ! idx"
  let ?pl = "take (fs_len ?slot) (fs_data ?slot)"
  have i: "idx < length win" and idxs: "set idxs \<subseteq> {..<ARQ_WINDOW}"
    using Cons.prems(1,4) win by (auto simp: sender_ok_def window_wf_def)
  have wf: "slot_wf (unat (sr_window_size a)) idx ?slot"
    using Cons.prems(1) win i by (auto simp: sender_ok_def window_wf_def)
  let ?act = "fs_sent ?slot \<and> \<not> fs_acked ?slot \<and> fs_len ?slot \<noteq> 0 \<and> fs_seq_tag ?slot \<noteq> UINT16_MAX \<and>
    tick_backoff a ?slot \<le> now - fs_send_time_ms ?slot \<and> fs_retries ?slot < MAX_RETRIES"
  note tl = Cons.prems(6)
  consider (skip) "\<not> ?act" | (full) ?act "max_sends \<le> retx" | (send) ?act "retx < max_sends" by fastforce
  then show ?case
  proof cases
    case skip
    then have "tick_loop cb now max_sends idxs retx a w = (n, a', w')"
      using tl win by (auto simp: Let_def not_le split: if_splits)
    with Cons.IH [OF Cons.prems(1-3) idxs Cons.prems(5)] show ?thesis by auto
  next
    case full
    then have "n = retx" "a' = a" "w' = w" using tl win by (auto simp: Let_def not_le split: if_splits)
    with Cons.prems show ?thesis by simp
  next
    case send
    obtain r w1 where c: "call_cb cb (sr_peer_addr a) DATA (fs_seq_tag ?slot) ?pl w = (r, w1)" by fastforce
    have "slot_idx a (fs_seq_tag ?slot) = idx" using wf send(1) by (simp add: slot_wf_def slot_idx_def)
    then have "pending a (fs_seq_tag ?slot) = Some ?pl" using pending_slot [OF win] send(1) by simp
    then have Q: "Q w1" using Cons.prems(2,3) c unfolding sends_ok_def by (metis snd_conv)
    let ?b = "set_slot idx (?slot\<lparr>fs_retries := fs_retries ?slot + 1, fs_send_time_ms := now\<rparr>) a"
    let ?c = "set_slot idx (?slot\<lparr>fs_send_time_ms := now\<rparr>) a"
    have b: "sender_ok ?b" "pending ?b = pending a" and b': "sender_ok ?c" "pending ?c = pending a"
      by (rule view_update [OF Cons.prems(1) win i]; simp add: same_view_def)+
    have sb: "sends_ok Q cb (sr_peer_addr ?b) (pending ?b)" using Cons.prems(2) b by simp
    have "Suc (unat retx) < 256"
      using send(2) unat_u8_bound [of max_sends] unfolding word_less_nat_alt by linarith
    then have u: "unat (retx + 1) = unat retx + 1" by (simp add: unat_word_ariths)
    then have le: "retx + 1 \<le> max_sends" using send(2) by (simp add: word_le_nat_alt word_less_nat_alt)
    consider (stop) "n = retx" "w' = w1" "a' = a \<or> a' = ?c"
      | (go) "tick_loop cb now max_sends idxs (retx + 1) ?b w1 = (n, a', w')"
      using tl win send c by (auto simp: Let_def split: if_splits)
    then show ?thesis
    proof cases
      case stop
      with Q b' Cons.prems send(2) show ?thesis by auto
    next
      case go
      with Cons.IH [OF b(1) sb Q idxs le] b(2) u show ?thesis by auto
    qed
  qed
qed

lemma tick_spec:
  assumes "sender_ok a" and "sends_ok Q cb (sr_peer_addr a) (pending a)" and "Q w"
    and "tick cb now max_sends a w = (n, a', w')"
  shows "sender_ok a' \<and> pending a' = pending a \<and> Q w' \<and> n \<le> max_sends \<and>
    n \<le> sr_window_size a \<and> sr_next_seq a' = sr_next_seq a \<and> sr_peer_addr a' = sr_peer_addr a \<and>
    sr_window_size a' = sr_window_size a"
proof -
  obtain win where win: "sr_window a = Some win" using assms(1) by (auto simp: sender_ok_def)
  have "unat (sr_window_size a) \<le> 64" using assms(1) by (auto simp: sender_ok_def window_wf_def)
  then have "set [0..<unat (sr_window_size a)] \<subseteq> {..<ARQ_WINDOW}" by auto
  moreover have "tick_loop cb now max_sends [0..<unat (sr_window_size a)] 0 a w = (n, a', w')"
    using assms(4) win by (simp add: tick_def)
  ultimately show ?thesis
    using tick_loop_spec [OF assms(1-3) _ _ \<open>tick_loop _ _ _ _ _ _ _ = _\<close>] by (simp add: word_le_nat_alt)
qed

section \<open>The contract of the sending window\<close>

text \<open>
  What the transfer engine relies on when it drives a window: the set of pending fragments
  changes only by an accepted send or by an acknowledgement, and what is handed to the network
  is the fragment being sent or a pending one.
\<close>

datatype arq_op = Op_send u32 u16 | Op_ack u32 u16 | Op_nack u32 u16 | Op_tick u32 u8

fun arq_step :: "(u32 \<Rightarrow> u16 \<Rightarrow> bytes option \<Rightarrow> 's \<Rightarrow> 'w \<Rightarrow> int \<times> 's \<times> 'w) \<Rightarrow> (u32 \<Rightarrow> u16 \<Rightarrow> 's \<Rightarrow> 's) \<Rightarrow>
    (u32 \<Rightarrow> u16 \<Rightarrow> 's \<Rightarrow> 'w \<Rightarrow> 's \<times> 'w) \<Rightarrow> (u32 \<Rightarrow> u8 \<Rightarrow> 's \<Rightarrow> 'w \<Rightarrow> u8 \<times> 's \<times> 'w) \<Rightarrow>
    (u16 \<Rightarrow> bytes) \<Rightarrow> arq_op \<Rightarrow> 's \<times> 'w \<Rightarrow> 's \<times> 'w" where
  "arq_step send ack nack tck frag (Op_send now sq) (s, w) = snd (send now sq (Some (frag sq)) s w)"
| "arq_step send ack nack tck frag (Op_ack now sq) (s, w) = (ack now sq s, w)"
| "arq_step send ack nack tck frag (Op_nack now sq) (s, w) = nack now sq s w"
| "arq_step send ack nack tck frag (Op_tick now mx) (s, w) = snd (tck now mx s w)"

locale arq_window =
  fixes inv :: "'s \<Rightarrow> bool"
    and pend :: "'s \<Rightarrow> u16 \<Rightarrow> bytes option"
    and peer :: "'s \<Rightarrow> u16"
    and cb :: "'w SendCallback"
    and send :: "u32 \<Rightarrow> u16 \<Rightarrow> bytes option \<Rightarrow> 's \<Rightarrow> 'w \<Rightarrow> int \<times> 's \<times> 'w"
    and ack :: "u32 \<Rightarrow> u16 \<Rightarrow> 's \<Rightarrow> 's"
    and nack :: "u32 \<Rightarrow> u16 \<Rightarrow> 's \<Rightarrow> 'w \<Rightarrow> 's \<times> 'w"
    and tck :: "u32 \<Rightarrow> u8 \<Rightarrow> 's \<Rightarrow> 'w \<Rightarrow> u8 \<times> 's \<times> 'w"
  assumes send_law: "inv s \<Longrightarrow> send now sq (Some bs) s w = (rc, s', w') \<Longrightarrow>
      inv s' \<and> peer s' = peer s \<and> (pend s' = pend s \<or> pend s' = (pend s)(sq \<mapsto> bs)) \<and>
      (w' = w \<or> w' = snd (call_cb cb (peer s) DATA sq bs w))"
    and ack_law: "inv s \<Longrightarrow> inv (ack now sq s) \<and> peer (ack now sq s) = peer s \<and>
      pend (ack now sq s) = (pend s)(sq := None)"
    and nack_law: "inv s \<Longrightarrow> sends_ok Q cb (peer s) (pend s) \<Longrightarrow> Q w \<Longrightarrow> nack now sq s w = (s', w') \<Longrightarrow>
      inv s' \<and> peer s' = peer s \<and> pend s' = pend s \<and> Q w'"
    and tick_law: "inv s \<Longrightarrow> sends_ok Q cb (peer s) (pend s) \<Longrightarrow> Q w \<Longrightarrow> tck now mx s w = (n, s', w') \<Longrightarrow>
      inv s' \<and> peer s' = peer s \<and> pend s' = pend s \<and> Q w' \<and> n \<le> mx"
begin

lemma acks_drain:
  assumes "inv s" and "dom (pend s) \<subseteq> set sqs"
  shows "inv (fold (ack now) sqs s) \<and> pend (fold (ack now) sqs s) = Map.empty"
  using assms
proof (induction sqs arbitrary: s)
  case Nil
  then show ?case by auto
next
  case (Cons sq sqs)
  have "inv (ack now sq s)" "dom (pend (ack now sq s)) \<subseteq> set sqs"
    using ack_law [OF Cons.prems(1)] Cons.prems(2) by auto
  then show ?case using Cons.IH by simp
qed

lemma step_authentic:
  assumes "inv s" and "Q w" and Q: "\<forall>sq w. Q w \<longrightarrow> Q (snd (call_cb cb (peer s) DATA sq (frag sq) w))"
    and "\<forall>sq bs. pend s sq = Some bs \<longrightarrow> bs = frag sq"
    and "arq_step send ack nack tck frag op (s, w) = (s', w')"
  shows "inv s' \<and> Q w' \<and> peer s' = peer s \<and> (\<forall>sq bs. pend s' sq = Some bs \<longrightarrow> bs = frag sq)"
proof -
  have so: "sends_ok Q cb (peer s) (pend s)" using assms(3,4) by (auto simp: sends_ok_def)
  show ?thesis
  proof (cases op)
    case (Op_send now sq)
    obtain rc where "send now sq (Some (frag sq)) s w = (rc, s', w')"
      using assms(5) Op_send by (metis arq_step.simps(1) prod.collapse)
    with send_law [OF assms(1)] assms(2-4) show ?thesis by (fastforce split: if_splits)
  next
    case (Op_ack now sq)
    with ack_law [OF assms(1), of now sq] assms show ?thesis by auto
  next
    case (Op_nack now sq)
    with nack_law [OF assms(1) so assms(2)] assms(4,5) show ?thesis by auto
  next
    case (Op_tick now mx)
    then obtain n where "tck now mx s w = (n, s', w')"
      using assms(5) by (metis arq_step.simps(4) prod.collapse)
    with tick_law [OF assms(1) so assms(2)] assms(4) show ?thesis by auto
  qed
qed

lemma run_authentic:
  assumes "inv s" and "Q w" and "\<forall>sq w. Q w \<longrightarrow> Q (snd (call_cb cb (peer s) DATA sq (frag sq) w))"
    and "\<forall>sq bs. pend s sq = Some bs \<longrightarrow> bs = frag sq"
    and "fold (arq_step send ack nack tck frag) ops (s, w) = (s', w')"
  shows "inv s' \<and> Q w' \<and> peer s' = peer s \<and> (\<forall>sq bs. pend s' sq = Some bs \<longrightarrow> bs = frag sq)"
  using assms
proof (induction ops arbitrary: s w)
  case Nil
  then show ?case by auto
next
  case (Cons op ops)
  obtain s1 w1 where 1: "arq_step send ack nack tck frag op (s, w) = (s1, w1)" by fastforce
  note 2 = step_authentic [OF Cons.prems(1-4) 1]
  then show ?case using Cons.IH [of s1 w1] Cons.prems(3,5) 1 by auto
qed

lemma ack_twice: "inv s \<Longrightarrow> pend (ack t2 sq (ack t1 sq s)) = pend (ack t1 sq s)"
  using ack_law by (metis fun_upd_upd)

end

interpretation srw: arq_window sender_ok pending sr_peer_addr cb "send_fragment cb" handle_ack "handle_nack cb" "tick cb"
  for cb :: "'w SendCallback"
proof unfold_locales
  fix s :: SelectiveRepeat and now sq bs rc s' and w w' :: 'w
  assume "sender_ok s" "send_fragment cb now sq (Some bs) s w = (rc, s', w')"
  then show "sender_ok s' \<and> sr_peer_addr s' = sr_peer_addr s \<and>
      (pending s' = pending s \<or> pending s' = (pending s)(sq \<mapsto> bs)) \<and>
      (w' = w \<or> w' = snd (call_cb cb (sr_peer_addr s) DATA sq bs w))"
    using send_fragment_spec [of s cb now sq bs w rc s' w'] by (auto simp: send_result_def)
next
  fix s now sq assume "sender_ok s"
  then show "sender_ok (handle_ack now sq s) \<and> sr_peer_addr (handle_ack now sq s) = sr_peer_addr s \<and>
      pending (handle_ack now sq s) = (pending s)(sq := None)"
    using handle_ack_spec by blast
next
  fix s s' :: SelectiveRepeat and Q and w w' :: 'w and now sq
  assume "sender_ok s" "sends_ok Q cb (sr_peer_addr s) (pending s)" "Q w" "handle_nack cb now sq s w = (s', w')"
  from handle_nack_spec [OF this]
  show "sender_ok s' \<and> sr_peer_addr s' = sr_peer_addr s \<and> pending s' = pending s \<and> Q w'" by simp
next
  fix s s' :: SelectiveRepeat and Q and w w' :: 'w and now mx n
  assume "sender_ok s" "sends_ok Q cb (sr_peer_addr s) (pending s)" "Q w" "tick cb now mx s w = (n, s', w')"
  from tick_spec [OF this]
  show "sender_ok s' \<and> sr_peer_addr s' = sr_peer_addr s \<and> pending s' = pending s \<and> Q w' \<and> n \<le> mx" by simp
qed

section \<open>Properties of the sender\<close>

lemma dom_pend_of:
  assumes wf: "window_wf ws w"
  shows "dom (pend_of ws w) = (\<lambda>i. fs_seq_tag (w ! i)) ` {i. i < length w \<and> fs_sent (w ! i)}"
proof (intro set_eqI iffI)
  fix sq assume "sq \<in> dom (pend_of ws w)"
  with idx_bound [OF wf, of sq] show "sq \<in> (\<lambda>i. fs_seq_tag (w ! i)) ` {i. i < length w \<and> fs_sent (w ! i)}"
    by (force simp: pend_of_def Let_def split: if_splits)
next
  fix sq assume "sq \<in> (\<lambda>i. fs_seq_tag (w ! i)) ` {i. i < length w \<and> fs_sent (w ! i)}"
  then obtain i where i: "i < length w" "fs_sent (w ! i)" "fs_seq_tag (w ! i) = sq" by auto
  then have "unat sq mod ws = i" using wf by (auto simp: window_wf_def slot_wf_def)
  with i show "sq \<in> dom (pend_of ws w)" by (auto simp: pend_of_def Let_def)
qed

lemma in_flight_card:
  assumes "sender_ok a"
  shows "unat (sr_in_flight a) = card (dom (pending a))" and "card (dom (pending a)) \<le> unat (sr_window_size a)"
proof -
  obtain w where w: "sr_window a = Some w" "window_wf (unat (sr_window_size a)) w"
    "unat (sr_in_flight a) = length (filter fs_sent w)"
    using assms by (auto simp: sender_ok_def)
  let ?ws = "unat (sr_window_size a)"
  let ?I = "{i. i < length w \<and> fs_sent (w ! i)}"
  have p: "pending a = pend_of ?ws w" using w(1) by (simp add: pending_def fun_eq_iff)
  have tag: "unat (fs_seq_tag (w ! i)) mod ?ws = i" if "i \<in> ?I" for i
    using that w(2) by (auto simp: window_wf_def slot_wf_def)
  have "inj_on (\<lambda>i. fs_seq_tag (w ! i)) ?I" using tag by (metis (no_types, lifting) inj_onI)
  then have c: "card (dom (pending a)) = card ?I"
    using dom_pend_of [OF w(2)] p by (simp add: card_image)
  show "unat (sr_in_flight a) = card (dom (pending a))"
    using w(3) by (simp add: c length_filter_conv_card)
  have "?I \<subseteq> {..<?ws}" using tag w(2) by (metis (no_types, lifting) lessThan_iff mod_less_divisor subsetI window_wf_def)
  then show "card (dom (pending a)) \<le> ?ws" unfolding c using card_mono [of "{..<?ws}" ?I] by simp
qed

text \<open>
  C2. Whatever the network does and however the callback answers, a sender that was initialised
  with a non-empty window and is fed the fragments of one file only ever hands fragments of that
  file to the callback, addressed to its peer, keeps in its window only unacknowledged fragments
  of the file, and counts them exactly: \<open>in_flight_\<close> is their number and never exceeds the window.
\<close>

theorem sender_run_authentic:
  fixes Q :: "'w \<Rightarrow> bool"
  assumes "sr_init alloc_ok ws t0 a0 = (True, a)" and "0 < ws" and "Q w"
    and "\<forall>sq w. Q w \<longrightarrow> Q (snd (call_cb cb (sr_peer_addr a) DATA sq (frag sq) w))"
    and "fold (arq_step (send_fragment cb) handle_ack (handle_nack cb) (tick cb) frag) ops (a, w) = (a', w')"
  shows "Q w' \<and> sr_peer_addr a' = sr_peer_addr a \<and>
    (\<forall>sq bs. pending a' sq = Some bs \<longrightarrow> bs = frag sq) \<and>
    unat (sr_in_flight a') = card (dom (pending a')) \<and> card (dom (pending a')) \<le> unat (sr_window_size a')"
proof -
  have "sender_ok a" "\<forall>sq bs. pending a sq = Some bs \<longrightarrow> bs = frag sq"
    using sender_ok_init [OF assms(1,2)] by auto
  then show ?thesis
    using srw.run_authentic [OF _ assms(3,4) _ assms(5)] in_flight_card by blast
qed

text \<open>A callback that accepts everything and logs it.\<close>

definition log_cb :: "(u16 \<times> PacketType \<times> u16 \<times> bytes) list SendCallback" where
  "log_cb = Some (\<lambda>dst ty sq bs w. (0, w @ [(dst, ty, sq, bs)]))"

lemma call_log_cb [simp]: "call_cb log_cb dst ty sq bs w = (0, w @ [(dst, ty, sq, bs)])"
  by (simp add: call_cb_def log_cb_def)

theorem sender_run_authentic_witness:
  "\<exists>a w'. fold (arq_step (send_fragment log_cb) handle_ack (handle_nack log_cb) (tick log_cb) (\<lambda>sq. [ucast sq]))
       [Op_send 10 0, Op_send 11 1, Op_ack 50 0, Op_nack 60 1, Op_tick 9000 4]
       (snd (sr_init True 2 100 SelectiveRepeat_new), []) = (a, w') \<and>
     list_all (\<lambda>(dst, ty, sq, bs). dst = BROADCAST_ADDR \<and> ty = DATA \<and> bs = [ucast sq]) w' \<and>
     unat (sr_in_flight a) = card (dom (pending a))"
proof -
  let ?Q = "list_all (\<lambda>(dst, ty, sq, bs). dst = BROADCAST_ADDR \<and> ty = DATA \<and> bs = [ucast (sq :: u16) :: u8])"
  let ?a = "snd (sr_init True 2 100 SelectiveRepeat_new)"
  let ?step = "arq_step (send_fragment log_cb) handle_ack (handle_nack log_cb) (tick log_cb) (\<lambda>sq. [ucast sq])"
  let ?ops = "[Op_send 10 0, Op_send 11 1, Op_ack 50 0, Op_nack 60 1, Op_tick 9000 4]"
  obtain a w' where f: "fold ?step ?ops (?a, []) = (a, w')" by fastforce
  have "sr_init True 2 100 SelectiveRepeat_new = (True, ?a)"
    by (simp add: sr_init_def SelectiveRepeat_new_def)
  moreover have "sr_peer_addr ?a = BROADCAST_ADDR"
    by (simp add: sr_init_def SelectiveRepeat_new_def reset_sender_def)
  ultimately have "?Q w' \<and> unat (sr_in_flight a) = card (dom (pending a))"
    using sender_run_authentic [where Q = ?Q, OF _ _ _ _ f] by simp
  with f show ?thesis by blast
qed

lemma send_zero_can_send:
  assumes "sender_ok a" and "send_fragment cb now sq (Some bs) a w = (0, a', w')"
  shows "can_send_sequence sq a"
proof -
  obtain win where win: "sr_window a = Some win" "0 < unat (sr_window_size a)"
    using assms(1) by (auto simp: sender_ok_def window_wf_def)
  then have "sr_window_size a \<noteq> 0" by auto
  with win assms(2) show ?thesis
    by (auto simp: send_fragment_def can_send_sequence_def sender_window_full_def Let_def not_le
        split: if_splits prod.splits)
qed

lemma can_send_accepts:
  assumes "sender_ok a" and "can_send_sequence sq a" and "bs \<noteq> []" and "length bs \<le> ESPNOW_MAX_PAYLOAD"
    and "0 \<le> fst (call_cb cb (sr_peer_addr a) DATA sq bs w)"
  shows "fst (send_fragment cb now sq (Some bs) a w) = 0"
proof -
  obtain win where "sr_window a = Some win" using assms(1) by (auto simp: sender_ok_def)
  with assms(2-5) show ?thesis
    by (auto simp: send_fragment_def can_send_sequence_def sender_window_full_def Let_def not_le
        split: if_splits prod.splits)
qed

lemma can_send_empty:
  assumes "sender_ok a" and "pending a = Map.empty"
  shows "can_send_sequence sq a"
proof -
  obtain w where w: "sr_window a = Some w" "window_wf (unat (sr_window_size a)) w"
    using assms(1) by (auto simp: sender_ok_def)
  have p: "pending a = pend_of (unat (sr_window_size a)) w" using w(1) by (simp add: pending_def fun_eq_iff)
  have "\<not> fs_sent (w ! slot_idx a sq)"
    using dom_pend_of [OF w(2)] assms(2) p slot_idx_bound [OF assms(1) w(1), of sq] by auto
  moreover have "sr_in_flight a = 0" using in_flight_card(1) [OF assms(1)] assms(2) by (simp add: unat_eq_0)
  moreover have "0 < unat (sr_window_size a)" using w(2) by (simp add: window_wf_def)
  ultimately show ?thesis using w(1)
    by (auto simp: can_send_sequence_def Let_def word_less_nat_alt)
qed

text \<open>
  C3. \<open>send_fragment\<close> on every branch: a fragment that is already pending is accepted without
  being sent again; a new one that is accepted becomes pending with exactly its bytes, after the
  callback accepted it; in every other case (empty, too long, slot taken by another sequence
  number, window full, callback failed) the result is \<open>-1\<close> and the pending fragments, the
  counters and the bounds are as before. The invariant is kept.
\<close>

theorem send_fragment_refines:
  assumes "sender_ok a" and "send_fragment cb now sq (Some bs) a w = (rc, a', w')"
  shows "sender_ok a' \<and> send_result cb sq bs a w rc a' w' \<and>
    (rc = 0 \<longrightarrow> can_send_sequence sq a \<and> contains_sequence sq a') \<and>
    (rc = -1 \<longrightarrow> contains_sequence sq a' = contains_sequence sq a) \<and>
    (bs \<noteq> [] \<and> length bs \<le> ESPNOW_MAX_PAYLOAD \<and> 0 \<le> fst (call_cb cb (sr_peer_addr a) DATA sq bs w) \<longrightarrow>
      (rc = 0 \<longleftrightarrow> can_send_sequence sq a))"
proof -
  have c: "contains_sequence sq b \<longleftrightarrow> pending b sq \<noteq> None" if "sender_ok b" for b
  proof -
    obtain win where win: "sr_window b = Some win" and wf: "window_wf (unat (sr_window_size b)) win"
      using \<open>sender_ok b\<close> by (auto simp: sender_ok_def)
    have "slot_wf (unat (sr_window_size b)) (slot_idx b sq) (win ! slot_idx b sq)"
      using wf slot_idx_bound [OF \<open>sender_ok b\<close> win, of sq] by (simp add: window_wf_def)
    moreover have "sr_window_size b \<noteq> 0" using wf by (auto simp: window_wf_def)
    ultimately show ?thesis
      using pending_slot [OF win, of sq] win by (auto simp: contains_sequence_def Let_def slot_wf_def)
  qed
  have "can_send_sequence sq a" if "rc = 0"
    using send_zero_can_send [OF assms(1)] assms(2) that by simp
  moreover have "rc = 0" if "bs \<noteq> []" "length bs \<le> ESPNOW_MAX_PAYLOAD"
    "0 \<le> fst (call_cb cb (sr_peer_addr a) DATA sq bs w)" "can_send_sequence sq a"
    using can_send_accepts [OF assms(1) that(4,1,2,3)] assms(2) by (metis fst_conv)
  ultimately show ?thesis
    using send_fragment_spec [OF assms] c [OF assms(1)] c [of a'] by (auto simp: send_result_def)
qed

definition ex_sender :: SelectiveRepeat where
  "ex_sender = snd (sr_init True 4 100 SelectiveRepeat_new)"

definition ex_sender1 :: SelectiveRepeat where
  "ex_sender1 = fst (snd (send_fragment log_cb 10 5 (Some [1, 2, 3]) ex_sender []))"

lemma ex_sender_ok: "sender_ok ex_sender" "pending ex_sender = Map.empty" "sr_window_size ex_sender = 4"
proof -
  have i: "sr_init True 4 100 SelectiveRepeat_new = (True, ex_sender)"
    by (simp add: ex_sender_def sr_init_def SelectiveRepeat_new_def)
  show "sender_ok ex_sender" "pending ex_sender = Map.empty" "sr_window_size ex_sender = 4"
    using sender_ok_init [OF i] by simp_all
qed

lemma ex_sender1_ok: "sender_ok ex_sender1" "pending ex_sender1 = [5 \<mapsto> [1, 2, 3]]"
  "sr_window_size ex_sender1 = 4"
proof -
  obtain rc w' where s: "send_fragment log_cb 10 5 (Some [1, 2, 3]) ex_sender [] = (rc, ex_sender1, w')"
    by (metis ex_sender1_def prod.collapse)
  have "rc = 0"
    using can_send_accepts [OF ex_sender_ok(1) can_send_empty [OF ex_sender_ok(1,2)], of "[1, 2, 3]" log_cb 5 "[]" 10] s
    by simp
  with send_fragment_spec [OF ex_sender_ok(1) s] ex_sender_ok
  show "sender_ok ex_sender1" "pending ex_sender1 = [5 \<mapsto> [1, 2, 3]]" "sr_window_size ex_sender1 = 4"
    by (auto simp: send_result_def)
qed

theorem send_fragment_refines_witness:
  "\<exists>rc a' w'. send_fragment log_cb 10 5 (Some [1, 2, 3]) ex_sender [] = (rc, a', w') \<and> rc = 0 \<and>
    sender_ok a' \<and> pending a' = [5 \<mapsto> [1, 2, 3]] \<and> contains_sequence 5 a'"
proof -
  obtain rc a' w' where s: "send_fragment log_cb 10 5 (Some [1, 2, 3]) ex_sender [] = (rc, a', w')"
    by (metis prod.collapse)
  from send_fragment_refines [OF ex_sender_ok(1) s] can_send_empty [OF ex_sender_ok(1,2)] ex_sender_ok(2) s
  show ?thesis by (auto simp: send_result_def)
qed

text \<open>
  \<open>recompute_sender_bounds\<close> is exact: \<open>base_seq_\<close> is the lowest pending sequence number, or
  \<open>next_seq_\<close> when nothing is pending (the reserved number \<open>UINT16_MAX\<close> aside).
\<close>

theorem base_seq_is_lowest_pending:
  assumes "sender_ok a"
  shows "sr_base_seq a = (let S = dom (pending a) - {UINT16_MAX} in
    if S = {} then sr_next_seq a else Min S)"
  by (rule base_is_lowest [OF assms])

theorem base_seq_is_lowest_pending_witness: "sr_base_seq ex_sender1 = 5"
  using base_seq_is_lowest_pending [OF ex_sender1_ok(1)] by (simp add: ex_sender1_ok(2))

subsection \<open>Snapshot\<close>

lemma collect_tags_take: "collect_tags ss room = take room (tags ss)"
  by (induction ss arbitrary: room) (auto simp: take_Cons')

lemma insert_key_props:
  "mset (insert_key k r) = add_mset k (mset r)"
  "sorted_wrt (\<ge>) r \<Longrightarrow> sorted_wrt (\<ge>) (insert_key k r)"
proof -
  show m: "mset (insert_key k r) = add_mset k (mset r)" for r by (induction r) auto
  then have set: "set (insert_key k r) = insert k (set r)" for r by (metis set_mset_add_mset_insert set_mset_mset)
  show "sorted_wrt (\<ge>) r \<Longrightarrow> sorted_wrt (\<ge>) (insert_key k r)"
    by (induction r) (auto simp: set not_less)
qed

lemma insertion_sort_props:
  assumes "sorted_wrt (\<ge>) r"
  shows "mset (insertion_sort r xs) = mset r + mset xs \<and> sorted (insertion_sort r xs)"
  using assms
proof (induction xs arbitrary: r)
  case Nil
  then show ?case by (simp add: sorted_wrt_rev)
next
  case (Cons x xs)
  then show ?case using insert_key_props by simp
qed

lemma distinct_tags:
  assumes wf: "window_wf ws w"
  shows "distinct (tags (take ws w))"
proof -
  let ?xs = "take ws w"
  let ?P = "\<lambda>s. fs_sent s \<and> fs_len s \<noteq> 0 \<and> fs_seq_tag s \<noteq> UINT16_MAX"
  let ?I = "filter (?P \<circ> (!) ?xs) [0..<length ?xs]"
  have "filter ?P ?xs = map ((!) ?xs) ?I" by (metis filter_map map_nth)
  then have t: "tags ?xs = map (\<lambda>i. fs_seq_tag (?xs ! i)) ?I" by (simp add: tags_def)
  have "unat (fs_seq_tag (?xs ! i)) mod ws = i" if "i \<in> set ?I" for i
    using that slot_wf_nth [OF wf, of i] by (auto simp: slot_wf_def)
  then have "inj_on (\<lambda>i. fs_seq_tag (?xs ! i)) (set ?I)" by (metis (no_types, lifting) inj_onI)
  then show ?thesis unfolding t by (simp add: distinct_map)
qed

text \<open>
  \<open>snapshot_pending_sequences\<close> with room for the whole window returns the pending sequence
  numbers (the reserved one aside), each once, in increasing order.
\<close>

theorem snapshot_sorted_complete:
  assumes "sender_ok a" and "ucast (sr_window_size a) \<le> mx"
  shows "sorted (snapshot_pending_sequences mx a) \<and> distinct (snapshot_pending_sequences mx a) \<and>
    set (snapshot_pending_sequences mx a) = dom (pending a) - {UINT16_MAX}"
proof -
  let ?ws = "unat (sr_window_size a)"
  obtain w where w: "sr_window a = Some w" "window_wf ?ws w"
    using assms(1) by (auto simp: sender_ok_def)
  have ws: "?ws \<le> unat mx" "0 < ?ws"
    using assms(2) w(2) by (auto simp: word_le_nat_alt window_wf_def)
  have "length (tags (take ?ws w)) \<le> ?ws"
    unfolding tags_def using length_filter_le [of _ "take ?ws w"] by (simp add: le_trans [OF length_filter_le])
  then have "collect_tags (take ?ws w) (unat mx) = tags (take ?ws w)"
    using ws(1) by (simp add: collect_tags_take)
  then have s: "snapshot_pending_sequences mx a = insertion_sort [] (tags (take ?ws w))"
    using w(1) ws by (auto simp: snapshot_pending_sequences_def)
  have p: "mset (snapshot_pending_sequences mx a) = mset (tags (take ?ws w))"
    "sorted (snapshot_pending_sequences mx a)"
    using insertion_sort_props [of "[]" "tags (take ?ws w)"] by (simp_all add: s)
  have "set (snapshot_pending_sequences mx a) = set (tags (take ?ws w))"
    "distinct (snapshot_pending_sequences mx a) = distinct (tags (take ?ws w))"
    by (rule mset_eq_setD [OF p(1)], rule mset_eq_imp_distinct_iff [OF p(1)])
  moreover have "pending a = pend_of ?ws w" using w(1) by (simp add: pending_def fun_eq_iff)
  ultimately show ?thesis using p distinct_tags [OF w(2)] tags_pend_of [OF w(2)] by simp
qed

theorem snapshot_sorted_complete_witness: "set (snapshot_pending_sequences 64 ex_sender1) = {5}"
proof -
  have "ucast (sr_window_size ex_sender1) \<le> (64 :: u16)" by (simp add: ex_sender1_ok(3))
  from snapshot_sorted_complete [OF ex_sender1_ok(1) this] show ?thesis by (simp add: ex_sender1_ok(2))
qed

text \<open>
  Acknowledgements drain the window: once every pending fragment has been acknowledged, in
  any order and with duplicates and stale acknowledgements mixed in, nothing is pending any more,
  \<open>in_flight_\<close> is zero and \<open>base_seq_\<close> has reached \<open>next_seq_\<close>.
\<close>

theorem acks_drain_window:
  assumes "sender_ok a" and "dom (pending a) \<subseteq> set sqs"
  shows "pending (fold (handle_ack now) sqs a) = Map.empty \<and> sr_in_flight (fold (handle_ack now) sqs a) = 0 \<and>
    sr_base_seq (fold (handle_ack now) sqs a) = sr_next_seq a"
proof -
  let ?b = "fold (handle_ack now) sqs a"
  have b: "sender_ok ?b" "pending ?b = Map.empty" using srw.acks_drain [OF assms] by auto
  have "sr_next_seq ?b = sr_next_seq a" using assms(1)
  proof (induction sqs arbitrary: a)
    case (Cons sq sqs)
    then show ?case using handle_ack_spec(1,3) [OF Cons.prems, of now sq] by simp
  qed simp
  with b in_flight_card(1) [OF b(1)] base_is_lowest [OF b(1)] show ?thesis
    by (simp add: word_unat_eq_iff)
qed

theorem acks_drain_window_witness:
  "sr_in_flight (fold (handle_ack 60) [9, 5, 5] ex_sender1) = 0"
  using acks_drain_window [OF ex_sender1_ok(1), of "[9, 5, 5]" 60] by (simp add: ex_sender1_ok(2))

text \<open>
  \<open>tick\<close> hands to the callback only pending fragments, to the peer and as data, reports at
  most its budget and at most one retransmission per slot, and changes neither the pending
  fragments nor the bounds.
\<close>

theorem tick_budget:
  assumes "sender_ok a" and "tick cb now max_sends a w = (n, a', w')" and "Q w"
    and "\<forall>sq bs w. pending a sq = Some bs \<longrightarrow> Q w \<longrightarrow> Q (snd (call_cb cb (sr_peer_addr a) DATA sq bs w))"
  shows "Q w' \<and> n \<le> max_sends \<and> n \<le> sr_window_size a \<and> pending a' = pending a \<and>
    sender_ok a' \<and> sr_next_seq a' = sr_next_seq a"
proof -
  have "sends_ok Q cb (sr_peer_addr a) (pending a)" using assms(4) by (simp add: sends_ok_def)
  from tick_spec [OF assms(1) this assms(3,2)] show ?thesis by simp
qed

theorem tick_budget_witness:
  "\<exists>n a' w'. tick log_cb 9000 1 ex_sender1 [] = (n, a', w') \<and> n \<le> 1 \<and>
    list_all (\<lambda>(dst, ty, sq, bs). sq = 5 \<and> bs = [1, 2, 3]) w'"
proof -
  let ?Q = "list_all (\<lambda>(dst :: u16, ty :: PacketType, sq :: u16, bs :: bytes). sq = 5 \<and> bs = [1, 2, 3])"
  obtain n a' w' where t: "tick log_cb 9000 1 ex_sender1 [] = (n, a', w')" by (rule prod_cases3)
  have "\<forall>sq bs w. pending ex_sender1 sq = Some bs \<longrightarrow> ?Q w \<longrightarrow>
      ?Q (snd (call_cb log_cb (sr_peer_addr ex_sender1) DATA sq bs w))"
    by (simp add: ex_sender1_ok(2))
  from tick_budget [OF ex_sender1_ok(1) t _ this] have "?Q w' \<and> n \<le> 1" by simp
  with t show ?thesis by blast
qed

text \<open>
  An acknowledgement of a fragment that was sent once feeds the RTO estimate, which stays
  within its bounds and, if the configured floor is not above the maximum, not below that floor;
  an acknowledgement of a retransmitted fragment leaves the estimate alone.
\<close>

theorem ack_rto_estimate:
  fixes now :: u32
  assumes "sender_ok a" and "pending a sq = Some bs"
  defines "slot \<equiv> the (sr_window a) ! slot_idx a sq"
  defines "a' \<equiv> handle_ack now sq a"
  shows "if fs_retries slot = 0
    then RTO_MIN_MS \<le> sr_rto_ms a' \<and> sr_rto_ms a' \<le> RTO_MAX_MS \<and> sr_rtt_initialized a' \<and>
      (sr_min_rto_floor_ms a \<le> RTO_MAX_MS \<longrightarrow> sr_min_rto_floor_ms a \<le> sr_rto_ms a')
    else sr_rto_ms a' = sr_rto_ms a \<and> sr_srtt_ms a' = sr_srtt_ms a \<and> sr_rttvar_ms a' = sr_rttvar_ms a"
proof -
  obtain win where win: "sr_window a = Some win" using assms(1) by (auto simp: sender_ok_def)
  have slot: "slot = win ! slot_idx a sq" by (simp add: slot_def win)
  have act: "fs_sent slot" "fs_seq_tag slot = sq"
    using assms(2) pending_slot [OF win, of sq] by (auto simp: slot split: if_splits)
  have "slot_wf (unat (sr_window_size a)) (slot_idx a sq) slot"
    using assms(1) win slot_idx_bound [OF assms(1) win] by (auto simp: sender_ok_def window_wf_def slot)
  with act have l: "fs_len slot \<noteq> 0" "\<not> fs_acked slot" by (auto simp: slot_wf_def)
  define a1 where "a1 = (if fs_retries slot = 0 then rtt_sample (now - fs_send_time_ms slot) a else a)"
  have rec: "sr_srtt_ms (recompute_sender_bounds b) = sr_srtt_ms b"
    "sr_rttvar_ms (recompute_sender_bounds b) = sr_rttvar_ms b" for b
    by (auto simp: recompute_sender_bounds_def split: option.splits prod.splits)
  have a': "sr_rto_ms a' = sr_rto_ms a1" "sr_rtt_initialized a' = sr_rtt_initialized a1"
    "sr_srtt_ms a' = sr_srtt_ms a1" "sr_rttvar_ms a' = sr_rttvar_ms a1"
    using act l win by (auto simp: a'_def handle_ack_def Let_def a1_def slot rec set_slot_def)
  have fl: "fl \<le> RTO_MAX_MS \<longrightarrow> fl \<le> clamp_rto fl r" for fl r by (auto simp: clamp_rto_def Let_def not_less)
  show ?thesis
    unfolding a' using clamp_rto_bounds fl by (auto simp: a1_def rtt_sample_def Let_def)
qed

theorem ack_rto_estimate_witness:
  "if fs_retries (the (sr_window ex_sender1) ! slot_idx ex_sender1 5) = 0
   then RTO_MIN_MS \<le> sr_rto_ms (handle_ack 60 5 ex_sender1) \<and> sr_rto_ms (handle_ack 60 5 ex_sender1) \<le> RTO_MAX_MS
   else sr_rto_ms (handle_ack 60 5 ex_sender1) = sr_rto_ms ex_sender1"
  using ack_rto_estimate [OF ex_sender1_ok(1), of 5 "[1, 2, 3]" 60]
  by (simp add: ex_sender1_ok(2) split: if_splits)

end
