(* ===== verification/Arq_Receiver.thy ===== *)
theory Arq_Receiver
  imports Selective_Repeat
begin

text \<open>
  The receiver half of the selective-repeat ARQ (\<open>selective_repeat.cpp\<close>, lines 523 to 821):
  allocation of the reassembly state, reception of a fragment with forward error correction,
  acknowledgements and gap reports, completion. The result of the heap calls is an argument:
  \<open>available\<close> is the largest free block, \<open>buf_mem\<close> the memory \<open>malloc\<close> returned for the file
  (its bytes are arbitrary), the flags say whether the other allocations succeeded.
\<close>

section \<open>The receive bitmap\<close>

definition bit_mask :: "nat \<Rightarrow> u8" where
  "bit_mask sq = push_bit (sq mod 8) 1"

definition bm_test :: "bytes \<Rightarrow> nat \<Rightarrow> nat \<Rightarrow> bool" where
  "bm_test bm byte_idx sq \<longleftrightarrow> bm ! byte_idx AND bit_mask sq \<noteq> 0"

definition bm_set :: "bytes \<Rightarrow> nat \<Rightarrow> bytes" where
  "bm_set bm sq = bm[sq div 8 := bm ! (sq div 8) OR bit_mask sq]"

lemma bit_mask_iff: "bit (bit_mask sq) n \<longleftrightarrow> n = sq mod 8"
  by (auto simp: bit_mask_def bit_exp_iff)

lemma bm_test_bit: "bm_test bm k sq \<longleftrightarrow> bit (bm ! k) (sq mod 8)"
proof
  assume "bm_test bm k sq"
  then obtain n where "bit (bm ! k AND bit_mask sq) n"
    unfolding bm_test_def by (metis bit_0_eq bit_eq_iff bot_apply bot_bool_def)
  then show "bit (bm ! k) (sq mod 8)" by (auto simp: bit_and_iff bit_mask_iff)
next
  assume "bit (bm ! k) (sq mod 8)"
  then have "bit (bm ! k AND bit_mask sq) (sq mod 8)" by (simp add: bit_and_iff bit_mask_iff)
  then show "bm_test bm k sq" unfolding bm_test_def by (metis bit_0_eq bot_apply bot_bool_def)
qed

lemma length_bm_set [simp]: "length (bm_set bm sq) = length bm"
  by (simp add: bm_set_def)

lemma bm_test_set:
  assumes "i div 8 < length bm"
  shows "bm_test (bm_set bm i) (j div 8) j \<longleftrightarrow> j = i \<or> bm_test bm (j div 8) j"
proof -
  have "j = i \<longleftrightarrow> j div 8 = i div 8 \<and> j mod 8 = i mod 8" by (metis div_mult_mod_eq)
  with assms show ?thesis
    by (auto simp: bm_test_bit bm_set_def nth_list_update bit_or_iff bit_mask_iff)
qed

section \<open>Operations of the receiver\<close>

definition cleanup_receiver :: "SelectiveRepeat \<Rightarrow> SelectiveRepeat" where
  "cleanup_receiver a = a\<lparr>sr_reassembly_buf := None, sr_recv_bitmap := None, sr_nack_sent_ms := None,
     sr_total_fragments := 0, sr_fragments_received := 0, sr_expected_seq := 0,
     sr_receiver_active := False\<rparr>"

definition init_receiver :: "nat \<Rightarrow> bytes option \<Rightarrow> bool \<Rightarrow> bool \<Rightarrow> bool \<Rightarrow>
    u16 \<Rightarrow> nat \<Rightarrow> nat \<Rightarrow> SelectiveRepeat \<Rightarrow> bool \<times> SelectiveRepeat" where
  "init_receiver available buf_mem bitmap_ok nack_ok fec_ok total_fragments fragment_size file_size a =
    (let a1 = (cleanup_receiver a)\<lparr>sr_total_fragments := total_fragments,
           sr_fragment_size := fragment_size, sr_file_size := file_size, sr_fragments_received := 0\<rparr> in
     if available < file_size then (False, a1)
     else case buf_mem of
       None \<Rightarrow> (False, a1\<lparr>sr_reassembly_buf := None\<rparr>)
     | Some buf \<Rightarrow>
         if \<not> bitmap_ok then (False, a1\<lparr>sr_recv_bitmap := None, sr_reassembly_buf := None\<rparr>)
         else if \<not> nack_ok
         then (False, a1\<lparr>sr_nack_sent_ms := None, sr_recv_bitmap := None, sr_reassembly_buf := None\<rparr>)
         else (True, a1\<lparr>sr_reassembly_buf := Some buf,
                sr_recv_bitmap := Some (replicate ((unat total_fragments + 7) div 8) 0),
                sr_nack_sent_ms := Some (replicate (unat total_fragments) 0),
                sr_expected_seq := 0, sr_receiver_active := True,
                sr_fec_decoder := dec_reset fec_ok (sr_fec_decoder a1)\<rparr>))"

text \<open>
  \<open>data_index\<close> maps a sequence number to the index of its data fragment, at the 16-bit width the
  code computes it. \<open>max_data_fragments\<close> is the number of data fragments of the file.
\<close>

definition data_index :: "u16 \<Rightarrow> u16" where
  "data_index sq = sq div of_nat (FEC_GROUP_SIZE + 1) * of_nat FEC_GROUP_SIZE + sq mod of_nat (FEC_GROUP_SIZE + 1)"

definition max_data_fragments :: "SelectiveRepeat \<Rightarrow> nat" where
  "max_data_fragments a = (if 0 < sr_fragment_size a
     then (sr_file_size a + sr_fragment_size a - 1) div sr_fragment_size a else 0)"

text \<open>Copying a fragment to its place: both copies of the code clip at the end of the file.\<close>

definition store_fragment :: "nat \<Rightarrow> bytes \<Rightarrow> SelectiveRepeat \<Rightarrow> SelectiveRepeat" where
  "store_fragment data_idx payload a =
    (let offset = data_idx * sr_fragment_size a;
         copy_len = (if sr_file_size a < offset + length payload then sr_file_size a - offset
                     else length payload)
     in a\<lparr>sr_reassembly_buf := map_option (write_at offset (take copy_len payload)) (sr_reassembly_buf a)\<rparr>)"

text \<open>Lines 621 to 666: the fragment the decoder recovered.\<close>

definition take_recovered :: "'w SendCallback \<Rightarrow> SelectiveRepeat \<Rightarrow> 'w \<Rightarrow> SelectiveRepeat \<times> 'w" where
  "take_recovered cb a w =
    (let rec_seq = recovered_seq (sr_fec_decoder a);
         rec_data = recovered_packet (sr_fec_decoder a);
         bm = the (sr_recv_bitmap a);
         rbi = unat rec_seq div 8 in
     if rec_seq < sr_total_fragments a then
       if rbi < (unat (sr_total_fragments a) + 7) div 8 \<and> \<not> bm_test bm rbi (unat rec_seq) then
         let a1 = a\<lparr>sr_recv_bitmap := Some (bm_set bm (unat rec_seq)),
                    sr_fragments_received := sr_fragments_received a + 1\<rparr>;
             (_, w1) = call_cb cb (sr_peer_addr a) ACK rec_seq [] w;
             rdata_idx = unat (data_index rec_seq)
         in (if rdata_idx < max_data_fragments a then store_fragment rdata_idx rec_data a1 else a1, w1)
       else (a, w)
     else (a, w))"

text \<open>
  Lines 751 to 760: advance over the contiguous prefix. The byte index \<open>ebi\<close> is a \<open>uint8_t\<close> in the
  code: the index is taken modulo 256.
\<close>

function advance_expected :: "bytes \<Rightarrow> nat \<Rightarrow> nat \<Rightarrow> nat" where
  "advance_expected bm tot e =
    (if e < tot then
       if \<not> bm_test bm (e div 8 mod 256) e then e else advance_expected bm tot (e + 1)
     else e)"
  by auto
termination by (relation "measure (\<lambda>(bm, tot, e). tot - e)") auto

declare advance_expected.simps [simp del]

text \<open>Lines 773 to 789: report the gap, each sequence number at most once per cooldown.\<close>

fun nack_loop :: "'w SendCallback \<Rightarrow> u32 \<Rightarrow> nat list \<Rightarrow> SelectiveRepeat \<Rightarrow> 'w \<Rightarrow> SelectiveRepeat \<times> 'w" where
  "nack_loop cb now [] a w = (a, w)"
| "nack_loop cb now (i # is) a w =
    (if \<not> bm_test (the (sr_recv_bitmap a)) (i div 8 mod 256) i then
       let nack_cooldown = (if 1000 < sr_timeout_ms a then sr_timeout_ms a div 3 else sr_timeout_ms a);
           ts = the (sr_nack_sent_ms a) in
       if nack_cooldown \<le> now - ts ! i then
         let (_, w1) = call_cb cb (sr_peer_addr a) NACK (of_nat i) [] w
         in nack_loop cb now is (a\<lparr>sr_nack_sent_ms := Some (ts[i := now])\<rparr>) w1
       else nack_loop cb now is a w
     else nack_loop cb now is a w)"

definition report_gap :: "'w SendCallback \<Rightarrow> u32 \<Rightarrow> u16 \<Rightarrow> SelectiveRepeat \<Rightarrow> 'w \<Rightarrow> SelectiveRepeat \<times> 'w" where
  "report_gap cb now sq a w =
    (let e = unat (sr_expected_seq a); s = unat sq in
     if e < s then
       let nack_end = (if e + unat (sr_window_size a) < s then e + unat (sr_window_size a) else s)
       in nack_loop cb now [e..<nack_end] a w
     else (a, w))"

text \<open>Lines 668 to 792: the arrived fragment itself.\<close>

definition accept_fragment ::
  "'w SendCallback \<Rightarrow> u32 \<Rightarrow> u16 \<Rightarrow> bytes \<Rightarrow> SelectiveRepeat \<Rightarrow> 'w \<Rightarrow> bool \<times> SelectiveRepeat \<times> 'w" where
  "accept_fragment cb now sq payload a w =
    (let is_parity = (unat sq mod (FEC_GROUP_SIZE + 1) = FEC_GROUP_SIZE);
         bm = the (sr_recv_bitmap a);
         byte_idx = unat sq div 8 in
     if (unat (sr_total_fragments a) + 7) div 8 \<le> byte_idx then (False, a, w)
     else if bm_test bm byte_idx (unat sq)
     then (False, a, snd (call_cb cb (sr_peer_addr a) ACK sq [] w))
     else
       let a1 = a\<lparr>sr_recv_bitmap := Some (bm_set bm (unat sq)),
                  sr_fragments_received := sr_fragments_received a + 1\<rparr>;
           w1 = snd (call_cb cb (sr_peer_addr a) ACK sq [] w);
           data_idx = unat (data_index sq) in
       if \<not> is_parity \<and> max_data_fragments a1 \<le> data_idx then (False, a1, w1)
       else
         let a2 = (if is_parity then a1 else store_fragment data_idx payload a1);
             a3 = a2\<lparr>sr_expected_seq := of_nat (advance_expected (the (sr_recv_bitmap a2))
                    (unat (sr_total_fragments a2)) (unat (sr_expected_seq a2)))\<rparr>
         in (True, report_gap cb now sq a3 w1))"

definition receive_fragment ::
  "'w SendCallback \<Rightarrow> u32 \<Rightarrow> u16 \<Rightarrow> bytes \<Rightarrow> SelectiveRepeat \<Rightarrow> 'w \<Rightarrow> bool \<times> SelectiveRepeat \<times> 'w" where
  "receive_fragment cb now sq payload a w =
    (if \<not> sr_receiver_active a \<or> sr_total_fragments a \<le> sq then (False, a, w)
     else
       let is_parity = (unat sq mod (FEC_GROUP_SIZE + 1) = FEC_GROUP_SIZE);
           (recovered, d1) = dec_ingest sq payload is_parity (sr_fec_decoder a);
           a1 = a\<lparr>sr_fec_decoder := d1\<rparr>;
           (a2, w2) = (if recovered then take_recovered cb a1 w else (a1, w))
       in accept_fragment cb now sq payload a2 w2)"

definition is_complete :: "SelectiveRepeat \<Rightarrow> bool" where
  "is_complete a \<longleftrightarrow> sr_receiver_active a \<and> sr_fragments_received a = sr_total_fragments a"

section \<open>The fragments of a file\<close>

text \<open>
  A file of \<open>n\<close> fragments is sent as full groups of seven data packets and a parity packet,
  followed by the remaining data packets without parity. \<open>file_packet\<close> is what an authentic
  sender puts into sequence number \<open>s\<close>.
\<close>

definition frag_of :: "bytes \<Rightarrow> nat \<Rightarrow> nat \<Rightarrow> bytes" where
  "frag_of file fs i = take fs (drop (i * fs) file)"

definition num_frags :: "bytes \<Rightarrow> nat \<Rightarrow> nat" where
  "num_frags file fs = (length file + fs - 1) div fs"

definition seq_total :: "nat \<Rightarrow> nat" where
  "seq_total n = 8 * (n div 7) + n mod 7"

definition dix :: "nat \<Rightarrow> nat" where
  "dix s = 7 * (s div 8) + s mod 8"

definition file_packet :: "bytes \<Rightarrow> nat \<Rightarrow> nat \<Rightarrow> bytes" where
  "file_packet file fs s =
     (if s mod 8 = 7 then fec_parity_of (map (\<lambda>i. frag_of file fs (7 * (s div 8) + i)) [0..<7])
      else frag_of file fs (dix s))"

lemma length_frag_of: "length (frag_of file fs i) = min fs (length file - i * fs)"
  by (simp add: frag_of_def)

lemma file_packet_coded: "group_coded (file_packet file fs) g"
  unfolding group_coded_def file_packet_def dix_def
  by (auto intro!: arg_cong [where f = fec_parity_of] simp: algebra_simps)

lemma max_len_bound: "\<forall>f \<in> set fs. length f \<le> b \<Longrightarrow> max_len fs \<le> b"
  by (blast intro: max_len_le)

lemma length_file_packet: "length (file_packet file fs s) \<le> fs"
  by (auto simp: file_packet_def length_frag_of intro!: max_len_bound)

lemma dix_bound:
  assumes "s < seq_total n" and "s mod 8 \<noteq> 7"
  shows "dix s < n"
proof (cases "s div 8 < n div 7")
  case True
  have "s mod 8 < 8" by simp
  with assms(2) have "s mod 8 < 7" by linarith
  then have "dix s < 7 * (s div 8 + 1)" by (simp add: dix_def)
  also have "\<dots> \<le> 7 * (n div 7)" using True by (intro mult_le_mono2) simp
  also have "\<dots> \<le> n" by simp
  finally show ?thesis .
next
  case False
  have "s = 8 * (s div 8) + s mod 8" by simp
  with assms(1) have "8 * (s div 8) + s mod 8 < 8 * (n div 7) + n mod 7" by (simp add: seq_total_def)
  moreover have "n mod 7 < 7" "n div 7 \<le> s div 8" using False by auto
  ultimately have "s div 8 = n div 7" "s mod 8 < n mod 7" by linarith+
  then show ?thesis unfolding dix_def by (metis add_less_cancel_left mult_div_mod_eq)
qed

lemma dix_surj:
  assumes "i < n"
  obtains s where "s < seq_total n" "s mod 8 \<noteq> 7" "dix s = i"
proof
  let ?s = "8 * (i div 7) + i mod 7"
  have m: "i mod 7 < 7" by simp
  have "?s mod 8 = i mod 7" "?s div 8 = i div 7" using m by (simp_all add: mod_mult_self2)
  then show "?s mod 8 \<noteq> 7" "dix ?s = i" using m by (simp_all add: dix_def)
  show "?s < seq_total n"
  proof (cases "i div 7 < n div 7")
    case True
    then have "8 * (i div 7) + 8 \<le> 8 * (n div 7)" by linarith
    with m show ?thesis unfolding seq_total_def by linarith
  next
    case False
    then have "i div 7 = n div 7" using assms by (metis div_le_mono le_neq_implies_less less_imp_le)
    then have "i mod 7 < n mod 7" using assms by (metis add_less_cancel_left mult_div_mod_eq)
    with \<open>i div 7 = n div 7\<close> show ?thesis by (simp add: seq_total_def)
  qed
qed

lemma unat_data_index: "unat (data_index sq) = dix (unat sq)"
proof -
  have "unat sq div 8 * 7 + unat sq mod 8 \<le> unat sq"
    using div_mult_mod_eq [of "unat sq" 8] by linarith
  also have "\<dots> < 65536" by simp
  finally show ?thesis
    by (simp add: data_index_def dix_def unat_word_ariths unat_div unat_mod mult.commute)
qed

section \<open>Invariant\<close>

text \<open>
  \<open>receiver_ok file fs a\<close>: the receiver was set up for this file, its buffers have their sizes,
  the counter is the number of marked sequence numbers, the decoder holds only authentic packets,
  and every marked data fragment is in place.
\<close>

definition marked :: "SelectiveRepeat \<Rightarrow> nat \<Rightarrow> bool" where
  "marked a s \<longleftrightarrow> s < unat (sr_total_fragments a) \<and> bm_test (the (sr_recv_bitmap a)) (s div 8) s"

definition in_place :: "bytes \<Rightarrow> nat \<Rightarrow> bytes \<Rightarrow> nat \<Rightarrow> bool" where
  "in_place file fs buf i \<longleftrightarrow> (\<forall>j < length file. j div fs = i \<longrightarrow> buf ! j = file ! j)"

definition receiver_set_up :: "bytes \<Rightarrow> nat \<Rightarrow> SelectiveRepeat \<Rightarrow> bool" where
  "receiver_set_up file fs a \<longleftrightarrow> sr_receiver_active a \<and> sr_fragment_size a = fs \<and>
     sr_file_size a = length file \<and> 0 < fs \<and> fs \<le> MAX_MTU \<and>
     unat (sr_total_fragments a) = seq_total (num_frags file fs) \<and>
     unat (sr_expected_seq a) \<le> unat (sr_total_fragments a)"

definition buffers_ok :: "bytes \<Rightarrow> SelectiveRepeat \<Rightarrow> bool" where
  "buffers_ok file a \<longleftrightarrow>
     (case (sr_reassembly_buf a, sr_recv_bitmap a, sr_nack_sent_ms a) of
        (Some buf, Some bm, Some ts) \<Rightarrow> length buf = length file \<and>
          length bm = (unat (sr_total_fragments a) + 7) div 8 \<and> length ts = unat (sr_total_fragments a)
      | _ \<Rightarrow> False)"

definition receiver_ok :: "bytes \<Rightarrow> nat \<Rightarrow> SelectiveRepeat \<Rightarrow> bool" where
  "receiver_ok file fs a \<longleftrightarrow> receiver_set_up file fs a \<and> buffers_ok file a \<and>
     dec_ok (file_packet file fs) (sr_fec_decoder a) \<and>
     unat (sr_fragments_received a) = card {s. marked a s} \<and>
     (\<forall>s. marked a s \<longrightarrow> s mod 8 \<noteq> 7 \<longrightarrow> in_place file fs (the (sr_reassembly_buf a)) (dix s))"

lemma buffers_okE:
  assumes "buffers_ok file a"
  obtains buf bm ts where "sr_reassembly_buf a = Some buf" "length buf = length file"
    "sr_recv_bitmap a = Some bm" "length bm = (unat (sr_total_fragments a) + 7) div 8"
    "sr_nack_sent_ms a = Some ts" "length ts = unat (sr_total_fragments a)"
  using assms by (auto simp: buffers_ok_def split: option.splits)

lemma finite_marked [simp]: "finite {s. marked a s}"
  by (rule finite_subset [of _ "{..<unat (sr_total_fragments a)}"]) (auto simp: marked_def)

lemma card_marked_le: "card {s. marked a s} \<le> unat (sr_total_fragments a)"
  using card_mono [of "{..<unat (sr_total_fragments a)}" "{s. marked a s}"] by (auto simp: marked_def)

lemma in_place_write:
  assumes "0 < fs" and "length buf = length file" and "i * fs < length file"
    and "length p \<le> fs" and "length (frag_of file fs i) \<le> length p"
    and "take (length (frag_of file fs i)) p = frag_of file fs i"
  defines "n \<equiv> (if length file < i * fs + length p then length file - i * fs else length p)"
  shows "length (write_at (i * fs) (take n p) buf) = length file"
    and "in_place file fs (write_at (i * fs) (take n p) buf) i"
    and "in_place file fs buf k \<Longrightarrow> in_place file fs (write_at (i * fs) (take n p) buf) k"
proof -
  have n: "n \<le> length p" "i * fs + n \<le> length file" "length (frag_of file fs i) \<le> n"
    using assms(3-5) by (auto simp: n_def length_frag_of)
  then have tk: "length (take n p) = n" by simp
  show len: "length (write_at (i * fs) (take n p) buf) = length file"
    using n assms(2) by (simp add: tk)
  have nth: "write_at (i * fs) (take n p) buf ! j = (if i * fs \<le> j \<and> j < i * fs + n then p ! (j - i * fs) else buf ! j)"
    if "j < length file" for j
    using that n assms(2) by (subst nth_write_at) (auto simp: tk)
  have frag: "p ! k = file ! (i * fs + k)" if "k < length (frag_of file fs i)" for k
  proof -
    have "p ! k = take (length (frag_of file fs i)) p ! k" using that by simp
    also have "\<dots> = file ! (i * fs + k)"
      unfolding assms(6) using that assms(3) by (simp add: frag_of_def less_imp_le)
    finally show ?thesis .
  qed
  have in_region: "i * fs \<le> j \<and> j - i * fs < length (frag_of file fs i)" if "j < length file" "j div fs = i" for j
  proof -
    have "i * fs \<le> j" "j < i * fs + fs"
      using that assms(1) by (metis div_times_less_eq_dividend, metis add.commute dividend_less_div_times)
    with that(1) show ?thesis by (auto simp: length_frag_of)
  qed
  show here: "in_place file fs (write_at (i * fs) (take n p) buf) i"
    unfolding in_place_def
  proof (intro allI impI)
    fix j assume j: "j < length file" "j div fs = i"
    note r = in_region [OF j]
    then have "j < i * fs + n" using n(3) by linarith
    with r nth [OF j(1)] frag [of "j - i * fs"] show "write_at (i * fs) (take n p) buf ! j = file ! j" by simp
  qed
  show "in_place file fs (write_at (i * fs) (take n p) buf) k" if k: "in_place file fs buf k"
  proof (cases "k = i")
    case True
    with here show ?thesis by simp
  next
    case False
    show ?thesis unfolding in_place_def
    proof (intro allI impI)
      fix j assume j: "j < length file" "j div fs = k"
      have "\<not> (i * fs \<le> j \<and> j < i * fs + n)"
      proof
        assume r: "i * fs \<le> j \<and> j < i * fs + n"
        then have "j < Suc i * fs" using n(1) assms(4) by simp
        with r have "j div fs = i" by (metis div_nat_eqI mult.commute)
        with j(2) False show False by simp
      qed
      then have "write_at (i * fs) (take n p) buf ! j = buf ! j" unfolding nth [OF j(1)] by (rule if_not_P)
      with k j show "write_at (i * fs) (take n p) buf ! j = file ! j" by (simp add: in_place_def)
    qed
  qed
qed

text \<open>A payload that carries fragment \<open>i\<close>, possibly with padding behind it.\<close>

definition carries :: "bytes \<Rightarrow> nat \<Rightarrow> nat \<Rightarrow> bytes \<Rightarrow> bool" where
  "carries file fs i p \<longleftrightarrow> length p \<le> fs \<and> length (frag_of file fs i) \<le> length p \<and>
     take (length (frag_of file fs i)) p = frag_of file fs i"

definition mark :: "nat \<Rightarrow> SelectiveRepeat \<Rightarrow> SelectiveRepeat" where
  "mark s a = a\<lparr>sr_recv_bitmap := Some (bm_set (the (sr_recv_bitmap a)) s),
     sr_fragments_received := sr_fragments_received a + 1\<rparr>"

lemma max_data_fragments_ok: "receiver_ok file fs a \<Longrightarrow> max_data_fragments a = num_frags file fs"
  by (simp add: receiver_ok_def receiver_set_up_def max_data_fragments_def num_frags_def)

lemma num_frags_offset: "0 < fs \<Longrightarrow> i < num_frags file fs \<Longrightarrow> i * fs < length file"
proof -
  assume fs: "0 < fs" and "i < num_frags file fs"
  then have "Suc i * fs \<le> length file + fs - 1"
    unfolding num_frags_def by (metis Suc_leI less_eq_div_iff_mult_less_eq)
  with fs show ?thesis by simp
qed

lemma marked_mark:
  assumes "receiver_ok file fs a" and "s < unat (sr_total_fragments a)"
  shows "marked (mark s a) t \<longleftrightarrow> t = s \<or> marked a t"
proof -
  obtain bm where "sr_recv_bitmap a = Some bm" "length bm = (unat (sr_total_fragments a) + 7) div 8"
    using assms(1) by (auto simp: receiver_ok_def elim: buffers_okE)
  moreover have "s div 8 < (unat (sr_total_fragments a) + 7) div 8" using assms(2) by linarith
  ultimately show ?thesis using assms(2) bm_test_set [of s bm t] by (auto simp: marked_def mark_def)
qed

lemma marked_store [simp]: "marked (store_fragment i p a) = marked a"
  by (simp add: marked_def store_fragment_def Let_def fun_eq_iff)

lemma mark_count:
  assumes ok: "receiver_ok file fs a" and s: "s < unat (sr_total_fragments a)" "\<not> marked a s"
  shows "unat (sr_fragments_received a + 1) = card {t. marked (mark s a) t}"
proof -
  have "{t. marked (mark s a) t} = insert s {t. marked a t}" using marked_mark [OF ok s(1)] by auto
  then have card: "card {t. marked (mark s a) t} = Suc (card {t. marked a t})" using s(2) by simp
  then have "Suc (card {t. marked a t}) \<le> unat (sr_total_fragments a)"
    using card_marked_le [of "mark s a"] by (simp add: mark_def)
  then have "Suc (card {t. marked a t}) < 65536" using unat_u16_bound [of "sr_total_fragments a"] by linarith
  with ok card show ?thesis by (simp add: receiver_ok_def unat_word_ariths)
qed

lemma set_up_mark [simp]:
  "receiver_set_up file fs (mark s a) = receiver_set_up file fs a"
  "receiver_set_up file fs (store_fragment i p a) = receiver_set_up file fs a"
  by (simp_all add: receiver_set_up_def mark_def store_fragment_def Let_def)

lemma buffers_ok_mark: "buffers_ok file a \<Longrightarrow> buffers_ok file (mark s a)"
  by (auto simp: buffers_ok_def mark_def split: option.splits)

lemma receiver_ok_mark_parity:
  assumes ok: "receiver_ok file fs a" and s: "s < unat (sr_total_fragments a)" "\<not> marked a s" "s mod 8 = 7"
  shows "receiver_ok file fs (mark s a)"
proof -
  have "\<forall>t. marked (mark s a) t \<longrightarrow> t mod 8 \<noteq> 7 \<longrightarrow> in_place file fs (the (sr_reassembly_buf a)) (dix t)"
    using ok s(3) marked_mark [OF ok s(1)] by (auto simp: receiver_ok_def)
  moreover have "sr_reassembly_buf (mark s a) = sr_reassembly_buf a" "sr_fec_decoder (mark s a) = sr_fec_decoder a"
    "sr_fragments_received (mark s a) = sr_fragments_received a + 1"
    by (simp_all add: mark_def)
  ultimately show ?thesis
    using ok mark_count [OF ok s(1,2)] buffers_ok_mark [of "file" a s] unfolding receiver_ok_def by simp
qed

lemma receiver_ok_mark_data:
  assumes ok: "receiver_ok file fs a" and s: "s < unat (sr_total_fragments a)" "\<not> marked a s" "s mod 8 \<noteq> 7"
    and c: "carries file fs (dix s) p"
  shows "receiver_ok file fs (store_fragment (dix s) p (mark s a))"
proof -
  let ?a' = "store_fragment (dix s) p (mark s a)"
  obtain buf bm ts where b: "sr_reassembly_buf a = Some buf" "length buf = length file"
    "sr_recv_bitmap a = Some bm" "length bm = (unat (sr_total_fragments a) + 7) div 8"
    "sr_nack_sent_ms a = Some ts" "length ts = unat (sr_total_fragments a)"
    using ok by (auto simp: receiver_ok_def elim: buffers_okE)
  have base: "0 < fs" "sr_fragment_size a = fs" "sr_file_size a = length file"
    "unat (sr_total_fragments a) = seq_total (num_frags file fs)"
    using ok by (auto simp: receiver_ok_def receiver_set_up_def)
  have off: "dix s * fs < length file"
    using num_frags_offset [OF base(1) dix_bound [OF _ s(3)]] s(1) base(4) by simp
  let ?n = "if length file < dix s * fs + length p then length file - dix s * fs else length p"
  let ?buf = "write_at (dix s * fs) (take ?n p) buf"
  have w: "length ?buf = length file" "in_place file fs ?buf (dix s)"
    "\<And>k. in_place file fs buf k \<Longrightarrow> in_place file fs ?buf k"
    using in_place_write [OF base(1) b(2) off, of p] c unfolding carries_def by blast+
  have buf': "sr_reassembly_buf ?a' = Some ?buf"
    using b(1) base(2,3) by (simp add: store_fragment_def mark_def Let_def)
  have same: "sr_fec_decoder ?a' = sr_fec_decoder a" "sr_fragments_received ?a' = sr_fragments_received a + 1"
    "sr_total_fragments ?a' = sr_total_fragments a" "sr_nack_sent_ms ?a' = Some ts"
    "sr_recv_bitmap ?a' = Some (bm_set bm s)"
    using b by (simp_all add: store_fragment_def mark_def Let_def)
  have "\<forall>t. marked ?a' t \<longrightarrow> t mod 8 \<noteq> 7 \<longrightarrow> in_place file fs ?buf (dix t)"
  proof (intro allI impI)
    fix t assume "marked ?a' t" "t mod 8 \<noteq> 7"
    then show "in_place file fs ?buf (dix t)"
      using w(2,3) ok b(1) marked_mark [OF ok s(1)] by (auto simp: receiver_ok_def)
  qed
  moreover have "buffers_ok file ?a'" using b w(1) buf' same by (simp add: buffers_ok_def)
  ultimately show ?thesis
    using ok mark_count [OF ok s(1,2)] buf' same unfolding receiver_ok_def by simp
qed

lemma carries_data: "s mod 8 \<noteq> 7 \<Longrightarrow> carries file fs (dix s) (file_packet file fs s)"
  by (simp add: carries_def file_packet_def length_frag_of)

lemma carries_recovered:
  assumes "s mod 8 < 7"
  shows "carries file fs (dix s) (padded_packet (file_packet file fs) s)"
proof -
  have "file_packet file fs s = frag_of file fs (dix s)" using assms by (simp add: file_packet_def)
  then show ?thesis
    using length_file_packet [of "file" fs s] length_file_packet [of "file" fs "8 * (s div 8) + 7"]
    by (simp add: carries_def padded_packet_def)
qed

lemma buffers_ok_decoder: "buffers_ok file (a\<lparr>sr_fec_decoder := d\<rparr>) = buffers_ok file a"
  by (simp add: buffers_ok_def split: option.splits)

lemma receiver_ok_decoder:
  "receiver_ok file fs a \<Longrightarrow> dec_ok (file_packet file fs) d \<Longrightarrow> receiver_ok file fs (a\<lparr>sr_fec_decoder := d\<rparr>)"
  by (simp add: receiver_ok_def receiver_set_up_def buffers_ok_decoder marked_def)

lemma take_recovered_ok:
  assumes ok: "receiver_ok file fs a" and "take_recovered cb a w = (a', w')"
    and rec: "unat (recovered_seq (sr_fec_decoder a)) mod 8 < 7"
      "recovered_packet (sr_fec_decoder a) = padded_packet (file_packet file fs) (unat (recovered_seq (sr_fec_decoder a)))"
  shows "receiver_ok file fs a' \<and> (\<forall>t. marked a t \<longrightarrow> marked a' t) \<and>
    sr_total_fragments a' = sr_total_fragments a \<and>
    (\<forall>t. marked a' t \<longrightarrow> marked a t \<or> t = unat (recovered_seq (sr_fec_decoder a)))"
proof -
  let ?sq = "recovered_seq (sr_fec_decoder a)"
  let ?p = "recovered_packet (sr_fec_decoder a)"
  have base: "unat (sr_total_fragments a) = seq_total (num_frags file fs)"
    using ok by (simp add: receiver_ok_def receiver_set_up_def)
  show ?thesis
  proof (cases "?sq < sr_total_fragments a \<and> \<not> marked a (unat ?sq)")
    case True
    then have lt: "unat ?sq < unat (sr_total_fragments a)" by (simp add: word_less_nat_alt)
    have di: "dix (unat ?sq) < num_frags file fs" using dix_bound lt base rec(1) by fastforce
    have nm: "\<not> marked a (unat ?sq)" and r7: "unat ?sq mod 8 \<noteq> 7" using True rec(1) by auto
    have "unat ?sq div 8 < (unat (sr_total_fragments a) + 7) div 8" using lt by linarith
    then have a': "a' = store_fragment (dix (unat ?sq)) ?p (mark (unat ?sq) a)"
      using assms(2) True lt di max_data_fragments_ok [OF ok]
      by (simp add: take_recovered_def Let_def marked_def mark_def unat_data_index split: prod.splits)
    have "carries file fs (dix (unat ?sq)) ?p" unfolding rec(2) using rec(1) by (rule carries_recovered)
    then have "receiver_ok file fs a'" unfolding a' by (rule receiver_ok_mark_data [OF ok lt nm r7])
    moreover have "marked a' t \<longleftrightarrow> t = unat ?sq \<or> marked a t" for t
      using marked_mark [OF ok lt] by (simp add: a')
    moreover have "sr_total_fragments a' = sr_total_fragments a"
      by (simp add: a' store_fragment_def mark_def Let_def)
    ultimately show ?thesis by auto
  next
    case False
    then have "a' = a" using assms(2)
      by (auto simp: take_recovered_def Let_def marked_def word_less_nat_alt split: prod.splits if_splits)
    with ok show ?thesis by simp
  qed
qed

lemma advance_expected_le: "e \<le> tot \<Longrightarrow> e \<le> advance_expected bm tot e \<and> advance_expected bm tot e \<le> tot"
proof (induction bm tot e rule: advance_expected.induct)
  case (1 bm tot e)
  then show ?case by (subst (1 2) advance_expected.simps) fastforce
qed

lemma receiver_ok_expected:
  assumes "receiver_ok file fs a"
  shows "receiver_ok file fs (a\<lparr>sr_expected_seq := of_nat (advance_expected bm
    (unat (sr_total_fragments a)) (unat (sr_expected_seq a)))\<rparr>)"
proof -
  let ?e = "advance_expected bm (unat (sr_total_fragments a)) (unat (sr_expected_seq a))"
  have "?e \<le> unat (sr_total_fragments a)"
    using assms advance_expected_le by (simp add: receiver_ok_def receiver_set_up_def)
  then have "unat (of_nat ?e :: u16) \<le> unat (sr_total_fragments a)"
    unfolding unat_of_nat by (rule le_trans [OF mod_less_eq_dividend])
  then show ?thesis
    using assms by (auto simp: receiver_ok_def receiver_set_up_def marked_def buffers_ok_def split: option.splits)
qed

lemma nack_loop_ok:
  assumes "receiver_ok file fs a" and "nack_loop cb now is a w = (a', w')"
  shows "receiver_ok file fs a' \<and> marked a' = marked a \<and> sr_total_fragments a' = sr_total_fragments a"
  using assms
proof (induction "is" arbitrary: a w)
  case Nil
  then show ?case by simp
next
  case (Cons i "is")
  let ?b = "a\<lparr>sr_nack_sent_ms := Some ((the (sr_nack_sent_ms a))[i := now])\<rparr>"
  have b: "receiver_ok file fs ?b" "marked ?b = marked a" "sr_total_fragments ?b = sr_total_fragments a"
    using Cons.prems(1)
    by (auto simp: receiver_ok_def receiver_set_up_def marked_def buffers_ok_def fun_eq_iff split: option.splits)
  have "(\<exists>w1. nack_loop cb now is ?b w1 = (a', w')) \<or> nack_loop cb now is a w = (a', w')"
    using Cons.prems(2) by (auto simp: Let_def split: if_splits prod.splits)
  then show ?case using Cons.IH [OF b(1)] Cons.IH [OF Cons.prems(1)] b(2,3) by auto
qed

lemma report_gap_ok:
  assumes "receiver_ok file fs a" and "report_gap cb now sq a w = (a', w')"
  shows "receiver_ok file fs a' \<and> marked a' = marked a \<and> sr_total_fragments a' = sr_total_fragments a"
proof -
  obtain "is" where "nack_loop cb now is a w = (a', w') \<or> (a', w') = (a, w)"
    using assms(2) unfolding report_gap_def Let_def by metis
  then show ?thesis
    by (elim disjE) (rule nack_loop_ok [OF assms(1)], assumption, use assms(1) in simp)
qed

lemma decode_step:
  assumes ok: "receiver_ok file fs a"
    and d: "dec_ingest sq (file_packet file fs (unat sq)) (unat sq mod (FEC_GROUP_SIZE + 1) = FEC_GROUP_SIZE)
      (sr_fec_decoder a) = (recovered, d1)"
    and t: "(if recovered then take_recovered cb (a\<lparr>sr_fec_decoder := d1\<rparr>) w else (a\<lparr>sr_fec_decoder := d1\<rparr>, w)) = (a2, w2)"
  shows "receiver_ok file fs a2 \<and> (\<forall>t. marked a t \<longrightarrow> marked a2 t) \<and> sr_total_fragments a2 = sr_total_fragments a"
proof -
  let ?pk = "file_packet file fs"
  let ?a1 = "a\<lparr>sr_fec_decoder := d1\<rparr>"
  have dok: "dec_ok ?pk (sr_fec_decoder a)" and "fs \<le> MAX_MTU"
    using ok by (auto simp: receiver_ok_def receiver_set_up_def)
  then have len: "length (?pk (unat sq)) \<le> MAX_MTU" using length_file_packet [of "file" fs "unat sq"] by linarith
  have d': "dec_ingest sq (?pk (unat sq)) (unat sq mod 8 = FEC_GROUP_SIZE) (sr_fec_decoder a) = (recovered, d1)"
    using d by simp
  have "dec_ok ?pk d1" using xdec.ingest_ok [OF dok len] d' by simp
  then have ok1: "receiver_ok file fs ?a1" using receiver_ok_decoder [OF ok] by simp
  have m1: "marked ?a1 = marked a" by (simp add: marked_def fun_eq_iff)
  show ?thesis
  proof (cases recovered)
    case True
    with d' xdec.ingest_sound [OF dok len file_packet_coded]
    have "unat (recovered_seq d1) mod 8 < 7" "recovered_packet d1 = padded_packet ?pk (unat (recovered_seq d1))"
      by auto
    with take_recovered_ok [OF ok1, of cb w a2 w2] True t m1 show ?thesis by simp
  next
    case False
    with t ok1 m1 show ?thesis by auto
  qed
qed

lemma accept_fragment_ok:
  assumes ok: "receiver_ok file fs a" and lt: "unat sq < unat (sr_total_fragments a)"
    and af: "accept_fragment cb now sq (file_packet file fs (unat sq)) a w = (r, a', w')"
  shows "receiver_ok file fs a' \<and> marked a' (unat sq) \<and> (\<forall>t. marked a t \<longrightarrow> marked a' t) \<and>
    sr_total_fragments a' = sr_total_fragments a \<and> (r \<longleftrightarrow> \<not> marked a (unat sq))"
proof (cases "marked a (unat sq)")
  case True
  have "unat sq div 8 < (unat (sr_total_fragments a) + 7) div 8" using lt by linarith
  with True af have "a' = a" "\<not> r" by (auto simp: accept_fragment_def Let_def marked_def)
  with ok True show ?thesis by simp
next
  case False
  let ?p = "file_packet file fs (unat sq)"
  let ?par = "unat sq mod (FEC_GROUP_SIZE + 1) = FEC_GROUP_SIZE"
  let ?a1 = "mark (unat sq) a"
  let ?a2 = "if ?par then ?a1 else store_fragment (dix (unat sq)) ?p ?a1"
  have bi': "\<not> (unat (sr_total_fragments a) + 7) div 8 \<le> unat sq div 8" using lt by linarith
  have nb: "\<not> bm_test (the (sr_recv_bitmap a)) (unat sq div 8) (unat sq)" using False lt by (simp add: marked_def)
  have "receiver_ok file fs ?a2"
    using receiver_ok_mark_parity [OF ok lt False] receiver_ok_mark_data [OF ok lt False _ carries_data] by simp
  moreover have "marked ?a2 t \<longleftrightarrow> t = unat sq \<or> marked a t" for t using marked_mark [OF ok lt] by simp
  moreover have "sr_total_fragments ?a2 = sr_total_fragments a" by (simp add: mark_def store_fragment_def Let_def)
  ultimately have a2: "receiver_ok file fs ?a2" "\<And>t. marked ?a2 t \<longleftrightarrow> t = unat sq \<or> marked a t"
    "sr_total_fragments ?a2 = sr_total_fragments a" by blast+
  have "\<not> num_frags file fs \<le> dix (unat sq)" if "\<not> ?par"
    using dix_bound [of "unat sq" "num_frags file fs"] that lt ok
    by (simp add: receiver_ok_def receiver_set_up_def)
  moreover have "max_data_fragments ?a1 = max_data_fragments a"
    unfolding max_data_fragments_def by (simp add: mark_def)
  then have "max_data_fragments ?a1 = num_frags file fs" unfolding max_data_fragments_ok [OF ok] .
  ultimately have nd: "\<not> (\<not> ?par \<and> max_data_fragments ?a1 \<le> dix (unat sq))"
    by presburger
  have "(r, a', w') = (True, report_gap cb now sq (?a2\<lparr>sr_expected_seq := of_nat (advance_expected
      (the (sr_recv_bitmap ?a2)) (unat (sr_total_fragments ?a2)) (unat (sr_expected_seq ?a2)))\<rparr>)
      (snd (call_cb cb (sr_peer_addr a) ACK sq [] w)))"
    using af unfolding accept_fragment_def Let_def mark_def [symmetric] unat_data_index
      if_not_P [OF bi'] if_not_P [OF nb] if_not_P [OF nd] by (rule sym)
  then have r: r and g: "report_gap cb now sq (?a2\<lparr>sr_expected_seq := of_nat (advance_expected
      (the (sr_recv_bitmap ?a2)) (unat (sr_total_fragments ?a2)) (unat (sr_expected_seq ?a2)))\<rparr>)
      (snd (call_cb cb (sr_peer_addr a) ACK sq [] w)) = (a', w')" by auto
  have "marked (?a2\<lparr>sr_expected_seq := e\<rparr>) = marked ?a2" for e by (simp add: marked_def fun_eq_iff)
  with report_gap_ok [OF receiver_ok_expected [OF a2(1)] g] a2(2,3) r False show ?thesis by simp
qed

lemma receive_fragment_ok:
  assumes ok: "receiver_ok file fs a"
    and rf: "receive_fragment cb now sq (file_packet file fs (unat sq)) a w = (r, a', w')"
  shows "receiver_ok file fs a' \<and> (\<forall>t. marked a t \<longrightarrow> marked a' t) \<and>
    sr_total_fragments a' = sr_total_fragments a \<and> (sq < sr_total_fragments a \<longrightarrow> marked a' (unat sq)) \<and>
    (r \<longrightarrow> \<not> marked a (unat sq))"
proof (cases "sq < sr_total_fragments a")
  case False
  with rf ok show ?thesis by (auto simp: receive_fragment_def not_less)
next
  case True
  let ?p = "file_packet file fs (unat sq)"
  let ?par = "unat sq mod (FEC_GROUP_SIZE + 1) = FEC_GROUP_SIZE"
  obtain recovered d1 where d: "dec_ingest sq ?p ?par (sr_fec_decoder a) = (recovered, d1)" by fastforce
  obtain a2 w2 where t: "(if recovered then take_recovered cb (a\<lparr>sr_fec_decoder := d1\<rparr>) w
      else (a\<lparr>sr_fec_decoder := d1\<rparr>, w)) = (a2, w2)" by fastforce
  have a2: "receiver_ok file fs a2" "\<forall>t. marked a t \<longrightarrow> marked a2 t" "sr_total_fragments a2 = sr_total_fragments a"
    using decode_step [OF ok d t] by auto
  have lt: "unat sq < unat (sr_total_fragments a2)" using True a2(3) by (simp add: word_less_nat_alt)
  have act: "sr_receiver_active a" using ok by (simp add: receiver_ok_def receiver_set_up_def)
  have "accept_fragment cb now sq ?p a2 w2 = (r, a', w')"
    using rf act True [unfolded not_le [symmetric]] unfolding receive_fragment_def Let_def d prod.case t by simp
  from accept_fragment_ok [OF a2(1) lt this] a2(2,3) show ?thesis by auto
qed

section \<open>Properties of the receiver\<close>

lemma init_receiver_ok:
  assumes "init_receiver available (Some buf) True True fec_ok (of_nat (seq_total (num_frags file fs))) fs (length file) a = (True, a')"
    and "dec_ok (file_packet file fs) (sr_fec_decoder a)"
    and "length buf = length file" and "0 < fs" and "fs \<le> MAX_MTU" and "seq_total (num_frags file fs) < 65536"
  shows "receiver_ok file fs a'" and "\<not> marked a' s"
    and "unat (sr_total_fragments a') = seq_total (num_frags file fs)"
proof -
  have u: "unat (of_nat (seq_total (num_frags file fs)) :: u16) = seq_total (num_frags file fs)"
    using assms(6) by (simp add: unat_of_nat)
  have a': "sr_receiver_active a'" "sr_fragment_size a' = fs" "sr_file_size a' = length file"
    "sr_total_fragments a' = of_nat (seq_total (num_frags file fs))" "sr_expected_seq a' = 0"
    "sr_fragments_received a' = 0" "sr_reassembly_buf a' = Some buf"
    "sr_recv_bitmap a' = Some (replicate ((seq_total (num_frags file fs) + 7) div 8) 0)"
    "sr_nack_sent_ms a' = Some (replicate (seq_total (num_frags file fs)) 0)"
    "sr_fec_decoder a' = dec_reset fec_ok (sr_fec_decoder a)"
    using assms(1) unfolding init_receiver_def Let_def u
    by (auto simp: cleanup_receiver_def split: if_splits)
  show tot: "unat (sr_total_fragments a') = seq_total (num_frags file fs)" using a'(4) u by simp
  show nm: "\<not> marked a' s" for s
  proof (cases "s < seq_total (num_frags file fs)")
    case True
    then have "s div 8 < (seq_total (num_frags file fs) + 7) div 8" by linarith
    then show ?thesis using a'(8) by (simp add: marked_def bm_test_def)
  next
    case False
    then show ?thesis using tot by (simp add: marked_def)
  qed
  have "receiver_set_up file fs a'" using a' assms(4,5) tot by (simp add: receiver_set_up_def)
  moreover have "buffers_ok file a'" using a' assms(3) tot by (simp add: buffers_ok_def)
  moreover have "dec_ok (file_packet file fs) (sr_fec_decoder a')" using a'(10) dec_ok_reset [OF assms(2)] by simp
  ultimately show "receiver_ok file fs a'" unfolding receiver_ok_def using nm a'(6) by simp
qed

lemma complete_iff:
  assumes "receiver_ok file fs a"
  shows "is_complete a \<longleftrightarrow> (\<forall>s < unat (sr_total_fragments a). marked a s)"
proof -
  let ?T = "{..<unat (sr_total_fragments a)}"
  have sub: "{s. marked a s} \<subseteq> ?T" by (auto simp: marked_def)
  have "is_complete a \<longleftrightarrow> card {s. marked a s} = card ?T"
    using assms by (auto simp: is_complete_def receiver_ok_def receiver_set_up_def word_unat_eq_iff)
  also have "\<dots> \<longleftrightarrow> {s. marked a s} = ?T" using sub card_subset_eq [of ?T] by auto
  also have "\<dots> \<longleftrightarrow> (\<forall>s < unat (sr_total_fragments a). marked a s)" using sub by auto
  finally show ?thesis .
qed

lemma complete_reassembled:
  assumes ok: "receiver_ok file fs a" and c: "is_complete a"
  shows "sr_reassembly_buf a = Some file"
proof -
  obtain buf where buf: "sr_reassembly_buf a = Some buf" "length buf = length file"
    using ok by (auto simp: receiver_ok_def elim: buffers_okE)
  have fs: "0 < fs" and tot: "unat (sr_total_fragments a) = seq_total (num_frags file fs)"
    using ok by (auto simp: receiver_ok_def receiver_set_up_def)
  have "buf ! j = file ! j" if j: "j < length file" for j
  proof -
    have "j div fs * fs \<le> j" "Suc (j div fs) * fs = fs + j div fs * fs" by simp_all
    then have "Suc (j div fs) * fs \<le> length file + fs - 1" using j fs by linarith
    then have "j div fs < num_frags file fs"
      unfolding num_frags_def using fs by (metis Suc_le_lessD less_eq_div_iff_mult_less_eq)
    then obtain s where s: "s < seq_total (num_frags file fs)" "s mod 8 \<noteq> 7" "dix s = j div fs"
      by (rule dix_surj)
    then have "marked a s" using c complete_iff [OF ok] tot by simp
    then have "in_place file fs buf (j div fs)" using ok s buf(1) unfolding receiver_ok_def by (metis option.sel)
    with j show ?thesis by (simp add: in_place_def)
  qed
  with buf show ?thesis by (simp add: nth_equalityI)
qed

text \<open>Receiving a list of authentic packets, whatever the callback does.\<close>

definition receive_all :: "'w SendCallback \<Rightarrow> bytes \<Rightarrow> nat \<Rightarrow> (u32 \<times> u16) list \<Rightarrow> SelectiveRepeat \<times> 'w \<Rightarrow> SelectiveRepeat \<times> 'w" where
  "receive_all cb file fs = fold (\<lambda>(now, sq) (a, w). snd (receive_fragment cb now sq (file_packet file fs (unat sq)) a w))"

lemma receive_all_ok:
  assumes "receiver_ok file fs a" and "receive_all cb file fs arr (a, w) = (a', w')"
  shows "receiver_ok file fs a' \<and> sr_total_fragments a' = sr_total_fragments a \<and>
    (\<forall>t. marked a t \<longrightarrow> marked a' t) \<and>
    (\<forall>sq \<in> snd ` set arr. sq < sr_total_fragments a \<longrightarrow> marked a' (unat sq))"
  using assms
proof (induction arr arbitrary: a w)
  case Nil
  then show ?case by (simp add: receive_all_def)
next
  case (Cons x arr)
  obtain now sq where x: "x = (now, sq)" by fastforce
  obtain r a1 w1 where r: "receive_fragment cb now sq (file_packet file fs (unat sq)) a w = (r, a1, w1)"
    by (rule prod_cases3)
  note 1 = receive_fragment_ok [OF Cons.prems(1) r]
  have "receive_all cb file fs arr (a1, w1) = (a', w')" using Cons.prems(2) r x by (simp add: receive_all_def)
  from Cons.IH [OF _ this] 1 x show ?case by auto
qed

text \<open>
  C1. Reassembly is correct: when packets of a file reach a freshly initialised receiver in any
  order, with losses and duplicates, and the receiver reports completion, the reassembly buffer
  holds exactly the file; and it does report completion once every sequence number has arrived.
  Fragments recovered by the erasure code count as arrived.
\<close>

theorem receiver_reassembles_file:
  assumes "init_receiver available (Some buf) True True fec_ok (of_nat (seq_total (num_frags file fs))) fs (length file) a = (True, a0)"
    and "dec_ok (file_packet file fs) (sr_fec_decoder a)"
    and "length buf = length file" and "0 < fs" and "fs \<le> MAX_MTU" and "seq_total (num_frags file fs) < 65536"
    and "receive_all cb file fs arr (a0, w) = (a', w')"
  shows "(is_complete a' \<longrightarrow> sr_reassembly_buf a' = Some file) \<and>
    ((\<forall>s < seq_total (num_frags file fs). of_nat s \<in> snd ` set arr) \<longrightarrow> is_complete a')"
proof -
  note i = init_receiver_ok [OF assms(1-6)]
  note r = receive_all_ok [OF i(1) assms(7)]
  have "is_complete a'" if all: "\<forall>s < seq_total (num_frags file fs). of_nat s \<in> snd ` set arr"
  proof -
    have "marked a' s" if "s < unat (sr_total_fragments a')" for s
    proof -
      have lt: "s < seq_total (num_frags file fs)" using that r i(3) by simp
      then have u: "unat (of_nat s :: u16) = s" using assms(6) by (simp add: unat_of_nat)
      then have "(of_nat s :: u16) < sr_total_fragments a0" using lt i(3) by (simp add: word_less_nat_alt)
      with r all lt have "marked a' (unat (of_nat s :: u16))" by blast
      then show ?thesis unfolding u .
    qed
    then show ?thesis using complete_iff r by blast
  qed
  moreover have "sr_reassembly_buf a' = Some file" if "is_complete a'" using complete_reassembled r that by blast
  ultimately show ?thesis by blast
qed

theorem receiver_reassembles_file_witness:
  "sr_reassembly_buf (fst (receive_all None [1, 2, 3] 2 [(7, 1), (9, 1), (12, 0)]
     (snd (init_receiver 100 (Some [0, 0, 0]) True True True 2 2 3 SelectiveRepeat_new), ()))) = Some [1, 2, 3]"
proof -
  let ?a = "snd (init_receiver 100 (Some [0, 0, 0]) True True True 2 2 3 SelectiveRepeat_new)"
  have n: "seq_total (num_frags [1, 2, 3] 2) = 2" by (simp add: num_frags_def seq_total_def)
  obtain a' w' where r: "receive_all (None :: unit SendCallback) [1, 2, 3] 2 [(7, 1), (9, 1), (12, 0)] (?a, ()) = (a', w')"
    by (rule prod.exhaust)
  have i: "init_receiver 100 (Some [0, 0, 0]) True True True (of_nat (seq_total (num_frags [1, 2, 3] 2))) 2
      (length [1 :: u8, 2, 3]) SelectiveRepeat_new = (True, ?a)"
    by (simp add: n init_receiver_def)
  have d: "dec_ok (file_packet [1, 2, 3] 2) (sr_fec_decoder SelectiveRepeat_new)"
    by (simp add: SelectiveRepeat_new_def dec_ok_new)
  have all: "\<forall>s < seq_total (num_frags [1, 2, 3] 2). (of_nat s :: u16) \<in> snd ` set [(7 :: u32, 1), (9, 1), (12, 0)]"
    by (auto simp: n less_2_cases_iff)
  from receiver_reassembles_file [OF i d _ _ _ _ r] all have "sr_reassembly_buf a' = Some [1, 2, 3]"
    by (simp add: n)
  with r show ?thesis by simp
qed

text \<open>
  The scan for the next expected fragment is exact for transfers of up to 2048 fragments:
  everything before the result is marked and the result itself is not, unless it is the end.
\<close>

theorem advance_expected_exact:
  assumes "tot \<le> 2048" and "e \<le> tot"
  shows "(\<forall>i. e \<le> i \<and> i < advance_expected bm tot e \<longrightarrow> bm_test bm (i div 8) i) \<and>
    e \<le> advance_expected bm tot e \<and> advance_expected bm tot e \<le> tot \<and>
    (advance_expected bm tot e < tot \<longrightarrow>
      \<not> bm_test bm (advance_expected bm tot e div 8) (advance_expected bm tot e))"
  using assms
proof (induction bm tot e rule: advance_expected.induct)
  case (1 bm tot e)
  show ?case
  proof (cases "e < tot \<and> bm_test bm (e div 8 mod 256) e")
    case True
    then have adv: "advance_expected bm tot e = advance_expected bm tot (e + 1)"
      by (subst advance_expected.simps) simp
    have "e div 8 < 256" using True 1(2) by linarith
    with True have b: "bm_test bm (e div 8) e" by (simp only: mod_less)
    have "\<forall>i. e \<le> i \<and> i < advance_expected bm tot (e + 1) \<longrightarrow> bm_test bm (i div 8) i"
      using 1(1) True 1(2) b by (metis Suc_eq_plus1 Suc_leI le_neq_implies_less)
    with 1(1) True 1(2) b show ?thesis unfolding adv by simp
  next
    case False
    then have "advance_expected bm tot e = e" by (subst advance_expected.simps) auto
    moreover have "e div 8 mod 256 = e div 8" if "e < tot" by (rule mod_less) (use that 1(2) in linarith)
    ultimately show ?thesis using False 1(3) by auto
  qed
qed

theorem advance_expected_exact_witness:
  "advance_expected [0x07] 5 0 = 3 \<and> \<not> bm_test [0x07] 0 3 \<and> bm_test [0x07] 0 2"
proof -
  have "advance_expected [0x07] 5 0 = 3" by code_simp
  with advance_expected_exact [of 5 0 "[0x07]"] show ?thesis by simp
qed

text \<open>
  Beyond 2048 fragments the 8-bit byte index of that scan wraps: once the first 2048
  fragments are marked it runs to the end of the transfer whatever is missing, so that no gap is
  reported any more.
\<close>

theorem advance_expected_wraps:
  assumes "\<forall>k < 256. bm ! k = 0xFF" and "e \<le> tot"
  shows "advance_expected bm tot e = tot"
  using assms
proof (induction bm tot e rule: advance_expected.induct)
  case (1 bm tot e)
  have "bm ! (e div 8 mod 256) = - 1" using 1(2) by simp
  then have "bm_test bm (e div 8 mod 256) e" by (simp add: bm_test_bit)
  with 1 show ?case by (subst advance_expected.simps) auto
qed

theorem advance_expected_wraps_witness:
  "advance_expected (replicate 256 0xFF @ replicate 256 0) 4096 0 = 4096 \<and>
   \<not> bm_test (replicate 256 0xFF @ replicate 256 0) (2048 div 8) 2048"
  using advance_expected_wraps [of "replicate 256 0xFF @ replicate 256 0" 0 4096]
  by (simp add: nth_append bm_test_def)

end
