(* ===== verification/Topic_Table.thy ===== *)
theory Topic_Table
  imports Flp_Prelude
begin

text \<open>
  Model of \<^verbatim>\<open>components/mqtt_client/include/topic_table.hpp\<close>: the table that gives MQTT-SN topic names
  short identifiers. A C string is the list of its bytes before the terminating zero. The contract of
  a name registry is the locale \<open>name_registry\<close>; the table is shown to meet it for names of up to
  63 bytes, and the identifiers handed out are shown to stay valid.
\<close>

abbreviation (input) MAX_TOPICS :: nat where "MAX_TOPICS \<equiv> 16"
abbreviation (input) TOPIC_NAME_SIZE :: nat where "TOPIC_NAME_SIZE \<equiv> 64"

record TopicEntry =
  te_topic_id :: u16
  te_topic_name :: bytes
  te_registered :: bool

text \<open>\<open>tt_entries\<close> are the first \<open>count_\<close> entries of the array; \<open>tt_mutex\<close> says that the mutex exists.\<close>

record TopicTable =
  tt_entries :: "TopicEntry list"
  tt_next_id :: u16
  tt_mutex :: bool

definition TopicTable_new :: "bool \<Rightarrow> TopicTable" where
  "TopicTable_new mutex_ok = \<lparr>tt_entries = [], tt_next_id = 1, tt_mutex = mutex_ok\<rparr>"

text \<open>\<open>strncmp(a, b, n) == 0\<close>.\<close>

definition strn_eq :: "nat \<Rightarrow> bytes \<Rightarrow> bytes \<Rightarrow> bool" where
  "strn_eq n a b \<longleftrightarrow> take n (a @ [0]) = take n (b @ [0])"

text \<open>\<open>taken\<close> is the outcome of \<open>xSemaphoreTake\<close>; \<open>name\<close> is \<open>None\<close> for a null pointer.\<close>

definition register_topic :: "bool \<Rightarrow> bytes option \<Rightarrow> TopicTable \<Rightarrow> u16 \<times> TopicTable" where
  "register_topic taken name t =
    (case name of
       None \<Rightarrow> (0, t)
     | Some nm \<Rightarrow>
         if \<not> tt_mutex t then (0, t)
         else if \<not> taken then (0, t)
         else case List.find (\<lambda>e. te_registered e \<and> strn_eq TOPIC_NAME_SIZE (te_topic_name e) nm) (tt_entries t) of
           Some e \<Rightarrow> (te_topic_id e, t)
         | None \<Rightarrow>
             if MAX_TOPICS \<le> length (tt_entries t) then (0, t)
             else
               let new_id = tt_next_id t in
               (new_id, t\<lparr>tt_next_id := tt_next_id t + 1,
                          tt_entries := tt_entries t @
                            [\<lparr>te_topic_id = new_id, te_topic_name = take (TOPIC_NAME_SIZE - 1) nm,
                              te_registered = True\<rparr>]\<rparr>))"

definition lookup_topic :: "bool \<Rightarrow> u16 \<Rightarrow> TopicTable \<Rightarrow> bytes option" where
  "lookup_topic taken topic_id t =
    (if \<not> tt_mutex t then None
     else if \<not> taken then None
     else map_option te_topic_name (List.find (\<lambda>e. te_registered e \<and> te_topic_id e = topic_id) (tt_entries t)))"

section \<open>Invariant\<close>

definition topics_ok :: "TopicTable \<Rightarrow> bool" where
  "topics_ok t \<longleftrightarrow> tt_mutex t \<and> length (tt_entries t) \<le> MAX_TOPICS \<and>
     tt_next_id t = of_nat (length (tt_entries t) + 1) \<and>
     (\<forall>i < length (tt_entries t). te_topic_id (tt_entries t ! i) = of_nat (i + 1) \<and>
        te_registered (tt_entries t ! i) \<and> length (te_topic_name (tt_entries t ! i)) \<le> 63 \<and>
        0 \<notin> set (te_topic_name (tt_entries t ! i)))"

lemma strn_eq_iff:
  assumes "length a \<le> 63" and "0 \<notin> set a" and "0 \<notin> set b"
  shows "strn_eq 64 a b \<longleftrightarrow> a = b"
proof
  assume "strn_eq 64 a b"
  then have e: "a @ [0] = take 64 (b @ [0])" using assms(1) by (simp add: strn_eq_def)
  have "length b \<le> 63"
  proof (rule ccontr)
    assume "\<not> length b \<le> 63"
    then have "take 64 (b @ [0]) = take 64 b" by simp
    with e have "0 \<in> set (take 64 b)" by (metis in_set_conv_decomp)
    then show False using assms(3) by (meson in_set_takeD)
  qed
  with e show "a = b" by simp
qed (simp add: strn_eq_def)

lemma topic_id_inj:
  assumes "i \<le> 16" "j \<le> 16" and "(of_nat (i + 1) :: u16) = of_nat (j + 1)"
  shows "i = j"
proof -
  have "unat (of_nat (i + 1) :: u16) = i + 1" "unat (of_nat (j + 1) :: u16) = j + 1"
    using assms(1,2) unfolding unat_of_nat by simp_all
  with assms(3) show ?thesis by simp
qed

lemma find_topic_id:
  assumes "topics_ok t" and "i < length (tt_entries t)"
  shows "List.find (\<lambda>e. te_registered e \<and> te_topic_id e = of_nat (i + 1)) (tt_entries t) = Some (tt_entries t ! i)"
  unfolding find_Some_iff
proof (intro exI [of _ i] conjI allI impI)
  fix j assume j: "j < i"
  have "te_topic_id (tt_entries t ! j) = of_nat (j + 1)" "length (tt_entries t) \<le> 16"
    using assms j by (auto simp: topics_ok_def)
  then show "\<not> (te_registered (tt_entries t ! j) \<and> te_topic_id (tt_entries t ! j) = of_nat (i + 1))"
    using topic_id_inj [of j i] j assms(2) by auto
qed (use assms in \<open>auto simp: topics_ok_def\<close>)

lemma register_topic_ok:
  assumes "topics_ok t" and "0 \<notin> set nm"
  shows "topics_ok (snd (register_topic True (Some nm) t))"
proof (cases "List.find (\<lambda>e. te_registered e \<and> strn_eq 64 (te_topic_name e) nm) (tt_entries t)")
  case None
  show ?thesis
  proof (cases "16 \<le> length (tt_entries t)")
    case False
    then show ?thesis
      using assms None unfolding topics_ok_def register_topic_def
      by (auto simp: Let_def nth_append less_Suc_eq dest: in_set_takeD)
  qed (use assms None in \<open>simp add: register_topic_def topics_ok_def\<close>)
qed (use assms in \<open>auto simp: register_topic_def topics_ok_def\<close>)

section \<open>The contract of a name registry\<close>

locale name_registry =
  fixes reg :: "'name \<Rightarrow> 's \<Rightarrow> 'i \<times> 's"
    and look :: "'i \<Rightarrow> 's \<Rightarrow> 'name option"
    and good :: "'name \<Rightarrow> bool"
    and inv :: "'s \<Rightarrow> bool"
    and refused :: "'i"
  assumes reg_inv: "inv s \<Longrightarrow> good n \<Longrightarrow> inv (snd (reg n s))"
    and look_reg: "inv s \<Longrightarrow> good n \<Longrightarrow> reg n s = (i, s') \<Longrightarrow> i \<noteq> refused \<Longrightarrow> look i s' = Some n"
    and look_keep: "inv s \<Longrightarrow> good n \<Longrightarrow> look i s = Some m \<Longrightarrow> look i (snd (reg n s)) = Some m"
    and reg_known: "inv s \<Longrightarrow> good n \<Longrightarrow> look i s = Some n \<Longrightarrow> \<exists>j. reg n s = (j, s) \<and> j \<noteq> refused"
begin

definition reg_all :: "'name list \<Rightarrow> 's \<Rightarrow> 's" where
  "reg_all ns = fold (\<lambda>n s. snd (reg n s)) ns"

lemma reg_all_inv: "inv s \<Longrightarrow> list_all good ns \<Longrightarrow> inv (reg_all ns s)"
  by (induction ns arbitrary: s) (auto simp: reg_all_def reg_inv)

lemma reg_all_keep: "inv s \<Longrightarrow> list_all good ns \<Longrightarrow> look i s = Some m \<Longrightarrow> look i (reg_all ns s) = Some m"
  by (induction ns arbitrary: s) (auto simp: reg_all_def reg_inv look_keep)

lemma identifier_stays_valid:
  assumes "inv s" and "good n" and "list_all good ns" and "reg n s = (i, s')" and "i \<noteq> refused"
  shows "look i (reg_all ns s') = Some n"
  by (rule reg_all_keep) (use assms reg_inv [of s n] look_reg in \<open>auto simp: assms(4)\<close>)

lemma known_name_costs_nothing:
  assumes "inv s" and "good n" and "list_all good ns" and "reg n s = (i, s')" and "i \<noteq> refused"
  shows "snd (reg n (reg_all ns s')) = reg_all ns s'"
proof -
  have "inv s'" using reg_inv [OF assms(1,2)] assms(4) by simp
  from reg_known [OF reg_all_inv [OF this assms(3)] assms(2) identifier_stays_valid [OF assms]]
  show ?thesis by auto
qed

end

lemma register_topic_cases:
  assumes "topics_ok t" and "0 \<notin> set nm" and "length nm \<le> 63"
  obtains (known) k where "k < length (tt_entries t)" "te_topic_name (tt_entries t ! k) = nm"
      "register_topic True (Some nm) t = (of_nat (k + 1), t)"
  | (full) "length (tt_entries t) = 16" "\<forall>e \<in> set (tt_entries t). te_topic_name e \<noteq> nm"
      "register_topic True (Some nm) t = (0, t)"
  | (added) "length (tt_entries t) < 16" "\<forall>e \<in> set (tt_entries t). te_topic_name e \<noteq> nm"
      "register_topic True (Some nm) t = (of_nat (length (tt_entries t) + 1),
         t\<lparr>tt_next_id := tt_next_id t + 1, tt_entries := tt_entries t @
           [\<lparr>te_topic_id = of_nat (length (tt_entries t) + 1), te_topic_name = nm, te_registered = True\<rparr>]\<rparr>)"
proof -
  let ?P = "\<lambda>e. te_registered e \<and> strn_eq 64 (te_topic_name e) nm"
  have eq: "?P e \<longleftrightarrow> te_topic_name e = nm" if "e \<in> set (tt_entries t)" for e
  proof -
    have "te_registered e" "length (te_topic_name e) \<le> 63" "0 \<notin> set (te_topic_name e)"
      using that assms(1) by (auto simp: topics_ok_def in_set_conv_nth)
    then show ?thesis using strn_eq_iff [OF _ _ assms(2)] by auto
  qed
  show thesis
  proof (cases "List.find ?P (tt_entries t)")
    case (Some e)
    then obtain k where k: "k < length (tt_entries t)" "e = tt_entries t ! k" "?P e"
      by (auto simp: find_Some_iff)
    then have "te_topic_name e = nm" "te_topic_id e = of_nat (k + 1)"
      using eq assms(1) by (auto simp: topics_ok_def)
    with k Some known assms(1) show thesis by (auto simp: register_topic_def topics_ok_def)
  next
    case None
    then have ne: "\<forall>e \<in> set (tt_entries t). te_topic_name e \<noteq> nm" using eq by (auto simp: find_None_iff)
    with None full added assms show thesis
      by (cases "length (tt_entries t) < 16") (auto simp: register_topic_def topics_ok_def Let_def)
  qed
qed

interpretation topics: name_registry "\<lambda>n. register_topic True (Some n)" "lookup_topic True"
  "\<lambda>n. 0 \<notin> set n \<and> length n \<le> 63" topics_ok 0
proof unfold_locales
  fix s :: TopicTable and n :: bytes and i s'
  assume ok: "topics_ok s" and n': "0 \<notin> set n \<and> length n \<le> 63"
    and r: "register_topic True (Some n) s = (i, s')" "i \<noteq> 0"
  have ok': "topics_ok s'" using register_topic_ok [OF ok, of n] n' r by simp
  have m: "tt_mutex s'" using ok' by (simp add: topics_ok_def)
  note n = conjunct1 [OF n'] conjunct2 [OF n']
  show "lookup_topic True i s' = Some n"
  proof (cases rule: register_topic_cases [OF ok n(1) n(2), case_names known full added])
    case (known k)
    then show ?thesis using r find_topic_id [OF ok', of k] m by (auto simp: lookup_topic_def)
  next
    case added
    then show ?thesis using r find_topic_id [OF ok', of "length (tt_entries s)"] m
      by (auto simp: lookup_topic_def)
  qed (use r in auto)
next
  fix s :: TopicTable and n :: bytes and i and nm :: bytes
  assume ok: "topics_ok s" and n': "0 \<notin> set n \<and> length n \<le> 63" and l: "lookup_topic True i s = Some nm"
  note n = conjunct1 [OF n'] conjunct2 [OF n']
  show "lookup_topic True i (snd (register_topic True (Some n) s)) = Some nm"
  proof (cases rule: register_topic_cases [OF ok n(1) n(2), case_names known full added])
    case added
    then show ?thesis using l by (auto simp: lookup_topic_def find_append_first split: if_splits option.splits)
  qed (use l in auto)
next
  fix s :: TopicTable and n :: bytes and i
  assume ok: "topics_ok s" and n': "0 \<notin> set n \<and> length n \<le> 63" and l: "lookup_topic True i s = Some n"
  then have ex: "\<exists>e \<in> set (tt_entries s). te_topic_name e = n"
    by (auto simp: lookup_topic_def find_Some_iff split: if_splits)
  note n = conjunct1 [OF n'] conjunct2 [OF n']
  show "\<exists>j. register_topic True (Some n) s = (j, s) \<and> j \<noteq> 0"
  proof (cases rule: register_topic_cases [OF ok n(1) n(2), case_names known full added])
    case (known k)
    have "length (tt_entries s) \<le> 16" using ok by (simp add: topics_ok_def)
    then have "unat (of_nat (k + 1) :: u16) = k + 1" using known(1) unfolding unat_of_nat by simp
    then show ?thesis using known(3) by (metis Suc_eq_plus1 nat.distinct(1) unat_0)
  qed (use ex in auto)
qed (use register_topic_ok in auto)

section \<open>Properties\<close>

definition register_all :: "bytes list \<Rightarrow> TopicTable \<Rightarrow> TopicTable" where
  "register_all ns = fold (\<lambda>n s. snd (register_topic True (Some n) s)) ns"

lemma TopicTable_new_ok: "topics_ok (TopicTable_new True)"
  by (simp add: topics_ok_def TopicTable_new_def)

text \<open>
  An identifier handed out for a topic name resolves to that name for as long as the table lives,
  whatever is registered later, and registering the name again returns without using a slot, for
  names of up to 63 bytes.
\<close>

theorem topic_ids_stay_valid:
  assumes "topics_ok t" and "0 \<notin> set name \<and> length name \<le> 63"
    and "list_all (\<lambda>n. 0 \<notin> set n \<and> length n \<le> 63) later"
    and "register_topic True (Some name) t = (tid, t')" and "tid \<noteq> 0"
  shows "lookup_topic True tid (register_all later t') = Some name \<and>
    snd (register_topic True (Some name) (register_all later t')) = register_all later t' \<and>
    topics_ok (register_all later t')"
  using topics.identifier_stays_valid [OF assms] topics.known_name_costs_nothing [OF assms]
    topics.reg_all_inv [OF _ assms(3), of t'] topics.reg_inv [OF assms(1,2)] assms(4)
  by (simp add: topics.reg_all_def register_all_def)

theorem topic_ids_stay_valid_witness:
  "lookup_topic True 1 (register_all [[98], [97], [99]] (snd (register_topic True (Some [97]) (TopicTable_new True)))) = Some [97]"
proof -
  have r: "register_topic True (Some [97]) (TopicTable_new True) =
      (1, snd (register_topic True (Some [97]) (TopicTable_new True)))"
    by (simp add: register_topic_def TopicTable_new_def Let_def)
  show ?thesis
    using topic_ids_stay_valid [OF TopicTable_new_ok _ _ r, of "[[98], [97], [99]]"] by simp
qed

text \<open>
  A longer name is stored cut to 63 bytes but compared uncut, so it never matches its own entry:
  every registration of it takes another slot.
\<close>

theorem long_name_registers_again:
  assumes "topics_ok t" and "0 \<notin> set name" and "64 \<le> length name" and "length (tt_entries t) < 16"
  shows "fst (register_topic True (Some name) t) = of_nat (length (tt_entries t) + 1) \<and>
    length (tt_entries (snd (register_topic True (Some name) t))) = length (tt_entries t) + 1"
proof -
  have "\<not> strn_eq 64 (te_topic_name e) name" if "e \<in> set (tt_entries t)" for e
  proof -
    have "length (te_topic_name e) \<le> 63" "0 \<notin> set (te_topic_name e)"
      using that assms(1) by (auto simp: topics_ok_def in_set_conv_nth)
    then show ?thesis using strn_eq_iff [OF _ _ assms(2)] assms(3) by auto
  qed
  then have "List.find (\<lambda>e. te_registered e \<and> strn_eq 64 (te_topic_name e) name) (tt_entries t) = None"
    by (auto simp: find_None_iff)
  with assms show ?thesis by (auto simp: register_topic_def topics_ok_def Let_def)
qed

theorem long_name_registers_again_witness:
  "fst (register_topic True (Some (replicate 64 97)) (TopicTable_new True)) = 1"
  using long_name_registers_again [OF TopicTable_new_ok, of "replicate 64 97"] by (simp add: TopicTable_new_def)

end
