(* ===== verification/Route_Table.thy ===== *)
theory Route_Table
  imports Packet
begin

text \<open>
  The neighbour and route table of a node (\<open>components/mesh/include/route_table.hpp\<close>). The array
  \<open>neighbors_\<close> with its \<open>count_\<close> is a list of at most \<open>MAX_NEIGHBORS\<close> entries; every operation of the
  class is modelled, with the millisecond clock as an argument.
\<close>

section \<open>State\<close>

definition seq_newer :: "u16 \<Rightarrow> u16 \<Rightarrow> bool" where
  "seq_newer a b \<longleftrightarrow> 0 < sint (a - b)"

abbreviation (input) ROUTE_HOPS_UNKNOWN :: u8 where "ROUTE_HOPS_UNKNOWN \<equiv> 0xFF"
abbreviation (input) ROUTE_FLAG_ESPNOW :: u8 where "ROUTE_FLAG_ESPNOW \<equiv> 0x01"
abbreviation (input) ROUTE_FLAG_LORA :: u8 where "ROUTE_FLAG_LORA \<equiv> 0x02"
abbreviation (input) ROUTE_FLAG_INTERNET :: u8 where "ROUTE_FLAG_INTERNET \<equiv> 0x04"
abbreviation (input) UINT32_MAX :: u32 where "UINT32_MAX \<equiv> 0xFFFFFFFF"

record NeighborEntry =
  ne_addr :: u16
  ne_rssi :: i8
  ne_hop_count :: u8
  ne_hops_to_internet :: u8
  ne_last_seen_ms :: u32
  ne_espnow_reachable :: bool
  ne_lora_reachable :: bool
  ne_has_internet :: bool
  ne_inet_seq :: u16
  ne_inet_origin :: u16
  ne_tx_count :: u16
  ne_tx_success :: u16
  ne_etx_x100 :: u16
  ne_queue_load :: u8
  ne_early_stale_sent :: bool

record BetterRouteCandidate =
  br_candidate_addr :: u16
  br_current_best_addr :: u16
  br_consecutive_cycles :: u8

record RouteTable =
  rt_neighbors :: "NeighborEntry list"
  rt_better_route :: BetterRouteCandidate

definition better_reset :: BetterRouteCandidate where
  "better_reset = \<lparr>br_candidate_addr = 0, br_current_best_addr = 0, br_consecutive_cycles = 0\<rparr>"

definition RouteTable_new :: RouteTable where
  "RouteTable_new = \<lparr>rt_neighbors = [], rt_better_route = better_reset\<rparr>"

section \<open>Operations\<close>

definition new_entry :: "u32 \<Rightarrow> u16 \<Rightarrow> i8 \<Rightarrow> u8 \<Rightarrow> bool \<Rightarrow> bool \<Rightarrow> u8 \<Rightarrow> NeighborEntry" where
  "new_entry now addr rssi hops espnow lora hops_to_inet = \<lparr>ne_addr = addr, ne_rssi = rssi,
     ne_hop_count = hops, ne_hops_to_internet = hops_to_inet, ne_last_seen_ms = now,
     ne_espnow_reachable = espnow, ne_lora_reachable = lora, ne_has_internet = False,
     ne_inet_seq = 0, ne_inet_origin = 0, ne_tx_count = 0, ne_tx_success = 0, ne_etx_x100 = 100,
     ne_queue_load = 0, ne_early_stale_sent = False\<rparr>"

definition refresh_entry :: "u32 \<Rightarrow> i8 \<Rightarrow> u8 \<Rightarrow> bool \<Rightarrow> bool \<Rightarrow> u8 \<Rightarrow> NeighborEntry \<Rightarrow> NeighborEntry" where
  "refresh_entry now rssi hops espnow lora hops_to_inet n = n\<lparr>ne_rssi := rssi, ne_hop_count := hops,
     ne_last_seen_ms := now, ne_espnow_reachable := ne_espnow_reachable n \<or> espnow,
     ne_lora_reachable := ne_lora_reachable n \<or> lora, ne_early_stale_sent := False,
     ne_hops_to_internet := (if hops_to_inet \<noteq> ROUTE_HOPS_UNKNOWN then hops_to_inet
                             else ne_hops_to_internet n)\<rparr>"

text \<open>Lines 103 to 113: the index of the entry not heard for the longest time.\<close>

fun oldest_scan :: "u32 \<Rightarrow> NeighborEntry list \<Rightarrow> nat \<Rightarrow> nat \<times> u32 \<Rightarrow> nat \<times> u32" where
  "oldest_scan now [] i acc = acc"
| "oldest_scan now (n # ns) i (oldest_idx, oldest_delta) =
    (let delta = now - ne_last_seen_ms n in
     if oldest_delta < delta then oldest_scan now ns (i + 1) (i, delta)
     else oldest_scan now ns (i + 1) (oldest_idx, oldest_delta))"

definition update_neighbor ::
  "u32 \<Rightarrow> u16 \<Rightarrow> i8 \<Rightarrow> u8 \<Rightarrow> bool \<Rightarrow> bool \<Rightarrow> u8 \<Rightarrow> RouteTable \<Rightarrow> RouteTable" where
  "update_neighbor now addr rssi hops espnow lora hops_to_inet t =
    (let ns = rt_neighbors t; entry = new_entry now addr rssi hops espnow lora hops_to_inet in
     case find_idx (\<lambda>n. ne_addr n = addr) ns of
       Some i \<Rightarrow> t\<lparr>rt_neighbors := ns[i := refresh_entry now rssi hops espnow lora hops_to_inet (ns ! i)]\<rparr>
     | None \<Rightarrow>
         if length ns < MAX_NEIGHBORS then t\<lparr>rt_neighbors := ns @ [entry]\<rparr>
         else t\<lparr>rt_neighbors := ns[fst (oldest_scan now ns 0 (0, 0)) := entry]\<rparr>)"

definition update_inet_route :: "u16 \<Rightarrow> u8 \<Rightarrow> u16 \<Rightarrow> u16 \<Rightarrow> RouteTable \<Rightarrow> bool \<times> RouteTable" where
  "update_inet_route neighbor_addr hops_inet sq origin t =
    (let ns = rt_neighbors t in
     case find_idx (\<lambda>n. ne_addr n = neighbor_addr) ns of
       None \<Rightarrow> (False, t)
     | Some i \<Rightarrow>
         let n = ns ! i;
             accept = (True, t\<lparr>rt_neighbors := ns[i := n\<lparr>ne_hops_to_internet := hops_inet,
                         ne_inet_seq := sq, ne_inet_origin := origin\<rparr>]\<rparr>) in
         if origin = ne_inet_origin n \<and> seq_newer sq (ne_inet_seq n) then accept
         else if origin = ne_inet_origin n \<and> sq = ne_inet_seq n then
           if hops_inet < ne_hops_to_internet n
           then (True, t\<lparr>rt_neighbors := ns[i := n\<lparr>ne_hops_to_internet := hops_inet\<rparr>]\<rparr>)
           else (False, t)
         else if origin \<noteq> ne_inet_origin n then
           if seq_newer sq (ne_inet_seq n) \<or> hops_inet < ne_hops_to_internet n then accept
           else (False, t)
         else (False, t))"

definition route_cost :: "NeighborEntry \<Rightarrow> u32" where
  "route_cost n =
    (let cost = ucast (ne_hops_to_internet n) * 100 + ucast (ne_etx_x100 n) + ucast (ne_queue_load n) in
     if ne_lora_reachable n \<and> \<not> ne_espnow_reachable n then cost + 500 else cost)"

text \<open>The scan of the route loops: the first entry of least cost among those that qualify.\<close>

fun cheapest :: "(NeighborEntry \<Rightarrow> bool) \<Rightarrow> NeighborEntry list \<Rightarrow> u16 \<times> u32 \<Rightarrow> u16 \<times> u32" where
  "cheapest ok [] best = best"
| "cheapest ok (n # ns) (best_addr, best_cost) =
    (if ok n \<and> route_cost n < best_cost then cheapest ok ns (ne_addr n, route_cost n)
     else cheapest ok ns (best_addr, best_cost))"

definition hop_candidate :: "bool \<Rightarrow> u16 \<Rightarrow> NeighborEntry \<Rightarrow> bool" where
  "hop_candidate toward_internet my_addr n \<longleftrightarrow>
     ne_hops_to_internet n < ROUTE_HOPS_UNKNOWN \<and>
     \<not> (\<not> toward_internet \<and> ne_hops_to_internet n = 0) \<and>
     \<not> (toward_internet \<and> my_addr \<noteq> 0 \<and> ne_inet_origin n = my_addr)"

definition next_hop :: "u16 \<Rightarrow> u16 \<Rightarrow> RouteTable \<Rightarrow> u16" where
  "next_hop dst my_addr t =
    (let ns = rt_neighbors t in
     if list_ex (\<lambda>n. ne_addr n = dst) ns then dst
     else
       let toward_internet = (dst = EXIT_ANY_ADDR);
           (best_addr, best_cost) =
             cheapest (hop_candidate toward_internet my_addr) ns (BROADCAST_ADDR, UINT32_MAX) in
       if best_addr = BROADCAST_ADDR \<and> \<not> toward_internet
       then fst (cheapest (\<lambda>n. ne_hops_to_internet n < ROUTE_HOPS_UNKNOWN) ns (best_addr, best_cost))
       else best_addr)"

text \<open>
  \<open>report_link_tx\<close>: the quotient is an \<open>int\<close>, narrowed to 16 bits before it is clamped.
\<close>

definition link_tx :: "bool \<Rightarrow> NeighborEntry \<Rightarrow> NeighborEntry" where
  "link_tx success n =
    (let n1 = n\<lparr>ne_tx_count := ne_tx_count n + 1,
                ne_tx_success := (if success then ne_tx_success n + 1 else ne_tx_success n)\<rparr>;
         succ = (if 0 < ne_tx_success n1 then ne_tx_success n1 else 1);
         etx = of_nat (unat (ne_tx_count n1) * 100 div unat succ) :: u16
     in n1\<lparr>ne_etx_x100 := (if 1000 < etx then 1000 else etx)\<rparr>)"

definition report_link_tx :: "u16 \<Rightarrow> bool \<Rightarrow> RouteTable \<Rightarrow> RouteTable" where
  "report_link_tx addr success t =
     t\<lparr>rt_neighbors := update_first (\<lambda>n. ne_addr n = addr) (link_tx success) (rt_neighbors t)\<rparr>"

text \<open>\<open>detect_early_stale\<close>: the callback is threaded through a world.\<close>

fun early_stale_loop :: "u32 \<Rightarrow> u32 \<Rightarrow> (u16 \<Rightarrow> u16 \<Rightarrow> u16 \<Rightarrow> 'w \<Rightarrow> 'w) \<Rightarrow> NeighborEntry list \<Rightarrow> 'w \<Rightarrow>
    NeighborEntry list \<times> 'w" where
  "early_stale_loop now early_ms cb [] w = ([], w)"
| "early_stale_loop now early_ms cb (n # ns) w =
    (if ne_early_stale_sent n then
       let (ns', w') = early_stale_loop now early_ms cb ns w in (n # ns', w')
     else if early_ms < now - ne_last_seen_ms n then
       let (ns', w') = early_stale_loop now early_ms cb ns
             (cb (ne_addr n) (ne_inet_origin n) (ne_inet_seq n) w)
       in (n\<lparr>ne_early_stale_sent := True\<rparr> # ns', w')
     else let (ns', w') = early_stale_loop now early_ms cb ns w in (n # ns', w'))"

definition detect_early_stale ::
  "u32 \<Rightarrow> u32 \<Rightarrow> (u16 \<Rightarrow> u16 \<Rightarrow> u16 \<Rightarrow> 'w \<Rightarrow> 'w) \<Rightarrow> RouteTable \<Rightarrow> 'w \<Rightarrow> RouteTable \<times> 'w" where
  "detect_early_stale now early_ms cb t w =
    (let (ns', w') = early_stale_loop now early_ms cb (rt_neighbors t) w in (t\<lparr>rt_neighbors := ns'\<rparr>, w'))"

record InetRouteInfo =
  ir_hops :: u8
  ir_seq :: u16
  ir_origin :: u16

fun best_inet_scan :: "NeighborEntry list \<Rightarrow> InetRouteInfo \<Rightarrow> InetRouteInfo" where
  "best_inet_scan [] best = best"
| "best_inet_scan (n # ns) best =
    (if ne_hops_to_internet n < ir_hops best
     then best_inet_scan ns \<lparr>ir_hops = ne_hops_to_internet n, ir_seq = ne_inet_seq n, ir_origin = ne_inet_origin n\<rparr>
     else best_inet_scan ns best)"

definition best_inet_route :: "RouteTable \<Rightarrow> InetRouteInfo" where
  "best_inet_route t = best_inet_scan (rt_neighbors t) \<lparr>ir_hops = ROUTE_HOPS_UNKNOWN, ir_seq = 0, ir_origin = 0\<rparr>"

definition invalidate_route_via :: "u16 \<Rightarrow> RouteTable \<Rightarrow> bool \<times> RouteTable" where
  "invalidate_route_via dead_addr t =
    (let hit = (\<lambda>n. ne_addr n = dead_addr \<and> ne_hops_to_internet n < ROUTE_HOPS_UNKNOWN) in
     (list_ex hit (rt_neighbors t),
      t\<lparr>rt_neighbors := map (\<lambda>n. if hit n then n\<lparr>ne_hops_to_internet := ROUTE_HOPS_UNKNOWN\<rparr> else n)
          (rt_neighbors t)\<rparr>))"

definition get_espnow_neighbor_count :: "RouteTable \<Rightarrow> u8" where
  "get_espnow_neighbor_count t = of_nat (length (filter ne_espnow_reachable (rt_neighbors t)))"

definition oldest_contact_age_ms :: "u32 \<Rightarrow> RouteTable \<Rightarrow> u32" where
  "oldest_contact_age_ms now t = (if rt_neighbors t = [] then UINT32_MAX
     else now - fold (\<lambda>n newest. if newest < ne_last_seen_ms n then ne_last_seen_ms n else newest)
       (rt_neighbors t) 0)"

text \<open>\<open>prune_stale\<close>: the array is compacted in place with a read and a write index.\<close>

fun prune_loop :: "u32 \<Rightarrow> u32 \<Rightarrow> nat list \<Rightarrow> nat \<Rightarrow> NeighborEntry list \<Rightarrow> nat \<times> NeighborEntry list" where
  "prune_loop now max_age_ms [] wr ns = (wr, ns)"
| "prune_loop now max_age_ms (rd # rds) wr ns =
    (if now - ne_last_seen_ms (ns ! rd) \<le> max_age_ms
     then prune_loop now max_age_ms rds (wr + 1) (if wr \<noteq> rd then ns[wr := ns ! rd] else ns)
     else prune_loop now max_age_ms rds wr ns)"

definition prune_stale :: "u32 \<Rightarrow> u32 \<Rightarrow> RouteTable \<Rightarrow> RouteTable" where
  "prune_stale now max_age_ms t =
    (let (wr, ns) = prune_loop now max_age_ms [0..<length (rt_neighbors t)] 0 (rt_neighbors t)
     in t\<lparr>rt_neighbors := take wr ns\<rparr>)"

definition get_neighbor :: "u16 \<Rightarrow> RouteTable \<Rightarrow> NeighborEntry option" where
  "get_neighbor addr t = List.find (\<lambda>n. ne_addr n = addr) (rt_neighbors t)"

definition has_internet_neighbor :: "RouteTable \<Rightarrow> bool" where
  "has_internet_neighbor t = list_ex ne_has_internet (rt_neighbors t)"

definition set_has_internet :: "u16 \<Rightarrow> bool \<Rightarrow> RouteTable \<Rightarrow> RouteTable" where
  "set_has_internet addr val t = t\<lparr>rt_neighbors := update_first (\<lambda>n. ne_addr n = addr)
     (\<lambda>n. n\<lparr>ne_has_internet := val, ne_hops_to_internet := (if val then 0 else ne_hops_to_internet n)\<rparr>)
     (rt_neighbors t)\<rparr>"

definition set_hops_to_internet :: "u16 \<Rightarrow> u8 \<Rightarrow> RouteTable \<Rightarrow> RouteTable" where
  "set_hops_to_internet addr hops t = t\<lparr>rt_neighbors := update_first (\<lambda>n. ne_addr n = addr)
     (\<lambda>n. n\<lparr>ne_hops_to_internet := hops\<rparr>) (rt_neighbors t)\<rparr>"

definition set_queue_load :: "u16 \<Rightarrow> u8 \<Rightarrow> RouteTable \<Rightarrow> RouteTable" where
  "set_queue_load addr load t = t\<lparr>rt_neighbors := update_first (\<lambda>n. ne_addr n = addr)
     (\<lambda>n. n\<lparr>ne_queue_load := load\<rparr>) (rt_neighbors t)\<rparr>"

text \<open>\<open>check_better_route\<close>: cost of the current next hop, cheapest alternative, hysteresis.\<close>

definition current_route_cost :: "u16 \<Rightarrow> NeighborEntry list \<Rightarrow> u32" where
  "current_route_cost current_best ns =
    (case List.find (\<lambda>n. ne_addr n = current_best \<and> ne_hops_to_internet n < ROUTE_HOPS_UNKNOWN) ns of
       None \<Rightarrow> UINT32_MAX | Some n \<Rightarrow> route_cost n)"

definition alternative_route :: "u16 \<Rightarrow> u16 \<Rightarrow> NeighborEntry list \<Rightarrow> u16 \<times> u32" where
  "alternative_route current_best my_addr ns =
     cheapest (\<lambda>n. ne_addr n \<noteq> current_best \<and> ne_hops_to_internet n < ROUTE_HOPS_UNKNOWN \<and>
         \<not> (my_addr \<noteq> 0 \<and> ne_inet_origin n = my_addr)) ns (0, UINT32_MAX)"

definition check_better_route :: "u16 \<Rightarrow> u16 \<Rightarrow> RouteTable \<Rightarrow> (bool \<times> u16) \<times> RouteTable" where
  "check_better_route current_best my_addr t =
    (let current_cost = current_route_cost current_best (rt_neighbors t);
         (alt_addr, alt_cost) = alternative_route current_best my_addr (rt_neighbors t);
         b = rt_better_route t in
     if alt_addr \<noteq> 0 \<and> alt_cost < current_cost \<and> 50 \<le> current_cost - alt_cost then
       let b1 = (if br_candidate_addr b = alt_addr
                 then b\<lparr>br_consecutive_cycles := br_consecutive_cycles b + 1\<rparr>
                 else \<lparr>br_candidate_addr = alt_addr, br_current_best_addr = current_best, br_consecutive_cycles = 1\<rparr>) in
       if 3 \<le> br_consecutive_cycles b1
       then ((True, br_candidate_addr b1), t\<lparr>rt_better_route := better_reset\<rparr>)
       else ((False, 0), t\<lparr>rt_better_route := b1\<rparr>)
     else ((False, 0), t\<lparr>rt_better_route := better_reset\<rparr>))"

definition neighbor_flags :: "NeighborEntry \<Rightarrow> u8" where
  "neighbor_flags n = (if ne_espnow_reachable n then ROUTE_FLAG_ESPNOW else 0) OR
     (if ne_lora_reachable n then ROUTE_FLAG_LORA else 0) OR
     (if ne_has_internet n then ROUTE_FLAG_INTERNET else 0)"

definition serialize_neighbor :: "NeighborEntry \<Rightarrow> bytes" where
  "serialize_neighbor n = le16 (ne_addr n) @ [ne_rssi n, ne_hop_count n, ne_hops_to_internet n,
     neighbor_flags n, ne_queue_load n]"

text \<open>\<open>serialize\<close>: the bytes written, or nothing when they do not fit (the code returns 0).\<close>

definition serialize :: "nat \<Rightarrow> RouteTable \<Rightarrow> bytes" where
  "serialize max_len t =
    (let needed = 1 + length (rt_neighbors t) * 7 in
     if max_len < needed then []
     else of_nat (length (rt_neighbors t)) # concat (map serialize_neighbor (rt_neighbors t)))"

definition min_hops_scan :: "(NeighborEntry \<Rightarrow> bool) \<Rightarrow> RouteTable \<Rightarrow> u8" where
  "min_hops_scan ok t = fold (\<lambda>n best. if ok n \<and> ne_hops_to_internet n < best then ne_hops_to_internet n else best)
     (rt_neighbors t) ROUTE_HOPS_UNKNOWN"

definition min_control_hops_to_internet :: "RouteTable \<Rightarrow> u8" where
  "min_control_hops_to_internet =
     min_hops_scan (\<lambda>n. ne_has_internet n \<or> ne_hops_to_internet n < ROUTE_HOPS_UNKNOWN)"

definition min_data_hops_to_internet :: "RouteTable \<Rightarrow> u8" where
  "min_data_hops_to_internet =
     min_hops_scan (\<lambda>n. (ne_has_internet n \<or> ne_hops_to_internet n < ROUTE_HOPS_UNKNOWN) \<and> ne_espnow_reachable n)"

section \<open>Invariant\<close>

definition table_ok :: "RouteTable \<Rightarrow> bool" where
  "table_ok t \<longleftrightarrow> length (rt_neighbors t) \<le> MAX_NEIGHBORS \<and> distinct (map ne_addr (rt_neighbors t))"

lemma find_idx_find:
  "List.find P xs = map_option ((!) xs) (find_idx P xs)"
  by (induction xs) (auto simp: option.map_comp comp_def)

lemma oldest_scan_props:
  assumes "oldest_scan now ns i (oi, od) = (oi', od')"
  shows "(oi' = oi \<and> od' = od \<or> (\<exists>k < length ns. oi' = i + k \<and> od' = now - ne_last_seen_ms (ns ! k))) \<and>
    od \<le> od' \<and> (\<forall>n \<in> set ns. now - ne_last_seen_ms n \<le> od')"
  using assms
proof (induction ns arbitrary: i oi od)
  case Nil
  then show ?case by simp
next
  case (Cons n ns)
  let ?d = "now - ne_last_seen_ms n"
  show ?case
  proof (cases "od < ?d")
    case True
    with Cons.prems have "oldest_scan now ns (i + 1) (i, ?d) = (oi', od')" by (simp add: Let_def)
    note IH = Cons.IH [OF this]
    from IH consider "oi' = i" "od' = ?d" | k where "k < length ns" "oi' = i + 1 + k" "od' = now - ne_last_seen_ms (ns ! k)"
      by auto
    then have "\<exists>k < length (n # ns). oi' = i + k \<and> od' = now - ne_last_seen_ms ((n # ns) ! k)"
      by cases (force, (rule_tac x = "Suc k" in exI, simp))
    with IH True show ?thesis by auto
  next
    case False
    with Cons.prems have "oldest_scan now ns (i + 1) (oi, od) = (oi', od')" by (simp add: Let_def)
    note IH = Cons.IH [OF this]
    have "oi' = oi \<and> od' = od \<or> (\<exists>k < length (n # ns). oi' = i + k \<and> od' = now - ne_last_seen_ms ((n # ns) ! k))"
      using IH by (elim conjE disjE) (simp, force)
    moreover have "?d \<le> od'" using False IH by auto
    ultimately show ?thesis using IH by auto
  qed
qed

text \<open>The evicted entry is one that has not been heard for the longest time.\<close>

lemma oldest_index:
  assumes "ns \<noteq> []"
  shows "fst (oldest_scan now ns 0 (0, 0)) < length ns"
    and "n \<in> set ns \<Longrightarrow> now - ne_last_seen_ms n \<le> now - ne_last_seen_ms (ns ! fst (oldest_scan now ns 0 (0, 0)))"
proof -
  obtain oi od where o: "oldest_scan now ns 0 (0, 0) = (oi, od)" by fastforce
  note p = oldest_scan_props [OF o]
  show "fst (oldest_scan now ns 0 (0, 0)) < length ns" using p o assms by auto
  assume n: "n \<in> set ns"
  then have le: "now - ne_last_seen_ms n \<le> od" using p by blast
  from p consider "oi = 0" "od = 0" | "oi < length ns" "od = now - ne_last_seen_ms (ns ! oi)" by auto
  then have "now - ne_last_seen_ms n \<le> now - ne_last_seen_ms (ns ! oi)"
  proof cases
    case 1
    with le have "now - ne_last_seen_ms n = 0" by simp
    then show ?thesis by (metis word_zero_le)
  next
    case 2
    with le show ?thesis by simp
  qed
  with o show "now - ne_last_seen_ms n \<le> now - ne_last_seen_ms (ns ! fst (oldest_scan now ns 0 (0, 0)))" by simp
qed

lemma distinct_addr_update:
  assumes "distinct (map f xs)" and "f y \<notin> set (map f xs) \<or> f y = f (xs ! i)"
  shows "distinct (map f (xs[i := y]))"
proof (cases "i < length xs")
  case True
  have eq: "map f (xs[i := y]) = (map f xs)[i := f y]" by (simp add: map_update)
  show ?thesis
  proof (cases "f y = f (xs ! i)")
    case same: True
    then have "(map f xs)[i := f y] = map f xs" using True by (simp add: list_update_same_conv)
    with assms(1) show ?thesis unfolding eq by simp
  next
    case False
    with assms show ?thesis unfolding eq by (intro distinct_list_update) auto
  qed
qed (use assms(1) in \<open>simp add: list_update_beyond\<close>)

lemma refresh_addr [simp]: "ne_addr (refresh_entry now r h e l hi n) = ne_addr n"
  by (simp add: refresh_entry_def)

lemma new_entry_addr [simp]: "ne_addr (new_entry now a r h e l hi) = a"
  by (simp add: new_entry_def)

lemma update_neighbor_ok:
  assumes "table_ok t"
  shows "table_ok (update_neighbor now addr rssi hops espnow lora hti t)"
proof -
  let ?ns = "rt_neighbors t"
  have d: "distinct (map ne_addr ?ns)" and l: "length ?ns \<le> MAX_NEIGHBORS" using assms by (auto simp: table_ok_def)
  show ?thesis
  proof (cases "find_idx (\<lambda>n. ne_addr n = addr) ?ns")
    case None
    then have new: "addr \<notin> set (map ne_addr ?ns)" by (auto simp: find_idx_None_iff)
    with None d l show ?thesis
      unfolding update_neighbor_def Let_def table_ok_def
      by (auto intro!: distinct_addr_update)
  next
    case (Some i)
    with d l show ?thesis
      unfolding update_neighbor_def Let_def table_ok_def
      by (auto intro!: distinct_addr_update)
  qed
qed

lemma ok_same_addrs: "table_ok t \<Longrightarrow> map ne_addr (rt_neighbors t') = map ne_addr (rt_neighbors t) \<Longrightarrow> table_ok t'"
  unfolding table_ok_def by (metis length_map)

lemma update_first_addrs:
  "(\<And>n. ne_addr (f n) = ne_addr n) \<Longrightarrow> map ne_addr (update_first P f ns) = map ne_addr ns"
  by (rule map_update_first)

lemma link_tx_addr [simp]: "ne_addr (link_tx s n) = ne_addr n"
  by (simp add: link_tx_def Let_def)

lemma early_stale_addrs:
  "map ne_addr (fst (early_stale_loop now e cb ns w)) = map ne_addr ns"
  by (induction ns arbitrary: w) (simp_all add: Let_def case_prod_unfold)

subsection \<open>Compaction in place\<close>

lemma prune_loop_filter:
  assumes "wr \<le> rd" and "rd \<le> length ns" and "P = (\<lambda>n. now - ne_last_seen_ms n \<le> m)"
    and "prune_loop now m [rd..<length ns] wr ns = (wr', ns')"
  shows "take wr' ns' = take wr ns @ filter P (drop rd ns)"
  using assms
proof (induction "length ns - rd" arbitrary: rd wr ns)
  case 0
  then show ?case by simp
next
  case (Suc k)
  then have lt: "rd < length ns" by simp
  then have up: "[rd..<length ns] = rd # [Suc rd..<length ns]" by (rule upt_conv_Cons)
  have dr: "drop rd ns = ns ! rd # drop (Suc rd) ns" using lt by (rule Cons_nth_drop_Suc [symmetric])
  show ?case
  proof (cases "P (ns ! rd)")
    case True
    let ?ns = "if wr \<noteq> rd then ns[wr := ns ! rd] else ns"
    have "prune_loop now m [Suc rd..<length ?ns] (wr + 1) ?ns = (wr', ns')"
      using Suc.prems(4) True up assms(3) Suc.prems(3) by (simp split: if_splits)
    then have "take wr' ns' = take (wr + 1) ?ns @ filter P (drop (Suc rd) ?ns)"
      using Suc.hyps Suc.prems lt by (intro Suc.hyps(1)) auto
    moreover have "take (wr + 1) ?ns = take wr ns @ [ns ! rd]"
      using Suc.prems(1) lt by (auto simp: take_Suc_conv_app_nth take_update_swap list_update_beyond)
    moreover have "drop (Suc rd) ?ns = drop (Suc rd) ns" using Suc.prems(1) by simp
    ultimately show ?thesis using True dr by simp
  next
    case False
    then have "prune_loop now m [Suc rd..<length ns] wr ns = (wr', ns')"
      using Suc.prems(3,4) up by simp
    then have "take wr' ns' = take wr ns @ filter P (drop (Suc rd) ns)"
      using Suc.hyps Suc.prems lt by (intro Suc.hyps(1)) auto
    with False dr show ?thesis by simp
  qed
qed

text \<open>
  The in-place compaction of \<open>prune_stale\<close> keeps exactly the neighbours heard within
  \<open>max_age_ms\<close>, in their order.
\<close>

theorem prune_stale_filters:
  "rt_neighbors (prune_stale now max_age_ms t) =
     filter (\<lambda>n. now - ne_last_seen_ms n \<le> max_age_ms) (rt_neighbors t)"
proof -
  obtain wr ns where p: "prune_loop now max_age_ms [0..<length (rt_neighbors t)] 0 (rt_neighbors t) = (wr, ns)"
    by fastforce
  from prune_loop_filter [OF _ _ refl p] p show ?thesis by (simp add: prune_stale_def)
qed

section \<open>Reachable tables\<close>

inductive rt_step :: "RouteTable \<Rightarrow> RouteTable \<Rightarrow> bool" where
  "rt_step t (update_neighbor now addr rssi hops espnow lora hti t)"
| "rt_step t (snd (update_inet_route addr hops sq origin t))"
| "rt_step t (report_link_tx addr success t)"
| "rt_step t (fst (detect_early_stale now early (\<lambda>_ _ _ w. w) t ()))"
| "rt_step t (snd (invalidate_route_via addr t))"
| "rt_step t (prune_stale now max_age t)"
| "rt_step t (set_has_internet addr val t)"
| "rt_step t (set_hops_to_internet addr hops t)"
| "rt_step t (set_queue_load addr load t)"
| "rt_step t (snd (check_better_route cur my t))"

lemma update_inet_route_addrs:
  "map ne_addr (rt_neighbors (snd (update_inet_route a h sq org t))) = map ne_addr (rt_neighbors t)"
proof (cases "find_idx (\<lambda>n. ne_addr n = a) (rt_neighbors t)")
  case None
  then show ?thesis by (simp add: update_inet_route_def)
next
  case (Some i)
  have "map ne_addr ((rt_neighbors t)[i := n]) = map ne_addr (rt_neighbors t)"
    if "ne_addr n = ne_addr (rt_neighbors t ! i)" for n
    using that find_idx_SomeD [OF Some] by (simp add: map_update list_update_same_conv)
  with Some show ?thesis by (simp add: update_inet_route_def Let_def)
qed

lemma rt_step_ok: "rt_step t t' \<Longrightarrow> table_ok t \<Longrightarrow> table_ok t'"
proof (induction rule: rt_step.induct)
  case (1 t now addr rssi hops espnow lora hti)
  then show ?case by (rule update_neighbor_ok)
next
  case (2 t addr hops sq origin)
  then show ?case by (rule ok_same_addrs) (rule update_inet_route_addrs)
next
  case (3 t addr success)
  then show ?case by (rule ok_same_addrs) (simp add: report_link_tx_def update_first_addrs)
next
  case (4 t now early)
  then show ?case
    by (rule ok_same_addrs)
      (simp add: detect_early_stale_def case_prod_unfold early_stale_addrs)
next
  case (5 t addr)
  then show ?case by (rule ok_same_addrs) (auto simp: invalidate_route_via_def Let_def)
next
  case (6 t now max_age)
  then show ?case
    by (auto simp: table_ok_def prune_stale_filters distinct_map_filter intro: le_trans [OF length_filter_le])
next
  case (7 t addr val)
  then show ?case by (rule ok_same_addrs) (simp add: set_has_internet_def update_first_addrs)
next
  case (8 t addr hops)
  then show ?case by (rule ok_same_addrs) (simp add: set_hops_to_internet_def update_first_addrs)
next
  case (9 t addr load)
  then show ?case by (rule ok_same_addrs) (simp add: set_queue_load_def update_first_addrs)
next
  case (10 t cur my)
  then show ?case
    by (rule ok_same_addrs) (simp add: check_better_route_def Let_def split: prod.splits)
qed

text \<open>
  C35. Whatever operations are applied to a fresh table, in any order and with any arguments, it
  never holds more than \<open>MAX_NEIGHBORS\<close> entries nor two entries for one address.
\<close>

theorem route_table_invariant:
  assumes "rt_step\<^sup>*\<^sup>* RouteTable_new t"
  shows "length (rt_neighbors t) \<le> MAX_NEIGHBORS \<and> distinct (map ne_addr (rt_neighbors t))"
proof -
  have "table_ok t" using assms
  proof (induction rule: rtranclp_induct)
    case base
    show ?case by (simp add: RouteTable_new_def table_ok_def)
  next
    case (step y z)
    then show ?case using rt_step_ok by blast
  qed
  then show ?thesis by (simp add: table_ok_def)
qed

theorem route_table_invariant_witness:
  "length (rt_neighbors (update_neighbor 5 7 0 1 True False 2 RouteTable_new)) \<le> MAX_NEIGHBORS"
  using route_table_invariant [OF r_into_rtranclp [of rt_step, OF rt_step.intros(1)]] by blast

section \<open>Looking up neighbours\<close>

lemma find_update_same:
  assumes "find_idx (\<lambda>n. ne_addr n = a) ns = Some i" and "ne_addr y = a"
  shows "List.find (\<lambda>n. ne_addr n = a) (ns[i := y]) = Some y"
  using assms
proof (induction ns arbitrary: i)
  case (Cons n ns)
  then show ?case by (cases i) (auto split: if_splits)
qed simp

lemma find_update_other:
  assumes "ne_addr (ns ! i) \<noteq> a" and "ne_addr y \<noteq> a"
  shows "List.find (\<lambda>n. ne_addr n = a) (ns[i := y]) = List.find (\<lambda>n. ne_addr n = a) ns"
  using assms
proof (induction ns arbitrary: i)
  case (Cons n ns)
  then show ?case by (cases i) auto
qed simp

lemma find_snoc:
  assumes "\<forall>n \<in> set ns. ne_addr n \<noteq> addr" and "ne_addr y = addr"
  shows "List.find (\<lambda>n. ne_addr n = a) (ns @ [y]) =
    (if a = addr then Some y else List.find (\<lambda>n. ne_addr n = a) ns)"
  using assms by (induction ns) auto

lemma find_unique: "y \<in> set xs \<Longrightarrow> P y \<Longrightarrow> \<forall>n \<in> set xs. P n \<longrightarrow> n = y \<Longrightarrow> List.find P xs = Some y"
proof (induction xs)
  case (Cons x xs)
  then show ?case by (metis find.simps(2) list.set_intros set_ConsD)
qed simp

lemma find_update_evict:
  assumes "distinct (map ne_addr ns)" and "i < length ns" and "ne_addr y \<noteq> ne_addr (ns ! i)"
  shows "List.find (\<lambda>n. ne_addr n = ne_addr (ns ! i)) (ns[i := y]) = None"
proof -
  have "ne_addr (ns ! i) \<notin> set (map ne_addr (ns[i := y]))"
  proof
    assume "ne_addr (ns ! i) \<in> set (map ne_addr (ns[i := y]))"
    then obtain j where j: "j < length ns" "ne_addr (ns[i := y] ! j) = ne_addr (ns ! i)"
      by (auto simp: in_set_conv_nth)
    with assms show False by (cases "j = i") (auto simp: distinct_conv_nth)
  qed
  then show ?thesis unfolding find_None_iff by (metis (mono_tags, lifting) image_eqI list.set_map)
qed

text \<open>
  Hearing a neighbour makes it known with the values just received; every other neighbour
  is either unchanged or, only when the table was full and the heard one was new, evicted, and the
  evicted one has been silent at least as long as every other entry.
\<close>

theorem update_neighbor_lookup:
  assumes "table_ok t" and t': "update_neighbor now addr rssi hops espnow lora hti t = t'"
  shows "(\<exists>n. get_neighbor addr t' = Some n \<and> ne_rssi n = rssi \<and> ne_hop_count n = hops \<and>
      ne_last_seen_ms n = now \<and> (espnow \<longrightarrow> ne_espnow_reachable n) \<and> (lora \<longrightarrow> ne_lora_reachable n) \<and>
      (hti \<noteq> ROUTE_HOPS_UNKNOWN \<longrightarrow> ne_hops_to_internet n = hti)) \<and>
    (\<forall>a. a \<noteq> addr \<longrightarrow> get_neighbor a t' = get_neighbor a t \<or>
      get_neighbor a t' = None \<and> get_neighbor addr t = None \<and> length (rt_neighbors t) = MAX_NEIGHBORS \<and>
      (\<exists>n. get_neighbor a t = Some n \<and>
        (\<forall>m \<in> set (rt_neighbors t). now - ne_last_seen_ms m \<le> now - ne_last_seen_ms n)))"
proof -
  let ?ns = "rt_neighbors t"
  let ?new = "new_entry now addr rssi hops espnow lora hti"
  have d: "distinct (map ne_addr ?ns)" and l: "length ?ns \<le> MAX_NEIGHBORS" using assms(1) by (auto simp: table_ok_def)
  show ?thesis
  proof (cases "find_idx (\<lambda>n. ne_addr n = addr) ?ns")
    case (Some i)
    let ?y = "refresh_entry now rssi hops espnow lora hti (?ns ! i)"
    have a: "ne_addr (?ns ! i) = addr" using find_idx_SomeD [OF Some] by simp
    have "rt_neighbors t' = ?ns[i := ?y]" using Some t' by (auto simp: update_neighbor_def Let_def)
    with find_update_same [OF Some, of ?y] find_update_other [of ?ns i _ ?y] a show ?thesis
      by (auto simp: get_neighbor_def refresh_entry_def)
  next
    case None
    then have new: "\<forall>n \<in> set ?ns. ne_addr n \<noteq> addr" by (simp add: find_idx_None_iff)
    then have g: "get_neighbor addr t = None" by (auto simp: get_neighbor_def find_None_iff)
    show ?thesis
    proof (cases "length ?ns < MAX_NEIGHBORS")
      case True
      then have "rt_neighbors t' = ?ns @ [?new]" using None t' by (auto simp: update_neighbor_def Let_def)
      moreover have "List.find (\<lambda>n. ne_addr n = a) (?ns @ [?new]) =
          (if a = addr then Some ?new else List.find (\<lambda>n. ne_addr n = a) ?ns)" for a
        using find_snoc [of ?ns addr ?new a] new by simp
      ultimately show ?thesis by (simp add: get_neighbor_def new_entry_def)
    next
      case False
      let ?i = "fst (oldest_scan now ?ns 0 (0, 0))"
      have ns': "rt_neighbors t' = ?ns[?i := ?new]" using None False t' by (auto simp: update_neighbor_def Let_def)
      have ne: "?ns \<noteq> []" using False by auto
      note o = oldest_index [OF ne, where now = now]
      have "?new \<in> set (?ns[?i := ?new])" using o(1) by (simp add: set_update_memI)
      moreover have "n = ?new" if "n \<in> set (?ns[?i := ?new])" "ne_addr n = addr" for n
        using that new set_update_subset_insert [of ?ns ?i ?new] by auto
      ultimately have "List.find (\<lambda>n. ne_addr n = addr) (?ns[?i := ?new]) = Some ?new"
        by (intro find_unique) auto
      then have here: "get_neighbor addr t' = Some ?new" by (simp add: get_neighbor_def ns')
      have others: "get_neighbor a t' = get_neighbor a t \<or> get_neighbor a t' = None \<and> get_neighbor a t = Some (?ns ! ?i)"
        if "a \<noteq> addr" for a
      proof (cases "ne_addr (?ns ! ?i) = a")
        case True
        then have "get_neighbor a t' = None"
          using find_update_evict [OF d o(1), of ?new] that by (auto simp: get_neighbor_def ns')
        moreover have "get_neighbor a t = Some (?ns ! ?i)"
          unfolding get_neighbor_def find_Some_iff using True d o(1) by (auto simp: distinct_conv_nth)
        ultimately show ?thesis by blast
      next
        case False
        with find_update_other [of ?ns ?i a ?new] that show ?thesis by (simp add: get_neighbor_def ns')
      qed
      have "length ?ns = MAX_NEIGHBORS" using False l by simp
      with here others o(2) g show ?thesis by (fastforce simp: new_entry_def)
    qed
  qed
qed

theorem update_neighbor_lookup_witness:
  "\<exists>n. get_neighbor 7 (update_neighbor 5 7 3 1 True False 2 RouteTable_new) = Some n \<and> ne_rssi n = 3"
proof -
  have "table_ok RouteTable_new" by (simp add: table_ok_def RouteTable_new_def)
  from update_neighbor_lookup [OF this refl, of 7 5 3 1 True False 2] show ?thesis by blast
qed

section \<open>Choosing the next hop\<close>

lemma unat_route_cost_bound: "route_cost n < UINT32_MAX"
proof -
  have b: "unat (ucast (ne_hops_to_internet n) :: u32) < 256" "unat (ucast (ne_etx_x100 n) :: u32) < 65536"
    "unat (ucast (ne_queue_load n) :: u32) < 256" by simp_all
  show ?thesis
    unfolding route_cost_def Let_def
    using b by (simp add: word_less_nat_alt unat_word_ariths del: unat_ucast_u8_u32 unat_ucast_u16_u32)
qed

lemma cheapest_props:
  assumes "cheapest ok ns (a, c) = (a', c')"
  shows "c' \<le> c \<and> (\<forall>n \<in> set ns. ok n \<longrightarrow> c' \<le> route_cost n) \<and>
    (a' = a \<and> c' = c \<or> (\<exists>n \<in> set ns. ok n \<and> ne_addr n = a' \<and> route_cost n = c'))"
  using assms
proof (induction ns arbitrary: a c)
  case (Cons n ns)
  show ?case
  proof (cases "ok n \<and> route_cost n < c")
    case True
    with Cons.prems have "cheapest ok ns (ne_addr n, route_cost n) = (a', c')" by simp
    from Cons.IH [OF this] True show ?thesis by auto
  next
    case False
    with Cons.prems have "cheapest ok ns (a, c) = (a', c')" by simp
    from Cons.IH [OF this] False show ?thesis by (auto simp: not_less)
  qed
qed simp

lemma cheapest_max:
  assumes "cheapest ok ns (a, UINT32_MAX) = (a', c')"
  shows "(\<forall>n \<in> set ns. \<not> ok n) \<and> a' = a \<and> c' = UINT32_MAX \<or>
    (\<exists>n \<in> set ns. ok n \<and> ne_addr n = a' \<and> route_cost n = c' \<and> (\<forall>m \<in> set ns. ok m \<longrightarrow> route_cost n \<le> route_cost m))"
  using cheapest_props [OF assms] unat_route_cost_bound by (metis leD)

text \<open>
  C17. Toward the internet (with no neighbour at the reserved exit address), \<open>next_hop\<close> returns
  the broadcast address exactly when no neighbour has a usable route, and otherwise a neighbour
  with a usable route of least cost. A route is usable when its hop count is known and it does
  not originate at this node.
\<close>

theorem next_hop_internet_optimal:
  assumes "\<forall>n \<in> set (rt_neighbors t). ne_addr n \<noteq> EXIT_ANY_ADDR \<and> ne_addr n \<noteq> BROADCAST_ADDR"
    and "my \<noteq> 0"
  defines "usable \<equiv> \<lambda>n. ne_hops_to_internet n < ROUTE_HOPS_UNKNOWN \<and> ne_inet_origin n \<noteq> my"
  shows "(next_hop EXIT_ANY_ADDR my t = BROADCAST_ADDR \<longleftrightarrow> (\<forall>n \<in> set (rt_neighbors t). \<not> usable n)) \<and>
    (next_hop EXIT_ANY_ADDR my t \<noteq> BROADCAST_ADDR \<longrightarrow>
      (\<exists>n \<in> set (rt_neighbors t). usable n \<and> ne_addr n = next_hop EXIT_ANY_ADDR my t \<and>
        (\<forall>m \<in> set (rt_neighbors t). usable m \<longrightarrow> route_cost n \<le> route_cost m)))"
proof -
  obtain a c where c: "cheapest (hop_candidate True my) (rt_neighbors t) (BROADCAST_ADDR, UINT32_MAX) = (a, c)"
    by fastforce
  have ok: "hop_candidate True my = usable" using assms(2) by (auto simp: hop_candidate_def usable_def fun_eq_iff)
  have nd: "\<not> list_ex (\<lambda>n. ne_addr n = EXIT_ANY_ADDR) (rt_neighbors t)" using assms(1) by (auto simp: list_ex_iff)
  have h: "next_hop EXIT_ANY_ADDR my t = a" using c nd by (simp add: next_hop_def)
  show ?thesis unfolding h using cheapest_max [OF c] assms(1) unfolding ok by blast
qed

text \<open>Two concrete tables for the witnesses.\<close>

definition ex_table :: RouteTable where
  "ex_table = snd (update_inet_route 8 1 5 9 (update_neighbor 20 8 0 1 True False 1
     (snd (update_inet_route 7 2 4 9 (update_neighbor 10 7 0 1 True False 2 RouteTable_new)))))"

lemma ex_table_addrs: "map ne_addr (rt_neighbors ex_table) = [7, 8]" "map ne_hops_to_internet (rt_neighbors ex_table) = [2, 1]"
  by (simp_all add: ex_table_def update_neighbor_def update_inet_route_def new_entry_def RouteTable_new_def seq_newer_def Let_def)

lemma ex_table_set: "\<forall>n \<in> set (rt_neighbors ex_table). ne_addr n = 7 \<or> ne_addr n = 8"
proof -
  have "ne_addr ` set (rt_neighbors ex_table) = {7, 8}" by (metis ex_table_addrs(1) list.set_map list.simps(15) empty_set)
  then show ?thesis by auto
qed

theorem next_hop_internet_optimal_witness:
  "next_hop EXIT_ANY_ADDR 3 ex_table = BROADCAST_ADDR \<or>
   (\<exists>n \<in> set (rt_neighbors ex_table). ne_addr n = next_hop EXIT_ANY_ADDR 3 ex_table)"
  using next_hop_internet_optimal [of ex_table 3] ex_table_set by fastforce

text \<open>
  Toward a specific node: a direct neighbour is reached directly; otherwise the cheapest
  neighbour with a known route that is not itself an exit is used, an exit only when there is no
  other, and broadcast only when no neighbour has a known route.
\<close>

theorem next_hop_unicast:
  fixes my :: u16
  assumes "dst \<noteq> EXIT_ANY_ADDR" and "\<forall>n \<in> set (rt_neighbors t). ne_addr n \<noteq> BROADCAST_ADDR"
  defines "known \<equiv> \<lambda>n. ne_hops_to_internet n < ROUTE_HOPS_UNKNOWN"
    and "h \<equiv> next_hop dst my t"
  shows "if \<exists>n \<in> set (rt_neighbors t). ne_addr n = dst then h = dst
    else if \<forall>n \<in> set (rt_neighbors t). \<not> known n then h = BROADCAST_ADDR
    else \<exists>n \<in> set (rt_neighbors t). known n \<and> ne_addr n = h \<and>
      (if \<exists>m \<in> set (rt_neighbors t). known m \<and> ne_hops_to_internet m \<noteq> 0
       then ne_hops_to_internet n \<noteq> 0 \<and>
         (\<forall>m \<in> set (rt_neighbors t). known m \<and> ne_hops_to_internet m \<noteq> 0 \<longrightarrow> route_cost n \<le> route_cost m)
       else \<forall>m \<in> set (rt_neighbors t). known m \<longrightarrow> route_cost n \<le> route_cost m)"
proof -
  let ?ns = "rt_neighbors t"
  obtain a c where c: "cheapest (hop_candidate False my) ?ns (BROADCAST_ADDR, UINT32_MAX) = (a, c)" by fastforce
  have ok: "hop_candidate False my n \<longleftrightarrow> known n \<and> ne_hops_to_internet n \<noteq> 0" for n
    by (auto simp: hop_candidate_def known_def)
  note p = cheapest_max [OF c, unfolded ok]
  show ?thesis
  proof (cases "\<exists>n \<in> set ?ns. ne_addr n = dst")
    case True
    then show ?thesis by (auto simp: h_def next_hop_def list_ex_iff)
  next
    case False
    then have nd: "\<not> list_ex (\<lambda>n. ne_addr n = dst) ?ns" by (auto simp: list_ex_iff)
    show ?thesis
    proof (cases "\<exists>m \<in> set ?ns. known m \<and> ne_hops_to_internet m \<noteq> 0")
      case True
      then have q: "\<exists>n \<in> set ?ns. (known n \<and> ne_hops_to_internet n \<noteq> 0) \<and> ne_addr n = a \<and> route_cost n = c \<and>
          (\<forall>m \<in> set ?ns. known m \<and> ne_hops_to_internet m \<noteq> 0 \<longrightarrow> route_cost n \<le> route_cost m)" using p by blast
      then have "a \<noteq> BROADCAST_ADDR" using assms(2) by blast
      then have "h = a" using c nd assms(1) by (simp add: h_def next_hop_def)
      with q True False show ?thesis by auto
    next
      case none: False
      then have a: "a = BROADCAST_ADDR" "c = UINT32_MAX" using p by blast+
      obtain a2 c2 where c2: "cheapest known ?ns (BROADCAST_ADDR, UINT32_MAX) = (a2, c2)" by fastforce
      have "h = a2" using c nd assms(1) a c2 by (simp add: h_def next_hop_def known_def)
      with cheapest_max [OF c2] none False show ?thesis by auto
    qed
  qed
qed

theorem next_hop_unicast_witness: "next_hop 8 3 ex_table = 8"
proof -
  have "\<exists>n \<in> set (rt_neighbors ex_table). ne_addr n = 8"
    using ex_table_addrs(1) by (metis imageE insertCI list.set_map list.simps(15))
  moreover have "\<forall>n \<in> set (rt_neighbors ex_table). ne_addr n \<noteq> BROADCAST_ADDR" using ex_table_set by fastforce
  ultimately show ?thesis using next_hop_unicast [of 8 ex_table 3] by simp
qed

section \<open>Sequence-numbered routes\<close>

lemma seq_newer_iff: "seq_newer a b \<longleftrightarrow> 0 < (uint a - uint b) mod 65536 \<and> (uint a - uint b) mod 65536 < 32768"
proof -
  let ?d = "(uint a - uint b) mod 65536"
  have "sint (a - b) = (?d + 32768) mod 65536 - 32768"
    by (simp add: sint_uint signed_take_bit_eq_take_bit_shift take_bit_eq_mod uint_word_ariths)
  moreover have "0 \<le> ?d" "?d < 65536" by simp_all
  ultimately show ?thesis unfolding seq_newer_def by (smt (verit) mod_pos_pos_trivial mod_add_self2 minus_mod_self2)
qed

text \<open>Serial-number order is asymmetric: of two numbers at most one is newer.\<close>

lemma seq_newer_asym: "seq_newer a b \<Longrightarrow> \<not> seq_newer b a"
proof -
  have "(uint b - uint a) mod 65536 = (- ((uint a - uint b) mod 65536)) mod 65536"
    by (simp add: mod_minus_eq)
  then show "seq_newer a b \<Longrightarrow> \<not> seq_newer b a"
    unfolding seq_newer_iff by (auto simp: zmod_zminus1_eq_if)
qed

lemma seq_newer_irrefl [simp]: "\<not> seq_newer a a"
  by (simp add: seq_newer_iff)

text \<open>
  C16. Route advertisements follow the sequence-number rules. For the origin already stored, an
  advertisement is accepted exactly when its sequence number is newer, or equal with fewer hops;
  so an advertisement older than the stored one is always rejected. For another origin it is
  accepted exactly when it is newer or has fewer hops. An accepted one is stored as received, a
  rejected one changes nothing, and no other neighbour is affected.
\<close>

theorem update_inet_route_dsdv:
  assumes "get_neighbor a t = Some n" and "update_inet_route a h sq org t = (acc, t')"
  shows "(acc \<longrightarrow> (\<exists>n'. get_neighbor a t' = Some n' \<and> ne_hops_to_internet n' = h \<and>
        ne_inet_seq n' = sq \<and> ne_inet_origin n' = org)) \<and>
    (\<not> acc \<longrightarrow> t' = t) \<and>
    (org = ne_inet_origin n \<longrightarrow> (acc \<longleftrightarrow> seq_newer sq (ne_inet_seq n) \<or>
       sq = ne_inet_seq n \<and> h < ne_hops_to_internet n)) \<and>
    (org = ne_inet_origin n \<and> seq_newer (ne_inet_seq n) sq \<longrightarrow> \<not> acc) \<and>
    (org \<noteq> ne_inet_origin n \<longrightarrow> (acc \<longleftrightarrow> seq_newer sq (ne_inet_seq n) \<or> h < ne_hops_to_internet n)) \<and>
    (\<forall>b. b \<noteq> a \<longrightarrow> get_neighbor b t' = get_neighbor b t)"
proof -
  obtain i where i: "find_idx (\<lambda>n. ne_addr n = a) (rt_neighbors t) = Some i" "rt_neighbors t ! i = n"
    using assms(1) by (auto simp: get_neighbor_def find_idx_find)
  have na: "ne_addr n = a" using find_idx_SomeD [OF i(1)] i(2) by simp
  have same: "List.find (\<lambda>m. ne_addr m = a) ((rt_neighbors t)[i := y]) = Some y" if "ne_addr y = a" for y
    using find_update_same [OF i(1) that] .
  have other: "List.find (\<lambda>m. ne_addr m = b) ((rt_neighbors t)[i := y]) = List.find (\<lambda>m. ne_addr m = b) (rt_neighbors t)"
    if "ne_addr y = a" "b \<noteq> a" for y b
    using find_update_other [of "rt_neighbors t" i b y] that i(2) na by simp
  show ?thesis
    using assms(2) i na same other seq_newer_asym [of sq "ne_inet_seq n"]
    by (auto simp: update_inet_route_def Let_def get_neighbor_def split: if_splits)
qed

theorem update_inet_route_dsdv_witness:
  "\<exists>n. get_neighbor 8 ex_table = Some n \<and> ne_inet_origin n = 9 \<and> ne_inet_seq n = 5 \<and>
     \<not> fst (update_inet_route 8 0 4 9 ex_table)"
proof -
  obtain n where n: "get_neighbor 8 ex_table = Some n" "ne_inet_origin n = 9" "ne_inet_seq n = 5"
    by (simp add: ex_table_def get_neighbor_def update_neighbor_def update_inet_route_def new_entry_def
        RouteTable_new_def seq_newer_def Let_def)
  obtain acc t' where u: "update_inet_route 8 0 4 9 ex_table = (acc, t')" by fastforce
  have "seq_newer 5 4" by (simp add: seq_newer_def)
  with update_inet_route_dsdv [OF n(1) u] n(2,3) have "\<not> acc" by auto
  with n u show ?thesis by auto
qed

section \<open>Hysteresis\<close>

text \<open>\<open>improvement\<close>: the alternative a call finds meaningfully better than the current next hop.\<close>

definition improvement :: "u16 \<times> u16 \<times> NeighborEntry list \<Rightarrow> u16 option" where
  "improvement = (\<lambda>(cur, my, ns).
     let (alt_addr, alt_cost) = alternative_route cur my ns; c = current_route_cost cur ns in
     if alt_addr \<noteq> 0 \<and> alt_cost < c \<and> 50 \<le> c - alt_cost then Some alt_addr else None)"

text \<open>A run of discovery cycles; the neighbours may change arbitrarily between calls.\<close>

definition check_run :: "(u16 \<times> u16 \<times> NeighborEntry list) list \<Rightarrow> (bool \<times> u16) \<times> RouteTable" where
  "check_run xs = fold (\<lambda>(cur, my, ns) (r, t). check_better_route cur my (t\<lparr>rt_neighbors := ns\<rparr>)) xs
     ((False, 0), RouteTable_new)"

lemma check_better_route_improvement:
  "check_better_route cur my t =
    (case improvement (cur, my, rt_neighbors t) of
       None \<Rightarrow> ((False, 0), t\<lparr>rt_better_route := better_reset\<rparr>)
     | Some a \<Rightarrow>
         let b = rt_better_route t;
             b1 = (if br_candidate_addr b = a then b\<lparr>br_consecutive_cycles := br_consecutive_cycles b + 1\<rparr>
                   else \<lparr>br_candidate_addr = a, br_current_best_addr = cur, br_consecutive_cycles = 1\<rparr>) in
         if 3 \<le> br_consecutive_cycles b1
         then ((True, br_candidate_addr b1), t\<lparr>rt_better_route := better_reset\<rparr>)
         else ((False, 0), t\<lparr>rt_better_route := b1\<rparr>))"
  by (simp add: check_better_route_def improvement_def Let_def split: prod.splits)

text \<open>What the last cycle found, and for how many cycles in a row up to the end it was found.\<close>

definition streak :: "(u16 \<times> u16 \<times> NeighborEntry list) list \<Rightarrow> u16 option \<times> nat" where
  "streak xs = (case rev xs of [] \<Rightarrow> (None, 0)
     | x # _ \<Rightarrow> (improvement x, length (takeWhile (\<lambda>y. improvement y = improvement x) (rev xs))))"

lemma streak_snoc:
  "streak (xs @ [x]) = (improvement x, if fst (streak xs) = improvement x then Suc (snd (streak xs)) else 1)"
  by (auto simp: streak_def split: list.split)

lemma improvement_nonzero: "improvement x = Some a \<Longrightarrow> a \<noteq> 0"
  by (auto simp: improvement_def Let_def split: prod.splits if_splits)

text \<open>The counter holds the length of the streak modulo 3, and the candidate while it is not 0.\<close>

definition counts_streak :: "u16 option \<times> nat \<Rightarrow> BetterRouteCandidate \<Rightarrow> bool" where
  "counts_streak s b \<longleftrightarrow> (case s of (None, k) \<Rightarrow> b = better_reset
     | (Some a, k) \<Rightarrow> a \<noteq> 0 \<and> br_candidate_addr b = (if k mod 3 = 0 then 0 else a) \<and> br_consecutive_cycles b = of_nat (k mod 3))"

lemma hysteresis_step:
  assumes "counts_streak (streak xs) (rt_better_route t)" and "check_better_route cur my t = (r, t')"
    and x: "x = (cur, my, rt_neighbors t)"
  shows "counts_streak (streak (xs @ [x])) (rt_better_route t') \<and>
    r = (case streak (xs @ [x]) of (Some a, k) \<Rightarrow> if 3 dvd k then (True, a) else (False, 0) | _ \<Rightarrow> (False, 0))"
proof (cases "improvement x")
  case None
  then show ?thesis using assms(2) x by (auto simp: check_better_route_improvement streak_snoc counts_streak_def)
next
  case (Some alt)
  note nz = improvement_nonzero [OF Some]
  obtain i k where s: "streak xs = (i, k)" by fastforce
  let ?b = "rt_better_route t"
  have one: "\<not> (3 :: u8) \<le> 1" by (simp add: word_le_nat_alt)
  consider (fresh) "br_candidate_addr ?b \<noteq> alt" "i \<noteq> Some alt \<or> k mod 3 = 0"
    | (grow) "br_candidate_addr ?b = alt" "i = Some alt" "k mod 3 = 1" "br_consecutive_cycles ?b = 1"
    | (switch) "br_candidate_addr ?b = alt" "i = Some alt" "k mod 3 = 2" "br_consecutive_cycles ?b = 2"
  proof -
    have "k mod 3 < 3" by simp
    then consider "k mod 3 = 0" | "k mod 3 = 1" | "k mod 3 = 2" by linarith
    then show thesis
      using assms(1) nz fresh grow switch
      by cases (cases i; auto simp: s counts_streak_def better_reset_def split: if_splits)+
  qed
  then show ?thesis
  proof cases
    case fresh
    with assms(2) x Some one have "rt_better_route t' = \<lparr>br_candidate_addr = alt, br_current_best_addr = cur, br_consecutive_cycles = 1\<rparr>" "r = (False, 0)"
      by (auto simp: check_better_route_improvement Let_def)
    moreover have "snd (streak (xs @ [x])) mod 3 = 1" using fresh(2) Some by (auto simp: streak_snoc s mod_Suc)
    ultimately show ?thesis using Some nz by (auto simp: streak_snoc s counts_streak_def dvd_eq_mod_eq_0 split: if_splits)
  next
    case grow
    with assms(2) x Some have "rt_better_route t' = ?b\<lparr>br_consecutive_cycles := 2\<rparr>" "r = (False, 0)"
      by (auto simp: check_better_route_improvement Let_def)
    with grow Some nz show ?thesis by (simp add: streak_snoc s counts_streak_def dvd_eq_mod_eq_0 mod_Suc)
  next
    case switch
    with assms(2) x Some have "rt_better_route t' = better_reset" "r = (True, alt)"
      by (auto simp: check_better_route_improvement Let_def)
    with switch Some nz show ?thesis by (simp add: streak_snoc s counts_streak_def dvd_eq_mod_eq_0 mod_Suc better_reset_def)
  qed
qed

text \<open>
  C34. The route switch has hysteresis. Take any run of discovery cycles from a fresh table, the
  neighbours changing arbitrarily in between, and let \<open>k\<close> be the number of cycles up to the last one that
  in a row found the same alternative \<open>a\<close> better than the then current next hop by the required margin.
  The last cycle reports a switch exactly when there is such an alternative and \<open>k\<close> is a multiple of
  three - at the third cycle, and, as a report starts the count again, at every third one after it - and
  the switch is to \<open>a\<close>.
\<close>

theorem check_better_route_hysteresis:
  assumes "xs \<noteq> []" and "i = improvement (last xs)" and "k = length (takeWhile (\<lambda>y. improvement y = i) (rev xs))"
  shows "fst (check_run xs) = (case i of Some a \<Rightarrow> if 3 dvd k then (True, a) else (False, 0) | None \<Rightarrow> (False, 0))"
proof -
  have run: "counts_streak (streak xs) (rt_better_route (snd (check_run xs))) \<and> (xs \<noteq> [] \<longrightarrow> fst (check_run xs) =
      (case streak xs of (Some a, k) \<Rightarrow> if 3 dvd k then (True, a) else (False, 0) | _ \<Rightarrow> (False, 0)))"
  proof (induction xs rule: rev_induct)
    case Nil
    show ?case by (simp add: check_run_def counts_streak_def streak_def RouteTable_new_def better_reset_def)
  next
    case (snoc x xs)
    obtain cur my ns where x: "x = (cur, my, ns)" by (rule prod_cases3)
    obtain r t0 where r: "check_run xs = (r, t0)" by fastforce
    obtain r' t' where c: "check_better_route cur my (t0\<lparr>rt_neighbors := ns\<rparr>) = (r', t')" by fastforce
    then have run: "check_run (xs @ [x]) = (r', t')" using r x by (simp add: check_run_def case_prod_unfold)
    have "counts_streak (streak xs) (rt_better_route (t0\<lparr>rt_neighbors := ns\<rparr>))" using snoc r by simp
    from hysteresis_step [OF this c] x run show ?case by simp
  qed
  obtain ys y where ys: "xs = ys @ [y]" using assms(1) by (cases xs rule: rev_cases) auto
  have "streak xs = (i, k)" by (simp add: streak_def assms(2,3) ys)
  with run assms(1) show ?thesis by (simp split: option.split)
qed

theorem check_better_route_hysteresis_witness:
  "map (\<lambda>n. fst (check_run (replicate n (7, 3, rt_neighbors ex_table)))) [1, 2, 3] = [(False, 0), (False, 0), (True, 8)]"
proof -
  have i: "improvement (7, 3, rt_neighbors ex_table) = Some 8" by code_simp
  have "fst (check_run (replicate n (7, 3, rt_neighbors ex_table))) = (if 3 dvd n then (True, 8) else (False, 0))" if "0 < n" for n
    using check_better_route_hysteresis [of "replicate n (7, 3, rt_neighbors ex_table)", OF _ refl refl] that
    by (simp add: i takeWhile_eq_all_conv [THEN iffD2])
  from this [of 1] this [of 2] this [of 3] show ?thesis by simp
qed

section \<open>Link quality\<close>

lemma get_neighbor_link_tx:
  "get_neighbor addr (report_link_tx addr success t) = map_option (link_tx success) (get_neighbor addr t)"
  unfolding get_neighbor_def report_link_tx_def by (simp add: find_update_first link_tx_def Let_def)

text \<open>
  Reporting the outcome of a transmission updates the entry of that neighbour and no other
  copy of it: its ETX becomes the ratio of transmissions to successes in hundredths, taken modulo
  \<open>2\<^sup>1\<^sup>6\<close> (the code narrows before it clamps) and then clamped to 10.0.
\<close>

theorem report_link_tx_etx:
  "get_neighbor addr (report_link_tx addr success t) =
     map_option (\<lambda>n. let cnt = ne_tx_count n + 1; suc = (if success then ne_tx_success n + 1 else ne_tx_success n) in
       n\<lparr>ne_tx_count := cnt, ne_tx_success := suc,
         ne_etx_x100 := of_nat (min 1000 (unat cnt * 100 div max 1 (unat suc) mod 65536))\<rparr>) (get_neighbor addr t)"
proof -
  have s: "unat (if 0 < x then x else 1) = max 1 (unat x)" for x :: u16
    by (auto simp: word_gt_0 max_def unat_eq_0 not_less_eq_eq Suc_le_eq unat_gt_0)
  have c: "(if 1000 < (of_nat q :: u16) then 1000 else of_nat q) = (of_nat (min 1000 (q mod 65536)) :: u16)" for q :: nat
    by (rule word_unat_eq_iff [THEN iffD2])
       (simp add: word_less_nat_alt unat_of_nat min_def)
  show ?thesis
    unfolding get_neighbor_link_tx
    by (intro option.map_cong0) (simp add: link_tx_def Let_def s c del: of_nat_mult)
qed

text \<open>
  The narrowing makes a very bad link look better than a perfect one: after 656 transmissions with
  one success the estimate is 0.64, below the 1.0 of a link that never lost a packet.
\<close>

theorem report_link_tx_narrowing:
  "ne_etx_x100 (link_tx False (n\<lparr>ne_tx_count := 655, ne_tx_success := 1\<rparr>)) = 64 \<and>
   ne_etx_x100 (link_tx True (n\<lparr>ne_tx_count := 655, ne_tx_success := 655\<rparr>)) = 100"
  by (simp add: link_tx_def Let_def)

section \<open>Serialisation\<close>

text \<open>A reference decoder of the advertised table, as a receiver reads it.\<close>

fun parse_neighbors :: "bytes \<Rightarrow> (u16 \<times> i8 \<times> u8 \<times> u8 \<times> (bool \<times> bool \<times> bool) \<times> u8) list" where
  "parse_neighbors (a0 # a1 # r # h # hi # fl # q # rest) =
     (rd16 a0 a1, r, h, hi, (bit fl 0, bit fl 1, bit fl 2), q) # parse_neighbors rest"
| "parse_neighbors _ = []"

definition neighbor_view :: "NeighborEntry \<Rightarrow> u16 \<times> i8 \<times> u8 \<times> u8 \<times> (bool \<times> bool \<times> bool) \<times> u8" where
  "neighbor_view n = (ne_addr n, ne_rssi n, ne_hop_count n, ne_hops_to_internet n,
     (ne_espnow_reachable n, ne_lora_reachable n, ne_has_internet n), ne_queue_load n)"

lemma neighbor_flags_bits:
  "bit (neighbor_flags n) 0 = ne_espnow_reachable n"
  "bit (neighbor_flags n) 1 = ne_lora_reachable n"
  "bit (neighbor_flags n) 2 = ne_has_internet n"
  by (simp_all add: neighbor_flags_def)

lemma parse_serialized:
  "parse_neighbors (concat (map serialize_neighbor ns)) = map neighbor_view ns"
  by (induction ns) (simp_all add: serialize_neighbor_def le16_def neighbor_view_def neighbor_flags_bits [simplified] wire_simps)

lemma length_serialized: "length (concat (map serialize_neighbor ns)) = 7 * length ns"
  by (induction ns) (simp_all add: serialize_neighbor_def)

text \<open>
  The serialised table fits the buffer it is given, has a length determined by the number
  of neighbours, and determines the advertised fields of every neighbour; when it does not fit
  nothing is written.
\<close>

theorem serialize_roundtrip:
  assumes "table_ok t"
  shows "length (serialize max_len t) \<le> max_len \<and>
    (if 1 + 7 * length (rt_neighbors t) \<le> max_len
     then length (serialize max_len t) = 1 + 7 * length (rt_neighbors t) \<and>
       unat (hd (serialize max_len t)) = length (rt_neighbors t) \<and>
       parse_neighbors (tl (serialize max_len t)) = map neighbor_view (rt_neighbors t)
     else serialize max_len t = [])"
  using assms
  by (auto simp: serialize_def Let_def length_serialized parse_serialized table_ok_def unat_of_nat mult.commute)

theorem serialize_roundtrip_witness:
  "map fst (parse_neighbors (tl (serialize 100 ex_table))) = [7, 8]"
proof -
  have l: "length (rt_neighbors ex_table) = 2" using ex_table_addrs(1) by (metis length_map length_Cons list.size(3) numeral_2_eq_2)
  then have "table_ok ex_table" by (simp add: table_ok_def ex_table_addrs(1))
  from serialize_roundtrip [OF this, of 100] l
  have "parse_neighbors (tl (serialize 100 ex_table)) = map neighbor_view (rt_neighbors ex_table)" by simp
  then have "map fst (parse_neighbors (tl (serialize 100 ex_table))) = map ne_addr (rt_neighbors ex_table)"
    by (simp add: neighbor_view_def comp_def)
  with ex_table_addrs(1) show ?thesis by simp
qed

end
