(* ===== verification/Float32.thy ===== *)
theory Float32
  imports Complex_Main Flp_Prelude
begin

text \<open>
  IEEE 754 single precision as the firmware uses it: a \<open>float\<close> is the rational number it denotes,
  and an operation is the exact operation followed by \<open>rnd32\<close>, rounding to 24 significant bits,
  to nearest with ties to even. The firmware computes ratios of 32-bit counters and scores of small
  magnitude, so that neither overflow nor the subnormal range is reached and the exponent is left
  unbounded. The theory shows the relative error of one rounding.
\<close>

fun bits :: "nat \<Rightarrow> nat" where
  "bits n = (if n = 0 then 0 else Suc (bits (n div 2)))"

declare bits.simps [simp del]

lemma bits_bounds: "0 < n \<Longrightarrow> 0 < bits n \<and> 2 ^ (bits n - 1) \<le> n \<and> n < 2 ^ bits n"
proof (induction n rule: bits.induct)
  case (1 n)
  show ?case
  proof (cases "n div 2 = 0")
    case True
    with 1(2) have "n = 1" by auto
    then show ?thesis by (simp add: bits.simps)
  next
    case False
    with 1 have IH: "0 < bits (n div 2)" "2 ^ (bits (n div 2) - 1) \<le> n div 2" "n div 2 < 2 ^ bits (n div 2)" by auto
    have b: "bits n = Suc (bits (n div 2))" using 1(2) by (simp add: bits.simps [of n])
    have "(2 :: nat) ^ bits (n div 2) = 2 * 2 ^ (bits (n div 2) - 1)" using IH(1) by (cases "bits (n div 2)") auto
    moreover have "2 * (n div 2) \<le> n" by simp
    ultimately have "2 ^ bits (n div 2) \<le> n" using IH(2) by linarith
    with IH b show ?thesis by (auto simp: div_less_iff_less_mult)
  qed
qed

text \<open>The binary exponent of a positive number: \<open>2\<^sup>e \<le> x < 2\<^sup>e\<^sup>+\<^sup>1\<close>.\<close>

definition expo :: "rat \<Rightarrow> int" where
  "expo x = (let (n, d) = quotient_of x; k = int (bits (nat n)) - int (bits (nat d))
     in if 2 powi k \<le> x then k else k - 1)"

definition round_half_even :: "rat \<Rightarrow> int" where
  "round_half_even x = (let f = \<lfloor>x\<rfloor>; r = x - of_int f in
     if r < 1/2 then f else if 1/2 < r then f + 1 else if even f then f else f + 1)"

definition rnd32_pos :: "rat \<Rightarrow> rat" where
  "rnd32_pos x = (let u = 2 powi (expo x - 23) in of_int (round_half_even (x / u)) * u)"

definition rnd32 :: "rat \<Rightarrow> rat" where
  "rnd32 x = (if x = 0 then 0 else if 0 < x then rnd32_pos x else - rnd32_pos (- x))"

text \<open>The constant \<open>0.1f\<close>, and the conversion of a 32-bit counter.\<close>

definition f32_tenth :: rat where
  "f32_tenth = 13421773 / 134217728"

definition f32_of :: "u32 \<Rightarrow> rat" where
  "f32_of w = rnd32 (of_nat (unat w))"

lemma expo_bounds:
  assumes "0 < x"
  shows "2 powi expo x \<le> x \<and> x < 2 powi (expo x + 1)"
proof -
  obtain n d where q: "quotient_of x = (n, d)" by fastforce
  have d: "0 < d" using quotient_of_denom_pos [OF q] .
  have x: "x = of_int n / of_int d" using quotient_of_div [OF q] .
  then have n: "0 < n" using assms d by (simp add: zero_less_divide_iff)
  define a b where "a = bits (nat n)" and "b = bits (nat d)"
  have A: "0 < a" "2 ^ (a - 1) \<le> nat n" "nat n < 2 ^ a" using bits_bounds [of "nat n"] n by (auto simp: a_def)
  have B: "0 < b" "2 ^ (b - 1) \<le> nat d" "nat d < 2 ^ b" using bits_bounds [of "nat d"] d by (auto simp: b_def)
  have nr: "(of_int n :: rat) = of_nat (nat n)" and dr: "(of_int d :: rat) = of_nat (nat d)" using n d by auto
  have A': "2 ^ a \<le> 2 * (of_int n :: rat)" "(of_int n :: rat) < 2 ^ a"
  proof -
    have "2 ^ a \<le> 2 * nat n" using A(1,2) by (cases a) auto
    then show "2 ^ a \<le> 2 * (of_int n :: rat)" unfolding nr by (metis of_nat_le_iff of_nat_mult of_nat_numeral of_nat_power)
    show "(of_int n :: rat) < 2 ^ a" unfolding nr using A(3) by (metis of_nat_less_iff of_nat_numeral of_nat_power)
  qed
  have B': "2 ^ b \<le> 2 * (of_int d :: rat)" "(of_int d :: rat) < 2 ^ b"
  proof -
    have "2 ^ b \<le> 2 * nat d" using B(1,2) by (cases b) auto
    then show "2 ^ b \<le> 2 * (of_int d :: rat)" unfolding dr by (metis of_nat_le_iff of_nat_mult of_nat_numeral of_nat_power)
    show "(of_int d :: rat) < 2 ^ b" unfolding dr using B(3) by (metis of_nat_less_iff of_nat_numeral of_nat_power)
  qed
  have dp: "(0 :: rat) < of_int d" using d by simp
  define k where "k = int a - int b"
  have pk: "(2 :: rat) powi k = 2 ^ a / 2 ^ b" by (simp add: k_def power_int_diff)
  have up: "x < 2 powi (k + 1)"
  proof -
    have "of_int n * 2 ^ b < 2 ^ a * (2 * (of_int d :: rat))"
      using mult_less_le_imp_less [OF A'(2) B'(1)] n by simp
    then show ?thesis using dp by (simp add: x power_int_add pk field_simps)
  qed
  have lo: "2 powi (k - 1) \<le> x"
  proof -
    have "2 ^ a * (of_int d :: rat) \<le> 2 * of_int n * 2 ^ b"
      using mult_mono [OF A'(1) less_imp_le [OF B'(2)]] n dp by simp
    then show ?thesis using dp by (simp add: x power_int_diff pk field_simps)
  qed
  have "expo x = (if 2 powi k \<le> x then k else k - 1)"
    by (simp add: expo_def q Let_def k_def a_def b_def)
  with up lo show ?thesis by auto
qed

lemma round_half_even_err: "\<bar>of_int (round_half_even x) - x\<bar> \<le> 1/2"
proof -
  have "of_int \<lfloor>x\<rfloor> \<le> x" "x < of_int \<lfloor>x\<rfloor> + 1" by linarith+
  then show ?thesis by (auto simp: round_half_even_def Let_def abs_le_iff)
qed

lemma rnd32_pos_err:
  assumes "0 < x"
  shows "\<bar>rnd32_pos x - x\<bar> \<le> x / 2 ^ 24"
proof -
  define u :: rat where "u = 2 powi (expo x - 23)"
  have u: "0 < u" by (simp add: u_def)
  have "u * 2 ^ 23 = 2 powi expo x" by (simp add: u_def power_int_diff)
  then have ux: "u * 2 ^ 23 \<le> x" using expo_bounds [OF assms] by simp
  have "of_int (round_half_even (x / u)) * u - x = (of_int (round_half_even (x / u)) - x / u) * u"
    using u by (simp add: left_diff_distrib)
  then have "\<bar>of_int (round_half_even (x / u)) * u - x\<bar> = \<bar>of_int (round_half_even (x / u)) - x / u\<bar> * u"
    using u by (simp add: abs_mult)
  also have "\<dots> \<le> 1/2 * u"
    by (rule mult_right_mono [OF round_half_even_err]) (use u in simp)
  finally have "\<bar>of_int (round_half_even (x / u)) * u - x\<bar> \<le> u / 2" by simp
  then show ?thesis using ux by (simp add: rnd32_pos_def Let_def u_def [symmetric])
qed

lemma rnd32_err: "\<bar>rnd32 x - x\<bar> \<le> \<bar>x\<bar> / 2 ^ 24"
  using rnd32_pos_err [of x] rnd32_pos_err [of "- x"] by (auto simp: rnd32_def abs_if split: if_splits)

lemma rnd32_0 [simp]: "rnd32 0 = 0"
  by (simp add: rnd32_def)

end
