(* ===== verification/Protocol_Selector.thy ===== *)
theory Protocol_Selector
  imports Packet Float32
begin

text \<open>
  Model of \<^verbatim>\<open>components/protocol/include/protocol_selector.hpp\<close> and
  \<^verbatim>\<open>protocol_selector.cpp\<close>: the transport metrics, the reliability bias computed from them in
  single precision, and the scoring that picks ESP-NOW or LoRa for a packet. Shown are the exact
  decision the bias makes up to the rounding of the floats, the counters of the feedback loop, and
  that the scoring is monotone in signal strength, distance and size.
\<close>

unbundle bit_operations_syntax

section \<open>Metrics\<close>

datatype Transport = T_ESPNOW | T_LORA

record TransportMetrics =
  tm_tx_count :: u32
  tm_tx_fail_count :: u32
  tm_total_latency_ms :: u32
  tm_retransmit_count :: u32
  tm_rx_count :: u32
  tm_duty_cycle_ms :: u32

definition TransportMetrics_new :: TransportMetrics where
  "TransportMetrics_new = \<lparr>tm_tx_count = 0, tm_tx_fail_count = 0, tm_total_latency_ms = 0,
     tm_retransmit_count = 0, tm_rx_count = 0, tm_duty_cycle_ms = 0\<rparr>"

definition avg_latency_ms :: "TransportMetrics \<Rightarrow> u32" where
  "avg_latency_ms m = (if 0 < tm_tx_count m then tm_total_latency_ms m div tm_tx_count m else 0)"

definition success_rate :: "TransportMetrics \<Rightarrow> rat" where
  "success_rate m = (if 0 < tm_tx_count m
     then rnd32 (1 - rnd32 (f32_of (tm_tx_fail_count m) / f32_of (tm_tx_count m))) else 1)"

record ProtocolSelector =
  ps_espnow_metrics :: TransportMetrics
  ps_lora_metrics :: TransportMetrics
  ps_reliability_bias :: i8

definition ProtocolSelector_new :: ProtocolSelector where
  "ProtocolSelector_new = \<lparr>ps_espnow_metrics = TransportMetrics_new, ps_lora_metrics = TransportMetrics_new,
     ps_reliability_bias = 0\<rparr>"

definition recalculate_bias :: "ProtocolSelector \<Rightarrow> ProtocolSelector" where
  "recalculate_bias p =
    (let espnow_rate = success_rate (ps_espnow_metrics p); lora_rate = success_rate (ps_lora_metrics p) in
     if 5 < tm_tx_count (ps_espnow_metrics p) \<and> 5 < tm_tx_count (ps_lora_metrics p) then
       if rnd32 (lora_rate + f32_tenth) < espnow_rate then p\<lparr>ps_reliability_bias := 2\<rparr>
       else if rnd32 (espnow_rate + f32_tenth) < lora_rate then p\<lparr>ps_reliability_bias := - 2\<rparr>
       else p\<lparr>ps_reliability_bias := 0\<rparr>
     else p)"

definition note_tx :: "bool \<Rightarrow> u32 \<Rightarrow> TransportMetrics \<Rightarrow> TransportMetrics" where
  "note_tx success latency_ms m = m\<lparr>tm_tx_count := tm_tx_count m + 1,
     tm_tx_fail_count := (if success then tm_tx_fail_count m else tm_tx_fail_count m + 1),
     tm_total_latency_ms := tm_total_latency_ms m + latency_ms\<rparr>"

definition report_tx_result :: "Transport \<Rightarrow> bool \<Rightarrow> u32 \<Rightarrow> ProtocolSelector \<Rightarrow> ProtocolSelector" where
  "report_tx_result t success latency_ms p =
    (if t = T_ESPNOW then p\<lparr>ps_espnow_metrics := note_tx success latency_ms (ps_espnow_metrics p)\<rparr>
     else p\<lparr>ps_lora_metrics := note_tx success latency_ms (ps_lora_metrics p)\<rparr>)"

definition lora_success_rate :: "ProtocolSelector \<Rightarrow> rat" where
  "lora_success_rate p = success_rate (ps_lora_metrics p)"

definition write_metrics :: "TransportMetrics \<Rightarrow> bytes" where
  "write_metrics m = le32 (tm_tx_count m) @ le32 (tm_tx_fail_count m) @ le32 (tm_total_latency_ms m) @
     le32 (tm_retransmit_count m) @ le32 (tm_rx_count m) @ le32 (tm_duty_cycle_ms m)"

definition serialize_metrics :: "nat \<Rightarrow> ProtocolSelector \<Rightarrow> bytes" where
  "serialize_metrics max_len p = (if max_len < 48 then []
     else write_metrics (ps_espnow_metrics p) @ write_metrics (ps_lora_metrics p))"

section \<open>Selection\<close>

text \<open>The two scores of \<open>select\<close>, in the order the code adds them up.\<close>

definition espnow_score :: "i8 \<Rightarrow> u8 \<Rightarrow> nat \<Rightarrow> rat \<Rightarrow> i8 \<Rightarrow> int" where
  "espnow_score rssi hop_count payload_size battery_pct bias =
    (if - 60 < sint rssi then 3 else if - 80 < sint rssi then 1 else 0) +
    (if hop_count \<le> 1 then 2 else 0) +
    (if LORA_MAX_PAYLOAD div 2 < payload_size then 2 else 0) +
    (if battery_pct < 20 then 2 else 0) +
    (if 0 < sint bias then sint bias else 0)"

definition lora_score :: "i8 \<Rightarrow> u8 \<Rightarrow> i8 \<Rightarrow> int" where
  "lora_score rssi hop_count bias =
    (if - 60 < sint rssi then 0 else if - 80 < sint rssi then 0 else 3) +
    (if hop_count \<le> 1 then 0 else if 3 < hop_count then 3 else 0) +
    (if 0 < sint bias then 0 else - sint bias)"

definition select :: "i8 \<Rightarrow> u8 \<Rightarrow> nat \<Rightarrow> rat \<Rightarrow> ProtocolSelector \<Rightarrow> Transport" where
  "select rssi hop_count payload_size battery_pct p =
    (if LORA_MAX_PAYLOAD < payload_size then T_ESPNOW
     else if lora_score rssi hop_count (ps_reliability_bias p)
             \<le> espnow_score rssi hop_count payload_size battery_pct (ps_reliability_bias p)
     then T_ESPNOW else T_LORA)"

section \<open>Accuracy of the success rate\<close>

definition true_rate :: "TransportMetrics \<Rightarrow> rat" where
  "true_rate m = 1 - of_nat (unat (tm_tx_fail_count m)) / of_nat (unat (tm_tx_count m))"

lemma quotient_err:
  fixes f t f' t' \<delta> :: rat
  assumes "0 \<le> f" "f \<le> t" "0 < t" "\<bar>f' - f\<bar> \<le> f * \<delta>" "\<bar>t' - t\<bar> \<le> t * \<delta>" "0 \<le> \<delta>" "\<delta> \<le> 1/4"
  shows "\<bar>f' / t' - f / t\<bar> \<le> 3 * \<delta>"
proof -
  have t': "t * (3/4) \<le> t'" "0 < t'"
  proof -
    have "t * \<delta> \<le> t * (1/4)" using assms by (intro mult_left_mono) auto
    then show "t * (3/4) \<le> t'" using assms(5) by (simp add: abs_le_iff)
    then show "0 < t'" using assms(3) by simp
  qed
  have "f' / t' - f / t = ((f' - f) * t - f * (t' - t)) / (t' * t)"
    using assms(3) t' by (simp add: field_simps)
  then have "\<bar>f' / t' - f / t\<bar> = \<bar>(f' - f) * t - f * (t' - t)\<bar> / (t' * t)"
    using assms(3) t' by (simp add: abs_mult)
  moreover have "\<bar>(f' - f) * t - f * (t' - t)\<bar> \<le> 2 * \<delta> * (f * t)"
  proof -
    have "\<bar>(f' - f) * t\<bar> \<le> f * \<delta> * t" using assms by (simp add: abs_mult mult_right_mono)
    moreover have "\<bar>f * (t' - t)\<bar> \<le> f * (t * \<delta>)" using assms by (simp add: abs_mult mult_left_mono)
    ultimately show ?thesis by (simp add: algebra_simps abs_le_iff)
  qed
  moreover have "2 * \<delta> * (f * t) / (t' * t) \<le> 3 * \<delta>"
  proof -
    have "2 * \<delta> * f \<le> 2 * \<delta> * t" using assms by (intro mult_left_mono) auto
    also have "\<dots> = 8/3 * \<delta> * (t * (3/4))" by simp
    also have "\<dots> \<le> 8/3 * \<delta> * t'" using t' assms(6) by (intro mult_left_mono) auto
    also have "\<dots> \<le> 3 * \<delta> * t'" using t' assms(6) by (intro mult_right_mono) auto
    finally have "2 * \<delta> * f \<le> 3 * \<delta> * t'" .
    then show ?thesis using t' assms(3) by (simp add: field_simps)
  qed
  moreover have "0 \<le> t' * t" using t' assms(3) by simp
  ultimately show ?thesis by (metis divide_right_mono order_trans)
qed

lemma rnd32_near:
  assumes "\<bar>x\<bar> \<le> 2"
  shows "x - 1/8388608 \<le> rnd32 x" and "rnd32 x \<le> x + 1/8388608"
proof -
  have "\<bar>rnd32 x - x\<bar> \<le> 1/8388608" using rnd32_err [of x] assms by simp
  then show "x - 1/8388608 \<le> rnd32 x" "rnd32 x \<le> x + 1/8388608" by (simp_all only: abs_diff_le_iff)
qed

lemma success_rate_err:
  assumes "0 < tm_tx_count m" and "tm_tx_fail_count m \<le> tm_tx_count m"
  shows "true_rate m - 1/2097152 \<le> success_rate m" and "success_rate m \<le> true_rate m + 1/2097152"
proof -
  let ?d = "1 / 2 ^ 24 :: rat"
  define f t :: rat where "f = of_nat (unat (tm_tx_fail_count m))" and "t = of_nat (unat (tm_tx_count m))"
  have ft: "0 \<le> f" "f \<le> t" "0 < t"
    using assms by (auto simp: f_def t_def word_le_nat_alt unat_gt_0 word_gt_0 simp del: of_nat_unat)
  define f' t' where "f' = rnd32 f" and "t' = rnd32 t"
  have e: "\<bar>f' - f\<bar> \<le> f * ?d" "\<bar>t' - t\<bar> \<le> t * ?d"
    using rnd32_err [of f] rnd32_err [of t] ft by (auto simp: f'_def t'_def)
  define x y where "x = f' / t'" and "y = f / t"
  have "\<bar>x - y\<bar> \<le> 3/16777216"
    using quotient_err [OF ft e] by (simp add: x_def y_def)
  then have q: "y - 3/16777216 \<le> x" "x \<le> y + 3/16777216" by (simp_all only: abs_diff_le_iff)
  have y: "0 \<le> y" "y \<le> 1" using ft by (auto simp: y_def)
  have "\<bar>x\<bar> \<le> 2" using q y by (intro abs_leI) linarith+
  note q' = rnd32_near [OF this]
  have "\<bar>1 - rnd32 x\<bar> \<le> 2" using q' q y by (intro abs_leI) linarith+
  note r = rnd32_near [OF this]
  have sr: "success_rate m = rnd32 (1 - rnd32 x)"
    using assms(1) by (simp add: success_rate_def f32_of_def x_def f'_def t'_def f_def t_def)
  have tr: "true_rate m = 1 - y" by (simp add: true_rate_def y_def f_def t_def)
  show "true_rate m - 1/2097152 \<le> success_rate m" unfolding sr tr using q q' r by linarith
  show "success_rate m \<le> true_rate m + 1/2097152" unfolding sr tr using q q' r by linarith
qed

lemma true_rate_bounds:
  assumes "0 < tm_tx_count m" and "tm_tx_fail_count m \<le> tm_tx_count m"
  shows "0 \<le> true_rate m" and "true_rate m \<le> 1"
  using assms by (auto simp: true_rate_def word_le_nat_alt unat_gt_0 word_gt_0 divide_le_eq_1 simp del: of_nat_unat)

text \<open>One comparison of \<open>recalculate_bias\<close> decides as exact arithmetic does, outside a margin.\<close>

lemma bias_test:
  assumes "a - 1/2097152 \<le> a'" "a' \<le> a + 1/2097152" "b - 1/2097152 \<le> b'" "b' \<le> b + 1/2097152"
    "0 \<le> b" "b \<le> (1 :: rat)"
  shows "a - b > 1/10 + 1/524288 \<Longrightarrow> rnd32 (b' + f32_tenth) < a'"
    and "a - b < 1/10 - 1/524288 \<Longrightarrow> \<not> rnd32 (b' + f32_tenth) < a'"
proof -
  have t: "1/10 \<le> f32_tenth" "f32_tenth \<le> 1/10 + 1/16777216" by (simp_all add: f32_tenth_def)
  have "\<bar>b' + f32_tenth\<bar> \<le> 2" using assms(3-6) t by (intro abs_leI) linarith+
  note r = rnd32_near [OF this]
  show "rnd32 (b' + f32_tenth) < a'" if "a - b > 1/10 + 1/524288" using that assms t r by linarith
  show "\<not> rnd32 (b' + f32_tenth) < a'" if "a - b < 1/10 - 1/524288" using that assms t r by linarith
qed

text \<open>
  C37. The single-precision bias agrees with exact arithmetic: with more than five samples on both
  links the bias favours a link whose true success rate is more than ten percentage points higher
  and is neutral when the rates differ by less, up to \<open>2\<^sup>-\<^sup>1\<^sup>9\<close> (1/524288); with fewer samples it is unchanged.
\<close>

theorem bias_decision:
  fixes p :: ProtocolSelector
  defines "me \<equiv> ps_espnow_metrics p" and "ml \<equiv> ps_lora_metrics p"
  assumes "tm_tx_fail_count me \<le> tm_tx_count me" and "tm_tx_fail_count ml \<le> tm_tx_count ml"
  shows "(if tm_tx_count me \<le> 5 \<or> tm_tx_count ml \<le> 5 then recalculate_bias p = p
     else (true_rate me - true_rate ml > 1/10 + 1/524288 \<longrightarrow> ps_reliability_bias (recalculate_bias p) = 2) \<and>
       (true_rate ml - true_rate me > 1/10 + 1/524288 \<longrightarrow> ps_reliability_bias (recalculate_bias p) = - 2) \<and>
       (\<bar>true_rate me - true_rate ml\<bar> < 1/10 - 1/524288 \<longrightarrow> ps_reliability_bias (recalculate_bias p) = 0))"
proof (cases "tm_tx_count me \<le> 5 \<or> tm_tx_count ml \<le> 5")
  case True
  then show ?thesis by (auto simp: recalculate_bias_def me_def ml_def Let_def not_less)
next
  case False
  then have c: "5 < tm_tx_count me" "5 < tm_tx_count ml" by auto
  then have pos: "0 < tm_tx_count me" "0 < tm_tx_count ml" by (auto simp: word_less_nat_alt)
  note e = success_rate_err [OF pos(1) assms(3)] success_rate_err [OF pos(2) assms(4)]
  note b = true_rate_bounds [OF pos(1) assms(3)] true_rate_bounds [OF pos(2) assms(4)]
  note el = bias_test [OF e(1,2) e(3,4) b(3,4)]
  note le = bias_test [OF e(3,4) e(1,2) b(1,2)]
  have r: "ps_reliability_bias (recalculate_bias p) =
      (if rnd32 (success_rate ml + f32_tenth) < success_rate me then 2
       else if rnd32 (success_rate me + f32_tenth) < success_rate ml then - 2 else 0)"
    using c by (simp add: recalculate_bias_def me_def ml_def Let_def)
  have "ps_reliability_bias (recalculate_bias p) = 2" if "true_rate me - true_rate ml > 1/10 + 1/524288"
    using el(1) [OF that] unfolding r by simp
  moreover have "ps_reliability_bias (recalculate_bias p) = - 2" if "true_rate ml - true_rate me > 1/10 + 1/524288"
  proof -
    from that have "true_rate me - true_rate ml < 1/10 - 1/524288" by linarith
    from el(2) [OF this] le(1) [OF that] show ?thesis unfolding r by simp
  qed
  moreover have "ps_reliability_bias (recalculate_bias p) = 0" if "\<bar>true_rate me - true_rate ml\<bar> < 1/10 - 1/524288"
  proof -
    from that have "true_rate me - true_rate ml < 1/10 - 1/524288" "true_rate ml - true_rate me < 1/10 - 1/524288"
      by (simp_all only: abs_less_iff) linarith+
    from el(2) [OF this(1)] le(2) [OF this(2)] show ?thesis unfolding r by simp
  qed
  ultimately show ?thesis using False by presburger
qed

definition ex_selector :: ProtocolSelector where
  "ex_selector = ProtocolSelector_new
     \<lparr>ps_espnow_metrics := TransportMetrics_new\<lparr>tm_tx_count := 10, tm_tx_fail_count := 1\<rparr>,
      ps_lora_metrics := TransportMetrics_new\<lparr>tm_tx_count := 10, tm_tx_fail_count := 5\<rparr>\<rparr>"

theorem bias_decision_witness:
  "ps_reliability_bias (recalculate_bias ex_selector) = 2"
  using bias_decision [of ex_selector]
  by (simp add: ex_selector_def ProtocolSelector_new_def TransportMetrics_new_def true_rate_def word_le_nat_alt)

section \<open>The feedback loop\<close>

fun report_all :: "(Transport \<times> bool \<times> u32) list \<Rightarrow> ProtocolSelector \<Rightarrow> ProtocolSelector" where
  "report_all [] p = p"
| "report_all ((t, ok, lat) # rs) p = report_all rs (report_tx_result t ok lat p)"

definition metrics_of :: "Transport \<Rightarrow> ProtocolSelector \<Rightarrow> TransportMetrics" where
  "metrics_of t p = (if t = T_ESPNOW then ps_espnow_metrics p else ps_lora_metrics p)"

lemma report_tx_result_other: "t \<noteq> t' \<Longrightarrow> metrics_of t (report_tx_result t' ok lat p) = metrics_of t p"
  by (cases t; cases t') (auto simp: metrics_of_def report_tx_result_def)

lemma report_tx_result_same: "metrics_of t (report_tx_result t ok lat p) = note_tx ok lat (metrics_of t p)"
  by (cases t) (auto simp: metrics_of_def report_tx_result_def)

lemma report_all_counts:
  "tm_tx_count (metrics_of t (report_all rs p)) = tm_tx_count (metrics_of t p) + of_nat (length (filter (\<lambda>r. fst r = t) rs)) \<and>
   tm_tx_fail_count (metrics_of t (report_all rs p)) =
     tm_tx_fail_count (metrics_of t p) + of_nat (length (filter (\<lambda>(t', ok, _). t' = t \<and> \<not> ok) rs))"
proof (induction rs p rule: report_all.induct)
  case (2 t' ok lat rs p)
  then show ?case
    by (cases "t' = t") (auto simp: report_tx_result_same report_tx_result_other note_tx_def)
qed simp

text \<open>
  The feedback loop counts exactly: after fewer than \<open>2\<^sup>3\<^sup>2\<close> reports the true success rate of each
  transport is the fraction of its reports that were successes, so that the hypothesis of the bias
  decision always holds.
\<close>

theorem report_all_rate:
  assumes "length rs < 2 ^ 32"
  shows "true_rate (metrics_of t (report_all rs ProtocolSelector_new)) =
      1 - of_nat (length (filter (\<lambda>(t', ok, _). t' = t \<and> \<not> ok) rs)) / of_nat (length (filter (\<lambda>r. fst r = t) rs)) \<and>
    tm_tx_fail_count (metrics_of t (report_all rs ProtocolSelector_new))
      \<le> tm_tx_count (metrics_of t (report_all rs ProtocolSelector_new))"
proof -
  let ?n = "length (filter (\<lambda>r. fst r = t) rs)" and ?f = "length (filter (\<lambda>(t', ok, _). t' = t \<and> \<not> ok) rs)"
  have "?f \<le> ?n" by (induction rs) auto
  moreover have "?n < 2 ^ 32" using assms length_filter_le le_less_trans by blast
  moreover have "tm_tx_count (metrics_of t ProtocolSelector_new) = 0" "tm_tx_fail_count (metrics_of t ProtocolSelector_new) = 0"
    by (auto simp: metrics_of_def ProtocolSelector_new_def TransportMetrics_new_def)
  ultimately show ?thesis
    using report_all_counts [of t rs ProtocolSelector_new]
    by (simp add: true_rate_def word_le_nat_alt unat_of_nat)
qed

theorem report_all_rate_witness:
  "true_rate (metrics_of T_LORA (report_all [(T_LORA, True, 5), (T_ESPNOW, True, 1), (T_LORA, False, 9)] ProtocolSelector_new)) = 1/2"
  using report_all_rate [of "[(T_LORA, True, 5), (T_ESPNOW, True, 1), (T_LORA, False, 9)]" T_LORA] by simp

section \<open>The scoring\<close>

text \<open>
  The choice is monotone: a packet that goes over LoRa still does when the signal gets weaker, the
  route gets longer, the packet gets smaller or the battery level rises, and a packet that LoRa cannot
  carry always goes over ESP-NOW.
\<close>

theorem select_monotone:
  assumes "select rssi hops sz battery p = T_LORA"
    and "sint rssi' \<le> sint rssi" and "hops \<le> hops'" and "sz' \<le> sz" and "battery \<le> battery'"
  shows "select rssi' hops' sz' battery' p = T_LORA \<and> sz \<le> LORA_MAX_PAYLOAD"
proof -
  let ?b = "ps_reliability_bias p"
  have s: "sz \<le> LORA_MAX_PAYLOAD" "espnow_score rssi hops sz battery ?b < lora_score rssi hops ?b"
    using assms(1) by (auto simp: select_def split: if_splits)
  have "espnow_score rssi' hops' sz' battery' ?b \<le> espnow_score rssi hops sz battery ?b"
    unfolding espnow_score_def using assms(2-5) by (auto intro!: add_mono)
  moreover have "lora_score rssi hops ?b \<le> lora_score rssi' hops' ?b"
    unfolding lora_score_def using assms(2,3) by (auto simp: not_le not_less)
  ultimately show ?thesis using s assms(4) by (simp add: select_def)
qed

theorem select_monotone_witness:
  "select (- 90) 5 20 100 ProtocolSelector_new = T_LORA"
proof -
  have "select (- 85) 4 30 100 ProtocolSelector_new = T_LORA"
    by (simp add: select_def espnow_score_def lora_score_def ProtocolSelector_new_def)
  from select_monotone [OF this, of "- 90" 5 20 100] show ?thesis by simp
qed

text \<open>The serialised metrics are 48 bytes and determine both transports' counters.\<close>

lemma serialize_metrics_length: "48 \<le> n \<Longrightarrow> length (serialize_metrics n p) = 48"
  by (simp add: serialize_metrics_def write_metrics_def)

end
