(* ===== verification/Buffer_Pool.thy ===== *)
theory Buffer_Pool
  imports Packet
begin

text \<open>
  The packet-buffer pool (\<open>components/protocol/include/buffer_pool.hpp\<close>, \<open>buffer_pool.cpp\<close>):
  a fixed array of slabs, a Treiber stack of the free ones threaded through \<open>next_free\<close>, and a
  reference count per slab. A slab pointer is the index of the slab in \<open>slabs_\<close> (an \<open>int\<close>, so
  that a pointer outside the pool can be written down), a null pointer is \<open>None\<close>.

  The first part models the operations as they run without interference and proves that they
  refine an abstract pool, a finite map of reference counts. The second part models the two
  compare-and-swap loops step by step for several threads.
\<close>

datatype RxTransport = ESPNOW | LORA

record BufferSlab =
  bs_data :: bytes
  bs_len :: nat
  bs_rssi :: i8
  bs_source :: RxTransport
  bs_refcount :: u8
  bs_next_free :: int

text \<open>
  \<open>int32_t\<close> counters and links are \<open>int\<close>: the invariant below keeps them between \<open>-1\<close> and
  \<open>POOL_SIZE\<close>. On the ESP32-S3 \<open>sizeof(BufferSlab)\<close> is 1484 (1470 data bytes, 2 bytes of
  padding, a 4-byte length, three single bytes, a padding byte and the 4-byte link).
\<close>

abbreviation (input) POOL_BUDGET_BYTES :: nat where "POOL_BUDGET_BYTES \<equiv> 512 * 1024"
abbreviation (input) SIZEOF_SLAB :: nat where "SIZEOF_SLAB \<equiv> 1484"

definition POOL_SIZE :: nat where
  "POOL_SIZE = (if POOL_BUDGET_BYTES div SIZEOF_SLAB > 0
     then (POOL_BUDGET_BYTES div SIZEOF_SLAB) mod 65536 else 1)"

lemma POOL_SIZE_eq [simp]: "POOL_SIZE = 353"
  by (simp add: POOL_SIZE_def)

record BufferPool =
  bp_exhaustion_count :: u32
  bp_overflow_count :: u32
  bp_free_count :: int
  bp_slabs :: "BufferSlab list option"
  bp_top :: int

definition BufferPool_new :: BufferPool where
  "BufferPool_new = \<lparr>bp_exhaustion_count = 0, bp_overflow_count = 0, bp_free_count = 0,
     bp_slabs = None, bp_top = -1\<rparr>"

text \<open>
  \<open>init\<close>: the argument is what \<open>heap_caps_malloc\<close> returned (\<open>None\<close> for a null pointer), the
  bytes of the slabs being arbitrary. The \<open>assert\<close> that follows a failed allocation is \<open>None\<close>.
\<close>

definition init_slab :: "bytes \<Rightarrow> nat \<Rightarrow> BufferSlab" where
  "init_slab garbage i = \<lparr>bs_data = garbage, bs_len = 0, bs_rssi = 0, bs_source = ESPNOW,
     bs_refcount = 0, bs_next_free = (if i + 1 < POOL_SIZE then int (i + 1) else -1)\<rparr>"

definition pool_init :: "(nat \<Rightarrow> bytes) option \<Rightarrow> BufferPool \<Rightarrow> BufferPool option" where
  "pool_init mem p = (case mem of
      None \<Rightarrow> None
    | Some garbage \<Rightarrow> Some (p\<lparr>bp_slabs := Some (map (\<lambda>i. init_slab (garbage i) i) [0..<POOL_SIZE]),
        bp_top := 0, bp_free_count := int POOL_SIZE\<rparr>))"

text \<open>\<open>acquire\<close>: without interference the first compare-and-swap succeeds.\<close>

definition pool_acquire :: "BufferPool \<Rightarrow> int option \<times> BufferPool" where
  "pool_acquire p = (let t = bp_top p in
     case bp_slabs p of
       Some ss \<Rightarrow>
         if 0 \<le> t then
           let next = bs_next_free (ss ! nat t);
               slab = (ss ! nat t)\<lparr>bs_refcount := 1, bs_len := 0\<rparr>
           in (Some t, p\<lparr>bp_top := next, bp_free_count := bp_free_count p - 1,
                 bp_slabs := Some (ss[nat t := slab])\<rparr>)
         else (None, p\<lparr>bp_exhaustion_count := bp_exhaustion_count p + 1\<rparr>)
     | None \<Rightarrow> (None, p\<lparr>bp_exhaustion_count := bp_exhaustion_count p + 1\<rparr>))"

definition pool_release :: "int option \<Rightarrow> BufferPool \<Rightarrow> BufferPool" where
  "pool_release slab p = (case (slab, bp_slabs p) of
      (Some offset, Some ss) \<Rightarrow>
        if offset < 0 \<or> int POOL_SIZE \<le> offset
        then p\<lparr>bp_overflow_count := bp_overflow_count p + 1\<rparr>
        else let i = nat offset; cur = bs_refcount (ss ! i) in
          if 0 < cur then
            if cur = 1 then
              p\<lparr>bp_slabs := Some (ss[i := (ss ! i)\<lparr>bs_refcount := cur - 1, bs_next_free := bp_top p\<rparr>]),
                bp_top := offset, bp_free_count := bp_free_count p + 1\<rparr>
            else p\<lparr>bp_slabs := Some (ss[i := (ss ! i)\<lparr>bs_refcount := cur - 1\<rparr>])\<rparr>
          else p\<lparr>bp_overflow_count := bp_overflow_count p + 1\<rparr>
    | _ \<Rightarrow> p)"

definition pool_add_ref :: "int option \<Rightarrow> BufferPool \<Rightarrow> BufferPool" where
  "pool_add_ref slab p = (case (slab, bp_slabs p) of
      (Some i, Some ss) \<Rightarrow>
        p\<lparr>bp_slabs := Some (ss[nat i := (ss ! nat i)\<lparr>bs_refcount := bs_refcount (ss ! nat i) + 1\<rparr>])\<rparr>
    | _ \<Rightarrow> p)"

definition get_free_count :: "BufferPool \<Rightarrow> u8" where
  "get_free_count p = (if 0 < bp_free_count p then of_int (bp_free_count p) else 0)"

definition is_congested :: "BufferPool \<Rightarrow> bool" where
  "is_congested p \<longleftrightarrow> bp_free_count p < int (POOL_SIZE div 4)"

section \<open>The free list\<close>

text \<open>\<open>free_chain ss t fs\<close>: following \<open>next_free\<close> from \<open>t\<close> visits exactly the slabs \<open>fs\<close>.\<close>

fun free_chain :: "BufferSlab list \<Rightarrow> int \<Rightarrow> nat list \<Rightarrow> bool" where
  "free_chain ss t [] \<longleftrightarrow> t = -1"
| "free_chain ss t (i # fs) \<longleftrightarrow> t = int i \<and> i < length ss \<and> free_chain ss (bs_next_free (ss ! i)) fs"

definition pool_rel :: "BufferPool \<Rightarrow> nat list \<Rightarrow> bool" where
  "pool_rel p fs \<longleftrightarrow> (\<exists>ss. bp_slabs p = Some ss \<and> length ss = POOL_SIZE \<and>
     free_chain ss (bp_top p) fs \<and> distinct fs \<and>
     (\<forall>i < POOL_SIZE. i \<in> set fs \<longleftrightarrow> bs_refcount (ss ! i) = 0) \<and>
     bp_free_count p = int (length fs))"

definition pool_inv :: "BufferPool \<Rightarrow> bool" where
  "pool_inv p \<longleftrightarrow> (\<exists>fs. pool_rel p fs)"

definition refs :: "BufferPool \<Rightarrow> nat \<Rightarrow> nat" where
  "refs p i = (case bp_slabs p of
     Some ss \<Rightarrow> if i < length ss then unat (bs_refcount (ss ! i)) else 0 | None \<Rightarrow> 0)"

lemma free_chain_frame:
  "free_chain ss t fs \<Longrightarrow> i \<notin> set fs \<Longrightarrow> free_chain (ss[i := s]) t fs"
  by (induction fs arbitrary: t) auto

lemma next_free_update_same:
  "bs_next_free s = bs_next_free (ss ! i) \<Longrightarrow> bs_next_free (ss[i := s] ! a) = bs_next_free (ss ! a)"
  by (cases "i < length ss") (auto simp: nth_list_update list_update_beyond)

lemma free_chain_same_link:
  "free_chain ss t fs \<Longrightarrow> bs_next_free s = bs_next_free (ss ! i) \<Longrightarrow> free_chain (ss[i := s]) t fs"
  by (induction fs arbitrary: t) (auto simp: next_free_update_same)

lemma free_chain_range: "free_chain ss t fs \<Longrightarrow> set fs \<subseteq> {..<length ss}"
  by (induction fs arbitrary: t) auto

lemma free_chain_top: "free_chain ss t fs \<Longrightarrow> 0 \<le> t \<longleftrightarrow> fs \<noteq> []"
  by (cases fs) auto

lemma free_chain_upto:
  assumes "length ss = n" and "\<forall>i < n. bs_next_free (ss ! i) = (if i + 1 < n then int (i + 1) else -1)"
    and "k < n"
  shows "free_chain ss (int k) [k..<n]"
  using assms(3)
proof (induction "n - k" arbitrary: k)
  case 0
  then show ?case by simp
next
  case (Suc m)
  then have "[k..<n] = k # [Suc k..<n]" by (simp add: upt_conv_Cons)
  moreover have "free_chain ss (bs_next_free (ss ! k)) [Suc k..<n]"
  proof (cases "Suc k < n")
    case True
    with Suc.hyps have "free_chain ss (int (Suc k)) [Suc k..<n]" by (intro Suc.hyps(1)) auto
    with True Suc.prems assms(2) show ?thesis by simp
  next
    case False
    with Suc.prems assms(2) show ?thesis by simp
  qed
  ultimately show ?case using Suc.prems assms(1) by simp
qed

lemma pool_init_rel:
  assumes "pool_init (Some garbage) p = Some p'"
  shows "pool_rel p' [0..<POOL_SIZE]" and "\<forall>i. refs p' i = 0"
proof -
  let ?ss = "map (\<lambda>i. init_slab (garbage i) i) [0..<POOL_SIZE]"
  have p': "bp_slabs p' = Some ?ss" "bp_top p' = 0" "bp_free_count p' = int POOL_SIZE"
    using assms by (auto simp: pool_init_def)
  have "free_chain ?ss (int 0) [0..<POOL_SIZE]"
    by (rule free_chain_upto) (auto simp: init_slab_def)
  with p' show "pool_rel p' [0..<POOL_SIZE]"
    by (auto simp: pool_rel_def init_slab_def simp del: upt_rec_numeral)
  show "\<forall>i. refs p' i = 0" using p' by (auto simp: refs_def init_slab_def)
qed

text \<open>\<open>acquire\<close> pops the abstract stack, the last \<open>release\<close> of a slab pushes it.\<close>

lemma acquire_rel_Cons:
  assumes "pool_rel p (i # fs)" and "pool_acquire p = (r, p')"
  shows "r = Some (int i)" and "pool_rel p' fs" and "refs p i = 0" and "i < POOL_SIZE"
    and "refs p' = (refs p)(i := 1)" and "bp_exhaustion_count p' = bp_exhaustion_count p"
proof -
  obtain ss where ss: "bp_slabs p = Some ss" "length ss = POOL_SIZE" "bp_top p = int i"
    "i < POOL_SIZE" "free_chain ss (bs_next_free (ss ! i)) fs" "distinct (i # fs)"
    "\<forall>j < POOL_SIZE. j \<in> set (i # fs) \<longleftrightarrow> bs_refcount (ss ! j) = 0"
    "bp_free_count p = int (length (i # fs))"
    using assms(1) by (auto simp: pool_rel_def)
  have p': "r = Some (int i)" "p' = p\<lparr>bp_top := bs_next_free (ss ! i), bp_free_count := bp_free_count p - 1,
      bp_slabs := Some (ss[i := (ss ! i)\<lparr>bs_refcount := 1, bs_len := 0\<rparr>])\<rparr>"
    using assms(2) ss by (auto simp: pool_acquire_def Let_def)
  show "r = Some (int i)" by (rule p'(1))
  show "i < POOL_SIZE" by (rule ss(4))
  show "bp_exhaustion_count p' = bp_exhaustion_count p" by (simp add: p')
  have "free_chain (ss[i := (ss ! i)\<lparr>bs_refcount := 1, bs_len := 0\<rparr>]) (bs_next_free (ss ! i)) fs"
    using ss by (intro free_chain_frame) auto
  moreover have "j \<in> set fs \<longleftrightarrow> bs_refcount (ss[i := (ss ! i)\<lparr>bs_refcount := 1, bs_len := 0\<rparr>] ! j) = 0"
    if "j < POOL_SIZE" for j using that ss by (cases "j = i") auto
  ultimately show "pool_rel p' fs" using ss by (auto simp: pool_rel_def p')
  show "refs p i = 0" using ss by (auto simp: refs_def)
  show "refs p' = (refs p)(i := 1)" using ss by (auto simp: refs_def p' fun_eq_iff nth_list_update)
qed

lemma acquire_rel_Nil:
  assumes "pool_rel p []"
  shows "pool_acquire p = (None, p\<lparr>bp_exhaustion_count := bp_exhaustion_count p + 1\<rparr>)"
  using assms by (auto simp: pool_rel_def pool_acquire_def Let_def)

lemma refs_zero_iff:
  assumes "pool_rel p fs" and "i < POOL_SIZE"
  shows "refs p i = 0 \<longleftrightarrow> i \<in> set fs"
  using assms by (auto simp: pool_rel_def refs_def unat_eq_0)

lemma release_rel:
  assumes rel: "pool_rel p fs" and i: "i < POOL_SIZE" and pos: "0 < refs p i"
  shows "pool_rel (pool_release (Some (int i)) p) (if refs p i = 1 then i # fs else fs)"
    and "refs (pool_release (Some (int i)) p) = (refs p)(i := refs p i - 1)"
    and "bp_overflow_count (pool_release (Some (int i)) p) = bp_overflow_count p"
proof -
  obtain ss where ss: "bp_slabs p = Some ss" "length ss = POOL_SIZE"
    "free_chain ss (bp_top p) fs" "distinct fs"
    "\<forall>j < POOL_SIZE. j \<in> set fs \<longleftrightarrow> bs_refcount (ss ! j) = 0" "bp_free_count p = int (length fs)"
    using rel by (auto simp: pool_rel_def)
  let ?c = "bs_refcount (ss ! i)"
  have ref: "refs p i = unat ?c" using ss i by (simp add: refs_def)
  have c: "0 < ?c" "i \<notin> set fs" using pos ref ss i by (auto simp: word_gt_0)
  have un: "unat (?c - 1) = unat ?c - 1" using c(1) by (simp add: unat_minus_one word_gt_0)
  have one: "refs p i = 1 \<longleftrightarrow> ?c = 1" using ref by (metis unat_1 word_unat_eq_iff)
  show "refs (pool_release (Some (int i)) p) = (refs p)(i := refs p i - 1)"
    using ss i c un by (auto simp: pool_release_def refs_def Let_def fun_eq_iff nth_list_update)
  show "bp_overflow_count (pool_release (Some (int i)) p) = bp_overflow_count p"
    using ss i c by (auto simp: pool_release_def Let_def)
  show "pool_rel (pool_release (Some (int i)) p) (if refs p i = 1 then i # fs else fs)"
  proof (cases "?c = 1")
    case True
    let ?s = "(ss ! i)\<lparr>bs_refcount := 0, bs_next_free := bp_top p\<rparr>"
    have "free_chain (ss[i := ?s]) (bp_top p) fs" using ss(3) c(2) by (rule free_chain_frame)
    with True ss i c show ?thesis
      unfolding one by (auto simp: pool_release_def pool_rel_def Let_def nth_list_update)
  next
    case False
    let ?s = "(ss ! i)\<lparr>bs_refcount := ?c - 1\<rparr>"
    have nz: "?c - 1 \<noteq> 0" using False by auto
    have ch: "free_chain (ss[i := ?s]) (bp_top p) fs" using ss(3) by (rule free_chain_same_link) simp
    have "j \<in> set fs \<longleftrightarrow> bs_refcount (ss[i := ?s] ! j) = 0" if "j < POOL_SIZE" for j
      using that ss c(2) nz i by (cases "j = i") auto
    with False ss i c ch show ?thesis
      unfolding one by (auto simp: pool_release_def pool_rel_def Let_def)
  qed
qed

lemma release_zero:
  assumes "pool_inv p" and "i < POOL_SIZE" and "refs p i = 0"
  shows "pool_release (Some (int i)) p = p\<lparr>bp_overflow_count := bp_overflow_count p + 1\<rparr>"
  using assms by (auto simp: pool_inv_def pool_rel_def pool_release_def refs_def Let_def unat_eq_0)

lemma add_ref_rel:
  assumes rel: "pool_rel p fs" and i: "i < POOL_SIZE" and r: "0 < refs p i" "refs p i < 255"
  shows "pool_rel (pool_add_ref (Some (int i)) p) fs"
    and "refs (pool_add_ref (Some (int i)) p) = (refs p)(i := refs p i + 1)"
proof -
  obtain ss where ss: "bp_slabs p = Some ss" "length ss = POOL_SIZE"
    "free_chain ss (bp_top p) fs" "distinct fs"
    "\<forall>j < POOL_SIZE. j \<in> set fs \<longleftrightarrow> bs_refcount (ss ! j) = 0" "bp_free_count p = int (length fs)"
    using rel by (auto simp: pool_rel_def)
  let ?c = "bs_refcount (ss ! i)"
  have ref: "refs p i = unat ?c" using ss i by (simp add: refs_def)
  have un: "unat (?c + 1) = unat ?c + 1" using r(2) ref by (simp add: unat_word_ariths)
  then have nz: "?c + 1 \<noteq> 0" by auto
  have c: "i \<notin> set fs" using r(1) refs_zero_iff [OF rel i] by simp
  let ?s = "(ss ! i)\<lparr>bs_refcount := ?c + 1\<rparr>"
  have ch: "free_chain (ss[i := ?s]) (bp_top p) fs" using ss(3) by (rule free_chain_same_link) simp
  have "j \<in> set fs \<longleftrightarrow> bs_refcount (ss[i := ?s] ! j) = 0" if "j < POOL_SIZE" for j
    using that ss c nz i by (cases "j = i") auto
  with ch ss i show "pool_rel (pool_add_ref (Some (int i)) p) fs"
    by (auto simp: pool_add_ref_def pool_rel_def)
  show "refs (pool_add_ref (Some (int i)) p) = (refs p)(i := refs p i + 1)"
    using ss i un ref by (auto simp: pool_add_ref_def refs_def fun_eq_iff nth_list_update)
qed

section \<open>The contract of a pool\<close>

text \<open>
  What the transports and the mesh task rely on: \<open>acquire\<close> hands out only slabs nobody
  references, it fails only when every slab is referenced, and the reference counts are exact.
\<close>

locale slab_pool =
  fixes inv :: "'p \<Rightarrow> bool"
    and cnt :: "'p \<Rightarrow> nat \<Rightarrow> nat"
    and acquire :: "'p \<Rightarrow> int option \<times> 'p"
    and release :: "int option \<Rightarrow> 'p \<Rightarrow> 'p"
    and add_ref :: "int option \<Rightarrow> 'p \<Rightarrow> 'p"
    and n :: nat
  assumes acquire_Some: "inv p \<Longrightarrow> acquire p = (Some t, p') \<Longrightarrow>
      \<exists>i < n. t = int i \<and> cnt p i = 0 \<and> cnt p' = (cnt p)(i := 1) \<and> inv p'"
    and acquire_None: "inv p \<Longrightarrow> acquire p = (None, p') \<Longrightarrow>
      (\<forall>i < n. 0 < cnt p i) \<and> cnt p' = cnt p \<and> inv p'"
    and release_cnt: "inv p \<Longrightarrow> i < n \<Longrightarrow> 0 < cnt p i \<Longrightarrow>
      cnt (release (Some (int i)) p) = (cnt p)(i := cnt p i - 1) \<and> inv (release (Some (int i)) p)"
    and add_ref_cnt: "inv p \<Longrightarrow> i < n \<Longrightarrow> 0 < cnt p i \<Longrightarrow> cnt p i < 255 \<Longrightarrow>
      cnt (add_ref (Some (int i)) p) = (cnt p)(i := cnt p i + 1) \<and> inv (add_ref (Some (int i)) p)"
begin

lemma acquire_fails_iff:
  assumes "inv p"
  shows "fst (acquire p) = None \<longleftrightarrow> (\<forall>i < n. 0 < cnt p i)"
proof (cases "acquire p")
  case (Pair r p')
  then show ?thesis
    using acquire_Some [OF assms] acquire_None [OF assms] by (cases r) fastforce+
qed

lemma acquire_fresh:
  "inv p \<Longrightarrow> acquire p = (Some t, p') \<Longrightarrow> 0 \<le> t \<and> t < int n \<and> cnt p (nat t) = 0"
  using acquire_Some by fastforce

lemma acquire_release_cnt:
  assumes "inv p" and "acquire p = (Some t, p')"
  shows "cnt (release (Some t) p') = cnt p" and "inv (release (Some t) p')"
proof -
  obtain i where i: "i < n" "t = int i" "cnt p i = 0" "cnt p' = (cnt p)(i := 1)" "inv p'"
    using acquire_Some [OF assms] by blast
  then have "0 < cnt p' i" by simp
  with i show "cnt (release (Some t) p') = cnt p" "inv (release (Some t) p')"
    using release_cnt [of p' i] by (auto simp: fun_eq_iff)
qed

end

interpretation bpool: slab_pool pool_inv refs pool_acquire pool_release pool_add_ref POOL_SIZE
proof unfold_locales
  fix p t p' assume p: "pool_inv p" "pool_acquire p = (Some t, p')"
  then obtain fs where fs: "pool_rel p fs" by (auto simp: pool_inv_def)
  with p(2) acquire_rel_Nil [of p] obtain i fs' where "fs = i # fs'" by (cases fs) auto
  with fs p(2) show "\<exists>i < POOL_SIZE. t = int i \<and> refs p i = 0 \<and> refs p' = (refs p)(i := 1) \<and> pool_inv p'"
    using acquire_rel_Cons [of p i fs' "Some t" p'] unfolding pool_inv_def by blast
next
  fix p p' assume p: "pool_inv p" "pool_acquire p = (None, p')"
  then obtain fs where fs: "pool_rel p fs" by (auto simp: pool_inv_def)
  with p(2) have Nil: "fs = []" using acquire_rel_Cons(1) [of p _ _ None p'] by (cases fs) auto
  with fs p(2) have p': "p' = p\<lparr>bp_exhaustion_count := bp_exhaustion_count p + 1\<rparr>"
    using acquire_rel_Nil by auto
  have "pool_rel p' fs" "refs p' = refs p" using fs by (auto simp: p' pool_rel_def refs_def)
  with fs Nil show "(\<forall>i < POOL_SIZE. 0 < refs p i) \<and> refs p' = refs p \<and> pool_inv p'"
    using refs_zero_iff [of p fs] unfolding pool_inv_def by (metis empty_iff empty_set gr0I)
next
  fix p i assume "pool_inv p" "i < POOL_SIZE" "0 < refs p i"
  then show "refs (pool_release (Some (int i)) p) = (refs p)(i := refs p i - 1) \<and>
      pool_inv (pool_release (Some (int i)) p)"
    using release_rel unfolding pool_inv_def by metis
next
  fix p i assume "pool_inv p" "i < POOL_SIZE" "0 < refs p i" "refs p i < 255"
  then show "refs (pool_add_ref (Some (int i)) p) = (refs p)(i := refs p i + 1) \<and>
      pool_inv (pool_add_ref (Some (int i)) p)"
    using add_ref_rel unfolding pool_inv_def by metis
qed

section \<open>Runs of disciplined clients\<close>

text \<open>
  \<open>pool_run p h\<close>: the pool state \<open>p\<close> is reached from \<open>init\<close> by clients that together hold
  \<open>h i\<close> references to slab \<open>i\<close>, release only references they hold, and take a further
  reference only on a slab they hold, at most 255 in all.
\<close>

inductive pool_run :: "BufferPool \<Rightarrow> (nat \<Rightarrow> nat) \<Rightarrow> bool" where
  run_init: "pool_init (Some mem) q = Some p \<Longrightarrow> pool_run p (\<lambda>_. 0)"
| run_acquire: "pool_run p h \<Longrightarrow> pool_acquire p = (Some t, p') \<Longrightarrow> pool_run p' (h(nat t := h (nat t) + 1))"
| run_exhausted: "pool_run p h \<Longrightarrow> pool_acquire p = (None, p') \<Longrightarrow> pool_run p' h"
| run_release: "pool_run p h \<Longrightarrow> i < POOL_SIZE \<Longrightarrow> 0 < h i \<Longrightarrow>
    pool_run (pool_release (Some (int i)) p) (h(i := h i - 1))"
| run_add_ref: "pool_run p h \<Longrightarrow> i < POOL_SIZE \<Longrightarrow> 0 < h i \<Longrightarrow> h i < 255 \<Longrightarrow>
    pool_run (pool_add_ref (Some (int i)) p) (h(i := h i + 1))"

lemma pool_run_counts: "pool_run p h \<Longrightarrow> pool_inv p \<and> refs p = h"
proof (induction rule: pool_run.induct)
  case (run_init mem q p)
  then show ?case using pool_init_rel [of mem q p] by (auto simp: pool_inv_def)
next
  case (run_acquire p h t p')
  then show ?case using bpool.acquire_Some [of p t p'] by (auto simp: fun_eq_iff)
next
  case (run_exhausted p h p')
  then show ?case using bpool.acquire_None [of p p'] by auto
next
  case (run_release p h i)
  then show ?case using bpool.release_cnt [of p i] by auto
next
  case (run_add_ref p h i)
  then show ?case using bpool.add_ref_cnt [of p i] by auto
qed

text \<open>
  C18. In every run of disciplined clients the pool's reference counts are the references the
  clients hold, the free counter is the number of slabs nobody holds, \<open>acquire\<close> hands out a
  slab of the pool that nobody holds, and it fails exactly when every slab is held.
\<close>

theorem pool_acquire_exclusive:
  assumes "pool_run p h"
  shows "refs p = h \<and>
    bp_free_count p = int (card {i. i < POOL_SIZE \<and> h i = 0}) \<and>
    (\<forall>t p'. pool_acquire p = (Some t, p') \<longrightarrow> 0 \<le> t \<and> t < int POOL_SIZE \<and> h (nat t) = 0) \<and>
    (fst (pool_acquire p) = None \<longleftrightarrow> (\<forall>i < POOL_SIZE. 0 < h i))"
proof -
  have inv: "pool_inv p" and h: "refs p = h" using pool_run_counts [OF assms] by auto
  obtain fs where fs: "pool_rel p fs" using inv by (auto simp: pool_inv_def)
  have "set fs \<subseteq> {..<POOL_SIZE}" using fs free_chain_range unfolding pool_rel_def by metis
  then have "set fs = {i. i < POOL_SIZE \<and> h i = 0}"
    using refs_zero_iff [OF fs] h by auto
  then have "bp_free_count p = int (card {i. i < POOL_SIZE \<and> h i = 0})"
    using fs distinct_card [of fs] by (auto simp: pool_rel_def)
  with h show ?thesis
    using bpool.acquire_fresh [OF inv, unfolded h] bpool.acquire_fails_iff [OF inv, unfolded h]
    by blast
qed

theorem pool_acquire_exclusive_witness:
  "\<exists>p. pool_init (Some (\<lambda>_. [])) BufferPool_new = Some p \<and> refs p = (\<lambda>_. 0) \<and>
     bp_free_count p = int (card {i. i < POOL_SIZE \<and> (0 :: nat) = 0})"
proof -
  obtain p where p: "pool_init (Some (\<lambda>_. [])) BufferPool_new = Some p"
    by (auto simp: pool_init_def)
  then have "pool_run p (\<lambda>_. 0)" by (rule pool_run.run_init)
  from pool_acquire_exclusive [OF this] p show ?thesis by auto
qed

text \<open>
  \<open>get_free_count\<close> narrows the counter to 8 bits: a fresh pool of 353 slabs reports 97 free
  ones, and a pool with 256 free slabs reports none.
\<close>

theorem get_free_count_truncates:
  "get_free_count p = of_nat (nat (bp_free_count p) mod 256) \<and>
   get_free_count (p\<lparr>bp_free_count := int POOL_SIZE\<rparr>) = 97 \<and>
   get_free_count (p\<lparr>bp_free_count := 256\<rparr>) = 0"
proof -
  have "(of_int k :: u8) = of_nat (nat k mod 256)" if "0 < k" for k :: int
  proof -
    have "(of_nat (nat k mod 256) :: u8) = of_nat (nat k)"
      using word_unat_eq_iff [of "of_nat (nat k mod 256) :: u8"] by (simp add: unat_of_nat)
    with that show ?thesis by simp
  qed
  then show ?thesis by (simp add: get_free_count_def)
qed

section \<open>Interleaved operation of the compare-and-swap loops\<close>

text \<open>
  Several tasks call \<open>acquire\<close> and \<open>release\<close> at once. The shared state is the head of the stack,
  the links and the reference counts; a thread has a program counter and the slabs it holds.
  Every step is one atomic access of the source. A \<open>compare_exchange_weak\<close> may fail although the
  value matches: \<open>Go True\<close> is such a step.
\<close>

record Shared =
  sh_top :: int
  sh_next :: "nat \<Rightarrow> int"
  sh_ref :: "nat \<Rightarrow> u8"

datatype pool_pc =
    Idle
  | Acq_test int
  | Acq_cas int int
  | Acq_store int
  | Rel_test nat u8
  | Rel_top nat
  | Rel_link nat int
  | Rel_cas nat int

record PoolThread =
  th_pc :: pool_pc
  th_held :: "nat list"

datatype pool_act = Call_acquire | Call_release nat | Go bool

fun acquire_step :: "bool \<Rightarrow> Shared \<Rightarrow> PoolThread \<Rightarrow> Shared \<times> PoolThread" where
  "acquire_step weak s th = (case th_pc th of
      Acq_test t \<Rightarrow>
        if 0 \<le> t then (s, th\<lparr>th_pc := Acq_cas t (sh_next s (nat t))\<rparr>)
        else (s, th\<lparr>th_pc := Idle\<rparr>)
    | Acq_cas t nx \<Rightarrow>
        if sh_top s = t \<and> \<not> weak then (s\<lparr>sh_top := nx\<rparr>, th\<lparr>th_pc := Acq_store t\<rparr>)
        else (s, th\<lparr>th_pc := Acq_test (sh_top s)\<rparr>)
    | Acq_store t \<Rightarrow>
        (s\<lparr>sh_ref := (sh_ref s)(nat t := 1)\<rparr>, th\<lparr>th_pc := Idle, th_held := nat t # th_held th\<rparr>)
    | _ \<Rightarrow> (s, th))"

fun release_step :: "bool \<Rightarrow> Shared \<Rightarrow> PoolThread \<Rightarrow> Shared \<times> PoolThread" where
  "release_step weak s th = (case th_pc th of
      Rel_test i cur \<Rightarrow>
        if 0 < cur then
          if sh_ref s i = cur \<and> \<not> weak then
            (s\<lparr>sh_ref := (sh_ref s)(i := cur - 1)\<rparr>,
             th\<lparr>th_pc := (if cur = 1 then Rel_top i else Idle)\<rparr>)
          else (s, th\<lparr>th_pc := Rel_test i (sh_ref s i)\<rparr>)
        else (s, th\<lparr>th_pc := Idle\<rparr>)
    | Rel_top i \<Rightarrow> (s, th\<lparr>th_pc := Rel_link i (sh_top s)\<rparr>)
    | Rel_link i old_top \<Rightarrow>
        (s\<lparr>sh_next := (sh_next s)(i := old_top)\<rparr>, th\<lparr>th_pc := Rel_cas i old_top\<rparr>)
    | Rel_cas i old_top \<Rightarrow>
        if sh_top s = old_top \<and> \<not> weak then (s\<lparr>sh_top := int i\<rparr>, th\<lparr>th_pc := Idle\<rparr>)
        else (s, th\<lparr>th_pc := Rel_link i (sh_top s)\<rparr>)
    | _ \<Rightarrow> (s, th))"

text \<open>A thread calls an operation only when idle and releases only a slab it holds.\<close>

inductive pool_cstep ::
  "Shared \<times> (nat \<Rightarrow> PoolThread) \<Rightarrow> Shared \<times> (nat \<Rightarrow> PoolThread) \<Rightarrow> bool" where
  call_acquire: "th_pc (ths k) = Idle \<Longrightarrow>
    pool_cstep (s, ths) (s, ths(k := (ths k)\<lparr>th_pc := Acq_test (sh_top s)\<rparr>))"
| call_release: "th_pc (ths k) = Idle \<Longrightarrow> i \<in> set (th_held (ths k)) \<Longrightarrow>
    pool_cstep (s, ths)
      (s, ths(k := (ths k)\<lparr>th_pc := Rel_test i (sh_ref s i), th_held := remove1 i (th_held (ths k))\<rparr>))"
| go_acquire: "acquire_step weak s (ths k) = (s', th') \<Longrightarrow> pool_cstep (s, ths) (s', ths(k := th'))"
| go_release: "release_step weak s (ths k) = (s', th') \<Longrightarrow> pool_cstep (s, ths) (s', ths(k := th'))"

definition pool_cinit :: "Shared \<times> (nat \<Rightarrow> PoolThread)" where
  "pool_cinit = (\<lparr>sh_top = 0, sh_next = (\<lambda>i. if i + 1 < POOL_SIZE then int (i + 1) else -1),
      sh_ref = (\<lambda>_. 0)\<rparr>, \<lambda>_. \<lparr>th_pc = Idle, th_held = []\<rparr>)"

text \<open>The same steps driven by an explicit schedule.\<close>

fun sched_step :: "nat \<times> pool_act \<Rightarrow> Shared \<times> (nat \<Rightarrow> PoolThread) \<Rightarrow> Shared \<times> (nat \<Rightarrow> PoolThread)" where
  "sched_step (k, Call_acquire) (s, ths) =
     (if th_pc (ths k) = Idle then (s, ths(k := (ths k)\<lparr>th_pc := Acq_test (sh_top s)\<rparr>)) else (s, ths))"
| "sched_step (k, Call_release i) (s, ths) =
     (if th_pc (ths k) = Idle \<and> i \<in> set (th_held (ths k))
      then (s, ths(k := (ths k)\<lparr>th_pc := Rel_test i (sh_ref s i), th_held := remove1 i (th_held (ths k))\<rparr>))
      else (s, ths))"
| "sched_step (k, Go weak) (s, ths) =
     (let (s1, th1) = acquire_step weak s (ths k) in
      if th1 \<noteq> ths k then (s1, ths(k := th1))
      else let (s2, th2) = release_step weak s (ths k) in (s2, ths(k := th2)))"

lemma sched_step_reaches: "pool_cstep\<^sup>*\<^sup>* c (sched_step a c)"
proof -
  obtain k act s ths where "a = (k, act)" "c = (s, ths)" by (metis prod.exhaust)
  then show ?thesis
    by (cases act)
      (auto simp: Let_def split: prod.splits simp del: acquire_step.simps release_step.simps
        intro: r_into_rtranclp pool_cstep.intros)
qed

lemma schedule_reaches: "pool_cstep\<^sup>*\<^sup>* c (fold sched_step as c)"
proof (induction as arbitrary: c)
  case (Cons a as)
  show ?case using rtranclp_trans [OF sched_step_reaches Cons.IH] by simp
qed simp

definition aba_schedule :: "(nat \<times> pool_act) list" where
  "aba_schedule =
     [(0, Call_acquire), (0, Go False),
      (1, Call_acquire), (1, Go False), (1, Go False), (1, Go False),
      (1, Call_acquire), (1, Go False), (1, Go False), (1, Go False),
      (1, Call_release 0), (1, Go False), (1, Go False), (1, Go False), (1, Go False),
      (0, Go False), (0, Go False),
      (0, Call_acquire), (0, Go False), (0, Go False), (0, Go False)]"

text \<open>
  C36. The head of the stack is a bare index, so a compare-and-swap cannot tell a head that was
  popped and pushed again from one that never moved: from a fresh pool a state is reachable in
  which two tasks hold the same slab at the same time, each through its own \<open>acquire\<close>.
\<close>

theorem concurrent_double_allocation:
  "\<exists>s ths. pool_cstep\<^sup>*\<^sup>* pool_cinit (s, ths) \<and>
     1 \<in> set (th_held (ths 0)) \<and> 1 \<in> set (th_held (ths 1))"
proof -
  let ?c = "fold sched_step aba_schedule pool_cinit"
  have "1 \<in> set (th_held (snd ?c 0)) \<and> 1 \<in> set (th_held (snd ?c 1))"
    by (simp add: aba_schedule_def pool_cinit_def)
  with schedule_reaches [of pool_cinit aba_schedule] show ?thesis
    by (metis prod.collapse)
qed

end
