(* ===== verification/Uart_Ingest.thy ===== *)
theory Uart_Ingest
  imports Packet
begin

text \<open>
  The UART interface of a node (\<open>components/uart_api/include/uart_ingest.hpp\<close>, \<open>uart_ingest.cpp\<close>):
  the byte-wise frame parser, the command handlers, the file ingest into PSRAM or an SD spool
  file, and the polling helpers. Everything the code asks of its surroundings is an argument of
  type \<open>UartEnv\<close>: the clock, what the allocators and the SD card return, and the answers of the
  mesh manager. Effects on the surroundings are returned as a list of outputs. A C string is the
  list of its bytes before the terminating zero, a null pointer is \<open>None\<close>, an open spool file is
  the bytes written to it so far.
\<close>

section \<open>State\<close>

abbreviation (input) UART_CMD_FILE_BEGIN :: u8 where "UART_CMD_FILE_BEGIN \<equiv> 0x01"
abbreviation (input) UART_CMD_FILE_DATA :: u8 where "UART_CMD_FILE_DATA \<equiv> 0x02"
abbreviation (input) UART_CMD_FILE_END :: u8 where "UART_CMD_FILE_END \<equiv> 0x03"
abbreviation (input) UART_CMD_STATUS :: u8 where "UART_CMD_STATUS \<equiv> 0x04"
abbreviation (input) UART_CMD_ABORT :: u8 where "UART_CMD_ABORT \<equiv> 0x05"
abbreviation (input) UART_RESP_ACK :: u8 where "UART_RESP_ACK \<equiv> 0x80"
abbreviation (input) UART_RESP_NACK :: u8 where "UART_RESP_NACK \<equiv> 0x81"
abbreviation (input) UART_RESP_STATUS_RESP :: u8 where "UART_RESP_STATUS_RESP \<equiv> 0x82"
abbreviation (input) UART_EVT_TRANSFER_PROGRESS :: u8 where "UART_EVT_TRANSFER_PROGRESS \<equiv> 0xC0"
abbreviation (input) UART_EVT_TRANSFER_COMPLETE :: u8 where "UART_EVT_TRANSFER_COMPLETE \<equiv> 0xC1"
abbreviation (input) UART_EVT_MESH_STATE :: u8 where "UART_EVT_MESH_STATE \<equiv> 0xC3"
abbreviation (input) UART_ERR_ALLOC_FAIL :: u8 where "UART_ERR_ALLOC_FAIL \<equiv> 0x01"
abbreviation (input) UART_SYNC1 :: u8 where "UART_SYNC1 \<equiv> 0xAA"
abbreviation (input) UART_SYNC2 :: u8 where "UART_SYNC2 \<equiv> 0x55"
abbreviation (input) UART_PAYLOAD_MAX :: nat where "UART_PAYLOAD_MAX \<equiv> 1024 + 4"
abbreviation (input) FLP_INGEST_MAX_SIZE_BYTES :: nat where "FLP_INGEST_MAX_SIZE_BYTES \<equiv> 3 * 1024 * 1024"
abbreviation (input) MESH_POLL_INTERVAL_MS :: u32 where "MESH_POLL_INTERVAL_MS \<equiv> 10000"
abbreviation (input) PROGRESS_REPORT_STEP :: nat where "PROGRESS_REPORT_STEP \<equiv> 5"
abbreviation (input) EVENT_QUEUE_DEPTH :: nat where "EVENT_QUEUE_DEPTH \<equiv> 16"

datatype UartResult = UR_OK | UR_ERR_ALLOC | UR_ERR_OVERFLOW | UR_ERR_NO_TRANSFER | UR_ERR_BUSY

fun result_code :: "UartResult \<Rightarrow> u8" where
  "result_code UR_OK = 0"
| "result_code UR_ERR_ALLOC = 1"
| "result_code UR_ERR_OVERFLOW = 2"
| "result_code UR_ERR_NO_TRANSFER = 3"
| "result_code UR_ERR_BUSY = 4"

record StatusResp =
  st_has_internet :: u8
  st_neighbor_count :: u8
  st_hops_to_gateway :: u8
  st_transfer_active :: u8
  st_transfer_progress :: u8
  st_is_exit_node :: u8
  st_node_addr :: u16
  st_free_heap :: u32
  st_mqtt_connected :: u8

record UartEvent =
  ev_type :: u8
  ev_payload :: bytes
  ev_len :: u16

datatype ParseState = SYNC1 | SYNC2 | CMD | LEN_LO | LEN_HI | PAYLOAD

record UartIngest =
  ui_mgr :: bool
  ui_state :: ParseState
  ui_frame_cmd :: u8
  ui_frame_len :: u16
  ui_payload_idx :: u16
  ui_payload_buf :: bytes
  ui_ingest_buf :: "bytes option"
  ui_ingest_file :: "bytes option"
  ui_ingest_size :: nat
  ui_received_size :: nat
  ui_filename :: bytes
  ui_ingest_path :: bytes
  ui_ingest_active :: bool
  ui_ingest_to_sd :: bool
  ui_transfer_started :: bool
  ui_transfer_start_ms :: u32
  ui_last_progress_pct :: u8
  ui_last_mesh_poll_ms :: u32
  ui_last_mesh_hops :: u8
  ui_last_mesh_neighbors :: u8
  ui_event_queue :: "UartEvent list"

text \<open>\<open>en_malloc\<close> is the block the PSRAM allocator returns; \<open>en_path\<close> the spool path of \<open>snprintf\<close>.\<close>

record UartEnv =
  en_now :: u32
  en_malloc :: "bytes option"
  en_sd_init_ok :: bool
  en_fopen_ok :: bool
  en_path :: bytes
  en_fwrite :: nat
  en_start_ok :: bool
  en_transfer_active :: bool
  en_progress :: u8
  en_hops :: u8
  en_neighbors :: u8
  en_status :: StatusResp

datatype uart_out = Wire bytes | Start_transfer bytes bytes | Free_buffer | Remove_file bytes

section \<open>Framing\<close>

definition send_frame :: "u8 \<Rightarrow> bytes \<Rightarrow> uart_out list" where
  "send_frame cmd payload =
    (let len = of_nat (length payload) :: u16 in
     [Wire ([UART_SYNC1, UART_SYNC2, cmd, ucast (len AND 0xFF), ucast (drop_bit 8 len AND 0xFF)] @ payload)])"

definition send_ack :: "u8 \<Rightarrow> uart_out list" where
  "send_ack original_cmd = send_frame UART_RESP_ACK [original_cmd]"

definition send_nack :: "u8 \<Rightarrow> u8 \<Rightarrow> uart_out list" where
  "send_nack original_cmd err = send_frame UART_RESP_NACK [original_cmd, err]"

definition reset_parser :: "UartIngest \<Rightarrow> UartIngest" where
  "reset_parser u = u\<lparr>ui_state := SYNC1, ui_frame_cmd := 0, ui_frame_len := 0, ui_payload_idx := 0\<rparr>"

section \<open>The programmatic interface\<close>

definition strnlen :: "bytes \<Rightarrow> nat \<Rightarrow> nat" where
  "strnlen s n = length (takeWhile (\<lambda>b. b \<noteq> 0) (take n s))"

definition drop_old_ingest :: "UartIngest \<Rightarrow> UartIngest \<times> uart_out list" where
  "drop_old_ingest u =
    (if ui_ingest_active u then
       (u\<lparr>ui_ingest_buf := None, ui_ingest_file := None, ui_ingest_to_sd := False,
          ui_ingest_path := [], ui_ingest_active := False\<rparr>,
        (if ui_ingest_buf u \<noteq> None then [Free_buffer] else []) @
        (if ui_ingest_to_sd u \<and> ui_ingest_path u \<noteq> [] then [Remove_file (ui_ingest_path u)] else []))
     else (u, []))"

definition file_begin :: "UartEnv \<Rightarrow> u32 \<Rightarrow> bytes \<Rightarrow> UartIngest \<Rightarrow> UartResult \<times> UartIngest \<times> uart_out list" where
  "file_begin e file_size filename u =
    (if ui_transfer_started u then (UR_ERR_BUSY, u, [])
     else
       let (u1, outs) = drop_old_ingest u in
       if file_size = 0 \<or> FLP_INGEST_MAX_SIZE_BYTES < unat file_size then (UR_ERR_ALLOC, u1, outs)
       else
         let name_len = strnlen filename 63;
             u2 = u1\<lparr>ui_filename := take name_len filename, ui_ingest_to_sd := False,
                     ui_ingest_path := [], ui_ingest_buf := en_malloc e\<rparr> in
         if en_malloc e \<noteq> None then
           (UR_OK, u2\<lparr>ui_ingest_size := unat file_size, ui_received_size := 0, ui_ingest_active := True\<rparr>, outs)
         else if \<not> en_sd_init_ok e then (UR_ERR_ALLOC, u2, outs)
         else
           let u3 = u2\<lparr>ui_ingest_path := en_path e\<rparr> in
           if \<not> en_fopen_ok e then (UR_ERR_ALLOC, u3\<lparr>ui_ingest_file := None\<rparr>, outs)
           else (UR_OK, u3\<lparr>ui_ingest_file := Some [], ui_ingest_size := unat file_size,
                   ui_received_size := 0, ui_ingest_active := True, ui_ingest_to_sd := True\<rparr>, outs))"

definition file_data :: "UartEnv \<Rightarrow> bytes \<Rightarrow> UartIngest \<Rightarrow> UartResult \<times> UartIngest" where
  "file_data e data u =
    (if \<not> ui_ingest_active u then (UR_ERR_NO_TRANSFER, u)
     else if ui_transfer_started u then (UR_ERR_BUSY, u)
     else if ui_ingest_size u < ui_received_size u + length data then (UR_ERR_OVERFLOW, u)
     else if ui_ingest_to_sd u then
       (case ui_ingest_file u of
          None \<Rightarrow> (UR_ERR_NO_TRANSFER, u)
        | Some content \<Rightarrow>
            let wrote = min (en_fwrite e) (length data);
                u1 = u\<lparr>ui_ingest_file := Some (content @ take wrote data)\<rparr> in
            if wrote \<noteq> length data then (UR_ERR_ALLOC, u1)
            else (UR_OK, u1\<lparr>ui_received_size := ui_received_size u + length data\<rparr>))
     else
       (case ui_ingest_buf u of
          None \<Rightarrow> (UR_ERR_NO_TRANSFER, u)
        | Some buf \<Rightarrow>
            (UR_OK, u\<lparr>ui_ingest_buf := Some (write_at (ui_received_size u) data buf),
                      ui_received_size := ui_received_size u + length data\<rparr>)))"

text \<open>
  \<open>file_end\<close> hands the transfer engine a reader over the received bytes: over the buffer, or over
  the closed spool file.
\<close>

definition file_end :: "UartEnv \<Rightarrow> UartIngest \<Rightarrow> UartResult \<times> UartIngest \<times> uart_out list" where
  "file_end e u =
    (if \<not> ui_ingest_active u then (UR_ERR_NO_TRANSFER, u, [])
     else if ui_transfer_started u then (UR_ERR_BUSY, u, [])
     else if \<not> ui_mgr u then (UR_ERR_NO_TRANSFER, u, [])
     else
       let start = (\<lambda>u1 content.
             let outs = [Start_transfer (ui_filename u) content] in
             if \<not> en_start_ok e then (UR_ERR_NO_TRANSFER, u1, outs)
             else (UR_OK, u1\<lparr>ui_transfer_started := True, ui_transfer_start_ms := en_now e,
                     ui_last_progress_pct := 0\<rparr>, outs)) in
       if ui_ingest_to_sd u then
         (case ui_ingest_file u of
            None \<Rightarrow> (UR_ERR_NO_TRANSFER, u, [])
          | Some content \<Rightarrow> start (u\<lparr>ui_ingest_file := None\<rparr>) (take (ui_received_size u) content))
       else
         (case ui_ingest_buf u of
            None \<Rightarrow> (UR_ERR_NO_TRANSFER, u, [])
          | Some buf \<Rightarrow> start u (take (ui_received_size u) buf)))"

definition zero_status :: StatusResp where
  "zero_status = \<lparr>st_has_internet = 0, st_neighbor_count = 0, st_hops_to_gateway = 0, st_transfer_active = 0,
     st_transfer_progress = 0, st_is_exit_node = 0, st_node_addr = 0, st_free_heap = 0, st_mqtt_connected = 0\<rparr>"

definition query_status :: "UartEnv \<Rightarrow> UartIngest \<Rightarrow> StatusResp" where
  "query_status e u = (if ui_mgr u then en_status e else zero_status)"

definition abort_transfer :: "UartIngest \<Rightarrow> UartResult \<times> UartIngest \<times> uart_out list" where
  "abort_transfer u =
    (if \<not> ui_ingest_active u then (UR_ERR_NO_TRANSFER, u, [])
     else
       let free = (ui_ingest_buf u \<noteq> None \<and> \<not> ui_transfer_started u);
           unlink = (ui_ingest_to_sd u \<and> \<not> ui_transfer_started u \<and> ui_ingest_path u \<noteq> []) in
       (UR_OK,
        u\<lparr>ui_ingest_buf := (if free then None else ui_ingest_buf u), ui_ingest_file := None,
          ui_ingest_path := (if unlink then [] else ui_ingest_path u),
          ui_ingest_active := False, ui_transfer_started := False, ui_received_size := 0,
          ui_ingest_size := 0\<rparr>,
        (if free then [Free_buffer] else []) @ (if unlink then [Remove_file (ui_ingest_path u)] else [])))"

definition push_event :: "UartEvent \<Rightarrow> UartIngest \<Rightarrow> UartIngest" where
  "push_event evt u = (if length (ui_event_queue u) < EVENT_QUEUE_DEPTH
     then u\<lparr>ui_event_queue := ui_event_queue u @ [evt]\<rparr> else u)"

section \<open>Frame handling\<close>

definition status_bytes :: "StatusResp \<Rightarrow> bytes" where
  "status_bytes s = [st_has_internet s, st_neighbor_count s, st_hops_to_gateway s, st_transfer_active s,
     st_transfer_progress s, st_is_exit_node s] @ le16 (st_node_addr s) @ le32 (st_free_heap s) @
     [st_mqtt_connected s]"

definition respond :: "u8 \<Rightarrow> UartResult \<Rightarrow> uart_out list" where
  "respond cmd res = (if res = UR_OK then send_ack cmd else send_nack cmd (result_code res))"

definition handle_frame :: "UartEnv \<Rightarrow> UartIngest \<Rightarrow> UartIngest \<times> uart_out list" where
  "handle_frame e u =
    (let cmd = ui_frame_cmd u; len = unat (ui_frame_len u); buf = ui_payload_buf u in
     if cmd = UART_CMD_FILE_BEGIN then
       if len < 5 then (u, send_nack UART_CMD_FILE_BEGIN UART_ERR_ALLOC_FAIL)
       else
         let fsize = rd32 (buf ! 0) (buf ! 1) (buf ! 2) (buf ! 3);
             name_len = strnlen (drop 4 buf) (len - 4);
             name_len = (if 64 \<le> name_len then 63 else name_len);
             (res, u1, outs) = file_begin e fsize (take name_len (drop 4 buf)) u
         in (u1, outs @ respond UART_CMD_FILE_BEGIN res)
     else if cmd = UART_CMD_FILE_DATA then
       let (res, u1) = file_data e (take len buf) u in (u1, respond UART_CMD_FILE_DATA res)
     else if cmd = UART_CMD_FILE_END then
       let (res, u1, outs) = file_end e u in (u1, outs @ respond UART_CMD_FILE_END res)
     else if cmd = UART_CMD_STATUS then
       (u, send_frame UART_RESP_STATUS_RESP (status_bytes (query_status e u)))
     else if cmd = UART_CMD_ABORT then
       let (res, u1, outs) = abort_transfer u in (u1, outs @ respond UART_CMD_ABORT res)
     else (u, send_nack cmd 0xFF))"

text \<open>One received byte: the \<open>switch\<close> of \<open>run\<close>.\<close>

definition parse_byte :: "UartEnv \<Rightarrow> u8 \<Rightarrow> UartIngest \<Rightarrow> UartIngest \<times> uart_out list" where
  "parse_byte e b u = (case ui_state u of
      SYNC1 \<Rightarrow> (if b = UART_SYNC1 then u\<lparr>ui_state := SYNC2\<rparr> else u, [])
    | SYNC2 \<Rightarrow> (u\<lparr>ui_state := (if b = UART_SYNC2 then CMD else SYNC1)\<rparr>, [])
    | CMD \<Rightarrow> (u\<lparr>ui_frame_cmd := b, ui_state := LEN_LO\<rparr>, [])
    | LEN_LO \<Rightarrow> (u\<lparr>ui_frame_len := ucast b, ui_state := LEN_HI\<rparr>, [])
    | LEN_HI \<Rightarrow>
        let u1 = u\<lparr>ui_frame_len := ui_frame_len u OR push_bit 8 (ucast b)\<rparr> in
        if ui_frame_len u1 = 0 then let (u2, outs) = handle_frame e u1 in (reset_parser u2, outs)
        else if UART_PAYLOAD_MAX < unat (ui_frame_len u1) then (reset_parser u1, [])
        else (u1\<lparr>ui_payload_idx := 0, ui_state := PAYLOAD\<rparr>, [])
    | PAYLOAD \<Rightarrow>
        let u1 = u\<lparr>ui_payload_buf := (ui_payload_buf u)[unat (ui_payload_idx u) := b],
                   ui_payload_idx := ui_payload_idx u + 1\<rparr> in
        if ui_frame_len u1 \<le> ui_payload_idx u1
        then let (u2, outs) = handle_frame e u1 in (reset_parser u2, outs)
        else (u1, []))"

section \<open>Polling\<close>

definition poll_transfer_progress :: "UartEnv \<Rightarrow> UartIngest \<Rightarrow> UartIngest \<times> uart_out list" where
  "poll_transfer_progress e u =
    (if \<not> ui_transfer_started u \<or> \<not> ui_mgr u then (u, [])
     else if en_transfer_active e then
       let pct = en_progress e in
       if unat (ui_last_progress_pct u) + PROGRESS_REPORT_STEP \<le> unat pct
       then (u\<lparr>ui_last_progress_pct := pct\<rparr>, send_frame UART_EVT_TRANSFER_PROGRESS [pct])
       else (u, [])
     else
       let duration_ms = en_now e - ui_transfer_start_ms u;
           unlink = (ui_ingest_to_sd u \<and> ui_ingest_path u \<noteq> []) in
       (u\<lparr>ui_ingest_buf := None, ui_ingest_file := None,
          ui_ingest_path := (if unlink then [] else ui_ingest_path u),
          ui_ingest_active := False, ui_transfer_started := False, ui_received_size := 0,
          ui_ingest_size := 0, ui_ingest_to_sd := False\<rparr>,
        send_frame UART_EVT_TRANSFER_COMPLETE (1 # le32 duration_ms) @
        (if ui_ingest_buf u \<noteq> None then [Free_buffer] else []) @
        (if unlink then [Remove_file (ui_ingest_path u)] else [])))"

definition poll_mesh_state :: "UartEnv \<Rightarrow> UartIngest \<Rightarrow> UartIngest \<times> uart_out list" where
  "poll_mesh_state e u =
    (if \<not> ui_mgr u then (u, [])
     else if en_now e - ui_last_mesh_poll_ms u < MESH_POLL_INTERVAL_MS then (u, [])
     else
       let u1 = u\<lparr>ui_last_mesh_poll_ms := en_now e\<rparr>; hops = en_hops e; nbrs = en_neighbors e in
       if hops \<noteq> ui_last_mesh_hops u \<or> nbrs \<noteq> ui_last_mesh_neighbors u
       then (u1\<lparr>ui_last_mesh_hops := hops, ui_last_mesh_neighbors := nbrs\<rparr>,
             send_frame UART_EVT_MESH_STATE [if hops < 0xFF then 1 else 0, hops, nbrs])
       else (u1, []))"

fun drain_events :: "nat \<Rightarrow> UartIngest \<Rightarrow> UartIngest \<times> uart_out list" where
  "drain_events 0 u = (u, [])"
| "drain_events (Suc n) u = (case ui_event_queue u of
      [] \<Rightarrow> (u, [])
    | evt # q \<Rightarrow>
        let (u1, outs) = drain_events n (u\<lparr>ui_event_queue := q\<rparr>)
        in (u1, send_frame (ev_type evt) (take (unat (ev_len evt)) (ev_payload evt)) @ outs))"

definition drain_event_queue :: "UartIngest \<Rightarrow> UartIngest \<times> uart_out list" where
  "drain_event_queue u = drain_events 4 u"

text \<open>One iteration of \<open>run\<close>; \<open>None\<close> is a read that timed out.\<close>

definition run_once :: "UartEnv \<Rightarrow> u8 option \<Rightarrow> UartIngest \<Rightarrow> UartIngest \<times> uart_out list" where
  "run_once e byte u =
    (let (u1, o1) = (case byte of None \<Rightarrow> (u, []) | Some b \<Rightarrow> parse_byte e b u);
         (u2, o2) = poll_transfer_progress e u1;
         (u3, o3) = poll_mesh_state e u2;
         (u4, o4) = drain_event_queue u3
     in (u4, o1 @ o2 @ o3 @ o4))"

definition UartIngest_new :: "bool \<Rightarrow> bytes \<Rightarrow> UartIngest" where
  "UartIngest_new mgr garbage = \<lparr>ui_mgr = mgr, ui_state = SYNC1, ui_frame_cmd = 0, ui_frame_len = 0,
     ui_payload_idx = 0, ui_payload_buf = garbage, ui_ingest_buf = None, ui_ingest_file = None,
     ui_ingest_size = 0, ui_received_size = 0, ui_filename = [], ui_ingest_path = [],
     ui_ingest_active = False, ui_ingest_to_sd = False, ui_transfer_started = False,
     ui_transfer_start_ms = 0, ui_last_progress_pct = 0, ui_last_mesh_poll_ms = 0,
     ui_last_mesh_hops = 0xFF, ui_last_mesh_neighbors = 0, ui_event_queue = []\<rparr>"

section \<open>The parser\<close>

fun parse_bytes :: "UartEnv \<Rightarrow> bytes \<Rightarrow> UartIngest \<Rightarrow> UartIngest \<times> uart_out list" where
  "parse_bytes e [] u = (u, [])"
| "parse_bytes e (b # bs) u =
    (let (u1, o1) = parse_byte e b u; (u2, o2) = parse_bytes e bs u1 in (u2, o1 @ o2))"

definition finish_frame :: "UartEnv \<Rightarrow> UartIngest \<Rightarrow> UartIngest \<times> uart_out list" where
  "finish_frame e u = (reset_parser (fst (handle_frame e u)), snd (handle_frame e u))"

text \<open>A parser state differs from \<open>u\<close> only in the parser's own fields.\<close>

definition with_parser :: "ParseState \<Rightarrow> u8 \<Rightarrow> u16 \<Rightarrow> u16 \<Rightarrow> bytes \<Rightarrow> UartIngest \<Rightarrow> UartIngest" where
  "with_parser s cmd len idx buf u = u\<lparr>ui_state := s, ui_frame_cmd := cmd, ui_frame_len := len,
     ui_payload_idx := idx, ui_payload_buf := buf\<rparr>"

lemma with_parser_self:
  "with_parser (ui_state u) (ui_frame_cmd u) (ui_frame_len u) (ui_payload_idx u) (ui_payload_buf u) u = u"
  by (simp add: with_parser_def)

lemma with_parser_fields [simp]:
  "ui_state (with_parser s cmd len idx buf u) = s"
  "ui_frame_cmd (with_parser s cmd len idx buf u) = cmd"
  "ui_frame_len (with_parser s cmd len idx buf u) = len"
  "ui_payload_idx (with_parser s cmd len idx buf u) = idx"
  "ui_payload_buf (with_parser s cmd len idx buf u) = buf"
  by (simp_all add: with_parser_def)

lemma with_parser_updates [simp]:
  "(with_parser s cmd len idx buf u)\<lparr>ui_state := s'\<rparr> = with_parser s' cmd len idx buf u"
  "(with_parser s cmd len idx buf u)\<lparr>ui_frame_cmd := cmd'\<rparr> = with_parser s cmd' len idx buf u"
  "(with_parser s cmd len idx buf u)\<lparr>ui_frame_len := len'\<rparr> = with_parser s cmd len' idx buf u"
  "(with_parser s cmd len idx buf u)\<lparr>ui_payload_idx := idx'\<rparr> = with_parser s cmd len idx' buf u"
  "(with_parser s cmd len idx buf u)\<lparr>ui_payload_buf := buf'\<rparr> = with_parser s cmd len idx buf' u"
  by (rule UartIngest.equality; simp add: with_parser_def)+

lemma header_steps:
  "parse_byte e UART_SYNC1 (with_parser SYNC1 c l i b u) = (with_parser SYNC2 c l i b u, [])"
  "parse_byte e UART_SYNC2 (with_parser SYNC2 c l i b u) = (with_parser CMD c l i b u, [])"
  "parse_byte e x (with_parser CMD c l i b u) = (with_parser LEN_LO x l i b u, [])"
  "parse_byte e x (with_parser LEN_LO c l i b u) = (with_parser LEN_HI c (ucast x) i b u, [])"
  by (simp_all add: parse_byte_def)

lemma payload_step:
  assumes "unat idx < unat len"
  shows "parse_byte e b (with_parser PAYLOAD cmd len idx buf u) =
    (if unat idx + 1 = unat len
     then finish_frame e (with_parser PAYLOAD cmd len (idx + 1) (buf[unat idx := b]) u)
     else (with_parser PAYLOAD cmd len (idx + 1) (buf[unat idx := b]) u, []))"
proof -
  have "unat idx + 1 < 65536" using assms unat_u16_bound [of len] by linarith
  then have "unat (idx + 1) = unat idx + 1" by (simp add: unat_word_ariths)
  then have "len \<le> idx + 1 \<longleftrightarrow> unat idx + 1 = unat len" using assms by (auto simp: word_le_nat_alt)
  then show ?thesis
    by (simp add: parse_byte_def Let_def finish_frame_def case_prod_unfold)
qed

lemma payload_run:
  assumes "bs \<noteq> []" and "unat idx + length bs = unat len" and "length buf = UART_PAYLOAD_MAX" and "unat len \<le> UART_PAYLOAD_MAX"
  shows "parse_bytes e bs (with_parser PAYLOAD cmd len idx buf u) =
    finish_frame e (with_parser PAYLOAD cmd len len (write_at (unat idx) bs buf) u)"
  using assms
proof (induction bs arbitrary: idx buf)
  case (Cons b bs)
  have lt: "unat idx < unat len" using Cons.prems(2) by simp
  have "unat idx + 1 < 65536" using lt unat_u16_bound [of len] by linarith
  then have i1: "unat (idx + 1) = unat idx + 1" by (simp add: unat_word_ariths)
  have wr: "write_at (unat idx) (b # bs) buf = write_at (unat idx + 1) bs (buf[unat idx := b])"
    using Cons.prems(2-4) by (simp add: write_at_def upd_conv_take_nth_drop take_Suc_conv_app_nth drop_Cons')
  show ?case
  proof (cases "bs = []")
    case True
    then have e: "idx + 1 = len" using Cons.prems(2) i1 by (simp add: word_unat_eq_iff)
    with True lt i1 show ?thesis
      using wr by (simp add: payload_step [OF lt] case_prod_unfold finish_frame_def)
  next
    case False
    then have n: "unat idx + 1 \<noteq> unat len" using Cons.prems(2) by (cases bs) auto
    have "parse_bytes e bs (with_parser PAYLOAD cmd len (idx + 1) (buf[unat idx := b]) u) =
        finish_frame e (with_parser PAYLOAD cmd len len (write_at (unat (idx + 1)) bs (buf[unat idx := b])) u)"
      using Cons.prems i1 False by (intro Cons.IH) auto
    with n wr i1 show ?thesis by (simp add: payload_step [OF lt] case_prod_unfold)
  qed
qed simp

lemma and_FF: "(x :: u16) AND 0xFF = take_bit 8 x"
  by (simp add: take_bit_eq_mask mask_eq_exp_minus_1)

lemma length_field:
  "ucast (ucast ((x :: u16) AND 0xFF) :: u8) OR push_bit 8 (ucast (ucast (drop_bit 8 x AND 0xFF) :: u8)) = x"
  unfolding and_FF by (rule bit_word_eqI) (auto simp: bit_simps)

text \<open>
  C19. Framing round trip: when the bytes of \<open>send_frame cmd payload\<close> reach an idle parser, the
  payload being of at most 1028 bytes, exactly one frame is handled, with this command and this
  payload, and the parser is idle again.
\<close>

theorem frame_roundtrip:
  assumes "ui_state u = SYNC1" and "length (ui_payload_buf u) = UART_PAYLOAD_MAX"
    and "length payload \<le> UART_PAYLOAD_MAX" and "send_frame cmd payload = [Wire bs]"
  shows "\<exists>s idx buf. take (length payload) buf = payload \<and> length buf = UART_PAYLOAD_MAX \<and>
    parse_bytes e bs u = finish_frame e (with_parser s cmd (of_nat (length payload)) idx buf u)"
proof -
  let ?len = "of_nat (length payload) :: u16"
  have bs: "bs = UART_SYNC1 # UART_SYNC2 # cmd # ucast (?len AND 0xFF) # ucast (drop_bit 8 ?len AND 0xFF) # payload"
    using assms(4) by (simp add: send_frame_def Let_def)
  have ul: "unat ?len = length payload" using assms(3) by (simp add: unat_of_nat)
  let ?u4 = "with_parser LEN_HI cmd ?len (ui_payload_idx u) (ui_payload_buf u) u"
  have hdr: "parse_bytes e (UART_SYNC1 # UART_SYNC2 # cmd # lo # hi # rest) u =
      (let (u5, o5) = parse_byte e hi (with_parser LEN_HI cmd (ucast lo) (ui_payload_idx u) (ui_payload_buf u) u);
           (u6, o6) = parse_bytes e rest u5 in (u6, o5 @ o6))" for lo hi rest
    by (subst (1) with_parser_self [of u, symmetric], unfold assms(1))
      (simp add: header_steps case_prod_unfold Let_def)
  let ?lo = "ucast (?len AND 0xFF) :: u8" and ?hi = "ucast (drop_bit 8 ?len AND 0xFF) :: u8"
  have hi: "parse_byte e ?hi (with_parser LEN_HI cmd (ucast ?lo) (ui_payload_idx u) (ui_payload_buf u) u) =
      (if ?len = 0 then finish_frame e ?u4 else (with_parser PAYLOAD cmd ?len 0 (ui_payload_buf u) u, []))"
    using length_field [of ?len] ul assms(3)
    by (simp add: parse_byte_def Let_def case_prod_unfold finish_frame_def)
  show ?thesis
  proof (cases "payload = []")
    case True
    then have "parse_bytes e bs u = finish_frame e ?u4"
      unfolding bs hdr hi by (simp add: case_prod_unfold finish_frame_def)
    with True assms(2) show ?thesis by (metis length_0_conv list.size(3) take0)
  next
    case False
    then have "?len \<noteq> 0" using ul by auto
    then have "parse_bytes e bs u = parse_bytes e payload (with_parser PAYLOAD cmd ?len 0 (ui_payload_buf u) u)"
      unfolding bs hdr hi by (simp add: case_prod_unfold)
    also have "\<dots> = finish_frame e (with_parser PAYLOAD cmd ?len ?len (write_at 0 payload (ui_payload_buf u)) u)"
      using payload_run [OF False, of 0 ?len "ui_payload_buf u"] assms(2,3) ul by simp
    finally show ?thesis
      using assms(2,3) by (intro exI [of _ PAYLOAD] exI [of _ ?len] exI [of _ "write_at 0 payload (ui_payload_buf u)"])
        (simp add: write_at_def)
  qed
qed

definition ex_uart :: UartIngest where
  "ex_uart = UartIngest_new True (replicate UART_PAYLOAD_MAX 0)"

definition ex_env :: UartEnv where
  "ex_env = \<lparr>en_now = 100, en_malloc = Some [0, 0, 0, 0, 0], en_sd_init_ok = False, en_fopen_ok = False,
     en_path = [], en_fwrite = 0, en_start_ok = True, en_transfer_active = True, en_progress = 10,
     en_hops = 1, en_neighbors = 2, en_status = zero_status\<rparr>"

lemma ex_uart_fields: "ui_state ex_uart = SYNC1" "length (ui_payload_buf ex_uart) = UART_PAYLOAD_MAX"
  by (simp_all add: ex_uart_def UartIngest_new_def)

theorem frame_roundtrip_witness:
  "\<exists>s idx buf. take 3 buf = [7, 8, 9] \<and>
    parse_bytes ex_env [0xAA, 0x55, 0x02, 3, 0, 7, 8, 9] ex_uart =
    finish_frame ex_env (with_parser s 0x02 3 idx buf ex_uart)"
proof -
  have "send_frame 0x02 [7, 8, 9] = [Wire [0xAA, 0x55, 0x02, 3, 0, 7, 8, 9]]" by (simp add: send_frame_def Let_def)
  from frame_roundtrip [OF ex_uart_fields _ this, of ex_env]
  obtain s idx buf where r: "take (length [7 :: u8, 8, 9]) buf = [7, 8, 9]"
    "parse_bytes ex_env [0xAA, 0x55, 0x02, 3, 0, 7, 8, 9] ex_uart =
      finish_frame ex_env (with_parser s 0x02 (of_nat (length [7 :: u8, 8, 9])) idx buf ex_uart)" by auto
  have "length [7 :: u8, 8, 9] = 3" "(of_nat (length [7 :: u8, 8, 9]) :: u16) = 3" by simp_all
  with r show ?thesis by metis
qed

subsection \<open>Memory safety\<close>

definition parser_ok :: "UartIngest \<Rightarrow> bool" where
  "parser_ok u \<longleftrightarrow> length (ui_payload_buf u) = UART_PAYLOAD_MAX \<and>
     (ui_state u = PAYLOAD \<longrightarrow> ui_payload_idx u < ui_frame_len u \<and> unat (ui_frame_len u) \<le> UART_PAYLOAD_MAX)"

lemma ops_buf:
  "ui_payload_buf (fst (snd (file_begin e n f u))) = ui_payload_buf u"
  "ui_payload_buf (snd (file_data e d u)) = ui_payload_buf u"
  "ui_payload_buf (fst (snd (file_end e u))) = ui_payload_buf u"
  "ui_payload_buf (fst (snd (abort_transfer u))) = ui_payload_buf u"
  by (simp_all add: file_begin_def drop_old_ingest_def file_data_def file_end_def abort_transfer_def Let_def
      split: option.splits)

lemma handle_frame_buf [simp]: "ui_payload_buf (fst (handle_frame e u)) = ui_payload_buf u"
  by (simp add: handle_frame_def Let_def case_prod_unfold ops_buf)

lemma parse_byte_ok:
  assumes "parser_ok u"
  shows "parser_ok (fst (parse_byte e b u))"
proof -
  have reset: "parser_ok (reset_parser v)" if "length (ui_payload_buf v) = UART_PAYLOAD_MAX" for v
    using that by (simp add: parser_ok_def reset_parser_def)
  have len: "length (ui_payload_buf u) = UART_PAYLOAD_MAX" using assms by (simp add: parser_ok_def)
  show ?thesis
  proof (cases "ui_state u")
    case PAYLOAD
    let ?u1 = "u\<lparr>ui_payload_buf := (ui_payload_buf u)[unat (ui_payload_idx u) := b], ui_payload_idx := ui_payload_idx u + 1\<rparr>"
    have "parser_ok (fst (parse_byte e b u)) \<longleftrightarrow>
        parser_ok (if ui_frame_len u \<le> ui_payload_idx u + 1 then reset_parser (fst (handle_frame e ?u1)) else ?u1)"
      using PAYLOAD by (simp add: parse_byte_def Let_def case_prod_unfold)
    moreover have "parser_ok (reset_parser (fst (handle_frame e ?u1)))" using len by (intro reset) simp
    moreover have "parser_ok ?u1" if "\<not> ui_frame_len u \<le> ui_payload_idx u + 1"
      using that assms PAYLOAD by (simp add: parser_ok_def not_le)
    ultimately show ?thesis by simp
  next
    case LEN_HI
    let ?u1 = "u\<lparr>ui_frame_len := ui_frame_len u OR push_bit 8 (ucast b)\<rparr>"
    have "parser_ok (reset_parser (fst (handle_frame e ?u1)))" "parser_ok (reset_parser ?u1)"
      using len by (auto intro!: reset)
    with LEN_HI len show ?thesis
      by (auto simp: parse_byte_def Let_def case_prod_unfold parser_ok_def word_gt_0)
  qed (use len in \<open>auto simp: parse_byte_def parser_ok_def\<close>)
qed

lemma parse_bytes_ok: "parser_ok u \<Longrightarrow> parser_ok (fst (parse_bytes e bs u))"
  by (induction bs arbitrary: u) (auto simp: Let_def case_prod_unfold parse_byte_ok)

text \<open>
  Whatever bytes arrive, the parser never writes outside its payload buffer: whenever it is
  about to store a byte, the write index is below the announced length and that length is within
  the buffer.
\<close>

theorem parser_memory_safe:
  assumes "length garbage = UART_PAYLOAD_MAX"
    and "ui_state (fst (parse_bytes e bs (UartIngest_new mgr garbage))) = PAYLOAD"
  defines "u \<equiv> fst (parse_bytes e bs (UartIngest_new mgr garbage))"
  shows "unat (ui_payload_idx u) < unat (ui_frame_len u) \<and> unat (ui_frame_len u) \<le> length (ui_payload_buf u) \<and>
    length (ui_payload_buf u) = UART_PAYLOAD_MAX"
proof -
  have "parser_ok (UartIngest_new mgr garbage)" using assms(1) by (simp add: parser_ok_def UartIngest_new_def)
  then have "parser_ok u" unfolding u_def by (rule parse_bytes_ok)
  with assms(2) show ?thesis unfolding u_def [symmetric] by (simp add: parser_ok_def word_less_nat_alt)
qed

theorem parser_memory_safe_witness:
  "ui_state (fst (parse_bytes ex_env [0xAA, 0x55, 0x02, 3, 0, 7] ex_uart)) = PAYLOAD \<and>
   unat (ui_payload_idx (fst (parse_bytes ex_env [0xAA, 0x55, 0x02, 3, 0, 7] ex_uart))) < 1028"
proof -
  have st: "ui_state (fst (parse_bytes ex_env [0xAA, 0x55, 0x02, 3, 0, 7] (UartIngest_new True (replicate UART_PAYLOAD_MAX 0)))) = PAYLOAD"
    by (simp add: UartIngest_new_def parse_byte_def Let_def word_le_nat_alt)
  from parser_memory_safe [OF _ st] st show ?thesis by (simp add: ex_uart_def)
qed

fun is_wire :: "uart_out \<Rightarrow> bool" where
  "is_wire (Wire bs) = True"
| "is_wire _ = False"

lemma no_wire_iff: "filter is_wire outs = [] \<longleftrightarrow> (\<forall>x \<in> set outs. \<forall>y. x \<noteq> Wire y)"
proof -
  have "is_wire x \<longleftrightarrow> (\<exists>y. x = Wire y)" for x by (cases x) auto
  then show ?thesis by (auto simp: filter_empty_conv)
qed

text \<open>
  Every frame is answered exactly once: handling a frame emits one wire frame, after all
  other effects, and it is an acknowledgement, a negative acknowledgement naming the command, or
  the status response.
\<close>

theorem handle_frame_responds_once:
  "\<exists>outs bs. snd (handle_frame e u) = outs @ [Wire bs] \<and> filter is_wire outs = [] \<and>
    ([Wire bs] = send_ack (ui_frame_cmd u) \<or> (\<exists>err. [Wire bs] = send_nack (ui_frame_cmd u) err) \<or>
     ui_frame_cmd u = UART_CMD_STATUS \<and> [Wire bs] = send_frame UART_RESP_STATUS_RESP (status_bytes (query_status e u)))"
  unfolding no_wire_iff
proof -
  have sf: "\<exists>bs. send_frame c p = [Wire bs]" for c p by (simp add: send_frame_def Let_def)
  have r: "\<exists>bs. respond c res = [Wire bs] \<and> ([Wire bs] = send_ack c \<or> (\<exists>err. [Wire bs] = send_nack c err))" for c res
    unfolding respond_def send_ack_def send_nack_def using sf by metis
  let ?goal = "\<exists>outs bs. snd (handle_frame e u) = outs @ [Wire bs] \<and> (\<forall>x \<in> set outs. \<forall>y. x \<noteq> Wire y) \<and>
    ([Wire bs] = send_ack (ui_frame_cmd u) \<or> (\<exists>err. [Wire bs] = send_nack (ui_frame_cmd u) err) \<or>
     ui_frame_cmd u = UART_CMD_STATUS \<and> [Wire bs] = send_frame UART_RESP_STATUS_RESP (status_bytes (query_status e u)))"
  have fin: ?goal if "snd (handle_frame e u) = outs @ respond (ui_frame_cmd u) res"
    "\<forall>x \<in> set outs. \<forall>y. x \<noteq> Wire y" for outs res
    using r [of "ui_frame_cmd u" res] that by metis
  have fb: "\<forall>x \<in> set (snd (snd (file_begin e n f u))). \<forall>y. x \<noteq> Wire y" for n f
    by (auto simp: file_begin_def drop_old_ingest_def Let_def split: if_splits)
  have fe: "\<forall>x \<in> set (snd (snd (file_end e u))). \<forall>y. x \<noteq> Wire y"
    by (auto simp: file_end_def Let_def split: if_splits option.splits)
  have ab: "\<forall>x \<in> set (snd (snd (abort_transfer u))). \<forall>y. x \<noteq> Wire y"
    by (auto simp: abort_transfer_def Let_def split: if_splits)
  show ?goal
  proof (cases "ui_frame_cmd u = UART_CMD_FILE_BEGIN \<and> \<not> unat (ui_frame_len u) < 5 \<or>
      ui_frame_cmd u \<in> {UART_CMD_FILE_DATA, UART_CMD_FILE_END, UART_CMD_ABORT}")
    case True
    then consider (b) "ui_frame_cmd u = UART_CMD_FILE_BEGIN" "\<not> unat (ui_frame_len u) < 5"
      | (d) "ui_frame_cmd u = UART_CMD_FILE_DATA" | (f) "ui_frame_cmd u = UART_CMD_FILE_END"
      | (a) "ui_frame_cmd u = UART_CMD_ABORT" by auto
    then show ?goal
    proof cases
      case b
      then obtain n f where "snd (handle_frame e u) =
          snd (snd (file_begin e n f u)) @ respond (ui_frame_cmd u) (fst (file_begin e n f u))"
        unfolding handle_frame_def Let_def case_prod_unfold by simp
      with fb show ?goal by (intro fin) auto
    next
      case d
      then show ?goal by (intro fin [of "[]" "fst (file_data e (take (unat (ui_frame_len u)) (ui_payload_buf u)) u)"])
          (simp_all add: handle_frame_def Let_def case_prod_unfold)
    next
      case f
      then show ?goal by (intro fin [OF _ fe, of "fst (file_end e u)"])
          (simp add: handle_frame_def Let_def case_prod_unfold)
    next
      case a
      then show ?goal by (intro fin [OF _ ab, of "fst (abort_transfer u)"])
          (simp add: handle_frame_def Let_def case_prod_unfold)
    qed
  next
    case False
    then have "(\<exists>err. snd (handle_frame e u) = send_nack (ui_frame_cmd u) err) \<or>
      ui_frame_cmd u = UART_CMD_STATUS \<and>
      snd (handle_frame e u) = send_frame UART_RESP_STATUS_RESP (status_bytes (query_status e u))"
      by (auto simp: handle_frame_def Let_def)
    then consider err where "snd (handle_frame e u) = send_nack (ui_frame_cmd u) err"
      | "ui_frame_cmd u = UART_CMD_STATUS"
        "snd (handle_frame e u) = send_frame UART_RESP_STATUS_RESP (status_bytes (query_status e u))" by blast
    then show ?goal
    proof cases
      case (1 err)
      obtain bs where "send_nack (ui_frame_cmd u) err = [Wire bs]" using sf unfolding send_nack_def by blast
      with 1 show ?goal by (metis append_Nil empty_iff list.set(1))
    next
      case 2
      obtain bs where "send_frame UART_RESP_STATUS_RESP (status_bytes (query_status e u)) = [Wire bs]" using sf by blast
      with 2 show ?goal by (metis append_Nil empty_iff list.set(1))
    qed
  qed
qed

section \<open>File ingest\<close>

text \<open>Chunks that are all accepted; the environment may differ from chunk to chunk.\<close>

fun ingest_all :: "(UartEnv \<times> bytes) list \<Rightarrow> UartIngest \<Rightarrow> UartIngest option" where
  "ingest_all [] u = Some u"
| "ingest_all ((e, d) # ds) u = (case file_data e d u of (res, u1) \<Rightarrow> if res = UR_OK then ingest_all ds u1 else None)"

definition ingested :: "UartIngest \<Rightarrow> bytes \<Rightarrow> bool" where
  "ingested u content \<longleftrightarrow> ui_ingest_active u \<and> \<not> ui_transfer_started u \<and> ui_received_size u = length content \<and>
     length content \<le> ui_ingest_size u \<and>
     (if ui_ingest_to_sd u then ui_ingest_file u = Some content
      else \<exists>buf. ui_ingest_buf u = Some buf \<and> length buf = ui_ingest_size u \<and> take (length content) buf = content)"

lemma file_data_ok:
  assumes "ingested u content" and "file_data e d u = (UR_OK, u')"
  shows "ingested u' (content @ d) \<and> ui_ingest_size u' = ui_ingest_size u \<and> ui_filename u' = ui_filename u \<and> ui_mgr u' = ui_mgr u"
proof -
  have fits: "length content + length d \<le> ui_ingest_size u"
    using assms by (auto simp: file_data_def ingested_def Let_def split: if_splits option.splits)
  have wr: "take (length content + length d) (write_at (length content) d buf) = content @ d"
    if "length buf = ui_ingest_size u" "take (length content) buf = content" for buf
    using that fits by (simp add: write_at_def)
  show ?thesis
    using assms fits wr unfolding ingested_def file_data_def
    by (auto simp: Let_def split: if_splits option.splits)
qed

lemma ingest_all_ok:
  assumes "ingested u content" and "ingest_all ds u = Some u'"
  shows "ingested u' (content @ concat (map snd ds)) \<and> ui_filename u' = ui_filename u \<and> ui_mgr u' = ui_mgr u \<and>
    ui_ingest_size u' = ui_ingest_size u"
  using assms
proof (induction ds arbitrary: u content)
  case (Cons x ds)
  obtain e d where x: "x = (e, d)" by fastforce
  obtain u1 where 1: "file_data e d u = (UR_OK, u1)" "ingest_all ds u1 = Some u'"
    using Cons.prems(2) x by (auto split: prod.splits if_splits)
  from Cons.IH [OF _ 1(2)] file_data_ok [OF Cons.prems(1) 1(1)] x show ?case by fastforce
qed simp

lemma file_begin_ok:
  assumes "file_begin e sz name u = (UR_OK, u', outs)" and "\<forall>m. en_malloc e = Some m \<longrightarrow> length m = unat sz"
  shows "ingested u' []" and "ui_filename u' = take (strnlen name 63) name" and "ui_mgr u' = ui_mgr u"
    and "ui_ingest_size u' = unat sz"
  using assms
  by (auto simp: file_begin_def drop_old_ingest_def ingested_def Let_def split: if_splits)

text \<open>
  C20. Ingest end to end, in PSRAM and on the SD spool alike: once a file was begun and a sequence
  of chunks was accepted, \<open>FILE_END\<close> starts one transfer with the announced name (cut to 63
  characters) and exactly the accepted bytes in order, and reports success iff the mesh accepted it.
\<close>

theorem ingest_delivers:
  assumes "file_begin e0 sz name u0 = (UR_OK, u1, outs)" and "\<forall>m. en_malloc e0 = Some m \<longrightarrow> length m = unat sz"
    and "ingest_all ds u1 = Some u2" and "ui_mgr u0"
  shows "\<exists>res u3. file_end e u2 = (res, u3, [Start_transfer (take (strnlen name 63) name) (concat (map snd ds))]) \<and>
    (res = UR_OK \<longleftrightarrow> en_start_ok e) \<and> (ui_transfer_started u3 \<longleftrightarrow> en_start_ok e) \<and>
    length (concat (map snd ds)) \<le> unat sz"
proof -
  note b = file_begin_ok [OF assms(1,2)]
  note i = ingest_all_ok [OF b(1) assms(3)]
  let ?c = "concat (map snd ds)"
  have c: "ingested u2 ?c" "ui_filename u2 = take (strnlen name 63) name" "ui_mgr u2" "ui_ingest_size u2 = unat sz"
    using i b assms(4) by auto
  then have "length ?c \<le> unat sz" by (auto simp: ingested_def)
  moreover have "ui_ingest_active u2" "\<not> ui_transfer_started u2" "ui_received_size u2 = length ?c"
    using c(1) by (auto simp: ingested_def)
  moreover have "if ui_ingest_to_sd u2 then ui_ingest_file u2 = Some ?c
      else \<exists>buf. ui_ingest_buf u2 = Some buf \<and> take (length ?c) buf = ?c"
    using c(1) by (auto simp: ingested_def split: if_splits)
  ultimately show ?thesis
    using c(2,3) unfolding file_end_def by (auto simp: Let_def split: if_splits)
qed

theorem ingest_delivers_witness:
  "\<exists>u1 u2 res u3. file_begin ex_env 5 [97, 98] ex_uart = (UR_OK, u1, []) \<and>
    ingest_all [(ex_env, [1, 2]), (ex_env, [3])] u1 = Some u2 \<and>
    file_end ex_env u2 = (res, u3, [Start_transfer [97, 98] [1, 2, 3]])"
proof -
  obtain u1 where b: "file_begin ex_env 5 [97, 98] ex_uart = (UR_OK, u1, [])" "ui_ingest_active u1"
    "\<not> ui_transfer_started u1" "\<not> ui_ingest_to_sd u1" "ui_ingest_size u1 = 5" "ui_received_size u1 = 0"
    "ui_ingest_buf u1 = Some [0, 0, 0, 0, 0]"
    by (simp add: file_begin_def drop_old_ingest_def ex_uart_def UartIngest_new_def ex_env_def)
  obtain u2 where i: "ingest_all [(ex_env, [1, 2]), (ex_env, [3])] u1 = Some u2"
    using b by (simp add: file_data_def)
  have "ui_mgr ex_uart" "\<forall>m. en_malloc ex_env = Some m \<longrightarrow> length m = unat (5 :: u32)"
    by (simp_all add: ex_uart_def UartIngest_new_def ex_env_def)
  from ingest_delivers [OF b(1) this(2) i this(1), of ex_env] b(1) i show ?thesis by (auto simp: strnlen_def)
qed

text \<open>
  Data beyond the announced size is refused and changes nothing; so do data, end and abort
  without a transfer.
\<close>

theorem file_data_rejects:
  "(ui_ingest_active u \<and> \<not> ui_transfer_started u \<and> ui_ingest_size u < ui_received_size u + length d \<longrightarrow>
     file_data e d u = (UR_ERR_OVERFLOW, u)) \<and>
   (\<not> ui_ingest_active u \<longrightarrow> file_data e d u = (UR_ERR_NO_TRANSFER, u) \<and>
     file_end e u = (UR_ERR_NO_TRANSFER, u, []) \<and> abort_transfer u = (UR_ERR_NO_TRANSFER, u, [])) \<and>
   (ui_ingest_active u \<and> ui_transfer_started u \<longrightarrow> file_data e d u = (UR_ERR_BUSY, u) \<and>
     file_end e u = (UR_ERR_BUSY, u, []) \<and> file_begin e n f u = (UR_ERR_BUSY, u, []))"
  by (simp add: file_data_def file_end_def file_begin_def abort_transfer_def)

theorem file_data_rejects_witness:
  "file_data ex_env [1, 2] (ex_uart\<lparr>ui_ingest_active := True, ui_ingest_size := 3, ui_received_size := 2\<rparr>) =
     (UR_ERR_OVERFLOW, ex_uart\<lparr>ui_ingest_active := True, ui_ingest_size := 3, ui_received_size := 2\<rparr>) \<and>
   file_data ex_env [1] ex_uart = (UR_ERR_NO_TRANSFER, ex_uart)"
  using file_data_rejects [of "ex_uart\<lparr>ui_ingest_active := True, ui_ingest_size := 3, ui_received_size := 2\<rparr>" "[1, 2]" ex_env]
    file_data_rejects [of ex_uart "[1]" ex_env]
  by (simp add: ex_uart_def UartIngest_new_def)

text \<open>
  Aborting while the mesh transfer runs leaks the ingest buffer. The abort keeps the buffer
  (its reader is still in use) but clears \<open>transfer_started_\<close>, so the poll that is meant to free
  it later does nothing, and the next \<open>FILE_BEGIN\<close> overwrites the pointer without freeing it.
\<close>

theorem abort_leaks_buffer:
  assumes "ui_ingest_active u" and "ui_transfer_started u" and "ui_ingest_buf u = Some buf"
    and "abort_transfer u = (res, u1, outs)"
  shows "outs = [] \<and> ui_ingest_buf u1 = Some buf \<and> poll_transfer_progress e u1 = (u1, []) \<and>
    (\<forall>n f. snd (snd (file_begin e n f u1)) = [])"
proof -
  have u1: "outs = []" "ui_ingest_buf u1 = Some buf" "\<not> ui_ingest_active u1" "\<not> ui_transfer_started u1"
    using assms by (auto simp: abort_transfer_def Let_def)
  then have "poll_transfer_progress e u1 = (u1, [])" by (simp add: poll_transfer_progress_def)
  moreover have "snd (snd (file_begin e n f u1)) = []" for n f
    using u1(3,4) by (simp add: file_begin_def drop_old_ingest_def Let_def)
  ultimately show ?thesis using u1 by simp
qed

theorem abort_leaks_buffer_witness:
  "\<exists>u1. abort_transfer (ex_uart\<lparr>ui_ingest_active := True, ui_transfer_started := True, ui_ingest_buf := Some [1]\<rparr>) =
     (UR_OK, u1, []) \<and> ui_ingest_buf u1 = Some [1] \<and> poll_transfer_progress ex_env u1 = (u1, [])"
proof -
  let ?u = "ex_uart\<lparr>ui_ingest_active := True, ui_transfer_started := True, ui_ingest_buf := Some [1]\<rparr>"
  obtain res u1 outs where a: "abort_transfer ?u = (res, u1, outs)" by (rule prod_cases3)
  have "res = UR_OK" using a by (simp add: abort_transfer_def Let_def)
  with abort_leaks_buffer [OF _ _ _ a, of "[1]" ex_env] a show ?thesis by simp
qed

text \<open>
  A stray sync byte in front of a frame makes the parser miss the frame: after \<open>0xAA\<close> the
  first byte of the frame is taken for a failed second sync byte, and the header is skipped
  without any frame being handled.
\<close>

theorem stray_sync_loses_frame:
  assumes "ui_state u = SYNC1" and "send_frame cmd [] = [Wire bs]" and "cmd \<noteq> UART_SYNC1"
  shows "snd (parse_bytes e (UART_SYNC1 # bs) u) = [] \<and> ui_state (fst (parse_bytes e (UART_SYNC1 # bs) u)) = SYNC1"
proof -
  have "bs = [UART_SYNC1, UART_SYNC2, cmd, 0, 0]" using assms(2) by (simp add: send_frame_def Let_def)
  with assms(1,3) show ?thesis by (simp add: parse_byte_def)
qed

theorem stray_sync_loses_frame_witness:
  "snd (parse_bytes ex_env [0xAA, 0xAA, 0x55, 0x04, 0, 0] ex_uart) = []"
  using stray_sync_loses_frame [OF ex_uart_fields(1), where cmd = "0x04" and bs = "[0xAA, 0x55, 0x04, 0, 0]" and e = ex_env]
  by (simp add: send_frame_def Let_def)

end
