(* ===== verification/Mesh_Send.thy ===== *)
theory Mesh_Send
  imports Route_Table Protocol_Selector Buffer_Pool Uart_Ingest
begin

text \<open>
  State of the mesh manager (\<^verbatim>\<open>components/mesh/include/mesh_manager.hpp\<close>) and its send path
  (\<open>send_raw\<close> and \<open>send_packet\<close> of \<^verbatim>\<open>mesh_manager_bridge.cpp\<close>). The transfer engine that the class
  also owns is kept beside this record. What the radio drivers, the WiFi driver and the MQTT client
  answer during a call is the environment \<open>MeshEnv\<close>; what the node does to the outside is appended to
  the log \<open>mm_out\<close>.
\<close>

unbundle bit_operations_syntax

section \<open>State\<close>

abbreviation (input) TRANSPORT_SEND_OK :: int where "TRANSPORT_SEND_OK \<equiv> 0"
abbreviation (input) TRANSPORT_SEND_FAILED :: int where "TRANSPORT_SEND_FAILED \<equiv> - 1"
abbreviation (input) SEND_BACKPRESSURE :: int where "SEND_BACKPRESSURE \<equiv> - 2"
abbreviation (input) kQueueDepth :: nat where "kQueueDepth \<equiv> 256"
abbreviation (input) kDefaultRssi :: i8 where "kDefaultRssi \<equiv> - 90"
abbreviation (input) kLinkQualityPct :: rat where "kLinkQualityPct \<equiv> 100"
abbreviation (input) SEEN_CACHE_SIZE :: nat where "SEEN_CACHE_SIZE \<equiv> 64"

record SeenEntry =
  se_src :: u16
  se_dst :: u16
  se_type :: u8
  se_seq :: u16
  se_time_ms :: u32

record MeshCmdItem =
  mc_target_addr :: u16
  mc_cmd_id :: u8
  mc_data :: bytes

datatype mesh_out =
    Radio Transport u16 bytes
  | Mqtt_publish string bytes
  | Set_wifi_channel u8
  | Set_led bool
  | Restart
  | Update_broadcast_peer
  | Set_spreading_factor u8

record MeshManager =
  mm_route_table :: RouteTable
  mm_protocol_selector :: ProtocolSelector
  mm_buffer_pool :: BufferPool
  mm_my_addr :: u16
  mm_discovery_timer_ms :: u32
  mm_prune_timer_ms :: u32
  mm_bias_timer_ms :: u32
  mm_topo_metrics_timer_ms :: u32
  mm_has_internet :: bool
  mm_my_inet_seq :: u16
  mm_preferred_parent :: u16
  mm_current_channel :: u8
  mm_channel_hop_timer_ms :: u32
  mm_channel_hop_idx :: u8
  mm_espnow_peer_update_pending :: bool
  mm_exit_offline_pending :: bool
  mm_mqtt_client :: bool
  mm_uart_ingest :: "UartIngest option"
  mm_subscribed_topics :: "bytes list"
  mm_last_mesh_cmd_id :: u8
  mm_last_mesh_cmd_ms :: u32
  mm_last_cloud_cmd_ms :: u32
  mm_last_config_topic_ms :: u32
  mm_last_topic_msg_ms :: u32
  mm_display_topic_msg :: bytes
  mm_blocked_peers :: "u16 list"
  mm_seen_cache :: "SeenEntry list"
  mm_seen_idx :: nat
  mm_wifi_channel :: u8
  mm_lora_sf :: u8
  mm_out :: "mesh_out list"

text \<open>
  \<open>me_send n\<close> is the return code and the latency of the transmission made when \<open>n\<close> effects have been
  logged, \<open>me_queue_spaces\<close> the free places of the two receive queues (\<open>None\<close> before they exist).
\<close>

record HeapStats =
  hs_free_internal :: u32
  hs_free_psram :: u32
  hs_min_free_internal :: u32
  hs_min_free_psram :: u32
  hs_largest_free_psram_block :: u32

record MeshEnv =
  me_now :: u32
  me_send :: "nat \<Rightarrow> int \<times> u32"
  me_lora_initialized :: bool
  me_mqtt_connected :: bool
  me_queue_spaces :: "(nat \<times> nat) option"
  me_set_channel_ok :: bool
  me_heap :: HeapStats
  me_led_gpio :: bool
  me_cmds :: "MeshCmdItem list"

definition MeshManager_new :: "u16 \<Rightarrow> BufferPool \<Rightarrow> u8 \<Rightarrow> u8 \<Rightarrow> MeshManager" where
  "MeshManager_new addr pool channel sf = \<lparr>mm_route_table = RouteTable_new,
     mm_protocol_selector = ProtocolSelector_new, mm_buffer_pool = pool, mm_my_addr = addr,
     mm_discovery_timer_ms = 0, mm_prune_timer_ms = 0, mm_bias_timer_ms = 0, mm_topo_metrics_timer_ms = 0,
     mm_has_internet = False, mm_my_inet_seq = 0, mm_preferred_parent = BROADCAST_ADDR,
     mm_current_channel = channel, mm_channel_hop_timer_ms = 0, mm_channel_hop_idx = channel,
     mm_espnow_peer_update_pending = False, mm_exit_offline_pending = False, mm_mqtt_client = False,
     mm_uart_ingest = None, mm_subscribed_topics = [], mm_last_mesh_cmd_id = 0xFF,
     mm_last_mesh_cmd_ms = 0, mm_last_cloud_cmd_ms = 0, mm_last_config_topic_ms = 0,
     mm_last_topic_msg_ms = 0, mm_display_topic_msg = [], mm_blocked_peers = [],
     mm_seen_cache = replicate SEEN_CACHE_SIZE \<lparr>se_src = 0, se_dst = 0, se_type = 0, se_seq = 0, se_time_ms = 0\<rparr>,
     mm_seen_idx = 0, mm_wifi_channel = channel, mm_lora_sf = sf, mm_out = []\<rparr>"

section \<open>The send path\<close>

definition send_raw :: "MeshEnv \<Rightarrow> Transport \<Rightarrow> bytes \<Rightarrow> u16 \<Rightarrow> MeshManager \<Rightarrow> int \<times> MeshManager" where
  "send_raw e transport data peer m =
    (if transport = T_LORA \<and> \<not> me_lora_initialized e then (- 1, m)
     else
       let (rc, latency) = me_send e (length (mm_out m));
           m1 = m\<lparr>mm_out := mm_out m @ [Radio transport peer data]\<rparr>;
           m2 = (if rc \<noteq> SEND_BACKPRESSURE
                 then m1\<lparr>mm_protocol_selector :=
                        report_tx_result transport (rc = TRANSPORT_SEND_OK) latency (mm_protocol_selector m1)\<rparr>
                 else m1);
           m3 = (if peer \<noteq> BROADCAST_ADDR \<and> rc \<noteq> SEND_BACKPRESSURE
                 then m2\<lparr>mm_route_table := report_link_tx peer (rc = TRANSPORT_SEND_OK) (mm_route_table m2)\<rparr>
                 else m2)
       in (rc, m3))"

text \<open>A header of this node's own, and the broadcast over both transports.\<close>

definition own_header :: "PacketType \<Rightarrow> u16 \<Rightarrow> u16 \<Rightarrow> MeshManager \<Rightarrow> PacketHeader" where
  "own_header type dst sq m = set_ttl_hops DEFAULT_TTL 0 (set_ver_type PROTOCOL_VERSION type
     \<lparr>ver_type = 0, src_addr = mm_my_addr m, dst_addr = dst, ttl_hops = 0, seq_num = sq\<rparr>)"

definition broadcast_both :: "MeshEnv \<Rightarrow> bytes \<Rightarrow> MeshManager \<Rightarrow> MeshManager" where
  "broadcast_both e data m =
     snd (send_raw e T_LORA data BROADCAST_ADDR (snd (send_raw e T_ESPNOW data BROADCAST_ADDR m)))"

definition requires_espnow_data_path :: "PacketType \<Rightarrow> bool" where
  "requires_espnow_data_path type \<longleftrightarrow> type = DATA \<or> type = PARITY"

definition send_packet :: "MeshEnv \<Rightarrow> u16 \<Rightarrow> PacketType \<Rightarrow> bytes \<Rightarrow> u16 \<Rightarrow> MeshManager \<Rightarrow> int \<times> MeshManager" where
  "send_packet e dst type payload sq m =
    (if MAX_MTU < PACKET_HEADER_SIZE + length payload then (- 1, m)
     else
       let buf = enc_header (own_header type dst sq m) @ payload in
       if dst = BROADCAST_ADDR then (0, broadcast_both e buf m)
       else
         let radio_dst = next_hop dst (mm_my_addr m) (mm_route_table m) in
         if radio_dst = BROADCAST_ADDR then
           if dst = EXIT_ANY_ADDR then (0, broadcast_both e buf m) else (- 1, m)
         else
           let (rssi, hops) = (case get_neighbor radio_dst (mm_route_table m) of
                 Some n \<Rightarrow> (ne_rssi n, ne_hop_count n) | None \<Rightarrow> (kDefaultRssi, 0xFF));
               t = (if requires_espnow_data_path type then T_ESPNOW
                    else select rssi hops (length buf) kLinkQualityPct (mm_protocol_selector m))
           in send_raw e t buf radio_dst m)"

section \<open>Frame of the send path\<close>

text \<open>
  Sending logs transmissions and updates link statistics: nothing else of the node changes, and of
  the route table only the counters and the ETX.
\<close>

definition route_view :: "NeighborEntry \<Rightarrow> NeighborEntry" where
  "route_view n = n\<lparr>ne_tx_count := 0, ne_tx_success := 0, ne_etx_x100 := 0\<rparr>"

definition same_routes :: "RouteTable \<Rightarrow> RouteTable \<Rightarrow> bool" where
  "same_routes t t' \<longleftrightarrow> rt_better_route t' = rt_better_route t \<and>
     map route_view (rt_neighbors t') = map route_view (rt_neighbors t)"

definition mesh_rest :: "MeshManager \<Rightarrow> MeshManager" where
  "mesh_rest m = m\<lparr>mm_route_table := RouteTable_new, mm_protocol_selector := ProtocolSelector_new, mm_out := []\<rparr>"

definition sent :: "MeshManager \<Rightarrow> mesh_out list \<Rightarrow> MeshManager \<Rightarrow> bool" where
  "sent m outs m' \<longleftrightarrow> mesh_rest m' = mesh_rest m \<and> mm_out m' = mm_out m @ outs \<and>
     same_routes (mm_route_table m) (mm_route_table m')"

lemma same_routes_refl [simp]: "same_routes t t"
  by (simp add: same_routes_def)

lemma same_routes_trans: "same_routes t t' \<Longrightarrow> same_routes t' t'' \<Longrightarrow> same_routes t t''"
  by (simp add: same_routes_def)

lemma same_routes_report_link_tx: "same_routes t (report_link_tx a ok t)"
proof -
  have "route_view (link_tx ok n) = route_view n" for n by (simp add: route_view_def link_tx_def Let_def)
  then show ?thesis by (simp add: same_routes_def report_link_tx_def map_update_first)
qed

lemma same_routes_field:
  assumes "same_routes t t'" and "\<And>n. f (route_view n) = f n"
  shows "map f (rt_neighbors t') = map f (rt_neighbors t)"
proof -
  have "map f ns = map f (map route_view ns)" for ns using assms(2) by simp
  then show ?thesis using assms(1) unfolding same_routes_def by metis
qed

lemma sent_refl [simp]: "sent m [] m"
  by (simp add: sent_def)

lemma sent_trans: "sent m xs m' \<Longrightarrow> sent m' ys m'' \<Longrightarrow> sent m (xs @ ys) m''"
  unfolding sent_def by (auto intro: same_routes_trans)

lemma sent_out: "sent m outs m' \<Longrightarrow> mm_out m' = mm_out m @ outs"
  by (simp add: sent_def)

lemma sent_routes: "sent m outs m' \<Longrightarrow> same_routes (mm_route_table m) (mm_route_table m')"
  by (simp add: sent_def)

lemma sent_fields:
  assumes "sent m outs m'"
  shows "mm_my_addr m' = mm_my_addr m" "mm_has_internet m' = mm_has_internet m" "mm_mqtt_client m' = mm_mqtt_client m"
    "mm_seen_cache m' = mm_seen_cache m" "mm_seen_idx m' = mm_seen_idx m"
    "mm_buffer_pool m' = mm_buffer_pool m" "mm_blocked_peers m' = mm_blocked_peers m"
    "mm_current_channel m' = mm_current_channel m" "mm_my_inet_seq m' = mm_my_inet_seq m"
proof -
  note c = arg_cong [of "mesh_rest m'" "mesh_rest m"]
  have e: "mesh_rest m' = mesh_rest m" using assms by (simp add: sent_def)
  show "mm_my_addr m' = mm_my_addr m" using c [OF e, of mm_my_addr] by (simp add: mesh_rest_def)
  show "mm_has_internet m' = mm_has_internet m" using c [OF e, of mm_has_internet] by (simp add: mesh_rest_def)
  show "mm_mqtt_client m' = mm_mqtt_client m" using c [OF e, of mm_mqtt_client] by (simp add: mesh_rest_def)
  show "mm_seen_cache m' = mm_seen_cache m" using c [OF e, of mm_seen_cache] by (simp add: mesh_rest_def)
  show "mm_seen_idx m' = mm_seen_idx m" using c [OF e, of mm_seen_idx] by (simp add: mesh_rest_def)
  show "mm_buffer_pool m' = mm_buffer_pool m" using c [OF e, of mm_buffer_pool] by (simp add: mesh_rest_def)
  show "mm_blocked_peers m' = mm_blocked_peers m" using c [OF e, of mm_blocked_peers] by (simp add: mesh_rest_def)
  show "mm_current_channel m' = mm_current_channel m" using c [OF e, of mm_current_channel] by (simp add: mesh_rest_def)
  show "mm_my_inet_seq m' = mm_my_inet_seq m" using c [OF e, of mm_my_inet_seq] by (simp add: mesh_rest_def)
qed

lemma send_raw_sent:
  assumes "send_raw e t data peer m = (rc, m')"
  shows "sent m (if t = T_LORA \<and> \<not> me_lora_initialized e then [] else [Radio t peer data]) m'"
proof (cases "t = T_LORA \<and> \<not> me_lora_initialized e")
  case False
  obtain c l where s: "me_send e (length (mm_out m)) = (c, l)" by fastforce
  show ?thesis
    using assms False s by (auto simp: send_raw_def sent_def mesh_rest_def same_routes_report_link_tx Let_def)
qed (use assms in \<open>auto simp: send_raw_def\<close>)

lemma broadcast_both_sent:
  "sent m (Radio T_ESPNOW BROADCAST_ADDR data # (if me_lora_initialized e then [Radio T_LORA BROADCAST_ADDR data] else []))
     (broadcast_both e data m)"
proof -
  obtain r1 m1 where 1: "send_raw e T_ESPNOW data BROADCAST_ADDR m = (r1, m1)" by fastforce
  obtain r2 m2 where 2: "send_raw e T_LORA data BROADCAST_ADDR m1 = (r2, m2)" by fastforce
  from sent_trans [OF send_raw_sent [OF 1] send_raw_sent [OF 2]] 1 2 show ?thesis
    by (cases "me_lora_initialized e") (simp_all add: broadcast_both_def)
qed

lemma send_packet_sent:
  assumes "send_packet e dst type payload sq m = (rc, m')"
  shows "\<exists>outs. sent m outs m' \<and>
    (\<forall>x \<in> set outs. \<exists>t peer. x = Radio t peer (enc_header (own_header type dst sq m) @ payload))"
proof -
  let ?buf = "enc_header (own_header type dst sq m) @ payload"
  have b: "\<exists>outs. sent m outs (broadcast_both e ?buf m) \<and> (\<forall>x \<in> set outs. \<exists>t peer. x = Radio t peer ?buf)"
    by (rule exI, rule conjI, rule broadcast_both_sent) auto
  have r: "\<exists>outs. sent m outs (snd (send_raw e t ?buf p m)) \<and> (\<forall>x \<in> set outs. \<exists>t peer. x = Radio t peer ?buf)" for t p
    by (rule exI, rule conjI, rule send_raw_sent [OF surjective_pairing]) auto
  have n: "\<exists>outs. sent m outs m \<and> (\<forall>x \<in> set outs. \<exists>t peer. x = Radio t peer ?buf)"
    by (rule exI [of _ "[]"]) simp
  have "m' = m \<or> m' = broadcast_both e ?buf m \<or> (\<exists>t p. m' = snd (send_raw e t ?buf p m))"
    using assms unfolding send_packet_def Let_def case_prod_unfold
    by (auto split: if_splits option.splits) (metis snd_conv)+
  with b r n show ?thesis by metis
qed

definition own_frame :: "u16 \<Rightarrow> PacketType \<Rightarrow> u16 \<Rightarrow> u16 \<Rightarrow> bytes \<Rightarrow> mesh_out \<Rightarrow> bool" where
  "own_frame me type dst sq payload x = (case x of
      Radio t peer data \<Rightarrow> (case dec_header data of
          Some hdr \<Rightarrow> length data \<le> MAX_MTU \<and> drop 8 data = payload \<and> hdr_version hdr = PROTOCOL_VERSION \<and>
            hdr_type hdr = type \<and> src_addr hdr = me \<and> dst_addr hdr = dst \<and> seq_num hdr = sq \<and>
            hdr_ttl hdr = DEFAULT_TTL \<and> hdr_hop_count hdr = 0
        | None \<Rightarrow> False)
    | _ \<Rightarrow> False)"

lemma own_header_fields:
  assumes "type \<in> set named_types"
  shows "hdr_version (own_header type dst sq m) = PROTOCOL_VERSION" "hdr_type (own_header type dst sq m) = type"
    "src_addr (own_header type dst sq m) = mm_my_addr m" "dst_addr (own_header type dst sq m) = dst"
    "seq_num (own_header type dst sq m) = sq" "hdr_ttl (own_header type dst sq m) = DEFAULT_TTL"
    "hdr_hop_count (own_header type dst sq m) = 0"
  using assms by (simp_all add: own_header_def hdr_set_ttl_hops hdr_set_ver_type named_code_six_bits pt_of_pt_code)

text \<open>
  The send path announces this node and no other: every transmission of \<open>send_packet\<close> carries a
  version 1 header of the requested type from this node to the requested destination with a fresh
  hop limit, followed by the payload, and fits the radio frame. A payload that does not fit is refused.
\<close>

theorem send_packet_frames:
  assumes "send_packet e dst type payload sq m = (rc, m')" and "type \<in> set named_types"
  shows "\<exists>outs. mm_out m' = mm_out m @ outs \<and> list_all (own_frame (mm_my_addr m) type dst sq payload) outs \<and>
    (MAX_MTU < PACKET_HEADER_SIZE + length payload \<longrightarrow> rc = - 1 \<and> m' = m)"
proof (cases "MAX_MTU < PACKET_HEADER_SIZE + length payload")
  case True
  then show ?thesis using assms(1) by (intro exI [of _ "[]"]) (simp add: send_packet_def)
next
  case False
  let ?h = "own_header type dst sq m"
  obtain outs where o: "sent m outs m'" "\<forall>x \<in> set outs. \<exists>t peer. x = Radio t peer (enc_header ?h @ payload)"
    using send_packet_sent [OF assms(1)] by blast
  have f: "own_frame (mm_my_addr m) type dst sq payload (Radio t peer (enc_header ?h @ payload))" for t peer
    using False own_header_fields [OF assms(2), of dst sq m]
    by (simp add: own_frame_def wheader.dec_enc_append wheader.enc_length)
  have "list_all (own_frame (mm_my_addr m) type dst sq payload) outs"
    unfolding list_all_iff
  proof
    fix x assume "x \<in> set outs"
    with o(2) obtain t peer where "x = Radio t peer (enc_header ?h @ payload)" by auto
    then show "own_frame (mm_my_addr m) type dst sq payload x" using f by simp
  qed
  then show ?thesis using sent_out [OF o(1)] False by (intro exI [of _ outs]) simp
qed

definition ex_mesh_env :: MeshEnv where
  "ex_mesh_env = \<lparr>me_now = 1000, me_send = (\<lambda>n. (0, 3)), me_lora_initialized = True, me_mqtt_connected = False,
     me_queue_spaces = Some (256, 256), me_set_channel_ok = True, me_heap = \<lparr>hs_free_internal = 0, hs_free_psram = 0, hs_min_free_internal = 0,
       hs_min_free_psram = 0, hs_largest_free_psram_block = 0\<rparr>, me_led_gpio = False, me_cmds = []\<rparr>"

definition ex_mesh :: MeshManager where
  "ex_mesh = MeshManager_new 0x0A0B BufferPool_new 6 7"

theorem send_packet_frames_witness:
  "\<exists>rc m' outs. send_packet ex_mesh_env EXIT_ANY_ADDR MESH_PUB [1, 2] 0 ex_mesh = (rc, m') \<and> mm_out m' = outs \<and>
     length outs = 2 \<and> list_all (own_frame 0x0A0B MESH_PUB EXIT_ANY_ADDR 0 [1, 2]) outs"
proof -
  obtain rc m' where s: "send_packet ex_mesh_env EXIT_ANY_ADDR MESH_PUB [1, 2] 0 ex_mesh = (rc, m')" by fastforce
  have "length (mm_out m') = 2"
    using s by (auto simp: send_packet_def next_hop_def ex_mesh_def ex_mesh_env_def MeshManager_new_def RouteTable_new_def
        broadcast_both_def send_raw_def Let_def)
  with send_packet_frames [OF s] s show ?thesis
    by (auto simp: named_types_def ex_mesh_def MeshManager_new_def)
qed

end
