(* ===== verification/Mesh_Bridge.thy ===== *)
theory Mesh_Bridge
  imports Mesh_Send
begin

text \<open>
  The bridge between mesh and cloud (\<^verbatim>\<open>components/mesh/mesh_manager_bridge.cpp\<close>): telemetry that an
  exit node publishes itself and a deep-field node sends through the mesh as \<open>MESH_PUB\<close>, commands
  that come from the cloud as \<open>MESH_CMD\<close>, topic messages for subscribed topics and their way to the
  UART. Shown are the delivery of topic messages and the command duplicate filter; the end-to-end path of
  relayed telemetry, which goes through the packet dispatch, is in \<^verbatim>\<open>Mesh_Telemetry\<close>.
\<close>

unbundle bit_operations_syntax

section \<open>Operations\<close>

abbreviation (input) kMeshCmdMaxDataLen :: nat where "kMeshCmdMaxDataLen \<equiv> 64"
abbreviation (input) kTopicBufLen :: nat where "kTopicBufLen \<equiv> 32"
abbreviation (input) RELAY_BUF_SIZE :: nat where "RELAY_BUF_SIZE \<equiv> 256"
abbreviation (input) RT_HEAP :: u8 where "RT_HEAP \<equiv> 0x01"
abbreviation (input) RT_METRICS :: u8 where "RT_METRICS \<equiv> 0x02"
abbreviation (input) RT_TOPOLOGY :: u8 where "RT_TOPOLOGY \<equiv> 0x03"
abbreviation (input) RT_STATUS :: u8 where "RT_STATUS \<equiv> 0x04"
abbreviation (input) REQUEST_TELEMETRY :: u8 where "REQUEST_TELEMETRY \<equiv> 0x01"
abbreviation (input) REBOOT :: u8 where "REBOOT \<equiv> 0x03"
abbreviation (input) LED_CONTROL :: u8 where "LED_CONTROL \<equiv> 0x04"
abbreviation (input) TOPIC_MSG :: u8 where "TOPIC_MSG \<equiv> 0x10"
abbreviation (input) UART_EVT_DOWNLINK_DATA :: u8 where "UART_EVT_DOWNLINK_DATA \<equiv> 0xC2"

definition relay_topic_suffix :: "u8 \<Rightarrow> string" where
  "relay_topic_suffix topic_id =
    (if topic_id = RT_HEAP then ''heap'' else if topic_id = RT_METRICS then ''metrics''
     else if topic_id = RT_TOPOLOGY then ''topology'' else if topic_id = RT_STATUS then ''status''
     else ''unknown'')"

text \<open>\<open>snprintf(topic, 40, "flp/%04X/%s", addr, suffix)\<close>.\<close>

definition hex_digit :: "nat \<Rightarrow> char" where
  "hex_digit n = ''0123456789ABCDEF'' ! n"

definition hex4 :: "u16 \<Rightarrow> string" where
  "hex4 w = map (\<lambda>i. hex_digit (unat w div 16 ^ i mod 16)) [3, 2, 1, 0]"

definition relay_topic_name :: "u16 \<Rightarrow> u8 \<Rightarrow> string" where
  "relay_topic_name addr relay_topic = take 39 (''flp/'' @ hex4 addr @ ''/'' @ relay_topic_suffix relay_topic)"

definition publish_raw :: "string \<Rightarrow> bytes \<Rightarrow> MeshManager \<Rightarrow> MeshManager" where
  "publish_raw topic data m = m\<lparr>mm_out := mm_out m @ [Mqtt_publish topic data]\<rparr>"

definition relay_publish :: "MeshEnv \<Rightarrow> u8 \<Rightarrow> bytes \<Rightarrow> MeshManager \<Rightarrow> MeshManager" where
  "relay_publish e relay_topic data m =
    (if mm_has_internet m \<and> mm_mqtt_client m
     then publish_raw (relay_topic_name (mm_my_addr m) relay_topic) data m
     else
       let copy_len = (if RELAY_BUF_SIZE - 1 < length data then RELAY_BUF_SIZE - 1 else length data)
       in snd (send_packet e EXIT_ANY_ADDR MESH_PUB (relay_topic # take copy_len data) 0 m))"

definition handle_mesh_pub :: "PacketHeader \<Rightarrow> bytes \<Rightarrow> MeshManager \<Rightarrow> MeshManager" where
  "handle_mesh_pub hdr payload m =
    (if length payload < 2 \<or> \<not> mm_mqtt_client m then m
     else publish_raw (relay_topic_name (src_addr hdr) (payload ! 0)) (drop 1 payload) m)"

text \<open>\<open>HeapMonitor::serialize\<close> of \<^verbatim>\<open>components/diagnostics/heap_monitor.cpp\<close>.\<close>

definition heap_serialize :: "nat \<Rightarrow> HeapStats \<Rightarrow> bytes" where
  "heap_serialize max_len h = (if max_len < 20 then []
     else le32 (hs_free_internal h) @ le32 (hs_free_psram h) @ le32 (hs_min_free_internal h) @
       le32 (hs_min_free_psram h) @ le32 (hs_largest_free_psram_block h))"

definition publish_all_telemetry :: "MeshEnv \<Rightarrow> MeshManager \<Rightarrow> MeshManager" where
  "publish_all_telemetry e m =
    (let topo = serialize (1 + MAX_NEIGHBORS * 7) (mm_route_table m);
         m1 = (if 0 < length topo then relay_publish e RT_TOPOLOGY topo m else m);
         metrics = serialize_metrics 48 (mm_protocol_selector m1);
         m2 = (if 0 < length metrics then relay_publish e RT_METRICS metrics m1 else m1);
         heap = heap_serialize 20 (me_heap e)
     in if 0 < length heap then relay_publish e RT_HEAP heap m2 else m2)"

definition subscribe_topic :: "bytes \<Rightarrow> MeshManager \<Rightarrow> MeshManager" where
  "subscribe_topic topic m =
    (if 4 \<le> length (mm_subscribed_topics m) then m
     else m\<lparr>mm_subscribed_topics := mm_subscribed_topics m @ [take 31 topic]\<rparr>)"

text \<open>The bytes of a character array up to its terminating zero, and the display's replacement of control characters.\<close>

definition cstr :: "bytes \<Rightarrow> bytes" where
  "cstr = takeWhile (\<lambda>b. b \<noteq> 0)"

definition printable :: "u8 \<Rightarrow> u8" where
  "printable c = (if 32 \<le> c \<and> c \<le> 126 then c else 46)"

definition downlink_event :: "bytes \<Rightarrow> bytes \<Rightarrow> UartEvent" where
  "downlink_event topic msg =
    (let copy_topic = (if length topic < 63 then length topic else 63);
         remaining = 63 - copy_topic;
         copy_payload = (if length msg < remaining then length msg else remaining);
         content = of_nat (length topic) # take copy_topic topic @ take copy_payload msg
     in \<lparr>ev_type = UART_EVT_DOWNLINK_DATA, ev_payload = content @ replicate (64 - length content) 0,
         ev_len = of_nat (1 + copy_topic + copy_payload)\<rparr>)"

definition handle_topic_msg :: "MeshEnv \<Rightarrow> bytes \<Rightarrow> MeshManager \<Rightarrow> MeshManager" where
  "handle_topic_msg e data m =
    (if length data < 1 then m
     else
       let topic_len = unat (data ! 0) in
       if topic_len = 0 \<or> kTopicBufLen - 1 < topic_len \<or> length data < 1 + topic_len then m
       else
         let topic_arr = take topic_len (drop 1 data); topic = cstr topic_arr;
             msg = drop (1 + topic_len) data in
         if list_ex (\<lambda>t. t = topic) (mm_subscribed_topics m) then
           let m1 = (if topic = map of_char ''config'' then m\<lparr>mm_last_config_topic_ms := me_now e\<rparr> else m);
               m2 = (if topic = map of_char ''msg''
                     then m1\<lparr>mm_display_topic_msg := map printable (take 16 msg), mm_last_topic_msg_ms := me_now e\<rparr>
                     else m1)
           in m2\<lparr>mm_uart_ingest := map_option (push_event (downlink_event topic_arr msg)) (mm_uart_ingest m2)\<rparr>
         else m)"

definition handle_mesh_cmd :: "MeshEnv \<Rightarrow> bytes \<Rightarrow> MeshManager \<Rightarrow> MeshManager" where
  "handle_mesh_cmd e payload m =
    (if length payload < 1 then m
     else
       let cmd_id = payload ! 0 in
       if cmd_id = mm_last_mesh_cmd_id m \<and> me_now e - mm_last_mesh_cmd_ms m < 2000 then m
       else
         let m1 = m\<lparr>mm_last_mesh_cmd_id := cmd_id, mm_last_mesh_cmd_ms := me_now e, mm_last_cloud_cmd_ms := me_now e\<rparr> in
         if cmd_id = REQUEST_TELEMETRY then publish_all_telemetry e m1
         else if cmd_id = REBOOT then m1\<lparr>mm_out := mm_out m1 @ [Restart]\<rparr>
         else if cmd_id = LED_CONTROL then
           if me_led_gpio e \<and> 2 \<le> length payload
           then m1\<lparr>mm_out := mm_out m1 @ [Set_led (payload ! 1 \<noteq> 0)]\<rparr> else m1
         else if cmd_id = TOPIC_MSG then handle_topic_msg e (drop 1 payload) m1
         else m1)"

definition run_cmd :: "MeshEnv \<Rightarrow> MeshCmdItem \<Rightarrow> MeshManager \<Rightarrow> MeshManager" where
  "run_cmd e cmd m =
    (if mc_target_addr cmd = mm_my_addr m
     then handle_mesh_cmd e (mc_cmd_id cmd # take kMeshCmdMaxDataLen (mc_data cmd)) m
     else
       let payload = (if 0 < length (mc_data cmd) \<and> length (mc_data cmd) \<le> kMeshCmdMaxDataLen
                      then mc_cmd_id cmd # mc_data cmd else [mc_cmd_id cmd])
       in snd (send_packet e (mc_target_addr cmd) MESH_CMD payload 0 m))"

definition drain_cmd_queue :: "MeshEnv \<Rightarrow> MeshManager \<Rightarrow> MeshManager" where
  "drain_cmd_queue e m = (if \<not> mm_mqtt_client m then m else fold (run_cmd e) (me_cmds e) m)"

section \<open>Topic messages\<close>

text \<open>The receiver's view of a downlink event: topic length, topic, message.\<close>

definition parse_downlink :: "UartEvent \<Rightarrow> bytes \<times> bytes" where
  "parse_downlink ev = (let content = take (unat (ev_len ev)) (ev_payload ev); n = unat (content ! 0)
     in (take n (drop 1 content), drop (1 + n) content))"

lemma parse_downlink_event:
  assumes "length topic \<le> 31"
  shows "parse_downlink (downlink_event topic msg) = (topic, take (63 - length topic) msg)"
proof -
  define c :: bytes where "c = of_nat (length topic) # topic @ take (63 - length topic) msg"
  have n: "unat (of_nat (length topic) :: u8) = length topic" using assms unfolding unat_of_nat by simp
  have l: "length c \<le> 64" using assms by (simp add: c_def min_def) linarith
  have e: "downlink_event topic msg = \<lparr>ev_type = UART_EVT_DOWNLINK_DATA, ev_payload = c @ replicate (64 - length c) 0,
      ev_len = of_nat (length c)\<rparr>"
    using assms by (auto simp: downlink_event_def c_def Let_def min_def)
  have "unat (of_nat (length c) :: u16) = length c" using l unfolding unat_of_nat by simp
  then have "parse_downlink (downlink_event topic msg) = (take (unat (c ! 0)) (drop 1 c), drop (1 + unat (c ! 0)) c)"
    unfolding e parse_downlink_def by (simp add: Let_def)
  then show ?thesis using n by (simp add: c_def)
qed

text \<open>
  A topic message is delivered to the host exactly when its topic is subscribed: then one event is
  queued from which the host reads back the topic and the message (cut to fit 63 bytes);
  otherwise nothing changes.
\<close>

theorem topic_msg_delivery:
  assumes "mm_uart_ingest m = Some u" and "length (ui_event_queue u) < EVENT_QUEUE_DEPTH"
    and "0 < length topic \<and> length topic \<le> 31" and "0 \<notin> set topic"
  shows "if topic \<in> set (mm_subscribed_topics m)
    then \<exists>u' ev. mm_uart_ingest (handle_topic_msg e (of_nat (length topic) # topic @ msg) m) = Some u' \<and>
      ui_event_queue u' = ui_event_queue u @ [ev] \<and> parse_downlink ev = (topic, take (63 - length topic) msg)
    else handle_topic_msg e (of_nat (length topic) # topic @ msg) m = m"
proof -
  have n: "unat (of_nat (length topic) :: u8) = length topic" using assms(3) unfolding unat_of_nat by simp
  have c: "cstr topic = topic" unfolding cstr_def takeWhile_eq_all_conv using assms(4) by auto
  show ?thesis
  proof (cases "topic \<in> set (mm_subscribed_topics m)")
    case True
    then have s: "list_ex (\<lambda>t. t = topic) (mm_subscribed_topics m)" by (simp add: list_ex_iff)
    have "mm_uart_ingest (handle_topic_msg e (of_nat (length topic) # topic @ msg) m) =
        Some (push_event (downlink_event topic msg) u)"
      using assms(1,3) n c s by (simp add: handle_topic_msg_def Let_def)
    moreover have "ui_event_queue (push_event (downlink_event topic msg) u) = ui_event_queue u @ [downlink_event topic msg]"
      using assms(2) by (simp add: push_event_def)
    ultimately show ?thesis using True parse_downlink_event [of topic msg] assms(3) by auto
  next
    case False
    then have "\<not> list_ex (\<lambda>t. t = topic) (mm_subscribed_topics m)" by (auto simp: list_ex_iff)
    with False n c assms(3) show ?thesis by (simp add: handle_topic_msg_def Let_def)
  qed
qed

theorem topic_msg_delivery_witness:
  "\<exists>u' ev. mm_uart_ingest (handle_topic_msg ex_mesh_env [2, 104, 105, 1, 2, 3]
      (subscribe_topic [104, 105] (ex_mesh\<lparr>mm_uart_ingest := Some ex_uart\<rparr>))) = Some u' \<and>
    ui_event_queue u' = [ev] \<and> parse_downlink ev = ([104, 105], [1, 2, 3])"
proof -
  let ?m = "subscribe_topic [104, 105] (ex_mesh\<lparr>mm_uart_ingest := Some ex_uart\<rparr>)"
  have "mm_uart_ingest ?m = Some ex_uart" "ui_event_queue ex_uart = []" "[104, 105] \<in> set (mm_subscribed_topics ?m)"
    by (simp_all add: subscribe_topic_def ex_mesh_def MeshManager_new_def ex_uart_def UartIngest_new_def)
  then show ?thesis
    using topic_msg_delivery [of ?m ex_uart "[104, 105]" ex_mesh_env "[1, 2, 3]"] by simp
qed

section \<open>The command filter\<close>

lemma relay_publish_rest: "mesh_rest (relay_publish e rt d m) = mesh_rest m"
proof (cases "mm_has_internet m \<and> mm_mqtt_client m")
  case False
  have "mesh_rest (snd (send_packet e dst type p sq m)) = mesh_rest m" for dst type p sq
  proof -
    obtain rc m' where s: "send_packet e dst type p sq m = (rc, m')" by fastforce
    show ?thesis using send_packet_sent [OF s] s by (auto simp: sent_def)
  qed
  with False show ?thesis by (auto simp: relay_publish_def Let_def)
qed (simp add: relay_publish_def publish_raw_def mesh_rest_def)

lemma publish_all_telemetry_rest: "mesh_rest (publish_all_telemetry e m) = mesh_rest m"
  by (simp add: publish_all_telemetry_def Let_def relay_publish_rest)

lemma mesh_rest_cmd_fields:
  assumes "mesh_rest m' = mesh_rest m"
  shows "mm_last_mesh_cmd_id m' = mm_last_mesh_cmd_id m" "mm_last_mesh_cmd_ms m' = mm_last_mesh_cmd_ms m"
    "mm_last_cloud_cmd_ms m' = mm_last_cloud_cmd_ms m"
  using arg_cong [OF assms, of mm_last_mesh_cmd_id] arg_cong [OF assms, of mm_last_mesh_cmd_ms]
    arg_cong [OF assms, of mm_last_cloud_cmd_ms] by (simp_all add: mesh_rest_def)

lemma handle_mesh_cmd_fields:
  assumes "\<not> (c = mm_last_mesh_cmd_id m \<and> me_now e - mm_last_mesh_cmd_ms m < 2000)"
  shows "mm_last_mesh_cmd_id (handle_mesh_cmd e (c # rest) m) = c"
    "mm_last_mesh_cmd_ms (handle_mesh_cmd e (c # rest) m) = me_now e"
    "mm_last_cloud_cmd_ms (handle_mesh_cmd e (c # rest) m) = me_now e"
proof -
  have t: "mm_last_mesh_cmd_id (handle_topic_msg e d x) = mm_last_mesh_cmd_id x"
    "mm_last_mesh_cmd_ms (handle_topic_msg e d x) = mm_last_mesh_cmd_ms x"
    "mm_last_cloud_cmd_ms (handle_topic_msg e d x) = mm_last_cloud_cmd_ms x" for d x
    by (simp_all add: handle_topic_msg_def Let_def)
  note r = mesh_rest_cmd_fields [OF publish_all_telemetry_rest]
  show "mm_last_mesh_cmd_id (handle_mesh_cmd e (c # rest) m) = c"
    "mm_last_mesh_cmd_ms (handle_mesh_cmd e (c # rest) m) = me_now e"
    "mm_last_cloud_cmd_ms (handle_mesh_cmd e (c # rest) m) = me_now e"
    using assms by (auto simp: handle_mesh_cmd_def Let_def t r)
qed

text \<open>
  Commands are filtered by identifier alone: after a command was executed, every command with the
  same identifier is ignored for two seconds, also one with another payload, while a command with
  a different identifier always passes the filter.
\<close>

theorem mesh_cmd_filter:
  assumes "\<not> (c = mm_last_mesh_cmd_id m \<and> me_now e - mm_last_mesh_cmd_ms m < 2000)" and "me_now e' - me_now e < 2000"
    and "c' \<noteq> c"
  shows "handle_mesh_cmd e' (c # rest') (handle_mesh_cmd e (c # rest) m) = handle_mesh_cmd e (c # rest) m \<and>
    mm_last_mesh_cmd_id (handle_mesh_cmd e' (c' # rest') (handle_mesh_cmd e (c # rest) m)) = c' \<and>
    mm_last_cloud_cmd_ms (handle_mesh_cmd e' (c' # rest') (handle_mesh_cmd e (c # rest) m)) = me_now e'"
proof -
  let ?m = "handle_mesh_cmd e (c # rest) m"
  note f = handle_mesh_cmd_fields [OF assms(1), of rest]
  have "handle_mesh_cmd e' (c # rest') ?m = ?m" unfolding handle_mesh_cmd_def [of e'] using assms(2) f by simp
  moreover have "\<not> (c' = mm_last_mesh_cmd_id ?m \<and> me_now e' - mm_last_mesh_cmd_ms ?m < 2000)" using f assms(3) by simp
  ultimately show ?thesis using handle_mesh_cmd_fields by blast
qed

theorem mesh_cmd_filter_witness:
  "handle_mesh_cmd ex_mesh_env [TOPIC_MSG, 2, 7, 7] (handle_mesh_cmd ex_mesh_env [TOPIC_MSG, 1, 9] ex_mesh) =
     handle_mesh_cmd ex_mesh_env [TOPIC_MSG, 1, 9] ex_mesh"
proof -
  have "mm_last_mesh_cmd_id ex_mesh = 0xFF" by (simp add: ex_mesh_def MeshManager_new_def)
  then show ?thesis using mesh_cmd_filter [of TOPIC_MSG ex_mesh ex_mesh_env ex_mesh_env REBOOT "[2, 7, 7]" "[1, 9]"] by simp
qed

end
