(* ===== verification/Mesh_Packets.thy ===== *)
theory Mesh_Packets
  imports Mesh_Bridge
begin

text \<open>
  Packet processing of the mesh manager (\<^verbatim>\<open>components/mesh/mesh_manager_packets.cpp\<close>): the dispatch of a
  received slab, duplicate suppression, congestion-aware forwarding, discovery and route errors. The
  transfer engine the packets are handed to is a record of operations on the pair of engine and
  mesh manager. The properties are in \<^verbatim>\<open>Mesh_Relay\<close>, \<^verbatim>\<open>Mesh_Dedup\<close> and \<^verbatim>\<open>Mesh_Discovery\<close>.
\<close>

unbundle bit_operations_syntax

section \<open>Duplicate suppression\<close>

abbreviation (input) kArqDedupWindowMs :: u32 where "kArqDedupWindowMs \<equiv> 200"
abbreviation (input) kControlDedupWindowMs :: u32 where "kControlDedupWindowMs \<equiv> 10000"

definition seen_in :: "u32 \<Rightarrow> u16 \<Rightarrow> u16 \<Rightarrow> u8 \<Rightarrow> u16 \<Rightarrow> u32 \<Rightarrow> SeenEntry \<Rightarrow> bool" where
  "seen_in now src dst type sq window_ms s \<longleftrightarrow> se_src s = src \<and> se_dst s = dst \<and> se_type s = type \<and>
     se_seq s = sq \<and> now - se_time_ms s < window_ms"

definition seen_slot :: "u32 \<Rightarrow> MeshManager \<Rightarrow> nat" where
  "seen_slot now m = (case find_idx (\<lambda>s. 10000 < now - se_time_ms s) (mm_seen_cache m) of
      Some i \<Rightarrow> i | None \<Rightarrow> mm_seen_idx m)"

definition already_seen :: "u32 \<Rightarrow> u16 \<Rightarrow> u16 \<Rightarrow> u8 \<Rightarrow> u16 \<Rightarrow> u32 \<Rightarrow> MeshManager \<Rightarrow> bool \<times> MeshManager" where
  "already_seen now src dst type sq window_ms m =
    (if list_ex (seen_in now src dst type sq window_ms) (mm_seen_cache m) then (True, m)
     else
       let slot = seen_slot now m in
       (False, m\<lparr>mm_seen_cache := (mm_seen_cache m)[slot :=
                   \<lparr>se_src = src, se_dst = dst, se_type = type, se_seq = sq, se_time_ms = now\<rparr>],
                 mm_seen_idx := (if slot = mm_seen_idx m then (mm_seen_idx m + 1) mod SEEN_CACHE_SIZE
                                 else mm_seen_idx m)\<rparr>))"

section \<open>Routes to the internet\<close>

definition compute_hops_to_internet :: "RouteTable \<Rightarrow> bool \<Rightarrow> u8" where
  "compute_hops_to_internet t has_internet =
    (if has_internet then 0
     else let min_hops = min_control_hops_to_internet t in if min_hops < 0xFE then min_hops + 1 else 0xFF)"

definition saturated_queue_load :: "MeshEnv \<Rightarrow> u8" where
  "saturated_queue_load e = (case me_queue_spaces e of
      None \<Rightarrow> 0
    | Some (hi, lo) \<Rightarrow> let tot = (kQueueDepth - hi) + (kQueueDepth - lo) in if 255 < tot then 255 else of_nat tot)"

text \<open>The discovery payload both the broadcast and the response carry, for a given own sequence number.\<close>

definition discovery_payload :: "MeshEnv \<Rightarrow> MeshManager \<Rightarrow> DiscoveryPayload" where
  "discovery_payload e m =
    (let best = best_inet_route (mm_route_table m);
         flags = (if mm_has_internet m then 1 else 0) OR push_bit 1 (mm_wifi_channel m AND 0x0F) OR
                 push_bit 5 ((mm_lora_sf m - 5) AND 0x07)
     in \<lparr>disc_flags = flags,
         disc_hops_to_internet = compute_hops_to_internet (mm_route_table m) (mm_has_internet m),
         disc_rssi = 0,
         disc_inet_seq = (if mm_has_internet m then mm_my_inet_seq m else ir_seq best),
         disc_inet_origin = (if mm_has_internet m then mm_my_addr m else ir_origin best),
         disc_queue_load = saturated_queue_load e\<rparr>)"

definition wifi_set_channel :: "MeshEnv \<Rightarrow> u8 \<Rightarrow> MeshManager \<Rightarrow> MeshManager" where
  "wifi_set_channel e ch m = m\<lparr>mm_out := mm_out m @ [Set_wifi_channel ch],
     mm_wifi_channel := (if me_set_channel_ok e then ch else mm_wifi_channel m)\<rparr>"

definition sync_channel :: "MeshEnv \<Rightarrow> u8 \<Rightarrow> MeshManager \<Rightarrow> MeshManager" where
  "sync_channel e ch m =
    (if 0 < ch \<and> \<not> mm_has_internet m then
       let cur = (if mm_current_channel m = 0 then mm_wifi_channel m else mm_current_channel m);
           m1 = m\<lparr>mm_current_channel := cur\<rparr> in
       if cur \<noteq> ch then (wifi_set_channel e ch m1)\<lparr>mm_current_channel := ch\<rparr> else m1
     else m)"

definition upd_routes :: "(RouteTable \<Rightarrow> RouteTable) \<Rightarrow> MeshManager \<Rightarrow> MeshManager" where
  "upd_routes f m = m\<lparr>mm_route_table := f (mm_route_table m)\<rparr>"

definition discovery_reply :: "MeshEnv \<Rightarrow> RxTransport \<Rightarrow> u16 \<Rightarrow> MeshManager \<Rightarrow> MeshManager" where
  "discovery_reply e source src m =
    (let resp = enc_discovery (discovery_payload e m) in
     if source = LORA
     then snd (send_raw e T_LORA (enc_header (own_header DISCOVERY src 0 m) @ resp) src m)
     else snd (send_packet e src DISCOVERY resp 0 m))"

definition handle_discovery :: "MeshEnv \<Rightarrow> PacketHeader \<Rightarrow> RxTransport \<Rightarrow> bytes \<Rightarrow> MeshManager \<Rightarrow> MeshManager" where
  "handle_discovery e hdr source payload m =
    (case dec_discovery payload of
       None \<Rightarrow> m
     | Some disc \<Rightarrow>
         let m1 = (if disc_flags disc AND 1 \<noteq> 0 then upd_routes (set_has_internet (src_addr hdr) True) m else m);
             m2 = sync_channel e (drop_bit 1 (disc_flags disc) AND 0x0F) m1;
             m3 = upd_routes (\<lambda>t. snd (update_inet_route (src_addr hdr) (disc_hops_to_internet disc)
                    (disc_inet_seq disc) (disc_inet_origin disc) t)) m2;
             m4 = upd_routes (set_queue_load (src_addr hdr) (disc_queue_load disc)) m3
         in if dst_addr hdr = BROADCAST_ADDR then discovery_reply e source (src_addr hdr) m4 else m4)"

definition track_parent :: "MeshManager \<Rightarrow> MeshManager" where
  "track_parent m =
    (let current = (if mm_preferred_parent m \<noteq> BROADCAST_ADDR then mm_preferred_parent m
                    else next_hop EXIT_ANY_ADDR (mm_my_addr m) (mm_route_table m));
         ((should_switch, new_addr), rt) = check_better_route current (mm_my_addr m) (mm_route_table m);
         m1 = m\<lparr>mm_route_table := rt\<rparr> in
     if should_switch then m1\<lparr>mm_preferred_parent := new_addr\<rparr>
     else if mm_preferred_parent m = BROADCAST_ADDR \<and> current \<noteq> BROADCAST_ADDR then m1\<lparr>mm_preferred_parent := current\<rparr>
     else m1)"

definition send_discovery :: "MeshEnv \<Rightarrow> MeshManager \<Rightarrow> MeshManager" where
  "send_discovery e m =
    (let m1 = (if mm_has_internet m then m\<lparr>mm_my_inet_seq := mm_my_inet_seq m + 1\<rparr> else m);
         disc = discovery_payload e m1;
         buf = enc_header (own_header DISCOVERY BROADCAST_ADDR 0 m1) @ enc_discovery disc;
         m2 = snd (send_raw e T_ESPNOW buf BROADCAST_ADDR m1);
         lora_tx = (me_lora_initialized e \<and> (get_espnow_neighbor_count (mm_route_table m2) = 0 \<or>
                      20000 < oldest_contact_age_ms (me_now e) (mm_route_table m2) \<or>
                      ROUTE_HOPS_UNKNOWN \<le> disc_hops_to_internet disc));
         m3 = (if lora_tx then snd (send_raw e T_LORA buf BROADCAST_ADDR m2) else m2)
     in if \<not> mm_has_internet m3 then track_parent m3 else m3)"

definition send_route_error :: "MeshEnv \<Rightarrow> u16 \<Rightarrow> u16 \<Rightarrow> u16 \<Rightarrow> MeshManager \<Rightarrow> MeshManager" where
  "send_route_error e dead_addr inet_origin last_seq m =
     snd (send_packet e BROADCAST_ADDR ROUTE_ERROR (enc_route_error
       \<lparr>re_dead_addr = dead_addr, re_inet_origin = inet_origin, re_last_known_seq = last_seq\<rparr>) 0 m)"

definition handle_route_error :: "MeshEnv \<Rightarrow> bytes \<Rightarrow> MeshManager \<Rightarrow> MeshManager" where
  "handle_route_error e payload m =
    (case dec_route_error payload of
       None \<Rightarrow> m
     | Some rerr \<Rightarrow>
         let (affected, rt) = invalidate_route_via (re_dead_addr rerr) (mm_route_table m);
             m1 = m\<lparr>mm_route_table := rt\<rparr> in
         if affected then send_route_error e (re_dead_addr rerr) (re_inet_origin rerr) (re_last_known_seq rerr) m1
         else m1)"

section \<open>Forwarding\<close>

definition slab_bytes :: "BufferSlab \<Rightarrow> bytes" where
  "slab_bytes s = take (bs_len s) (bs_data s)"

definition relay_congested :: "MeshEnv \<Rightarrow> MeshManager \<Rightarrow> bool" where
  "relay_congested e m = (case me_queue_spaces e of
      Some (hi, lo) \<Rightarrow> hi + lo < kQueueDepth div 2 | None \<Rightarrow> is_congested (mm_buffer_pool m))"

definition forward_packet :: "MeshEnv \<Rightarrow> bytes \<Rightarrow> PacketHeader \<Rightarrow> MeshManager \<Rightarrow> MeshManager" where
  "forward_packet e data hdr m =
    (let congested = relay_congested e m; t = hdr_type hdr;
         high_priority = (t = ACK \<or> t = NACK \<or> t = ROUTE_ERROR \<or> t = TRANSFER_ACK \<or> t = TRANSFER_AD \<or> t = EXIT_OFFLINE) in
     if congested \<and> \<not> high_priority then
       if t = DATA \<or> t = PARITY
       then snd (send_packet e (src_addr hdr) NACK [] (seq_with_congestion (seq_num hdr) True) m)
       else m
     else
       let fwd = set_ttl_hops (hdr_ttl hdr - 1) (hdr_hop_count hdr + 1) hdr in
       if t = TRANSFER_AD \<or> t = EXIT_OFFLINE then broadcast_both e (enc_header fwd @ drop 8 data) m
       else
         let nxt = next_hop (dst_addr hdr) (mm_my_addr m) (mm_route_table m) in
         if nxt = BROADCAST_ADDR then m
         else
           let fwd' = (if (t = ACK \<or> t = NACK) \<and> congested
                       then fwd\<lparr>seq_num := seq_num fwd OR CONGESTION_FLAG\<rparr> else fwd);
               rssi = (case get_neighbor nxt (mm_route_table m) of Some n \<Rightarrow> ne_rssi n | None \<Rightarrow> kDefaultRssi);
               tr = (if requires_espnow_data_path t then T_ESPNOW
                     else select rssi (hdr_hop_count fwd') (length data) kLinkQualityPct (mm_protocol_selector m))
           in snd (send_raw e tr (enc_header fwd' @ drop 8 data) nxt m))"

section \<open>Dispatch\<close>

text \<open>The calls into the transfer engine; \<open>'e\<close> is the state of the engine.\<close>

record 'e EngineOps =
  eo_handle_exit_offline :: "MeshEnv \<Rightarrow> u16 \<Rightarrow> u16 \<Rightarrow> 'e \<times> MeshManager \<Rightarrow> 'e \<times> MeshManager"
  eo_handle_transfer_ad :: "MeshEnv \<Rightarrow> PacketHeader \<Rightarrow> bytes \<Rightarrow> bool \<Rightarrow> 'e \<times> MeshManager \<Rightarrow> 'e \<times> MeshManager"
  eo_handle_transfer_ack :: "MeshEnv \<Rightarrow> PacketHeader \<Rightarrow> bytes \<Rightarrow> 'e \<times> MeshManager \<Rightarrow> 'e \<times> MeshManager"
  eo_handle_data :: "MeshEnv \<Rightarrow> PacketHeader \<Rightarrow> bytes \<Rightarrow> 'e \<times> MeshManager \<Rightarrow> 'e \<times> MeshManager"
  eo_handle_ack :: "MeshEnv \<Rightarrow> u16 \<Rightarrow> u16 \<Rightarrow> 'e \<times> MeshManager \<Rightarrow> 'e \<times> MeshManager"
  eo_handle_nack :: "MeshEnv \<Rightarrow> u16 \<Rightarrow> u16 \<Rightarrow> 'e \<times> MeshManager \<Rightarrow> 'e \<times> MeshManager"
  eo_signal_congestion :: "MeshEnv \<Rightarrow> 'e \<times> MeshManager \<Rightarrow> 'e \<times> MeshManager"
  eo_handle_transfer_done :: "MeshEnv \<Rightarrow> u16 \<Rightarrow> bytes \<Rightarrow> 'e \<times> MeshManager \<Rightarrow> 'e \<times> MeshManager"
  eo_tick :: "MeshEnv \<Rightarrow> 'e \<times> MeshManager \<Rightarrow> 'e \<times> MeshManager"
  eo_is_transfer_active :: "'e \<Rightarrow> bool"
  eo_active_session_id :: "'e \<Rightarrow> u16"

definition dispatch :: "'e EngineOps \<Rightarrow> MeshEnv \<Rightarrow> PacketHeader \<Rightarrow> RxTransport \<Rightarrow> bool \<Rightarrow> bytes \<Rightarrow> 'e \<times> MeshManager \<Rightarrow> 'e \<times> MeshManager" where
  "dispatch ops e hdr source is_exit payload s =
    (case hdr_type hdr of
       DISCOVERY \<Rightarrow> (fst s, handle_discovery e hdr source payload (snd s))
     | TRANSFER_AD \<Rightarrow> eo_handle_transfer_ad ops e hdr payload is_exit s
     | TRANSFER_ACK \<Rightarrow> eo_handle_transfer_ack ops e hdr payload s
     | DATA \<Rightarrow> eo_handle_data ops e hdr payload s
     | PARITY \<Rightarrow> eo_handle_data ops e hdr payload s
     | ACK \<Rightarrow>
         let s1 = eo_handle_ack ops e (seq_strip_congestion (seq_num hdr)) (src_addr hdr) s
         in if seq_has_congestion (seq_num hdr) then eo_signal_congestion ops e s1 else s1
     | NACK \<Rightarrow>
         let s1 = eo_handle_nack ops e (seq_strip_congestion (seq_num hdr)) (src_addr hdr) s
         in if seq_has_congestion (seq_num hdr) then eo_signal_congestion ops e s1 else s1
     | MESH_PUB \<Rightarrow> (fst s, handle_mesh_pub hdr payload (snd s))
     | MESH_CMD \<Rightarrow> (fst s, handle_mesh_cmd e payload (snd s))
     | ROUTE_ERROR \<Rightarrow> (fst s, handle_route_error e payload (snd s))
     | TRANSFER_DONE \<Rightarrow> eo_handle_transfer_done ops e (src_addr hdr) payload s
     | _ \<Rightarrow> s)"

definition dedup_window :: "PacketType \<Rightarrow> u32" where
  "dedup_window t = (if t = DATA \<or> t = PARITY \<or> t = ACK \<or> t = NACK then kArqDedupWindowMs else kControlDedupWindowMs)"

definition node_is_exit :: "MeshEnv \<Rightarrow> MeshManager \<Rightarrow> bool" where
  "node_is_exit e m \<longleftrightarrow> mm_has_internet m \<and> mm_mqtt_client m \<and> me_mqtt_connected e"

definition for_us :: "MeshEnv \<Rightarrow> PacketHeader \<Rightarrow> MeshManager \<Rightarrow> bool" where
  "for_us e hdr m \<longleftrightarrow> dst_addr hdr = mm_my_addr m \<or> dst_addr hdr = BROADCAST_ADDR \<or>
     dst_addr hdr = EXIT_ANY_ADDR \<and> node_is_exit e m"

definition consume_exit_offline :: "'e EngineOps \<Rightarrow> MeshEnv \<Rightarrow> PacketHeader \<Rightarrow> bytes \<Rightarrow> 'e \<times> MeshManager \<Rightarrow> 'e \<times> MeshManager" where
  "consume_exit_offline ops e hdr payload s =
    (if hdr_type hdr = EXIT_OFFLINE then
       case dec_exit_offline payload of
         Some eop \<Rightarrow> eo_handle_exit_offline ops e (eo_exit_node_addr eop) (eo_session_id eop) s
       | None \<Rightarrow> s
     else s)"

definition note_neighbor :: "MeshEnv \<Rightarrow> BufferSlab \<Rightarrow> PacketHeader \<Rightarrow> MeshManager \<Rightarrow> MeshManager" where
  "note_neighbor e slab hdr m =
    (if hdr_hop_count hdr = 0
     then upd_routes (update_neighbor (me_now e) (src_addr hdr) (bs_rssi slab) (hdr_hop_count hdr)
            (bs_source slab = ESPNOW) (bs_source slab = LORA) ROUTE_HOPS_UNKNOWN) m
     else m)"

definition lookup_seen :: "u32 \<Rightarrow> PacketHeader \<Rightarrow> MeshManager \<Rightarrow> bool \<times> MeshManager" where
  "lookup_seen now hdr m = already_seen now (src_addr hdr) (dst_addr hdr) (pt_code (hdr_type hdr))
     (seq_num hdr) (dedup_window (hdr_type hdr)) m"

definition process_slab :: "'e EngineOps \<Rightarrow> MeshEnv \<Rightarrow> BufferSlab \<Rightarrow> 'e \<times> MeshManager \<Rightarrow> 'e \<times> MeshManager" where
  "process_slab ops e slab s =
    (let data = slab_bytes slab in
     case dec_header data of
       None \<Rightarrow> s
     | Some hdr \<Rightarrow>
         if src_addr hdr = mm_my_addr (snd s) then s
         else if hdr_hop_count hdr = 0 \<and> list_ex (\<lambda>bp. src_addr hdr = bp) (mm_blocked_peers (snd s)) then s
         else if hdr_version hdr \<noteq> PROTOCOL_VERSION then s
         else
           let payload = drop 8 data; s1 = consume_exit_offline ops e hdr payload s in
           if hdr_ttl hdr = 0 then s1
           else
             let s2 = (fst s1, note_neighbor e slab hdr (snd s1)) in
             if for_us e hdr (snd s2) then dispatch ops e hdr (bs_source slab) (node_is_exit e (snd s2)) payload s2
             else
               let (seen, m3) = lookup_seen (me_now e) hdr (snd s2)
               in if seen then (fst s2, m3) else (fst s2, forward_packet e data hdr m3))"

lemma process_slab_eq:
  assumes "dec_header (slab_bytes slab) = Some hdr" and "src_addr hdr \<noteq> mm_my_addr (snd s)"
    and "\<not> (hdr_hop_count hdr = 0 \<and> list_ex (\<lambda>bp. src_addr hdr = bp) (mm_blocked_peers (snd s)))"
    and "hdr_version hdr = PROTOCOL_VERSION" and "hdr_ttl hdr \<noteq> 0"
    and "consume_exit_offline ops e hdr (drop 8 (slab_bytes slab)) s = s1"
    and "note_neighbor e slab hdr (snd s1) = m2"
  shows "process_slab ops e slab s =
    (if for_us e hdr m2 then dispatch ops e hdr (bs_source slab) (node_is_exit e m2) (drop 8 (slab_bytes slab)) (fst s1, m2)
     else (fst s1, if fst (lookup_seen (me_now e) hdr m2) then snd (lookup_seen (me_now e) hdr m2)
                   else forward_packet e (slab_bytes slab) hdr (snd (lookup_seen (me_now e) hdr m2))))"
  unfolding process_slab_def Let_def case_prod_unfold assms(1) option.case if_not_P [OF assms(2)] if_not_P [OF assms(3)]
  using assms(4-) by simp

lemma fst_lookup_seen: "fst (lookup_seen now hdr m) \<longleftrightarrow>
    list_ex (seen_in now (src_addr hdr) (dst_addr hdr) (pt_code (hdr_type hdr)) (seq_num hdr) (dedup_window (hdr_type hdr))) (mm_seen_cache m)"
  by (simp add: lookup_seen_def already_seen_def Let_def)

lemma lookup_seen_True: "fst (lookup_seen now hdr m) \<Longrightarrow> lookup_seen now hdr m = (True, m)"
  by (auto simp: lookup_seen_def already_seen_def Let_def split: if_splits)

lemma lookup_seen_fields [simp]:
  "mm_out (snd (lookup_seen now hdr m)) = mm_out m" "mm_my_addr (snd (lookup_seen now hdr m)) = mm_my_addr m"
  "mm_blocked_peers (snd (lookup_seen now hdr m)) = mm_blocked_peers m"
  "mm_has_internet (snd (lookup_seen now hdr m)) = mm_has_internet m"
  "mm_mqtt_client (snd (lookup_seen now hdr m)) = mm_mqtt_client m"
  "mm_buffer_pool (snd (lookup_seen now hdr m)) = mm_buffer_pool m"
  by (simp_all add: lookup_seen_def already_seen_def Let_def)

end
