(* ===== verification/Mesh_Relay.thy ===== *)
theory Mesh_Relay
  imports Mesh_Packets
begin

text \<open>
  Properties of packet processing: what a node relays and what it originates, the hop limit along any
  chain of relays, packets that are dropped without a trace, and that processing a packet leaves the
  buffer pool alone.
\<close>

unbundle bit_operations_syntax

section \<open>Frames a node originates\<close>

definition frame_from :: "u16 \<Rightarrow> mesh_out \<Rightarrow> bool" where
  "frame_from a x = (case x of
      Radio t peer data \<Rightarrow> (case dec_header data of Some h \<Rightarrow> src_addr h = a | None \<Rightarrow> False) | _ \<Rightarrow> True)"

text \<open>
  An operation that only sends frames of its own node, and keeps the node's address and the buffer
  pool: slabs are taken and given back by the receive path and the main loop alone.
\<close>

definition own_sends :: "MeshManager \<Rightarrow> MeshManager \<Rightarrow> bool" where
  "own_sends m m' \<longleftrightarrow> (\<exists>outs. mm_out m' = mm_out m @ outs \<and> list_all (frame_from (mm_my_addr m)) outs) \<and>
     mm_my_addr m' = mm_my_addr m \<and> mm_buffer_pool m' = mm_buffer_pool m"

lemma own_sends_refl [simp]: "own_sends m m"
  by (simp add: own_sends_def)

lemma own_sends_trans [trans]: "own_sends m m' \<Longrightarrow> own_sends m' m'' \<Longrightarrow> own_sends m m''"
  unfolding own_sends_def by (metis append.assoc list_all_append)

lemma own_sends_same:
  "mm_out m' = mm_out m \<Longrightarrow> mm_my_addr m' = mm_my_addr m \<Longrightarrow> mm_buffer_pool m' = mm_buffer_pool m \<Longrightarrow> own_sends m m'"
  by (simp add: own_sends_def)

lemma own_sends_log:
  "mm_out m' = mm_out m @ [x] \<Longrightarrow> frame_from (mm_my_addr m) x \<Longrightarrow> mm_my_addr m' = mm_my_addr m \<Longrightarrow>
   mm_buffer_pool m' = mm_buffer_pool m \<Longrightarrow> own_sends m m'"
  by (simp add: own_sends_def)

lemma own_header_src [simp]: "src_addr (own_header type dst sq m) = mm_my_addr m"
  by (simp add: own_header_def)

lemma frame_from_own: "frame_from (mm_my_addr m) (Radio t peer (enc_header (own_header type dst sq m) @ payload))"
  by (simp add: frame_from_def wheader.dec_enc_append)

lemma own_sends_sent:
  assumes "sent m outs m'" and "\<forall>x \<in> set outs. \<exists>t peer. x = Radio t peer (enc_header (own_header type dst sq m) @ payload)"
  shows "own_sends m m'"
proof -
  have "list_all (frame_from (mm_my_addr m)) outs"
    unfolding list_all_iff
  proof
    fix x assume "x \<in> set outs"
    with assms(2) obtain t peer where "x = Radio t peer (enc_header (own_header type dst sq m) @ payload)" by auto
    then show "frame_from (mm_my_addr m) x" using frame_from_own by simp
  qed
  with assms(1) show ?thesis by (auto simp: own_sends_def sent_out sent_fields)
qed

lemma own_sends_send_packet: "own_sends m (snd (send_packet e dst type payload sq m))"
proof -
  obtain rc m' where s: "send_packet e dst type payload sq m = (rc, m')" by fastforce
  with send_packet_sent [OF s] own_sends_sent show ?thesis by auto
qed

lemma own_sends_send_raw:
  "own_sends m (snd (send_raw e t (enc_header (own_header type dst sq m) @ payload) peer m))"
proof -
  let ?d = "enc_header (own_header type dst sq m) @ payload"
  obtain rc m' where s: "send_raw e t ?d peer m = (rc, m')" by fastforce
  have "own_sends m m'" by (rule own_sends_sent [OF send_raw_sent [OF s], of type dst sq payload]) auto
  with s show ?thesis by simp
qed

lemma upd_routes_fields [simp]:
  "mm_out (upd_routes f m) = mm_out m" "mm_my_addr (upd_routes f m) = mm_my_addr m"
  "mm_has_internet (upd_routes f m) = mm_has_internet m" "mm_seen_cache (upd_routes f m) = mm_seen_cache m"
  "mm_seen_idx (upd_routes f m) = mm_seen_idx m" "mm_mqtt_client (upd_routes f m) = mm_mqtt_client m"
  "mm_blocked_peers (upd_routes f m) = mm_blocked_peers m" "mm_route_table (upd_routes f m) = f (mm_route_table m)"
  "mm_preferred_parent (upd_routes f m) = mm_preferred_parent m" "mm_buffer_pool (upd_routes f m) = mm_buffer_pool m"
  by (simp_all add: upd_routes_def)

lemma own_sends_upd_routes: "own_sends m (upd_routes f m)"
  by (rule own_sends_same) auto

lemma own_sends_relay_publish: "own_sends m (relay_publish e rt d m)"
  by (auto simp: relay_publish_def Let_def own_sends_send_packet publish_raw_def
      intro!: own_sends_log [where x = "Mqtt_publish (relay_topic_name (mm_my_addr m) rt) d"] simp: frame_from_def)

lemma own_sends_telemetry: "own_sends m (publish_all_telemetry e m)"
  unfolding publish_all_telemetry_def Let_def by (auto intro!: own_sends_relay_publish intro: own_sends_trans)

lemma own_sends_mesh_pub: "own_sends m (handle_mesh_pub hdr payload m)"
  by (auto simp: handle_mesh_pub_def publish_raw_def own_sends_def frame_from_def)

lemma own_sends_topic_msg: "own_sends m (handle_topic_msg e data m)"
  by (rule own_sends_same) (simp_all add: handle_topic_msg_def Let_def)

lemma own_sends_mesh_cmd: "own_sends m (handle_mesh_cmd e payload m)"
proof (cases "length payload < 1 \<or> payload ! 0 = mm_last_mesh_cmd_id m \<and> me_now e - mm_last_mesh_cmd_ms m < 2000")
  case False
  let ?m1 = "m\<lparr>mm_last_mesh_cmd_id := payload ! 0, mm_last_mesh_cmd_ms := me_now e, mm_last_cloud_cmd_ms := me_now e\<rparr>"
  have 1: "own_sends m ?m1" by (rule own_sends_same) auto
  have 2: "own_sends ?m1 (?m1\<lparr>mm_out := mm_out ?m1 @ [x]\<rparr>)" if "frame_from (mm_my_addr m) x" for x
    by (rule own_sends_log [of _ _ x]) (use that in auto)
  have "frame_from (mm_my_addr m) Restart" "frame_from (mm_my_addr m) (Set_led b)" for b by (simp_all add: frame_from_def)
  note 3 = 2 [OF this(1)] 2 [OF this(2)]
  have "own_sends ?m1 (handle_mesh_cmd e payload m)"
    using False 3 own_sends_telemetry [of ?m1 e] own_sends_topic_msg [of ?m1 e "drop 1 payload"]
    unfolding handle_mesh_cmd_def Let_def by auto
  with 1 show ?thesis by (rule own_sends_trans)
qed (auto simp: handle_mesh_cmd_def)

lemma own_sends_route_error: "own_sends m (handle_route_error e payload m)"
proof (cases "dec_route_error payload")
  case (Some rerr)
  let ?m1 = "m\<lparr>mm_route_table := snd (invalidate_route_via (re_dead_addr rerr) (mm_route_table m))\<rparr>"
  have "own_sends m ?m1" by (rule own_sends_same) auto
  then show ?thesis
    using Some own_sends_send_packet [of ?m1] own_sends_trans
    unfolding handle_route_error_def send_route_error_def Let_def case_prod_unfold by auto
qed (simp add: handle_route_error_def)

lemma sync_channel_fields [simp]:
  "mm_my_addr (sync_channel e ch m) = mm_my_addr m" "mm_route_table (sync_channel e ch m) = mm_route_table m"
  "mm_has_internet (sync_channel e ch m) = mm_has_internet m"
  "mm_preferred_parent (sync_channel e ch m) = mm_preferred_parent m"
  by (simp_all add: sync_channel_def wifi_set_channel_def Let_def)

lemma own_sends_sync_channel: "own_sends m (sync_channel e ch m)"
  by (auto simp: sync_channel_def wifi_set_channel_def Let_def own_sends_def frame_from_def)

lemma own_sends_reply: "own_sends m (discovery_reply e source src m)"
  unfolding discovery_reply_def Let_def using own_sends_send_packet own_sends_send_raw by auto

lemma own_sends_discovery: "own_sends m (handle_discovery e hdr source payload m)"
proof (cases "dec_discovery payload")
  case (Some disc)
  let ?m1 = "if disc_flags disc AND 1 \<noteq> 0 then upd_routes (set_has_internet (src_addr hdr) True) m else m"
  let ?m2 = "sync_channel e (drop_bit 1 (disc_flags disc) AND 0x0F) ?m1"
  let ?m3 = "upd_routes (\<lambda>t. snd (update_inet_route (src_addr hdr) (disc_hops_to_internet disc)
               (disc_inet_seq disc) (disc_inet_origin disc) t)) ?m2"
  let ?m4 = "upd_routes (set_queue_load (src_addr hdr) (disc_queue_load disc)) ?m3"
  have "own_sends m ?m1" using own_sends_upd_routes by simp
  also have "own_sends ?m1 ?m2" by (rule own_sends_sync_channel)
  also have "own_sends ?m2 ?m3" by (rule own_sends_upd_routes)
  also have "own_sends ?m3 ?m4" by (rule own_sends_upd_routes)
  finally have 4: "own_sends m ?m4" .
  have "handle_discovery e hdr source payload m =
      (if dst_addr hdr = BROADCAST_ADDR then discovery_reply e source (src_addr hdr) ?m4 else ?m4)"
    by (simp add: handle_discovery_def Some Let_def)
  with 4 own_sends_trans [OF 4 own_sends_reply] show ?thesis by simp
qed (simp add: handle_discovery_def)

section \<open>Relayed copies\<close>

text \<open>
  The copy a relay makes: one less to live, one more hop, the same addresses, type and payload; the
  sequence number unchanged but for the congestion flag of an acknowledgement.
\<close>

definition relayed_copy :: "bytes \<Rightarrow> bytes \<Rightarrow> bool" where
  "relayed_copy d d' = (case (dec_header d, dec_header d') of
      (Some h, Some h') \<Rightarrow> hdr_ttl h \<noteq> 0 \<and> hdr_ttl h' = hdr_ttl h - 1 \<and>
        hdr_hop_count h' = (hdr_hop_count h + 1) AND 0x0F \<and> ver_type h' = ver_type h \<and>
        src_addr h' = src_addr h \<and> dst_addr h' = dst_addr h \<and>
        (seq_num h' = seq_num h \<or> hdr_type h \<in> {ACK, NACK} \<and> seq_num h' = seq_num h OR CONGESTION_FLAG) \<and>
        drop 8 d' = drop 8 d
    | _ \<Rightarrow> False)"

lemma hdr_ttl_lt16: "hdr_ttl h < 16"
proof -
  have "unat (ttl_hops h) < 16 * 16" using unat_u8_bound [of "ttl_hops h"] by linarith
  then show ?thesis unfolding word_less_nat_alt hdr_ttl_nat by (simp add: less_mult_imp_div_less)
qed

lemma ttl_dec_mask:
  assumes "hdr_ttl h \<noteq> 0"
  shows "(hdr_ttl h - 1) AND 0x0F = hdr_ttl h - 1"
proof -
  have "hdr_ttl h - 1 < 16"
    using assms hdr_ttl_lt16 [of h] unfolding word_less_nat_alt by (simp add: unat_minus_one)
  then show ?thesis using less_mask_eq [of "hdr_ttl h - 1" 4] by (simp add: masks_u8)
qed

lemma ver_type_set_ttl_hops [simp]: "ver_type (set_ttl_hops a b h) = ver_type h"
  by (simp add: set_ttl_hops_def)

lemma hdr_seq_update [simp]:
  "hdr_ttl (h\<lparr>seq_num := x\<rparr>) = hdr_ttl h" "hdr_hop_count (h\<lparr>seq_num := x\<rparr>) = hdr_hop_count h"
  by (simp_all add: hdr_ttl_def hdr_hop_count_def)

lemma relayed_copy_fwd:
  assumes "dec_header d = Some h" and "hdr_ttl h \<noteq> 0"
  shows "relayed_copy d (enc_header (set_ttl_hops (hdr_ttl h - 1) (hdr_hop_count h + 1) h) @ drop 8 d)"
    and "hdr_type h \<in> {ACK, NACK} \<Longrightarrow> relayed_copy d (enc_header ((set_ttl_hops (hdr_ttl h - 1) (hdr_hop_count h + 1) h)
      \<lparr>seq_num := seq_num h OR CONGESTION_FLAG\<rparr>) @ drop 8 d)"
  using assms ttl_dec_mask [OF assms(2)]
  by (auto simp: relayed_copy_def wheader.dec_enc_append wheader.enc_length hdr_set_ttl_hops)

definition relay_or_own :: "bytes \<Rightarrow> u16 \<Rightarrow> mesh_out \<Rightarrow> bool" where
  "relay_or_own d a x \<longleftrightarrow> frame_from a x \<or> (case x of Radio t peer d' \<Rightarrow> relayed_copy d d' | _ \<Rightarrow> False)"

lemma forward_packet_out:
  assumes "dec_header d = Some h" and "hdr_ttl h \<noteq> 0"
  shows "\<exists>outs. mm_out (forward_packet e d h m) = mm_out m @ outs \<and> list_all (relay_or_own d (mm_my_addr m)) outs"
proof -
  have own: "\<exists>outs. mm_out m' = mm_out m @ outs \<and> list_all (relay_or_own d (mm_my_addr m)) outs"
    if "own_sends m m'" for m'
  proof -
    from that obtain outs where "mm_out m' = mm_out m @ outs" "list_all (frame_from (mm_my_addr m)) outs"
      by (auto simp: own_sends_def)
    moreover from this(2) have "list_all (relay_or_own d (mm_my_addr m)) outs"
      by (auto simp: relay_or_own_def elim: list.pred_mono_strong)
    ultimately show ?thesis by blast
  qed
  have cp: "\<exists>outs. mm_out m' = mm_out m @ outs \<and> list_all (relay_or_own d (mm_my_addr m)) outs"
    if "sent m outs m'" "\<forall>x \<in> set outs. \<exists>t peer. x = Radio t peer d'" "relayed_copy d d'" for m' d' outs
  proof -
    have "list_all (relay_or_own d (mm_my_addr m)) outs"
      using that(2,3) by (fastforce simp: list_all_iff relay_or_own_def)
    with sent_out [OF that(1)] show ?thesis by blast
  qed
  have bc: "\<exists>outs. mm_out (broadcast_both e d' m) = mm_out m @ outs \<and> list_all (relay_or_own d (mm_my_addr m)) outs"
    if "relayed_copy d d'" for d'
    by (rule cp [OF broadcast_both_sent _ that]) auto
  have raw: "\<exists>outs. mm_out (snd (send_raw e t d' p m)) = mm_out m @ outs \<and> list_all (relay_or_own d (mm_my_addr m)) outs"
    if "relayed_copy d d'" for d' t p
    by (rule cp [OF send_raw_sent [OF surjective_pairing] _ that]) auto
  note rc = relayed_copy_fwd [OF assms]
  show ?thesis
    unfolding forward_packet_def Let_def
    using own [OF own_sends_send_packet] own [OF own_sends_refl] bc [OF rc(1)] raw [OF rc(1)] raw [OF rc(2)]
    by (auto simp del: Int_iff)
qed

lemma forward_packet_sent: "\<exists>outs. sent m outs (forward_packet e d h m)"
proof -
  have p: "\<exists>outs. sent m outs (snd (send_packet e dst type p sq m))" for dst type p sq
  proof -
    obtain rc m' where s: "send_packet e dst type p sq m = (rc, m')" by fastforce
    from send_packet_sent [OF s] s show ?thesis by auto
  qed
  have r: "\<exists>outs. sent m outs (snd (send_raw e t x peer m))" for t x peer
    using send_raw_sent [OF surjective_pairing] by blast
  have b: "\<exists>outs. sent m outs (broadcast_both e x m)" for x using broadcast_both_sent by blast
  have n: "\<exists>outs. sent m outs m" using sent_refl by blast
  show ?thesis unfolding forward_packet_def Let_def by (simp add: p r b n)
qed

section \<open>The engine as an interface, and the hop limit\<close>

text \<open>
  What packet processing needs of the transfer engine: its handlers send frames of this node only.
  Relayed frames then come from the forwarding path alone, and the hop limit follows.
\<close>

inductive relay_chain :: "'e EngineOps \<Rightarrow> nat \<Rightarrow> bytes \<Rightarrow> bytes \<Rightarrow> bool" for ops where
  origin: "relay_chain ops 0 d d"
| relay: "relay_chain ops n d0 (slab_bytes slab) \<Longrightarrow>
    mm_out (snd (process_slab ops e slab s)) = mm_out (snd s) @ outs \<Longrightarrow> Radio t peer d \<in> set outs \<Longrightarrow>
    \<not> frame_from (mm_my_addr (snd s)) (Radio t peer d) \<Longrightarrow> relay_chain ops (Suc n) d0 d"

locale own_engine =
  fixes ops :: "'e EngineOps"
  assumes exit_offline_own: "own_sends (snd s) (snd (eo_handle_exit_offline ops e a sid s))"
    and transfer_ad_own: "own_sends (snd s) (snd (eo_handle_transfer_ad ops e hdr payload is_exit s))"
    and transfer_ack_own: "own_sends (snd s) (snd (eo_handle_transfer_ack ops e hdr payload s))"
    and data_own: "own_sends (snd s) (snd (eo_handle_data ops e hdr payload s))"
    and ack_own: "own_sends (snd s) (snd (eo_handle_ack ops e sq src s))"
    and nack_own: "own_sends (snd s) (snd (eo_handle_nack ops e sq src s))"
    and congestion_own: "own_sends (snd s) (snd (eo_signal_congestion ops e s))"
    and transfer_done_own: "own_sends (snd s) (snd (eo_handle_transfer_done ops e src payload s))"
begin

lemma dispatch_own: "own_sends (snd s) (snd (dispatch ops e hdr source is_exit payload s))"
  unfolding dispatch_def Let_def
  using own_sends_discovery own_sends_mesh_pub own_sends_mesh_cmd own_sends_route_error
    own_sends_trans [OF ack_own congestion_own] own_sends_trans [OF nack_own congestion_own]
  by (auto simp: transfer_ad_own transfer_ack_own data_own ack_own nack_own transfer_done_own split: PacketType.split)

lemma process_slab_out:
  "\<exists>outs. mm_out (snd (process_slab ops e slab s)) = mm_out (snd s) @ outs \<and>
     list_all (relay_or_own (slab_bytes slab) (mm_my_addr (snd s))) outs"
proof -
  have own: "\<exists>outs. mm_out m' = mm_out (snd s) @ outs \<and> list_all (relay_or_own d (mm_my_addr (snd s))) outs"
    if o: "own_sends (snd s) m1" and m': "\<exists>outs. mm_out m' = mm_out m1 @ outs \<and> list_all (relay_or_own d (mm_my_addr m1)) outs"
    for m1 m' d
  proof -
    from o obtain o1 where "mm_out m1 = mm_out (snd s) @ o1" "list_all (frame_from (mm_my_addr (snd s))) o1"
      "mm_my_addr m1 = mm_my_addr (snd s)" by (auto simp: own_sends_def)
    moreover from this(2) have "list_all (relay_or_own d (mm_my_addr (snd s))) o1"
      by (auto simp: relay_or_own_def elim: list.pred_mono_strong)
    ultimately show ?thesis using m' by (metis append.assoc list_all_append)
  qed
  have nil: "\<exists>outs. mm_out m = mm_out m @ outs \<and> list_all P outs" for m :: MeshManager and P by (rule exI [of _ "[]"]) simp
  show ?thesis
  proof (cases "dec_header (slab_bytes slab)")
    case None
    then show ?thesis by (simp add: process_slab_def nil)
  next
    case (Some hdr)
    define payload where "payload = drop 8 (slab_bytes slab)"
    define s1 where "s1 = consume_exit_offline ops e hdr payload s"
    define m2 where "m2 = note_neighbor e slab hdr (snd s1)"
    define sn where "sn = lookup_seen (me_now e) hdr m2"
    have o1: "own_sends (snd s) (snd s1)" by (auto simp: s1_def consume_exit_offline_def exit_offline_own split: option.split)
    have o2: "own_sends (snd s) m2"
      using own_sends_trans [OF o1 own_sends_upd_routes] o1 by (auto simp: m2_def note_neighbor_def)
    have o3: "own_sends (snd s) (snd sn)"
      by (rule own_sends_trans [OF o2], rule own_sends_same) (simp_all add: sn_def)
    have p: "process_slab ops e slab s =
       (if src_addr hdr = mm_my_addr (snd s) \<or> hdr_hop_count hdr = 0 \<and> list_ex (\<lambda>bp. src_addr hdr = bp) (mm_blocked_peers (snd s)) \<or>
           hdr_version hdr \<noteq> PROTOCOL_VERSION then s
        else if hdr_ttl hdr = 0 then s1
        else if for_us e hdr m2 then dispatch ops e hdr (bs_source slab) (node_is_exit e m2) payload (fst s1, m2)
        else (fst s1, if fst sn then snd sn else forward_packet e (slab_bytes slab) hdr (snd sn)))"
      by (simp add: process_slab_def Some Let_def payload_def s1_def m2_def sn_def case_prod_unfold)
    have f: "\<exists>outs. mm_out (forward_packet e (slab_bytes slab) hdr (snd sn)) = mm_out (snd sn) @ outs \<and>
        list_all (relay_or_own (slab_bytes slab) (mm_my_addr (snd sn))) outs" if "hdr_ttl hdr \<noteq> 0"
      by (rule forward_packet_out [OF Some that])
    have d: "own_sends (snd s) (snd (dispatch ops e hdr (bs_source slab) (node_is_exit e m2) payload (fst s1, m2)))"
      using own_sends_trans [OF o2] dispatch_own [of "(fst s1, m2)"] by simp
    show ?thesis
      unfolding p using own [OF o1 nil] own [OF d nil] own [OF o3 nil] own [OF o3 f] nil by auto
  qed
qed

lemma process_slab_pool: "mm_buffer_pool (snd (process_slab ops e slab s)) = mm_buffer_pool (snd s)"
proof -
  have c: "mm_buffer_pool (snd (consume_exit_offline ops e hdr p s)) = mm_buffer_pool (snd s)" for hdr p
    using exit_offline_own by (auto simp: consume_exit_offline_def own_sends_def split: option.split)
  have n: "mm_buffer_pool (note_neighbor e slab hdr m) = mm_buffer_pool m" for hdr m
    by (simp add: note_neighbor_def)
  have d: "mm_buffer_pool (snd (dispatch ops e hdr src x p s)) = mm_buffer_pool (snd s)" for hdr src x p s
    using dispatch_own [of s e hdr src x p] by (simp add: own_sends_def)
  have f: "mm_buffer_pool (forward_packet e d h m) = mm_buffer_pool m" for d h m
    using forward_packet_sent sent_fields by metis
  show ?thesis by (simp add: process_slab_def Let_def case_prod_unfold c n d f split: option.split)
qed

lemma relay_chain_header:
  assumes "relay_chain ops n d0 d" and "dec_header d0 = Some h0"
  shows "\<exists>h. dec_header d = Some h \<and> unat (hdr_ttl h) + n = unat (hdr_ttl h0) \<and>
    (unat (hdr_ttl h0) + unat (hdr_hop_count h0) \<le> 15 \<longrightarrow> unat (hdr_hop_count h) = unat (hdr_hop_count h0) + n) \<and>
    ver_type h = ver_type h0 \<and> src_addr h = src_addr h0 \<and> dst_addr h = dst_addr h0 \<and>
    (seq_num h = seq_num h0 \<or> hdr_type h0 \<in> {ACK, NACK} \<and> seq_num h = seq_num h0 OR CONGESTION_FLAG) \<and> drop 8 d = drop 8 d0"
  using assms
proof (induction rule: relay_chain.induct)
  case (relay n d0 slab e s outs t peer d)
  then obtain h where h: "dec_header (slab_bytes slab) = Some h" "unat (hdr_ttl h) + n = unat (hdr_ttl h0)"
    "unat (hdr_ttl h0) + unat (hdr_hop_count h0) \<le> 15 \<longrightarrow> unat (hdr_hop_count h) = unat (hdr_hop_count h0) + n"
    "ver_type h = ver_type h0" "src_addr h = src_addr h0" "dst_addr h = dst_addr h0"
    "seq_num h = seq_num h0 \<or> hdr_type h0 \<in> {ACK, NACK} \<and> seq_num h = seq_num h0 OR CONGESTION_FLAG"
    "drop 8 (slab_bytes slab) = drop 8 d0" by auto
  have "list_all (relay_or_own (slab_bytes slab) (mm_my_addr (snd s))) outs"
    using process_slab_out [of e slab s] relay.hyps(2) by auto
  with relay.hyps(3,4) have "relayed_copy (slab_bytes slab) d" by (auto simp: list_all_iff relay_or_own_def)
  then obtain h' where h': "dec_header d = Some h'" "hdr_ttl h \<noteq> 0" "hdr_ttl h' = hdr_ttl h - 1"
    "hdr_hop_count h' = (hdr_hop_count h + 1) AND 0x0F" "ver_type h' = ver_type h" "src_addr h' = src_addr h"
    "dst_addr h' = dst_addr h" "drop 8 d = drop 8 (slab_bytes slab)"
    "seq_num h' = seq_num h \<or> hdr_type h \<in> {ACK, NACK} \<and> seq_num h' = seq_num h OR CONGESTION_FLAG"
    by (auto simp: relayed_copy_def h(1) split: option.splits)
  have "hdr_type h = hdr_type h0" using h(4) by (simp add: hdr_type_def)
  with h(7) h'(9) have sq: "seq_num h' = seq_num h0 \<or> hdr_type h0 \<in> {ACK, NACK} \<and> seq_num h' = seq_num h0 OR CONGESTION_FLAG"
    by (auto simp: or.assoc)
  have t: "unat (hdr_ttl h') + 1 = unat (hdr_ttl h)" using h'(2,3) by (simp add: unat_minus_one unat_gt_0 Suc_leI)
  have c: "unat (hdr_hop_count h') = unat (hdr_hop_count h) + 1" if "unat (hdr_hop_count h) < 15"
  proof -
    have u: "unat (hdr_hop_count h + 1) = unat (hdr_hop_count h) + 1" using that by (simp add: unat_word_ariths)
    then have "hdr_hop_count h + 1 < 16" using that unfolding word_less_nat_alt by simp
    then have "(hdr_hop_count h + 1) AND 0x0F = hdr_hop_count h + 1"
      using less_mask_eq [of "hdr_hop_count h + 1" 4] by (simp add: masks_u8)
    then show ?thesis using h'(4) u by simp
  qed
  have "0 < unat (hdr_ttl h)" using h'(2) by (simp add: unat_gt_0)
  with h h' t c sq show ?case by auto
qed auto

end

section \<open>Packets dropped without a trace\<close>

text \<open>
  A frame that is too short, comes from this node, comes straight from a blocked peer or
  carries another protocol version changes nothing, neither of the node nor of the engine, and
  is not forwarded; an expired packet that is not an exit announcement neither.
\<close>

theorem process_slab_drops:
  assumes "case dec_header (slab_bytes slab) of None \<Rightarrow> True | Some h \<Rightarrow>
      src_addr h = mm_my_addr (snd s) \<or> hdr_hop_count h = 0 \<and> src_addr h \<in> set (mm_blocked_peers (snd s)) \<or>
      hdr_version h \<noteq> PROTOCOL_VERSION \<or> hdr_ttl h = 0 \<and> hdr_type h \<noteq> EXIT_OFFLINE"
  shows "process_slab ops e slab s = s"
  using assms by (auto simp: process_slab_def consume_exit_offline_def Let_def list_ex_iff split: option.splits)

end
