(* ===== verification/Mesh_Dedup.thy ===== *)
theory Mesh_Dedup
  imports Mesh_Relay
begin

text \<open>
  Duplicate suppression (\<open>already_seen\<close> of \<^verbatim>\<open>mesh_manager.hpp\<close>): how long the 64-entry cache remembers
  a packet, and what that means for the relay path.
\<close>

type_synonym seen_query = "u32 \<times> u16 \<times> u16 \<times> u8 \<times> u16 \<times> u32"

fun seen_query :: "seen_query \<Rightarrow> MeshManager \<Rightarrow> MeshManager" where
  "seen_query (now, src, dst, type, sq, window_ms) m = snd (already_seen now src dst type sq window_ms m)"

definition seen_ok :: "MeshManager \<Rightarrow> bool" where
  "seen_ok m \<longleftrightarrow> length (mm_seen_cache m) = SEEN_CACHE_SIZE \<and> mm_seen_idx m < SEEN_CACHE_SIZE"

text \<open>How many places the round-robin pointer is away from a slot.\<close>

definition idx_distance :: "nat \<Rightarrow> MeshManager \<Rightarrow> nat" where
  "idx_distance k m = (k + SEEN_CACHE_SIZE - mm_seen_idx m) mod SEEN_CACHE_SIZE"

lemma seen_slot_lt: "seen_ok m \<Longrightarrow> seen_slot now m < 64"
  by (auto simp: seen_ok_def seen_slot_def dest: find_idx_SomeD split: option.splits)

lemma already_seen_ok: "seen_ok m \<Longrightarrow> seen_ok (snd (already_seen now src dst type sq w m))"
  by (simp add: seen_ok_def already_seen_def Let_def)

lemma seen_query_ok: "seen_ok m \<Longrightarrow> seen_ok (seen_query q m)"
  by (cases q) (auto simp: already_seen_ok)

lemma idx_step: "k < 64 \<Longrightarrow> i < 64 \<Longrightarrow> i \<noteq> k \<Longrightarrow> Suc ((k + 64 - (i + 1) mod 64) mod 64) = (k + 64 - i) mod (64 :: nat)"
  by (cases "i < k"; cases "i = 63"; auto simp: mod_if)

lemma seen_query_keeps:
  assumes "seen_ok m" and "k < 64" and "0 < idx_distance k m" and "fst q - se_time_ms (mm_seen_cache m ! k) \<le> 10000"
  shows "mm_seen_cache (seen_query q m) ! k = mm_seen_cache m ! k" and "idx_distance k m \<le> Suc (idx_distance k (seen_query q m))"
proof -
  obtain now src dst type sq w where q: "q = (now, src, dst, type, sq, w)" by (cases q) auto
  have i: "mm_seen_idx m < 64" "length (mm_seen_cache m) = 64" using assms(1) by (auto simp: seen_ok_def)
  have ik: "mm_seen_idx m \<noteq> k" using assms(3) by (auto simp: idx_distance_def)
  have slot: "seen_slot now m \<noteq> k"
    using ik assms(4) q by (auto simp: seen_slot_def split: option.splits dest: find_idx_SomeD)
  show "mm_seen_cache (seen_query q m) ! k = mm_seen_cache m ! k"
    using slot by (simp add: q already_seen_def Let_def)
  show "idx_distance k m \<le> Suc (idx_distance k (seen_query q m))"
    using idx_step [OF assms(2) i(1) ik] by (simp add: q already_seen_def Let_def idx_distance_def)
qed

lemma seen_entry_survives:
  assumes "seen_ok m" and "k < 64" and "length qs \<le> idx_distance k m"
    and "\<forall>q \<in> set qs. fst q - se_time_ms (mm_seen_cache m ! k) \<le> 10000"
  shows "mm_seen_cache (fold seen_query qs m) ! k = mm_seen_cache m ! k \<and> seen_ok (fold seen_query qs m)"
  using assms
proof (induction qs arbitrary: m)
  case (Cons q qs)
  note keep = seen_query_keeps [OF Cons.prems(1,2), of q]
  have d: "0 < idx_distance k m" "fst q - se_time_ms (mm_seen_cache m ! k) \<le> 10000" using Cons.prems(3,4) by auto
  have "mm_seen_cache (fold seen_query qs (seen_query q m)) ! k = mm_seen_cache (seen_query q m) ! k \<and>
      seen_ok (fold seen_query qs (seen_query q m))"
    by (rule Cons.IH) (use Cons.prems keep [OF d] seen_query_ok in auto)
  with keep(1) [OF d] show ?case by simp
qed simp

lemma seen_remembered:
  assumes "seen_ok m" and "already_seen t0 src dst type sq w m = (False, m1)"
    and "length qs \<le> idx_distance (seen_slot t0 m) m1" and "list_all (\<lambda>q. fst q - t0 \<le> 10000) qs" and "t - t0 < w"
  shows "fst (already_seen t src dst type sq w (fold seen_query qs m1)) \<and>
    (seen_slot t0 m = mm_seen_idx m \<longrightarrow> idx_distance (seen_slot t0 m) m1 = 63)"
proof -
  let ?k = "seen_slot t0 m"
  have k: "?k < 64" by (rule seen_slot_lt [OF assms(1)])
  have m1: "mm_seen_cache m1 = (mm_seen_cache m)[?k := \<lparr>se_src = src, se_dst = dst, se_type = type, se_seq = sq, se_time_ms = t0\<rparr>]"
    "mm_seen_idx m1 = (if ?k = mm_seen_idx m then (mm_seen_idx m + 1) mod 64 else mm_seen_idx m)"
    using assms(2) by (auto simp: already_seen_def Let_def split: if_splits)
  have e: "mm_seen_cache m1 ! ?k = \<lparr>se_src = src, se_dst = dst, se_type = type, se_seq = sq, se_time_ms = t0\<rparr>"
    using k assms(1) by (simp add: m1 seen_ok_def)
  have ok1: "seen_ok m1" using already_seen_ok [OF assms(1), of t0 src dst type sq w] assms(2) by simp
  have "\<forall>q \<in> set qs. fst q - se_time_ms (mm_seen_cache m1 ! ?k) \<le> 10000" using assms(4) e by (simp add: list_all_iff)
  note s = seen_entry_survives [OF ok1 k assms(3) this]
  then have "seen_in t src dst type sq w (mm_seen_cache (fold seen_query qs m1) ! ?k)"
    using e assms(5) by (simp add: seen_in_def)
  moreover have "?k < length (mm_seen_cache (fold seen_query qs m1))" using s k by (simp add: seen_ok_def)
  ultimately have "list_ex (seen_in t src dst type sq w) (mm_seen_cache (fold seen_query qs m1))"
    using nth_mem by (metis list_ex_iff)
  moreover have "idx_distance ?k m1 = 63" if "?k = mm_seen_idx m"
  proof -
    have "mm_seen_idx m1 = (?k + 1) mod 64" using m1(2) that by simp
    with k show ?thesis by (cases "?k = 63") (simp_all add: idx_distance_def mod_if)
  qed
  ultimately show ?thesis by (simp add: already_seen_def)
qed

text \<open>
  C39. A packet that was let through is recognised again: within its window, a second copy is reported
  as seen while the number of lookups since, all within ten seconds, is at most the distance the
  round-robin pointer has to go to the packet's slot. That distance is 63 if the packet was stored at
  the pointer, so then a copy after up to 63 lookups is recognised; it can be as short as two when
  the packet took over an expired slot elsewhere (\<open>fresh_entry_evicted_early\<close> below).
\<close>

theorem duplicate_recognised:
  assumes "seen_ok m" and "already_seen t0 src dst type sq w m = (False, m1)"
    and "length qs \<le> idx_distance (seen_slot t0 m) m1" and "list_all (\<lambda>q. fst q - t0 \<le> 10000) qs" and "t - t0 < w"
  shows "fst (already_seen t src dst type sq w (fold seen_query qs m1)) \<and>
    (seen_slot t0 m = mm_seen_idx m \<longrightarrow> idx_distance (seen_slot t0 m) m1 = 63)"
  by (rule seen_remembered [OF assms])

lemma ex_mesh_seen_ok: "seen_ok ex_mesh"
  by (simp add: seen_ok_def ex_mesh_def MeshManager_new_def)

theorem duplicate_recognised_witness:
  "\<exists>m1. already_seen 20000 1 2 0x10 7 10000 ex_mesh = (False, m1) \<and> fst (already_seen 20100 1 2 0x10 7 10000 m1)"
proof -
  obtain b m1 where s: "already_seen 20000 1 2 0x10 7 10000 ex_mesh = (b, m1)" by fastforce
  have "\<not> list_ex (seen_in 20000 1 2 0x10 7 10000) (mm_seen_cache ex_mesh)"
    by (simp add: ex_mesh_def MeshManager_new_def seen_in_def list_ex_iff)
  with s have "\<not> b" by (auto simp: already_seen_def Let_def)
  with s have f: "already_seen 20000 1 2 0x10 7 10000 ex_mesh = (False, m1)" by simp
  from duplicate_recognised [OF ex_mesh_seen_ok f, of "[]" 20100] f show ?thesis by simp
qed

definition aged_cache :: MeshManager where
  "aged_cache = ex_mesh\<lparr>mm_seen_cache := \<lparr>se_src = 9, se_dst = 9, se_type = 9, se_seq = 0, se_time_ms = 19000\<rparr> #
     \<lparr>se_src = 9, se_dst = 9, se_type = 9, se_seq = 1, se_time_ms = 0\<rparr> #
     replicate 62 \<lparr>se_src = 9, se_dst = 9, se_type = 9, se_seq = 2, se_time_ms = 19000\<rparr>, mm_seen_idx := 0\<rparr>"

text \<open>
  Reusing an expired slot ahead of the pointer shortens that memory: when the only expired entry
  lies right behind the pointer, a packet stored there is forgotten after two further packets,
  although 62 older entries are still fresh.
\<close>

theorem fresh_entry_evicted_early:
  "fst (already_seen 20000 1 2 0x10 7 10000 aged_cache) = False \<and>
   fst (already_seen 20003 1 2 0x10 7 10000
     (seen_query (20002, 4, 4, 4, 4, 10000) (seen_query (20001, 3, 3, 3, 3, 10000)
       (snd (already_seen 20000 1 2 0x10 7 10000 aged_cache))))) = False"
  by code_simp

section \<open>On the relay path\<close>

text \<open>The packets a node passes to the relay path, and the key it remembers them by.\<close>

definition to_relay :: "MeshEnv \<Rightarrow> PacketHeader \<Rightarrow> MeshManager \<Rightarrow> bool" where
  "to_relay e h m \<longleftrightarrow> src_addr h \<noteq> mm_my_addr m \<and>
     \<not> (hdr_hop_count h = 0 \<and> list_ex (\<lambda>bp. src_addr h = bp) (mm_blocked_peers m)) \<and>
     hdr_version h = PROTOCOL_VERSION \<and> hdr_type h \<noteq> EXIT_OFFLINE \<and> hdr_ttl h \<noteq> 0 \<and> \<not> for_us e h m"

lemma note_neighbor_fields [simp]:
  "mm_out (note_neighbor e slab h m) = mm_out m" "mm_my_addr (note_neighbor e slab h m) = mm_my_addr m"
  "mm_blocked_peers (note_neighbor e slab h m) = mm_blocked_peers m" "mm_seen_cache (note_neighbor e slab h m) = mm_seen_cache m"
  "mm_seen_idx (note_neighbor e slab h m) = mm_seen_idx m" "mm_has_internet (note_neighbor e slab h m) = mm_has_internet m"
  "mm_mqtt_client (note_neighbor e slab h m) = mm_mqtt_client m"
  by (simp_all add: note_neighbor_def)

lemma process_slab_relay:
  assumes "dec_header (slab_bytes slab) = Some h" and "to_relay e h (snd s)"
  shows "process_slab ops e slab s =
    (fst s, if fst (lookup_seen (me_now e) h (snd s)) then note_neighbor e slab h (snd s)
       else forward_packet e (slab_bytes slab) h (snd (lookup_seen (me_now e) h (note_neighbor e slab h (snd s)))))"
proof -
  let ?m2 = "note_neighbor e slab h (snd s)"
  have nf: "\<not> for_us e h ?m2" using assms(2) by (simp add: to_relay_def for_us_def node_is_exit_def)
  have c: "consume_exit_offline ops e h (drop 8 (slab_bytes slab)) s = s"
    using assms(2) by (simp add: consume_exit_offline_def to_relay_def)
  have l: "fst (lookup_seen (me_now e) h ?m2) = fst (lookup_seen (me_now e) h (snd s))" by (simp add: fst_lookup_seen)
  have "process_slab ops e slab s = (fst s, if fst (lookup_seen (me_now e) h ?m2) then snd (lookup_seen (me_now e) h ?m2)
       else forward_packet e (slab_bytes slab) h (snd (lookup_seen (me_now e) h ?m2)))"
    using process_slab_eq [OF assms(1) _ _ _ _ c refl] assms(2) nf by (simp add: to_relay_def)
  then show ?thesis using l lookup_seen_True [of "me_now e" h ?m2] by auto
qed

text \<open>
  A relay forwards a packet once: after a packet went down the relay path and was not suppressed,
  a copy of it (same source, destination, type and sequence number, whatever is left of its hop
  limit) that arrives within the window of its type makes the node transmit nothing.
\<close>

theorem relay_suppresses_copy:
  assumes "dec_header (slab_bytes slab) = Some h" and "dec_header (slab_bytes slab') = Some h'"
    and "(src_addr h', dst_addr h', hdr_type h', seq_num h') = (src_addr h, dst_addr h, hdr_type h, seq_num h)"
    and "seen_ok (snd s)" and "to_relay e h (snd s)" and "\<not> fst (lookup_seen (me_now e) h (snd s))"
    and "to_relay e' h' (snd s)" and "me_now e' - me_now e < dedup_window (hdr_type h)"
  shows "mm_out (snd (process_slab ops e' slab' (process_slab ops e slab s))) = mm_out (snd (process_slab ops e slab s))"
proof -
  define m0 where "m0 = note_neighbor e slab h (snd s)"
  define m1 where "m1 = snd (lookup_seen (me_now e) h m0)"
  have f: "process_slab ops e slab s = (fst s, forward_packet e (slab_bytes slab) h m1)"
    using process_slab_relay [OF assms(1,5)] assms(6) by (simp add: m0_def m1_def)
  have ok: "seen_ok m0" using assms(4) by (simp add: m0_def seen_ok_def)
  have "\<not> fst (lookup_seen (me_now e) h m0)" using assms(6) by (simp add: m0_def fst_lookup_seen)
  then have l: "already_seen (me_now e) (src_addr h) (dst_addr h) (pt_code (hdr_type h)) (seq_num h)
      (dedup_window (hdr_type h)) m0 = (False, m1)"
    by (simp add: m1_def lookup_seen_def prod_eq_iff)
  obtain outs where "sent m1 outs (forward_packet e (slab_bytes slab) h m1)" using forward_packet_sent by blast
  note sf = sent_fields [OF this]
  let ?m2 = "forward_packet e (slab_bytes slab) h m1"
  have "mm_my_addr m1 = mm_my_addr (snd s)" "mm_blocked_peers m1 = mm_blocked_peers (snd s)"
    "mm_has_internet m1 = mm_has_internet (snd s)" "mm_mqtt_client m1 = mm_mqtt_client (snd s)"
    by (simp_all add: m1_def m0_def)
  then have relay2: "to_relay e' h' (snd (fst s, ?m2))"
    using assms(7) by (simp add: to_relay_def for_us_def node_is_exit_def sf)
  have "fst (already_seen (me_now e') (src_addr h) (dst_addr h) (pt_code (hdr_type h)) (seq_num h) (dedup_window (hdr_type h)) m1)"
    using seen_remembered [OF ok l, of "[]" "me_now e'"] assms(8) by simp
  then have "fst (lookup_seen (me_now e') h m1)" by (simp add: lookup_seen_def)
  then have "fst (lookup_seen (me_now e') h' ?m2)" using assms(3) by (simp add: fst_lookup_seen sf)
  then show ?thesis unfolding f using process_slab_relay [OF assms(2) relay2] by simp
qed

end
