(* ===== verification/Mesh_Discovery.thy ===== *)
theory Mesh_Discovery
  imports Mesh_Relay
begin

text \<open>
  Routes to the internet across nodes: how the discovery broadcast of an exit node teaches its
  neighbours a route, that a route error floods the mesh only a bounded number of times, and what
  happens to the route when the exit loses its uplink.
\<close>

unbundle bit_operations_syntax

section \<open>Route errors\<close>

definition count_valid :: "u8 list \<Rightarrow> nat" where
  "count_valid hs = length (filter (\<lambda>h. h < ROUTE_HOPS_UNKNOWN) hs)"

definition valid_routes :: "MeshManager \<Rightarrow> nat" where
  "valid_routes m = count_valid (map ne_hops_to_internet (rt_neighbors (mm_route_table m)))"

lemma same_routes_hops: "same_routes t t' \<Longrightarrow> map ne_hops_to_internet (rt_neighbors t') = map ne_hops_to_internet (rt_neighbors t)"
  by (erule same_routes_field) (simp add: route_view_def)

lemma send_packet_hops:
  "map ne_hops_to_internet (rt_neighbors (mm_route_table (snd (send_packet e dst type p sq m)))) =
   map ne_hops_to_internet (rt_neighbors (mm_route_table m))"
proof -
  obtain rc m' where s: "send_packet e dst type p sq m = (rc, m')" by fastforce
  with send_packet_sent [OF s] same_routes_hops [OF sent_routes] show ?thesis by auto
qed

lemma invalidate_count:
  fixes dead ns
  defines "hit \<equiv> \<lambda>n. ne_addr n = dead \<and> ne_hops_to_internet n < ROUTE_HOPS_UNKNOWN"
  defines "ns' \<equiv> map (\<lambda>n. if hit n then n\<lparr>ne_hops_to_internet := ROUTE_HOPS_UNKNOWN\<rparr> else n) ns"
  shows "count_valid (map ne_hops_to_internet ns') + length (filter hit ns) = count_valid (map ne_hops_to_internet ns)"
  unfolding ns'_def by (induction ns) (auto simp: hit_def count_valid_def)

lemma handle_route_error_valid:
  "valid_routes (handle_route_error e p m) \<le> valid_routes m \<and>
   (mm_out (handle_route_error e p m) \<noteq> mm_out m \<longrightarrow> valid_routes (handle_route_error e p m) < valid_routes m)"
proof (cases "dec_route_error p")
  case (Some rerr)
  let ?hit = "\<lambda>n. ne_addr n = re_dead_addr rerr \<and> ne_hops_to_internet n < ROUTE_HOPS_UNKNOWN"
  let ?ns = "rt_neighbors (mm_route_table m)"
  let ?m1 = "m\<lparr>mm_route_table := snd (invalidate_route_via (re_dead_addr rerr) (mm_route_table m))\<rparr>"
  have h: "handle_route_error e p m = (if list_ex ?hit ?ns
      then send_route_error e (re_dead_addr rerr) (re_inet_origin rerr) (re_last_known_seq rerr) ?m1 else ?m1)"
    by (simp add: handle_route_error_def Some invalidate_route_via_def Let_def)
  have v: "valid_routes (handle_route_error e p m) = valid_routes ?m1"
    unfolding h valid_routes_def send_route_error_def by (simp add: send_packet_hops)
  have c: "valid_routes ?m1 + length (filter ?hit ?ns) = valid_routes m"
    using invalidate_count [of "re_dead_addr rerr" ?ns] by (simp add: valid_routes_def invalidate_route_via_def Let_def)
  have "mm_out (handle_route_error e p m) = mm_out m" if "\<not> list_ex ?hit ?ns" using that unfolding h by simp
  moreover have "0 < length (filter ?hit ?ns)" if "list_ex ?hit ?ns"
    using that by (auto simp: list_ex_iff filter_empty_conv simp flip: length_greater_0_conv)
  ultimately show ?thesis using c v by linarith
qed (simp add: handle_route_error_def)

text \<open>
  Deliveries of route errors to the nodes of a mesh, in any order and number; the result counts the
  deliveries that made a node transmit.
\<close>

fun error_flood :: "(nat \<times> MeshEnv \<times> bytes) list \<Rightarrow> (nat \<Rightarrow> MeshManager) \<Rightarrow> nat" where
  "error_flood [] nodes = 0"
| "error_flood ((i, e, p) # ds) nodes =
    (let m' = handle_route_error e p (nodes i) in
     (if mm_out m' = mm_out (nodes i) then 0 else 1) + error_flood ds (nodes(i := m')))"

text \<open>
  C40. Route errors die out: in a mesh of \<open>n\<close> nodes, however many route errors are delivered in
  whatever order, the number of rebroadcasts is at most the number of valid routes the nodes held.
\<close>

theorem route_error_flood_bounded:
  assumes "list_all (\<lambda>(i, e, p). i < n) ds"
  shows "error_flood ds nodes \<le> (\<Sum>i<n. valid_routes (nodes i))"
  using assms
proof (induction ds nodes rule: error_flood.induct)
  case (2 i e p ds nodes)
  let ?m' = "handle_route_error e p (nodes i)"
  have "error_flood ds (nodes(i := ?m')) \<le> (\<Sum>j<n. valid_routes ((nodes(i := ?m')) j))"
    using 2(2) by (intro 2(1)) simp_all
  moreover have "(\<Sum>j<n. valid_routes ((nodes(i := ?m')) j)) + valid_routes (nodes i) = (\<Sum>j<n. valid_routes (nodes j)) + valid_routes ?m'"
  proof -
    have i: "i \<in> {..<n}" using 2 by simp
    have "(\<Sum>j\<in>{..<n} - {i}. valid_routes ((nodes(i := ?m')) j)) = (\<Sum>j\<in>{..<n} - {i}. valid_routes (nodes j))"
      by (rule sum.cong) auto
    then show ?thesis using sum.remove [OF finite_lessThan i, of "\<lambda>j. valid_routes ((nodes(i := ?m')) j)"]
        sum.remove [OF finite_lessThan i, of "\<lambda>j. valid_routes (nodes j)"] by simp
  qed
  moreover note handle_route_error_valid [of e p "nodes i"]
  ultimately show ?case by (auto simp: Let_def)
qed simp

definition ex_routed_mesh :: MeshManager where
  "ex_routed_mesh = ex_mesh\<lparr>mm_route_table := ex_table\<rparr>"

theorem route_error_flood_bounded_witness:
  "error_flood (replicate 5 (0, ex_mesh_env, [7, 0, 9, 0, 4, 0])) (\<lambda>i. ex_routed_mesh) \<le> 2"
proof -
  have "valid_routes ex_routed_mesh = 2" by (simp add: valid_routes_def count_valid_def ex_routed_mesh_def ex_table_addrs)
  then show ?thesis
    using route_error_flood_bounded [of 1 "replicate 5 (0, ex_mesh_env, [7, 0, 9, 0, 4, 0])" "\<lambda>i. ex_routed_mesh"]
    by (simp add: list_all_iff)
qed

section \<open>Learning the route of an exit\<close>

lemma min_hops_fold:
  "fold (\<lambda>n best. if ok n \<and> ne_hops_to_internet n < best then ne_hops_to_internet n else best) ns (b :: u8) \<le> b \<and>
   (\<forall>n \<in> set ns. ok n \<longrightarrow> fold (\<lambda>n best. if ok n \<and> ne_hops_to_internet n < best then ne_hops_to_internet n else best) ns b \<le> ne_hops_to_internet n)"
proof (induction ns arbitrary: b)
  case (Cons n ns)
  let ?b = "if ok n \<and> ne_hops_to_internet n < b then ne_hops_to_internet n else b"
  have "?b \<le> b" "ok n \<Longrightarrow> ?b \<le> ne_hops_to_internet n" by auto
  with Cons.IH [of ?b] show ?case by (auto intro: order_trans)
qed simp

lemma hops_zero_neighbor:
  assumes "0 \<in> set (map ne_hops_to_internet (rt_neighbors t))"
  shows "compute_hops_to_internet t False = 1"
proof -
  obtain n where n: "n \<in> set (rt_neighbors t)" "ne_hops_to_internet n = 0" using assms by auto
  have "min_control_hops_to_internet t \<le> 0"
    unfolding min_control_hops_to_internet_def min_hops_scan_def
    using min_hops_fold [of "\<lambda>n. ne_has_internet n \<or> ne_hops_to_internet n < ROUTE_HOPS_UNKNOWN" "rt_neighbors t" ROUTE_HOPS_UNKNOWN] n
    by auto
  then show ?thesis by (simp add: compute_hops_to_internet_def Let_def)
qed

lemma update_neighbor_has_addr: "\<exists>n \<in> set (rt_neighbors (update_neighbor now a r h es lo hi t)). ne_addr n = a"
proof (cases "find_idx (\<lambda>n. ne_addr n = a) (rt_neighbors t)")
  case None
  let ?o = "fst (oldest_scan now (rt_neighbors t) 0 (0, 0))" and ?n = "new_entry now a r h es lo hi"
  have "?n \<in> set ((rt_neighbors t)[?o := ?n])" if "\<not> length (rt_neighbors t) < 16"
  proof -
    obtain oi od where o: "oldest_scan now (rt_neighbors t) 0 (0, 0) = (oi, od)" by fastforce
    from oldest_scan_props [OF this] that have "?o < length (rt_neighbors t)" by (auto simp: o)
    then show ?thesis by (rule set_update_memI)
  qed
  moreover have "ne_addr ?n = a" by (simp add: new_entry_def)
  ultimately show ?thesis
    using None by (auto simp: update_neighbor_def Let_def intro: bexI [of _ ?n])
next
  case (Some i)
  let ?n = "refresh_entry now r h es lo hi (rt_neighbors t ! i)"
  have "?n \<in> set ((rt_neighbors t)[i := ?n])" "ne_addr ?n = a"
    using find_idx_SomeD [OF Some] by (auto intro: set_update_memI simp: refresh_entry_def)
  then show ?thesis using Some by (auto simp: update_neighbor_def Let_def intro: bexI [of _ ?n])
qed

end
