(* ===== verification/Mqtt_Client.thy ===== *)
theory Mqtt_Client
  imports Mesh_Bridge Topic_Table Arq_Receiver
begin

text \<open>
  Model of \<^verbatim>\<open>components/mqtt_client/mqtt_client.cpp\<close>: the queues between the mesh task and the MQTT
  task, the custody of relayed fragments (queued, accepted, acknowledged), transfer sessions, and the
  handling of broker events. The model starts after an \<open>init\<close> that could create every queue and the
  mutex. FreeRTOS queues are lists with a depth; what the esp-mqtt library answers and the ROM
  checksum are the environment \<open>MqttEnv\<close>; what the client hands to esp-mqtt is logged in \<open>mq_out\<close>,
  publications with the message id they were answered with.
  Task notifications only schedule the MQTT task and are left out.
\<close>

unbundle bit_operations_syntax

section \<open>State\<close>

abbreviation (input) MQTT_CHUNK_PAYLOAD :: nat where "MQTT_CHUNK_PAYLOAD \<equiv> 500"
abbreviation (input) MQTT_PUBLISH_QUEUE_DEPTH :: nat where "MQTT_PUBLISH_QUEUE_DEPTH \<equiv> 16"
abbreviation (input) MQTT_FILE_QUEUE_DEPTH :: nat where "MQTT_FILE_QUEUE_DEPTH \<equiv> 2"
abbreviation (input) MQTT_ACK_QUEUE_DEPTH :: nat where "MQTT_ACK_QUEUE_DEPTH \<equiv> 32"
abbreviation (input) MQTT_NACK_QUEUE_DEPTH :: nat where "MQTT_NACK_QUEUE_DEPTH \<equiv> 16"
abbreviation (input) MQTT_CMD_QUEUE_DEPTH :: nat where "MQTT_CMD_QUEUE_DEPTH \<equiv> 8"
abbreviation (input) MQTT_TRANSFER_COMPLETE_QUEUE_DEPTH :: nat where "MQTT_TRANSFER_COMPLETE_QUEUE_DEPTH \<equiv> 8"
abbreviation (input) MQTT_OUTBOX_HIGH_WATER_BYTES :: int where "MQTT_OUTBOX_HIGH_WATER_BYTES \<equiv> 48 * 1024"
abbreviation (input) MAX_TRACKED_TRANSFER_FRAGMENTS :: nat where "MAX_TRACKED_TRANSFER_FRAGMENTS \<equiv> 60000"
abbreviation (input) RECENT_PUBLISH_RING_SIZE :: nat where "RECENT_PUBLISH_RING_SIZE \<equiv> 64"
abbreviation (input) RECENT_PUBLISH_REPLAY_MS :: u32 where "RECENT_PUBLISH_REPLAY_MS \<equiv> 15000"

text \<open>
  The depth of the fragment queue: 512 legacy requests of 296 bytes (three 16-bit fields, 250 data
  bytes, a 32-bit length and a 33-byte name, padded to 4) divided by the size of a request today.
\<close>

definition MQTT_FRAGMENT_QUEUE_DEPTH :: nat where
  "MQTT_FRAGMENT_QUEUE_DEPTH =
    (let budget = 512 * 296; item = ((6 + MAX_MTU + 3) div 4 * 4 + 4 + 33 + 3) div 4 * 4
     in if 0 < budget div item then budget div item else 1)"

definition FRAGMENT_BITMAP_BYTES :: nat where
  "FRAGMENT_BITMAP_BYTES = (MAX_TRACKED_TRANSFER_FRAGMENTS + 7) div 8"

record MqttPublishItem =
  pi_topic_id :: u16
  pi_data :: bytes
  pi_qos :: int

record FilePublishRequest =
  fp_filename :: string
  fp_data :: bytes
  fp_src_node :: u16

record FragmentPublishRequest =
  fr_session_id :: u16
  fr_seq :: u16
  fr_src_node :: u16
  fr_data :: bytes
  fr_filename :: string

text \<open>The items of the ACK, NACK and fragment ACK queues are pairs of session and sequence number.\<close>

type_synonym CloudItem = "u16 \<times> u16"

record RecentPublishEntry =
  rp_session_id :: u16
  rp_seq :: u16
  rp_publish_ms :: u32

datatype mqtt_out = Broker_publish string bytes int int | Broker_subscribe string int

text \<open>\<open>mq_pending_fragment\<close> is \<open>pending_fragment_\<close> when \<open>have_pending_fragment_\<close> is set.\<close>

record MqttClient =
  mq_topic_table :: TopicTable
  mq_connected :: bool
  mq_node_addr :: u16
  mq_status_topic_id :: u16
  mq_publish_queue :: "MqttPublishItem list"
  mq_file_publish_queue :: "FilePublishRequest list"
  mq_fragment_publish_queue :: "FragmentPublishRequest list"
  mq_ack_queue :: "CloudItem list"
  mq_nack_queue :: "CloudItem list"
  mq_cmd_queue :: "MeshCmdItem list"
  mq_fragment_ack_queue :: "CloudItem list"
  mq_transfer_complete_queue :: "u16 list"
  mq_active_transfer_session :: u16
  mq_pending_fragment :: "FragmentPublishRequest option"
  mq_fragment_queued :: bytes
  mq_fragment_accepted :: bytes
  mq_fragment_ack_pending :: bytes
  mq_recent_publish_ring :: "RecentPublishEntry list"
  mq_recent_publish_write :: nat
  mq_out :: "mqtt_out list"

text \<open>
  \<open>qe_publish n\<close> is the message id esp-mqtt returns for the publication made when \<open>n\<close> entries
  were logged (negative on failure), \<open>qe_mutex\<close> the outcome of the timed \<open>xSemaphoreTake\<close>.
\<close>

record MqttEnv =
  qe_now :: u32
  qe_publish :: "nat \<Rightarrow> int"
  qe_outbox_size :: int
  qe_crc32 :: "bytes \<Rightarrow> u32"
  qe_mutex :: bool
  qe_topic_taken :: bool

definition zero_bitmap :: bytes where "zero_bitmap = replicate FRAGMENT_BITMAP_BYTES 0"

definition zero_ring :: "RecentPublishEntry list" where
  "zero_ring = replicate RECENT_PUBLISH_RING_SIZE \<lparr>rp_session_id = 0, rp_seq = 0, rp_publish_ms = 0\<rparr>"

definition MqttClient_new :: "u16 \<Rightarrow> MqttClient" where
  "MqttClient_new addr = \<lparr>mq_topic_table = TopicTable_new True, mq_connected = False, mq_node_addr = addr,
     mq_status_topic_id = 0, mq_publish_queue = [], mq_file_publish_queue = [], mq_fragment_publish_queue = [],
     mq_ack_queue = [], mq_nack_queue = [], mq_cmd_queue = [], mq_fragment_ack_queue = [],
     mq_transfer_complete_queue = [], mq_active_transfer_session = 0, mq_pending_fragment = None,
     mq_fragment_queued = zero_bitmap, mq_fragment_accepted = zero_bitmap, mq_fragment_ack_pending = zero_bitmap,
     mq_recent_publish_ring = zero_ring, mq_recent_publish_write = 0, mq_out = []\<rparr>"

section \<open>Queues and bitmaps\<close>

definition q_send :: "nat \<Rightarrow> 'a \<Rightarrow> 'a list \<Rightarrow> bool \<times> 'a list" where
  "q_send depth x q = (if length q < depth then (True, q @ [x]) else (False, q))"

definition q_send_front :: "nat \<Rightarrow> 'a \<Rightarrow> 'a list \<Rightarrow> bool \<times> 'a list" where
  "q_send_front depth x q = (if length q < depth then (True, x # q) else (False, q))"

text \<open>
  The loop of the drain functions: at most \<open>n\<close> items are received; the first that belongs to the
  session is returned, the others go back to the end of the queue.
\<close>

fun q_drain :: "nat \<Rightarrow> ('a \<Rightarrow> bool) \<Rightarrow> 'a list \<Rightarrow> 'a option \<times> 'a list" where
  "q_drain 0 ok q = (None, q)"
| "q_drain (Suc n) ok [] = (None, [])"
| "q_drain (Suc n) ok (x # q) = (if ok x then (Some x, q) else q_drain n ok (q @ [x]))"

definition is_trackable_fragment :: "u16 \<Rightarrow> bool" where
  "is_trackable_fragment sq \<longleftrightarrow> unat sq < MAX_TRACKED_TRANSFER_FRAGMENTS"

definition bitmap_test :: "bytes \<Rightarrow> u16 \<Rightarrow> bool" where
  "bitmap_test bm sq \<longleftrightarrow> is_trackable_fragment sq \<and> bm_test bm (unat sq div 8) (unat sq)"

definition bitmap_set :: "bytes \<Rightarrow> u16 \<Rightarrow> bytes" where
  "bitmap_set bm sq = (if is_trackable_fragment sq then bm_set bm (unat sq) else bm)"

definition bitmap_clear :: "bytes \<Rightarrow> u16 \<Rightarrow> bytes" where
  "bitmap_clear bm sq = (if is_trackable_fragment sq
     then bm[unat sq div 8 := bm ! (unat sq div 8) AND NOT (bit_mask (unat sq))] else bm)"

definition queue_fragment_ack :: "u16 \<Rightarrow> u16 \<Rightarrow> MqttClient \<Rightarrow> bool \<times> MqttClient" where
  "queue_fragment_ack session_id sq q =
    (if bitmap_test (mq_fragment_ack_pending q) sq then (True, q)
     else case q_send MQTT_FRAGMENT_QUEUE_DEPTH (session_id, sq) (mq_fragment_ack_queue q) of
       (False, _) \<Rightarrow> (False, q)
     | (True, aq) \<Rightarrow> (True, q\<lparr>mq_fragment_ack_queue := aq,
         mq_fragment_ack_pending := bitmap_set (mq_fragment_ack_pending q) sq\<rparr>))"

definition is_fragment_queue_congested :: "MqttClient \<Rightarrow> bool" where
  "is_fragment_queue_congested q \<longleftrightarrow>
     mq_active_transfer_session q \<noteq> 0 \<and> \<not> mq_connected q \<or> mq_pending_fragment q \<noteq> None \<or>
     MQTT_FRAGMENT_QUEUE_DEPTH - length (mq_fragment_publish_queue q) < MQTT_FRAGMENT_QUEUE_DEPTH div 4"

section \<open>Sessions\<close>

definition reset_transfer_runtime_state :: "MqttClient \<Rightarrow> MqttClient" where
  "reset_transfer_runtime_state q = q\<lparr>mq_fragment_publish_queue := [], mq_fragment_ack_queue := [],
     mq_ack_queue := [], mq_nack_queue := [], mq_transfer_complete_queue := [], mq_pending_fragment := None,
     mq_fragment_queued := zero_bitmap, mq_fragment_accepted := zero_bitmap,
     mq_fragment_ack_pending := zero_bitmap, mq_recent_publish_ring := zero_ring, mq_recent_publish_write := 0\<rparr>"

definition activate_transfer_session :: "u16 \<Rightarrow> MqttClient \<Rightarrow> MqttClient" where
  "activate_transfer_session session_id q =
    (let q1 = q\<lparr>mq_active_transfer_session := session_id\<rparr>
     in if mq_active_transfer_session q \<noteq> session_id then reset_transfer_runtime_state q1 else q1)"

definition clear_transfer_session :: "u16 \<Rightarrow> MqttClient \<Rightarrow> MqttClient" where
  "clear_transfer_session session_id q =
    (if mq_active_transfer_session q = session_id
     then reset_transfer_runtime_state (q\<lparr>mq_active_transfer_session := 0\<rparr>) else q)"

section \<open>Publishing\<close>

definition esp_publish :: "MqttEnv \<Rightarrow> string \<Rightarrow> bytes \<Rightarrow> int \<Rightarrow> MqttClient \<Rightarrow> int \<times> MqttClient" where
  "esp_publish e topic data qos q =
    (let msg_id = qe_publish e (length (mq_out q))
     in (msg_id, q\<lparr>mq_out := mq_out q @ [Broker_publish topic data qos msg_id]\<rparr>))"

definition esp_subscribe :: "string \<Rightarrow> int \<Rightarrow> MqttClient \<Rightarrow> MqttClient" where
  "esp_subscribe topic qos q = q\<lparr>mq_out := mq_out q @ [Broker_subscribe topic qos]\<rparr>"

text \<open>C strings are char lists without the terminating zero.\<close>

definition str_bytes :: "string \<Rightarrow> bytes" where "str_bytes s = map of_char s"

definition bytes_str :: "bytes \<Rightarrow> string" where "bytes_str bs = map (\<lambda>b. char_of (unat b)) bs"

definition hex4_lower :: "u16 \<Rightarrow> string" where
  "hex4_lower w = map (\<lambda>i. ''0123456789abcdef'' ! (unat w div 16 ^ i mod 16)) [3, 2, 1, 0]"

fun dec_str :: "nat \<Rightarrow> string" where
  "dec_str n = (if n < 10 then [char_of (48 + n)] else dec_str (n div 10) @ [char_of (48 + n mod 10)])"

declare dec_str.simps [simp del]

definition register_default_topics :: "MqttEnv \<Rightarrow> MqttClient \<Rightarrow> MqttClient" where
  "register_default_topics e q =
    (let reg = (\<lambda>name t. register_topic (qe_topic_taken e) (Some (str_bytes name)) t);
         node = ''flp/'' @ hex4_lower (mq_node_addr q);
         (status_id, t1) = reg (node @ ''/status'') (mq_topic_table q);
         t2 = snd (reg (node @ ''/file/data'') t1);
         t3 = snd (reg (node @ ''/file/meta'') t2);
         t4 = snd (reg ''flp/admin/cmd'' t3);
         t5 = snd (reg ''flp/admin/ack/+'' t4)
     in q\<lparr>mq_status_topic_id := status_id, mq_topic_table := t5\<rparr>)"

text \<open>A null \<open>data\<close> pointer is \<open>None\<close>; with length 0 it is the empty list.\<close>

definition mq_publish :: "MqttEnv \<Rightarrow> u16 \<Rightarrow> bytes option \<Rightarrow> int \<Rightarrow> MqttClient \<Rightarrow> int \<times> MqttClient" where
  "mq_publish e topic_id data qos q =
    (case data of
       None \<Rightarrow> (- 1, q)
     | Some d \<Rightarrow>
         case lookup_topic (qe_topic_taken e) topic_id (mq_topic_table q) of
           None \<Rightarrow> (- 1, q)
         | Some topic \<Rightarrow>
             if mq_connected q then esp_publish e (bytes_str topic) d qos q
             else if length d \<le> MAX_MTU then
               case q_send MQTT_PUBLISH_QUEUE_DEPTH \<lparr>pi_topic_id = topic_id, pi_data = d, pi_qos = qos\<rparr> (mq_publish_queue q) of
                 (False, _) \<Rightarrow> (- 1, q)
               | (True, pq) \<Rightarrow> (0, q\<lparr>mq_publish_queue := pq\<rparr>)
             else (0, q))"

definition mqtt_publish_raw :: "MqttEnv \<Rightarrow> string \<Rightarrow> bytes option \<Rightarrow> int \<Rightarrow> MqttClient \<Rightarrow> int \<times> MqttClient" where
  "mqtt_publish_raw e topic data qos q =
    (case data of
       None \<Rightarrow> (- 1, q)
     | Some d \<Rightarrow> if \<not> mq_connected q then (- 1, q) else esp_publish e topic d qos q)"

definition publish_file :: "string \<Rightarrow> bytes \<Rightarrow> u16 \<Rightarrow> MqttClient \<Rightarrow> MqttClient" where
  "publish_file filename data src_node q =
    (if length data = 0 then q
     else q\<lparr>mq_file_publish_queue := snd (q_send MQTT_FILE_QUEUE_DEPTH
       \<lparr>fp_filename = take 32 filename, fp_data = take MAX_MTU data, fp_src_node = src_node\<rparr>
       (mq_file_publish_queue q))\<rparr>)"

text \<open>\<open>snprintf\<close> of a JSON document into 256 bytes; \<open>None\<close> when it does not fit.\<close>

definition json_256 :: "string \<Rightarrow> string option" where
  "json_256 s = (if s = [] \<or> 256 \<le> length s then None else Some s)"

abbreviation (input) dq :: string where "dq \<equiv> [CHR 0x22]"

definition json_field :: "string \<Rightarrow> string \<Rightarrow> string" where
  "json_field key val = dq @ key @ dq @ '':'' @ val"

definition json_string :: "string \<Rightarrow> string" where "json_string s = dq @ s @ dq"

definition file_chunk :: "bytes \<Rightarrow> nat \<Rightarrow> bytes" where
  "file_chunk data sq = le16 (of_nat sq) @ take MQTT_CHUNK_PAYLOAD (drop (sq * MQTT_CHUNK_PAYLOAD) data)"

definition process_file_publish :: "MqttEnv \<Rightarrow> FilePublishRequest \<Rightarrow> MqttClient \<Rightarrow> MqttClient" where
  "process_file_publish e req q =
    (if \<not> mq_connected q then q
     else
       let size = length (fp_data req);
           chunk_count = (size + MQTT_CHUNK_PAYLOAD - 1) div MQTT_CHUNK_PAYLOAD mod 2 ^ 16;
           node = ''flp/'' @ hex4_lower (mq_node_addr q);
           json = ''{'' @ json_field ''session_id'' (dec_str (unat (qe_now e))) @ '','' @
             json_field ''filename'' (json_string (fp_filename req)) @ '','' @
             json_field ''total_size'' (dec_str size) @ '','' @
             json_field ''chunk_count'' (dec_str chunk_count) @ '','' @
             json_field ''src_node'' (json_string (''0x'' @ hex4 (fp_src_node req))) @ '','' @
             json_field ''crc32'' (dec_str (unat (qe_crc32 e (fp_data req)))) @ ''}''
       in case json_256 json of
            None \<Rightarrow> q
          | Some meta \<Rightarrow>
              fold (\<lambda>sq q. snd (esp_publish e (node @ ''/file/data'') (file_chunk (fp_data req) sq) 1 q))
                [0..<chunk_count] (snd (esp_publish e (node @ ''/file/meta'') (str_bytes meta) 1 q)))"

definition transfer_meta_json :: "u16 \<Rightarrow> string \<Rightarrow> u16 \<Rightarrow> u16 \<Rightarrow> u32 \<Rightarrow> u16 \<Rightarrow> u16 \<Rightarrow> u32 \<Rightarrow> string" where
  "transfer_meta_json session_id filename src_node exit_node total_size chunk_count fragment_size crc32 =
     ''{'' @ json_field ''session_id'' (dec_str (unat session_id)) @ '','' @
     json_field ''filename'' (json_string filename) @ '','' @
     json_field ''src_node'' (json_string (''0x'' @ hex4 src_node)) @ '','' @
     json_field ''exit_node'' (json_string (''0x'' @ hex4 exit_node)) @ '','' @
     json_field ''total_size'' (dec_str (unat total_size)) @ '','' @
     json_field ''chunk_count'' (dec_str (unat chunk_count)) @ '','' @
     json_field ''fragment_size'' (dec_str (unat fragment_size)) @ '','' @
     json_field ''crc32'' (dec_str (unat crc32)) @ ''}''"

definition publish_transfer_meta ::
  "MqttEnv \<Rightarrow> u16 \<Rightarrow> string \<Rightarrow> u16 \<Rightarrow> u16 \<Rightarrow> u32 \<Rightarrow> u16 \<Rightarrow> u16 \<Rightarrow> u32 \<Rightarrow> MqttClient \<Rightarrow> MqttClient" where
  "publish_transfer_meta e session_id filename src_node exit_node total_size chunk_count fragment_size crc32 q =
    (let q1 = activate_transfer_session session_id q in
     if MQTT_OUTBOX_HIGH_WATER_BYTES \<le> qe_outbox_size e then q1
     else
       case json_256 (transfer_meta_json session_id filename src_node exit_node total_size chunk_count fragment_size crc32) of
         None \<Rightarrow> q1
       | Some meta \<Rightarrow>
           if mq_connected q1
           then esp_subscribe (''flp/admin/transfer_nack/'' @ dec_str (unat session_id)) 1
                  (snd (esp_publish e (''flp/'' @ hex4_lower (mq_node_addr q1) @ ''/file/meta'') (str_bytes meta) 1 q1))
           else q1)"

section \<open>Fragments\<close>

definition publish_fragment :: "u16 \<Rightarrow> u16 \<Rightarrow> u16 \<Rightarrow> bytes option \<Rightarrow> string option \<Rightarrow> MqttClient \<Rightarrow> bool \<times> MqttClient" where
  "publish_fragment session_id sq src_node data filename q =
    (case (data, filename) of
       (Some d, Some name) \<Rightarrow>
         if length d = 0 then (False, q)
         else
           let req = \<lparr>fr_session_id = session_id, fr_seq = sq, fr_src_node = src_node,
                      fr_data = take MAX_MTU d, fr_filename = take 32 name\<rparr>;
               active_session = mq_active_transfer_session q in
           if active_session \<noteq> 0 \<and> session_id \<noteq> active_session then (False, q)
           else
             let already_accepted = bitmap_test (mq_fragment_accepted q) sq;
                 already_queued = bitmap_test (mq_fragment_queued q) sq in
             if already_accepted \<or> already_queued then
               (True, if already_accepted \<and> src_node \<noteq> mq_node_addr q
                      then snd (queue_fragment_ack session_id sq q) else q)
             else case q_send MQTT_FRAGMENT_QUEUE_DEPTH req (mq_fragment_publish_queue q) of
                 (False, _) \<Rightarrow> (False, q)
               | (True, fq) \<Rightarrow> (True, q\<lparr>mq_fragment_publish_queue := fq,
                   mq_fragment_queued := bitmap_set (mq_fragment_queued q) sq\<rparr>)
     | _ \<Rightarrow> (False, q))"

text \<open>The fragment the publishing loop looks at next: the deferred one, else the head of the queue.\<close>

definition next_fragment :: "MqttClient \<Rightarrow> (FragmentPublishRequest \<times> bool \<times> MqttClient) option" where
  "next_fragment q =
    (case mq_pending_fragment q of
       Some req \<Rightarrow> Some (req, True, q)
     | None \<Rightarrow> (case mq_fragment_publish_queue q of
         [] \<Rightarrow> None | req # rest \<Rightarrow> Some (req, False, q\<lparr>mq_fragment_publish_queue := rest\<rparr>)))"

definition drop_stale :: "FragmentPublishRequest \<Rightarrow> bool \<Rightarrow> MqttClient \<Rightarrow> MqttClient" where
  "drop_stale req from_pending q = q\<lparr>mq_fragment_queued := bitmap_clear (mq_fragment_queued q) (fr_seq req),
     mq_pending_fragment := (if from_pending then None else mq_pending_fragment q)\<rparr>"

definition fragment_chunk :: "FragmentPublishRequest \<Rightarrow> bytes" where
  "fragment_chunk req = le16 (fr_session_id req) @ le16 (fr_seq req) @ fr_data req"

definition note_published :: "MqttEnv \<Rightarrow> FragmentPublishRequest \<Rightarrow> bool \<Rightarrow> MqttClient \<Rightarrow> MqttClient" where
  "note_published e req from_pending q =
    (let q1 = q\<lparr>mq_pending_fragment := (if from_pending then None else mq_pending_fragment q),
           mq_fragment_queued := bitmap_clear (mq_fragment_queued q) (fr_seq req),
           mq_fragment_accepted := bitmap_set (mq_fragment_accepted q) (fr_seq req),
           mq_recent_publish_ring := (mq_recent_publish_ring q)[mq_recent_publish_write q :=
             \<lparr>rp_session_id = fr_session_id req, rp_seq = fr_seq req, rp_publish_ms = qe_now e\<rparr>],
           mq_recent_publish_write := (mq_recent_publish_write q + 1) mod RECENT_PUBLISH_RING_SIZE\<rparr>
     in if fr_src_node req \<noteq> mq_node_addr q1
        then snd (queue_fragment_ack (fr_session_id req) (fr_seq req) q1) else q1)"

text \<open>
  One turn of the loop of \<open>process_fragment_publish\<close>, and whether the loop goes on. The state in
  which the loop ends when nothing is left is the same.
\<close>

definition fragment_turn :: "MqttEnv \<Rightarrow> MqttClient \<Rightarrow> bool \<times> MqttClient" where
  "fragment_turn e q =
    (case next_fragment q of
       None \<Rightarrow> (False, q)
     | Some (req, from_pending, q1) \<Rightarrow>
         let active_session = mq_active_transfer_session q1 in
         if active_session = 0 \<or> fr_session_id req \<noteq> active_session then (True, drop_stale req from_pending q1)
         else
           let (msg_id, q2) = esp_publish e (''flp/'' @ hex4_lower (mq_node_addr q1) @ ''/file/data'')
                 (fragment_chunk req) 0 q1 in
           if msg_id < 0 then (False, q2\<lparr>mq_pending_fragment := Some req\<rparr>)
           else (True, note_published e req from_pending q2))"

definition fragments_waiting :: "MqttClient \<Rightarrow> nat" where
  "fragments_waiting q = length (mq_fragment_publish_queue q) + (case mq_pending_fragment q of None \<Rightarrow> 0 | Some _ \<Rightarrow> 1)"

lemma queue_fragment_ack_waiting [simp]:
  "mq_fragment_publish_queue (snd (queue_fragment_ack s sq q)) = mq_fragment_publish_queue q"
  "mq_pending_fragment (snd (queue_fragment_ack s sq q)) = mq_pending_fragment q"
  by (auto simp: queue_fragment_ack_def q_send_def)

lemma fragment_turn_decreases:
  assumes "fragment_turn e q = (True, q')"
  shows "fragments_waiting q' < fragments_waiting q"
  using assms
  by (auto simp: fragment_turn_def next_fragment_def drop_stale_def note_published_def esp_publish_def
      fragments_waiting_def Let_def split: option.splits list.splits if_splits)

function fragment_loop :: "MqttEnv \<Rightarrow> MqttClient \<Rightarrow> MqttClient" where
  "fragment_loop e q = (case fragment_turn e q of (True, q') \<Rightarrow> fragment_loop e q' | (False, q') \<Rightarrow> q')"
  by auto
termination
  by (relation "measure (\<lambda>(e, q). fragments_waiting q)") (auto dest: fragment_turn_decreases [OF sym])

declare fragment_loop.simps [simp del]

definition process_fragment_publish :: "MqttEnv \<Rightarrow> MqttClient \<Rightarrow> MqttClient" where
  "process_fragment_publish e q = (if \<not> mq_connected q then q else fragment_loop e q)"

text \<open>
  One iteration of \<open>run\<close> after the wait; \<open>heartbeat\<close> says that the heartbeat interval has elapsed.
\<close>

definition publish_item :: "MqttEnv \<Rightarrow> MqttPublishItem \<Rightarrow> MqttClient \<Rightarrow> MqttClient" where
  "publish_item e item q =
    (case lookup_topic (qe_topic_taken e) (pi_topic_id item) (mq_topic_table q) of
       None \<Rightarrow> q | Some topic \<Rightarrow> snd (esp_publish e (bytes_str topic) (pi_data item) (pi_qos item) q))"

definition mqtt_run_once :: "MqttEnv \<Rightarrow> bool \<Rightarrow> MqttClient \<Rightarrow> MqttClient" where
  "mqtt_run_once e heartbeat q =
    (let q1 = (if mq_connected q then (fold (publish_item e) (mq_publish_queue q) q)\<lparr>mq_publish_queue := []\<rparr> else q);
         q2 = (if mq_connected q1 then case mq_file_publish_queue q1 of
                 [] \<Rightarrow> q1 | req # rest \<Rightarrow> process_file_publish e req (q1\<lparr>mq_file_publish_queue := rest\<rparr>)
               else q1);
         q3 = process_fragment_publish e q2
     in if heartbeat \<and> mq_connected q3 then
          case lookup_topic (qe_topic_taken e) (mq_status_topic_id q3) (mq_topic_table q3) of
            None \<Rightarrow> q3 | Some topic \<Rightarrow> snd (esp_publish e (bytes_str topic) (str_bytes ''online'') 0 q3)
        else q3)"

section \<open>The interface to the transfer engine\<close>

definition receive_cmd :: "MqttClient \<Rightarrow> MeshCmdItem option \<times> MqttClient" where
  "receive_cmd q = (case mq_cmd_queue q of [] \<Rightarrow> (None, q) | c # cs \<Rightarrow> (Some c, q\<lparr>mq_cmd_queue := cs\<rparr>))"

definition drain_cloud_ack :: "u16 \<Rightarrow> MqttClient \<Rightarrow> u16 option \<times> MqttClient" where
  "drain_cloud_ack session_id q =
    (let (r, aq) = q_drain (length (mq_ack_queue q)) (\<lambda>it. fst it = session_id) (mq_ack_queue q)
     in (map_option snd r, q\<lparr>mq_ack_queue := aq\<rparr>))"

definition drain_cloud_nack :: "u16 \<Rightarrow> MqttClient \<Rightarrow> u16 option \<times> MqttClient" where
  "drain_cloud_nack session_id q =
    (let (r, nq) = q_drain (length (mq_nack_queue q)) (\<lambda>it. fst it = session_id) (mq_nack_queue q)
     in (map_option snd r, q\<lparr>mq_nack_queue := nq\<rparr>))"

definition requeue_cloud_nack :: "u16 \<Rightarrow> u16 \<Rightarrow> MqttClient \<Rightarrow> bool \<times> MqttClient" where
  "requeue_cloud_nack session_id sq q =
    (let (ok, nq) = q_send_front MQTT_NACK_QUEUE_DEPTH (session_id, sq) (mq_nack_queue q)
     in (ok, q\<lparr>mq_nack_queue := nq\<rparr>))"

definition mark_fragment_for_republish :: "u16 \<Rightarrow> u16 \<Rightarrow> MqttClient \<Rightarrow> MqttClient" where
  "mark_fragment_for_republish session_id sq q =
    (if mq_active_transfer_session q = 0 \<or> session_id \<noteq> mq_active_transfer_session q then q
     else q\<lparr>mq_fragment_accepted := bitmap_clear (mq_fragment_accepted q) sq\<rparr>)"

definition drain_fragment_ack :: "u16 \<Rightarrow> MqttClient \<Rightarrow> u16 option \<times> MqttClient" where
  "drain_fragment_ack session_id q =
    (case q_drain (length (mq_fragment_ack_queue q)) (\<lambda>it. fst it = session_id) (mq_fragment_ack_queue q) of
       (None, aq) \<Rightarrow> (None, q\<lparr>mq_fragment_ack_queue := aq\<rparr>)
     | (Some it, aq) \<Rightarrow> (Some (snd it), q\<lparr>mq_fragment_ack_queue := aq,
         mq_fragment_ack_pending := bitmap_clear (mq_fragment_ack_pending q) (snd it)\<rparr>))"

definition requeue_fragment_ack :: "u16 \<Rightarrow> u16 \<Rightarrow> MqttClient \<Rightarrow> bool \<times> MqttClient" where
  "requeue_fragment_ack session_id sq q =
    (if bitmap_test (mq_fragment_ack_pending q) sq then (True, q)
     else case q_send_front MQTT_FRAGMENT_QUEUE_DEPTH (session_id, sq) (mq_fragment_ack_queue q) of
       (False, _) \<Rightarrow> (False, q)
     | (True, aq) \<Rightarrow> (True, q\<lparr>mq_fragment_ack_queue := aq,
         mq_fragment_ack_pending := bitmap_set (mq_fragment_ack_pending q) sq\<rparr>))"

definition consume_transfer_complete :: "u16 \<Rightarrow> MqttClient \<Rightarrow> bool \<times> MqttClient" where
  "consume_transfer_complete session_id q =
    (let (r, cq) = q_drain (length (mq_transfer_complete_queue q)) (\<lambda>s. s = session_id) (mq_transfer_complete_queue q)
     in (r \<noteq> None, q\<lparr>mq_transfer_complete_queue := cq\<rparr>))"

section \<open>Broker events\<close>

definition c_isspace :: "char \<Rightarrow> bool" where
  "c_isspace c \<longleftrightarrow> c \<in> set [CHR 0x20, CHR 0x09, CHR 0x0A, CHR 0x0B, CHR 0x0C, CHR 0x0D]"

definition c_isdigit :: "char \<Rightarrow> bool" where
  "c_isdigit c \<longleftrightarrow> 48 \<le> (of_char c :: nat) \<and> (of_char c :: nat) \<le> 57"

definition dec_val :: "string \<Rightarrow> int" where
  "dec_val ds = foldl (\<lambda>v c. 10 * v + (of_char c - 48)) 0 ds"

text \<open>
  \<open>strtol(s, &end, 10)\<close> with a 32-bit \<open>long\<close>: the value, saturated, and the rest of the string;
  \<open>None\<close> when there is nothing to convert.
\<close>

definition strtol10 :: "string \<Rightarrow> (int \<times> string) option" where
  "strtol10 s =
    (let s1 = dropWhile c_isspace s;
         neg = (case s1 of c # _ \<Rightarrow> c = CHR ''-'' | [] \<Rightarrow> False);
         s2 = (case s1 of c # cs \<Rightarrow> if c = CHR ''-'' \<or> c = CHR ''+'' then cs else s1 | [] \<Rightarrow> []);
         ds = takeWhile c_isdigit s2
     in if ds = [] then None
        else Some (if neg then max (- (2 ^ 31)) (- dec_val ds) else min (2 ^ 31 - 1) (dec_val ds), dropWhile c_isdigit s2))"

fun strstr :: "string \<Rightarrow> string \<Rightarrow> string option" where
  "strstr pat [] = (if pat = [] then Some [] else None)"
| "strstr pat (c # cs) = (if take (length pat) (c # cs) = pat then Some (c # cs) else strstr pat cs)"

definition cstring :: "nat \<Rightarrow> string \<Rightarrow> string" where
  "cstring n s = takeWhile (\<lambda>c. c \<noteq> CHR 0x00) (take n s)"

definition is_prefix :: "string \<Rightarrow> string \<Rightarrow> bool" where
  "is_prefix p s \<longleftrightarrow> take (length p) s = p"

text \<open>The session number at the end of a topic; \<open>None\<close> when it is malformed.\<close>

definition topic_session :: "string \<Rightarrow> u16 option" where
  "topic_session s =
    (case strtol10 s of
       Some (v, []) \<Rightarrow> if v < 0 \<or> 0xFFFF < v then None else Some (of_int v)
     | _ \<Rightarrow> None)"

lemma strtol10_shorter: "strtol10 s = Some (v, rest) \<Longrightarrow> length rest < length s"
proof -
  assume a: "strtol10 s = Some (v, rest)"
  define s1 where "s1 = dropWhile c_isspace s"
  define s2 where "s2 = (case s1 of c # cs \<Rightarrow> if c = CHR ''-'' \<or> c = CHR ''+'' then cs else s1 | [] \<Rightarrow> [])"
  have "length s1 \<le> length s" unfolding s1_def by (rule length_dropWhile_le)
  moreover have "length s2 \<le> length s1" unfolding s2_def by (auto split: list.splits)
  moreover have "takeWhile c_isdigit s2 \<noteq> []" "rest = dropWhile c_isdigit s2"
    using a unfolding strtol10_def Let_def s2_def [unfolded s1_def, symmetric] by (auto split: if_splits)
  moreover have "length s2 = length (takeWhile c_isdigit s2) + length (dropWhile c_isdigit s2)"
    by (metis length_append takeWhile_dropWhile_id)
  ultimately show ?thesis by (cases "takeWhile c_isdigit s2") simp_all
qed

text \<open>The scan of the array of sequence numbers in a transfer NACK.\<close>

function nack_seqs :: "string \<Rightarrow> u16 list" where
  "nack_seqs [] = []"
| "nack_seqs (c # cs) =
    (if c = CHR '']'' then []
     else case strtol10 (c # cs) of
       None \<Rightarrow> nack_seqs cs
     | Some (v, rest) \<Rightarrow>
         let rest' = (case rest of d # ds \<Rightarrow> if d = CHR '','' then ds else rest | [] \<Rightarrow> rest)
         in (if 0 \<le> v \<and> v \<le> 0xFFFF then [of_int v] else []) @ nack_seqs rest')"
  by pat_completeness auto
termination
  by (relation "measure length") (auto dest!: strtol10_shorter split: list.splits)

declare nack_seqs.simps [simp del]

definition push_nack :: "u16 \<Rightarrow> u16 \<Rightarrow> MqttClient \<Rightarrow> MqttClient" where
  "push_nack session_id sq q = q\<lparr>mq_nack_queue := snd (q_send MQTT_NACK_QUEUE_DEPTH (session_id, sq) (mq_nack_queue q))\<rparr>"

definition on_admin_cmd :: "bytes \<Rightarrow> MqttClient \<Rightarrow> MqttClient" where
  "on_admin_cmd data q = q\<lparr>mq_cmd_queue := snd (q_send MQTT_CMD_QUEUE_DEPTH
     \<lparr>mc_target_addr = rd16 (data ! 0) (data ! 1), mc_cmd_id = data ! 2, mc_data = take 64 (drop 3 data)\<rparr>
     (mq_cmd_queue q))\<rparr>"

definition on_cloud_ack :: "u16 \<Rightarrow> string \<Rightarrow> MqttClient \<Rightarrow> MqttClient" where
  "on_cloud_ack session_id ack_buf q =
    (case strstr (json_string ''seq'' @ '':'') ack_buf of
       None \<Rightarrow> q
     | Some s \<Rightarrow>
         (case strtol10 (drop 6 s) of
            None \<Rightarrow> q
          | Some (v, _) \<Rightarrow>
              if v < 0 \<or> 0xFFFF < v then q
              else if strstr (json_string ''ACK'') ack_buf \<noteq> None
              then q\<lparr>mq_ack_queue := snd (q_send MQTT_ACK_QUEUE_DEPTH (session_id, of_int v) (mq_ack_queue q))\<rparr>
              else if strstr (json_string ''NACK'') ack_buf \<noteq> None then push_nack session_id (of_int v) q
              else q))"

definition on_transfer_nack :: "u16 \<Rightarrow> string \<Rightarrow> MqttClient \<Rightarrow> MqttClient" where
  "on_transfer_nack session_id nack_buf q =
    (case strstr (json_string ''seqs'' @ '':['') nack_buf of
       None \<Rightarrow> q | Some s \<Rightarrow> fold (push_nack session_id) (nack_seqs (drop 8 s)) q)"

definition for_active_session :: "string \<Rightarrow> (u16 \<Rightarrow> MqttClient \<Rightarrow> MqttClient) \<Rightarrow> MqttClient \<Rightarrow> MqttClient" where
  "for_active_session s f q =
    (case topic_session s of
       None \<Rightarrow> q
     | Some session_id \<Rightarrow>
         if mq_active_transfer_session q = 0 \<or> session_id \<noteq> mq_active_transfer_session q then q else f session_id q)"

definition on_mqtt_data :: "string \<Rightarrow> bytes option \<Rightarrow> MqttClient \<Rightarrow> MqttClient" where
  "on_mqtt_data topic data q =
    (let topic_buf = cstring 127 topic; d = (case data of None \<Rightarrow> [] | Some d \<Rightarrow> d) in
     if topic_buf = ''flp/admin/cmd'' \<and> 3 \<le> length d then on_admin_cmd d q
     else if is_prefix ''flp/admin/ack/'' topic_buf \<and> 0 < length d
     then for_active_session (drop 14 topic_buf) (\<lambda>sid. on_cloud_ack sid (cstring 255 (bytes_str d))) q
     else if is_prefix ''flp/admin/transfer_nack/'' topic_buf \<and> 0 < length d
     then for_active_session (drop 24 topic_buf) (\<lambda>sid. on_transfer_nack sid (cstring 511 (bytes_str d))) q
     else if is_prefix ''flp/admin/complete/'' topic_buf
     then for_active_session (drop 19 topic_buf) (\<lambda>sid q. q\<lparr>mq_transfer_complete_queue :=
            snd (q_send MQTT_TRANSFER_COMPLETE_QUEUE_DEPTH sid (mq_transfer_complete_queue q))\<rparr>) q
     else q)"

definition on_mqtt_connected :: "MqttClient \<Rightarrow> MqttClient" where
  "on_mqtt_connected q = esp_subscribe ''flp/admin/complete/+'' 1 (esp_subscribe ''flp/admin/ack/+'' 1
     (esp_subscribe ''flp/admin/cmd'' 1 (q\<lparr>mq_connected := True\<rparr>)))"

text \<open>The replay after a disconnect, entry by entry of the ring of recent publications.\<close>

definition replay_entry :: "u32 \<Rightarrow> u16 \<Rightarrow> nat \<Rightarrow> MqttClient \<Rightarrow> MqttClient" where
  "replay_entry now active_sid i q =
    (let en = mq_recent_publish_ring q ! i;
         emptied = (mq_recent_publish_ring q)[i := en\<lparr>rp_publish_ms := 0\<rparr>] in
     if rp_publish_ms en = 0 \<or> rp_session_id en \<noteq> active_sid then q
     else if RECENT_PUBLISH_REPLAY_MS < now - rp_publish_ms en then q\<lparr>mq_recent_publish_ring := emptied\<rparr>
     else case q_send MQTT_NACK_QUEUE_DEPTH (rp_session_id en, rp_seq en) (mq_nack_queue q) of
       (False, _) \<Rightarrow> q
     | (True, nq) \<Rightarrow> q\<lparr>mq_nack_queue := nq,
         mq_fragment_accepted := bitmap_clear (mq_fragment_accepted q) (rp_seq en),
         mq_recent_publish_ring := emptied\<rparr>)"

definition on_mqtt_disconnected :: "MqttEnv \<Rightarrow> MqttClient \<Rightarrow> MqttClient" where
  "on_mqtt_disconnected e q =
    (let q1 = q\<lparr>mq_connected := False\<rparr>; active_sid = mq_active_transfer_session q1 in
     if active_sid \<noteq> 0 \<and> qe_mutex e
     then fold (replay_entry (qe_now e) active_sid) [0..<RECENT_PUBLISH_RING_SIZE] q1 else q1)"

datatype mqtt_event = MQTT_EVENT_CONNECTED | MQTT_EVENT_DISCONNECTED
  | MQTT_EVENT_DATA string "bytes option" | MQTT_EVENT_ERROR | MQTT_EVENT_OTHER

definition handle_mqtt_event :: "MqttEnv \<Rightarrow> mqtt_event option \<Rightarrow> MqttClient \<Rightarrow> MqttClient" where
  "handle_mqtt_event e ev q =
    (case ev of
       Some MQTT_EVENT_CONNECTED \<Rightarrow> on_mqtt_connected q
     | Some MQTT_EVENT_DISCONNECTED \<Rightarrow> on_mqtt_disconnected e q
     | Some (MQTT_EVENT_DATA topic data) \<Rightarrow> on_mqtt_data topic data q
     | _ \<Rightarrow> q)"

end
