(* ===== verification/Transfer_Engine.thy ===== *)
theory Transfer_Engine
  imports Mqtt_Client Mesh_Packets
begin

text \<open>
  State of the transfer engine (\<^verbatim>\<open>components/mesh/include/transfer_engine.hpp\<close>), the callbacks
  \<open>MeshManager::init\<close> wires into it, and its packet handlers (\<^verbatim>\<open>transfer_engine_handlers.cpp\<close>, parts of
  \<^verbatim>\<open>transfer_engine.cpp\<close> and \<^verbatim>\<open>transfer_engine_arq.cpp\<close>). An operation of the engine acts on the engine, the
  MQTT client and the mesh manager of the node. Left out are the telemetry counters and the CSV file,
  which no decision of the engine reads. Within a call the clock stands still.
\<close>

unbundle bit_operations_syntax

section \<open>State\<close>

abbreviation (input) BASE_ARQ_TIMEOUT_MS :: u32 where "BASE_ARQ_TIMEOUT_MS \<equiv> 3000"
abbreviation (input) PER_HOP_ARQ_TIMEOUT_MS :: u32 where "PER_HOP_ARQ_TIMEOUT_MS \<equiv> 1000"
abbreviation (input) MAX_ARQ_TIMEOUT_MS :: u32 where "MAX_ARQ_TIMEOUT_MS \<equiv> 8000"
abbreviation (input) MULTIHOP_MIN_RTO_FLOOR_MS :: u32 where "MULTIHOP_MIN_RTO_FLOOR_MS \<equiv> 2400"
abbreviation (input) MAX_MIN_RTO_FLOOR_MS :: u32 where "MAX_MIN_RTO_FLOOR_MS \<equiv> 4000"
abbreviation (input) BASE_ELECTION_MS :: u32 where "BASE_ELECTION_MS \<equiv> 3000"
abbreviation (input) PER_HOP_ELECTION_MS :: u32 where "PER_HOP_ELECTION_MS \<equiv> 1250"
abbreviation (input) MAX_ELECTION_MS :: u32 where "MAX_ELECTION_MS \<equiv> 9000"
abbreviation (input) BASE_EXIT_NODE_TIMEOUT_MS :: u32 where "BASE_EXIT_NODE_TIMEOUT_MS \<equiv> 30000"
abbreviation (input) PER_HOP_EXIT_NODE_TIMEOUT_MS :: u32 where "PER_HOP_EXIT_NODE_TIMEOUT_MS \<equiv> 5000"
abbreviation (input) MAX_EXIT_NODE_TIMEOUT_MS :: u32 where "MAX_EXIT_NODE_TIMEOUT_MS \<equiv> 60000"
abbreviation (input) TWO_HOP_MESH_WINDOW_CAP :: u8 where "TWO_HOP_MESH_WINDOW_CAP \<equiv> 24"
abbreviation (input) MULTIHOP_MESH_WINDOW_CAP :: u8 where "MULTIHOP_MESH_WINDOW_CAP \<equiv> 16"
abbreviation (input) MIN_PER_EXIT_WINDOW_CAP :: u8 where "MIN_PER_EXIT_WINDOW_CAP \<equiv> 8"
abbreviation (input) CLOUD_WINDOW_SIZE :: nat where "CLOUD_WINDOW_SIZE \<equiv> 16"
abbreviation (input) MAX_CLOUD_FRAGMENTS :: nat where "MAX_CLOUD_FRAGMENTS \<equiv> 8192"
abbreviation (input) CLOUD_RETX_QUEUE_SIZE :: nat where "CLOUD_RETX_QUEUE_SIZE \<equiv> 16"
abbreviation (input) OOW_RETX_QUEUE_SIZE :: nat where "OOW_RETX_QUEUE_SIZE \<equiv> 1024"
abbreviation (input) OOW_RECENT_RING_SIZE :: nat where "OOW_RECENT_RING_SIZE \<equiv> 128"
abbreviation (input) OOW_RECENT_SUPPRESS_MS :: u32 where "OOW_RECENT_SUPPRESS_MS \<equiv> 1500"
abbreviation (input) REDIST_QUEUE_SIZE :: nat where "REDIST_QUEUE_SIZE \<equiv> ARQ_WINDOW * MAX_EXIT_NODES"
abbreviation (input) CLOUD_STALL_TIMEOUT_MS :: u32 where "CLOUD_STALL_TIMEOUT_MS \<equiv> 30000"
abbreviation (input) META_REPUBLISH_INTERVAL_MS :: u32 where "META_REPUBLISH_INTERVAL_MS \<equiv> 10000"
abbreviation (input) BROADCAST_INITIAL_BACKOFF_MS :: u32 where "BROADCAST_INITIAL_BACKOFF_MS \<equiv> 500"

text \<open>A reader of the file: offset and length to at most so many bytes.\<close>

type_synonym ReadChunkFn = "nat \<Rightarrow> nat \<Rightarrow> bytes"

record ExitCandidate =
  ec_addr :: u16
  ec_rssi_to_gw :: i8
  ec_hops_to_gw :: u8
  ec_active_transfers :: u8

text \<open>The floats are rational numbers with single precision rounding after each operation.\<close>

record ExitPathStats =
  xs_ewma_rtt_ms :: rat
  xs_ewma_loss :: rat
  xs_sent :: u32
  xs_acked :: u32
  xs_nacked :: u32
  xs_weight :: rat

definition ExitPathStats_new :: ExitPathStats where
  "ExitPathStats_new = \<lparr>xs_ewma_rtt_ms = 500, xs_ewma_loss = 0, xs_sent = 0, xs_acked = 0, xs_nacked = 0, xs_weight = 1\<rparr>"

record ActiveTransfer =
  at_read_chunk :: "ReadChunkFn option"
  at_size :: nat
  at_crc32 :: u32
  at_fragment_count :: u16
  at_fragment_size :: u16
  at_next_fragment :: u16
  at_exit_nodes :: "u16 list"
  at_exit_node_count :: nat
  at_session_id :: u16
  at_filename :: string
  at_active :: bool
  at_exit_node_alive :: "bool list"
  at_last_ack_ms :: "u32 list"

definition ActiveTransfer_new :: ActiveTransfer where
  "ActiveTransfer_new = \<lparr>at_read_chunk = None, at_size = 0, at_crc32 = 0, at_fragment_count = 0, at_fragment_size = 0,
     at_next_fragment = 0, at_exit_nodes = replicate MAX_EXIT_NODES 0, at_exit_node_count = 0, at_session_id = 0,
     at_filename = [], at_active = False, at_exit_node_alive = replicate MAX_EXIT_NODES True,
     at_last_ack_ms = replicate MAX_EXIT_NODES 0\<rparr>"

record BroadcastRetry =
  br_payload :: bytes
  br_type :: PacketType
  br_dst_addr :: u16
  br_max_retries :: u8
  br_attempt :: u8
  br_next_send_ms :: u32
  br_backoff_ms :: u32
  br_active :: bool

definition BroadcastRetry_new :: BroadcastRetry where
  "BroadcastRetry_new = \<lparr>br_payload = [], br_type = DISCOVERY, br_dst_addr = BROADCAST_ADDR, br_max_retries = 3,
     br_attempt = 0, br_next_send_ms = 0, br_backoff_ms = 500, br_active = False\<rparr>"

text \<open>
  Arrays with a count are lists of the used part: the candidates, the queues of retransmissions, and
  the queue of redistributed fragments. \<open>te_oow_retx\<close> pairs the sequence number with its destination,
  \<open>te_oow_recent\<close> with the time. \<open>te_events\<close> logs the bits set in the event group.
\<close>

datatype engine_event = FLP_EVT_TRANSFER_COMPLETE | FLP_EVT_EXIT_NODE_ELECTED

record TransferEngine =
  te_election_timeout_ms :: u32
  te_exit_node_timeout_ms :: u32
  te_source_hops_to_exit_est :: u8
  te_mesh_window_cap :: u8
  te_arq :: "SelectiveRepeat list"
  te_transfer :: ActiveTransfer
  te_broadcast_retry :: BroadcastRetry
  te_candidates :: "ExitCandidate list"
  te_election_start_ms :: u32
  te_election_active :: bool
  te_my_addr :: u16
  te_fec_encoder :: FecEncoder
  te_is_exit_node :: bool
  te_exit_pending :: bool
  te_local_exit :: bool
  te_active_session_id :: u16
  te_source_addr :: u16
  te_cloud_ack_bitmap :: bytes
  te_cloud_base_seq :: u16
  te_cloud_next_send :: u16
  te_cloud_retx_queue :: "u16 list"
  te_redist_pending :: "u16 list"
  te_oow_retx :: "(u16 \<times> u16) list"
  te_last_oow_retx_ms :: u32
  te_oow_recent :: "(u16 \<times> u32) list"
  te_oow_recent_write :: nat
  te_congestion_backoff_ticks :: u8
  te_last_cloud_activity_ms :: u32
  te_last_mesh_frag_send_ms :: u32
  te_mesh_upload_done :: bool
  te_last_meta_publish_ms :: u32
  te_path_stats :: "ExitPathStats list"
  te_weight_recompute_counter :: u16
  te_events :: "engine_event list"

definition cloud_zero_bitmap :: bytes where
  "cloud_zero_bitmap = replicate ((MAX_CLOUD_FRAGMENTS + 7) div 8) 0"

text \<open>
  \<open>init\<close>: the first \<open>prealloc\<close> windows are allocated, \<open>prealloc\<close> being the configured number of exits
  clamped to 1 and \<open>MAX_EXIT_NODES\<close>; \<open>alloc_ok\<close> says which allocations succeed.
\<close>

definition prealloc_count :: "u8 \<Rightarrow> nat" where
  "prealloc_count max_elected_exits =
    (if max_elected_exits = 0 then 1 else if MAX_EXIT_NODES < unat max_elected_exits then MAX_EXIT_NODES
     else unat max_elected_exits)"

definition engine_init :: "u8 \<Rightarrow> (nat \<Rightarrow> bool) \<Rightarrow> u16 \<Rightarrow> TransferEngine" where
  "engine_init max_elected_exits alloc_ok my_addr = \<lparr>te_election_timeout_ms = 3000,
     te_exit_node_timeout_ms = BASE_EXIT_NODE_TIMEOUT_MS, te_source_hops_to_exit_est = 1, te_mesh_window_cap = of_nat ARQ_WINDOW,
     te_arq = map (\<lambda>i. if i < prealloc_count max_elected_exits
                       then snd (sr_init (alloc_ok i) (of_nat ARQ_WINDOW) BASE_ARQ_TIMEOUT_MS SelectiveRepeat_new)
                       else SelectiveRepeat_new) [0..<MAX_EXIT_NODES],
     te_transfer = ActiveTransfer_new, te_broadcast_retry = BroadcastRetry_new, te_candidates = [],
     te_election_start_ms = 0, te_election_active = False, te_my_addr = my_addr, te_fec_encoder = FecEncoder_new,
     te_is_exit_node = False, te_exit_pending = False, te_local_exit = False, te_active_session_id = 0, te_source_addr = 0,
     te_cloud_ack_bitmap = cloud_zero_bitmap, te_cloud_base_seq = 0, te_cloud_next_send = 0, te_cloud_retx_queue = [],
     te_redist_pending = [], te_oow_retx = [], te_last_oow_retx_ms = 0, te_oow_recent = replicate OOW_RECENT_RING_SIZE (0, 0),
     te_oow_recent_write = 0, te_congestion_backoff_ticks = 0, te_last_cloud_activity_ms = 0, te_last_mesh_frag_send_ms = 0,
     te_mesh_upload_done = False, te_last_meta_publish_ms = 0, te_path_stats = replicate MAX_EXIT_NODES ExitPathStats_new,
     te_weight_recompute_counter = 0, te_events = []\<rparr>"

text \<open>The node an operation of the engine works on, and the rest of its environment.\<close>

type_synonym Node = "(TransferEngine \<times> MqttClient) \<times> MeshManager"

record EngineEnv =
  ee_mqtt :: MqttEnv
  ee_random :: u32
  ee_crc32 :: "u32 \<Rightarrow> bytes \<Rightarrow> u32"
  ee_ap_rssi :: "i8 option"
  ee_fec_alloc :: bool
  ee_max_elected_exits :: u8

abbreviation (input) eng :: "Node \<Rightarrow> TransferEngine" where "eng w \<equiv> fst (fst w)"
abbreviation (input) mqc :: "Node \<Rightarrow> MqttClient" where "mqc w \<equiv> snd (fst w)"
abbreviation (input) xfer :: "Node \<Rightarrow> ActiveTransfer" where "xfer w \<equiv> te_transfer (fst (fst w))"

definition upd_te :: "(TransferEngine \<Rightarrow> TransferEngine) \<Rightarrow> Node \<Rightarrow> Node" where
  "upd_te f w = ((f (eng w), mqc w), snd w)"

definition upd_mq :: "(MqttClient \<Rightarrow> MqttClient) \<Rightarrow> Node \<Rightarrow> Node" where
  "upd_mq f w = ((eng w, f (mqc w)), snd w)"

definition upd_at :: "(ActiveTransfer \<Rightarrow> ActiveTransfer) \<Rightarrow> TransferEngine \<Rightarrow> TransferEngine" where
  "upd_at f t = t\<lparr>te_transfer := f (te_transfer t)\<rparr>"

section \<open>Timers and window sizes\<close>

definition sanitize_hops_to_exit :: "u8 \<Rightarrow> u8" where
  "sanitize_hops_to_exit hops = (if hops = 0 then 1 else if hops = 0xFF then 2 else hops)"

definition compute_election_timeout_ms :: "u8 \<Rightarrow> u32" where
  "compute_election_timeout_ms hops =
    (let timeout = BASE_ELECTION_MS + ucast hops * PER_HOP_ELECTION_MS
     in if MAX_ELECTION_MS < timeout then MAX_ELECTION_MS else timeout)"

definition compute_arq_timeout_ms :: "u8 \<Rightarrow> u32" where
  "compute_arq_timeout_ms hops =
    (let timeout = BASE_ARQ_TIMEOUT_MS + ucast hops * PER_HOP_ARQ_TIMEOUT_MS
     in if MAX_ARQ_TIMEOUT_MS < timeout then MAX_ARQ_TIMEOUT_MS else timeout)"

definition compute_min_rto_floor_ms :: "u8 \<Rightarrow> u32" where
  "compute_min_rto_floor_ms hops =
    (if hops \<le> 1 then 200
     else let floor = MULTIHOP_MIN_RTO_FLOOR_MS + (ucast hops - 2) * 400
          in if MAX_MIN_RTO_FLOOR_MS < floor then MAX_MIN_RTO_FLOOR_MS else floor)"

definition compute_mesh_window_cap :: "u8 \<Rightarrow> u8" where
  "compute_mesh_window_cap hops = (if hops \<le> 1 then of_nat ARQ_WINDOW
     else if hops = 2 then TWO_HOP_MESH_WINDOW_CAP else MULTIHOP_MESH_WINDOW_CAP)"

definition compute_exit_timeout_ms :: "u8 \<Rightarrow> u32" where
  "compute_exit_timeout_ms hops =
    (let timeout = BASE_EXIT_NODE_TIMEOUT_MS + ucast hops * PER_HOP_EXIT_NODE_TIMEOUT_MS
     in if MAX_EXIT_NODE_TIMEOUT_MS < timeout then MAX_EXIT_NODE_TIMEOUT_MS else timeout)"

definition mesh_window_cap_per_exit :: "TransferEngine \<Rightarrow> u16" where
  "mesh_window_cap_per_exit t =
    (let exits = (if 0 < at_exit_node_count (te_transfer t) then at_exit_node_count (te_transfer t) else 1);
         cap = te_mesh_window_cap t div of_nat exits;
         cap = (if cap < MIN_PER_EXIT_WINDOW_CAP then MIN_PER_EXIT_WINDOW_CAP else cap)
     in ucast (if of_nat ARQ_WINDOW < cap then of_nat ARQ_WINDOW else cap))"

definition total_mesh_inflight :: "TransferEngine \<Rightarrow> u16" where
  "total_mesh_inflight t = sum_list (map sr_in_flight (take (at_exit_node_count (te_transfer t)) (te_arq t)))"

definition total_acked_fragments :: "TransferEngine \<Rightarrow> u32" where
  "total_acked_fragments t = (if te_local_exit t then ucast (te_cloud_base_seq t)
     else sum_list (map xs_acked (take (at_exit_node_count (te_transfer t)) (te_path_stats t))))"

definition get_progress_pct :: "TransferEngine \<Rightarrow> u8" where
  "get_progress_pct t =
    (let tr = te_transfer t in
     if \<not> at_active tr \<or> at_fragment_count tr = 0 then 0
     else
       let frags = (if te_local_exit t then ucast (te_cloud_base_seq t) else total_acked_fragments t);
           frags = (if ucast (at_fragment_count tr) < frags then ucast (at_fragment_count tr) else frags)
       in ucast (frags * 100 div ucast (at_fragment_count tr)))"

definition active_session_id :: "TransferEngine \<Rightarrow> u16" where
  "active_session_id t = (if at_active (te_transfer t) then at_session_id (te_transfer t)
     else if te_is_exit_node t then te_active_session_id t else 0)"

section \<open>Fragment numbering\<close>

text \<open>Sequence number to index of the data fragment, as every feeding loop computes it.\<close>

definition is_parity_seq :: "u16 \<Rightarrow> bool" where
  "is_parity_seq sq \<longleftrightarrow> unat sq mod (FEC_GROUP_SIZE + 1) = FEC_GROUP_SIZE"

definition seq_data_idx :: "u16 \<Rightarrow> u16" where
  "seq_data_idx sq = (sq div of_nat (FEC_GROUP_SIZE + 1)) * of_nat FEC_GROUP_SIZE + sq mod of_nat (FEC_GROUP_SIZE + 1)"

definition size_sub :: "nat \<Rightarrow> nat \<Rightarrow> nat" where
  "size_sub a b = (a + 2 ^ 32 - b) mod 2 ^ 32"

text \<open>Reading a fragment: the offset, the length clipped at the end of the file, and the bytes read.\<close>

definition frag_offset :: "ActiveTransfer \<Rightarrow> u16 \<Rightarrow> nat" where
  "frag_offset tr idx = unat idx * unat (at_fragment_size tr)"

definition read_frag :: "ActiveTransfer \<Rightarrow> u16 \<Rightarrow> bytes" where
  "read_frag tr idx =
    (let offset = frag_offset tr idx; remain = size_sub (at_size tr) offset;
         frag_len = (if remain < unat (at_fragment_size tr) then remain else unat (at_fragment_size tr))
     in case at_read_chunk tr of None \<Rightarrow> [] | Some rd \<Rightarrow> take frag_len (rd offset frag_len))"

definition data_fragments_before_seq :: "TransferEngine \<Rightarrow> u16 \<Rightarrow> u32" where
  "data_fragments_before_seq t sq =
    (if te_local_exit t then ucast sq
     else let groups = sq div of_nat (FEC_GROUP_SIZE + 1); rem = sq mod of_nat (FEC_GROUP_SIZE + 1);
              rem = (if of_nat FEC_GROUP_SIZE < rem then of_nat FEC_GROUP_SIZE else rem)
          in ucast groups * of_nat FEC_GROUP_SIZE + ucast rem)"

definition bytes_from_seq_progress :: "TransferEngine \<Rightarrow> u16 \<Rightarrow> nat" where
  "bytes_from_seq_progress t sq =
    (let n = unat (data_fragments_before_seq t sq) * unat (at_fragment_size (te_transfer t))
     in if at_size (te_transfer t) < n then at_size (te_transfer t) else n)"

section \<open>Callbacks\<close>

definition signal_congestion :: "TransferEngine \<Rightarrow> TransferEngine" where
  "signal_congestion t =
    (let ticks = te_congestion_backoff_ticks t + 2
     in t\<lparr>te_congestion_backoff_ticks := (if 12 < ticks then 12 else ticks)\<rparr>)"

definition note_local_backpressure :: "TransferEngine \<Rightarrow> TransferEngine" where
  "note_local_backpressure t =
    (let t1 = signal_congestion t; ticks = te_congestion_backoff_ticks t1 + 2
     in t1\<lparr>te_congestion_backoff_ticks := (if 16 < ticks then 16 else ticks)\<rparr>)"

text \<open>\<open>send_fn_\<close>: the lambda of \<open>MeshManager::init\<close>.\<close>

definition engine_send :: "MeshEnv \<Rightarrow> u16 \<Rightarrow> PacketType \<Rightarrow> bytes \<Rightarrow> u16 \<Rightarrow> Node \<Rightarrow> int \<times> Node" where
  "engine_send e dst type payload seq_n w =
    (let congested = is_congested (mm_buffer_pool (snd w)) \<or> mm_mqtt_client (snd w) \<and> is_fragment_queue_congested (mqc w);
         seq_n = (if type = ACK \<or> type = NACK then seq_with_congestion seq_n congested else seq_n);
         (rc, m) = send_packet e dst type payload seq_n (snd w);
         w1 = (fst w, m)
     in (rc, if rc = SEND_BACKPRESSURE then upd_te note_local_backpressure w1 else w1))"

definition arq_cb :: "MeshEnv \<Rightarrow> Node SendCallback" where
  "arq_cb e = Some (\<lambda>dst type sq data w. engine_send e dst type data sq w)"

text \<open>Running an operation of one ARQ instance; the callback does not touch the instances.\<close>

definition put_arq :: "nat \<Rightarrow> SelectiveRepeat \<Rightarrow> Node \<Rightarrow> Node" where
  "put_arq i a = upd_te (\<lambda>t. t\<lparr>te_arq := (te_arq t)[i := a]\<rparr>)"

definition arq_send :: "MeshEnv \<Rightarrow> nat \<Rightarrow> u16 \<Rightarrow> bytes option \<Rightarrow> Node \<Rightarrow> int \<times> Node" where
  "arq_send e i sq data w =
    (let (rc, a, w1) = send_fragment (arq_cb e) (me_now e) sq data (te_arq (eng w) ! i) w in (rc, put_arq i a w1))"

definition arq_ack :: "MeshEnv \<Rightarrow> nat \<Rightarrow> u16 \<Rightarrow> Node \<Rightarrow> Node" where
  "arq_ack e i sq w = put_arq i (handle_ack (me_now e) sq (te_arq (eng w) ! i)) w"

definition arq_nack :: "MeshEnv \<Rightarrow> nat \<Rightarrow> u16 \<Rightarrow> Node \<Rightarrow> Node" where
  "arq_nack e i sq w = (let (a, w1) = handle_nack (arq_cb e) (me_now e) sq (te_arq (eng w) ! i) w in put_arq i a w1)"

definition arq_tick :: "MeshEnv \<Rightarrow> nat \<Rightarrow> u8 \<Rightarrow> Node \<Rightarrow> u8 \<times> Node" where
  "arq_tick e i budget w = (let (n, a, w1) = tick (arq_cb e) (me_now e) budget (te_arq (eng w) ! i) w in (n, put_arq i a w1))"

definition forward_to_mqtt :: "u16 \<Rightarrow> u16 \<Rightarrow> u16 \<Rightarrow> bytes \<Rightarrow> string \<Rightarrow> Node \<Rightarrow> bool \<times> Node" where
  "forward_to_mqtt session_id sq src_node data filename w =
    (if mm_mqtt_client (snd w) then
       let (ok, q) = publish_fragment session_id sq src_node (Some data) (Some filename) (mqc w) in (ok, upd_mq (\<lambda>_. q) w)
     else (False, w))"

definition forward_meta :: "EngineEnv \<Rightarrow> u16 \<Rightarrow> string \<Rightarrow> u16 \<Rightarrow> u32 \<Rightarrow> u16 \<Rightarrow> u16 \<Rightarrow> u32 \<Rightarrow> Node \<Rightarrow> Node" where
  "forward_meta x session_id filename src_node total_size chunk_count fragment_size crc32 w =
    (if mm_mqtt_client (snd w)
     then upd_mq (publish_transfer_meta (ee_mqtt x) session_id filename src_node (mm_my_addr (snd w)) total_size
            chunk_count fragment_size crc32) w
     else w)"

definition drain_via :: "(u16 \<Rightarrow> MqttClient \<Rightarrow> u16 option \<times> MqttClient) \<Rightarrow> u16 \<Rightarrow> Node \<Rightarrow> u16 option \<times> Node" where
  "drain_via f session_id w =
    (if mm_mqtt_client (snd w) then let (r, q) = f session_id (mqc w) in (r, upd_mq (\<lambda>_. q) w) else (None, w))"

definition with_mqtt :: "(MqttClient \<Rightarrow> MqttClient) \<Rightarrow> Node \<Rightarrow> Node" where
  "with_mqtt f w = (if mm_mqtt_client (snd w) then upd_mq f w else w)"

section \<open>Ending a transfer\<close>

definition sender_reset :: "TransferEngine \<Rightarrow> TransferEngine" where
  "sender_reset t = t\<lparr>te_transfer := ActiveTransfer_new,
     te_source_hops_to_exit_est := 1, te_exit_node_timeout_ms := BASE_EXIT_NODE_TIMEOUT_MS,
     te_local_exit := False, te_election_active := False, te_candidates := [],
     te_congestion_backoff_ticks := 0, te_last_mesh_frag_send_ms := 0, te_redist_pending := [],
     te_oow_retx := [], te_oow_recent := replicate OOW_RECENT_RING_SIZE (0, 0), te_oow_recent_write := 0,
     te_last_oow_retx_ms := 0, te_weight_recompute_counter := 0, te_cloud_ack_bitmap := cloud_zero_bitmap,
     te_cloud_base_seq := 0, te_cloud_next_send := 0, te_cloud_retx_queue := [],
     te_last_cloud_activity_ms := 0, te_mesh_upload_done := False, te_last_meta_publish_ms := 0,
     te_exit_pending := False, te_path_stats := replicate MAX_EXIT_NODES ExitPathStats_new,
     te_arq := map reset_sender (te_arq t)\<rparr>"

definition end_session :: "u16 \<Rightarrow> Node \<Rightarrow> Node" where
  "end_session finished_session w =
    (if finished_session \<noteq> 0 then with_mqtt (clear_transfer_session finished_session) w else w)"

definition reset_sender_transfer_state :: "bool \<Rightarrow> Node \<Rightarrow> Node" where
  "reset_sender_transfer_state signal_complete w =
    (let w1 = end_session (at_session_id (xfer w)) (upd_te sender_reset w)
     in if signal_complete then upd_te (\<lambda>t. t\<lparr>te_events := te_events t @ [FLP_EVT_TRANSFER_COMPLETE]\<rparr>) w1 else w1)"

definition exit_cleared :: "TransferEngine \<Rightarrow> TransferEngine" where
  "exit_cleared t = t\<lparr>te_is_exit_node := False, te_exit_pending := False, te_active_session_id := 0, te_source_addr := 0,
     te_transfer := (te_transfer t)\<lparr>at_size := 0, at_crc32 := 0, at_fragment_count := 0, at_fragment_size := 0,
       at_filename := []\<rparr>,
     te_last_cloud_activity_ms := 0, te_last_meta_publish_ms := 0, te_congestion_backoff_ticks := 0,
     te_oow_retx := [], te_oow_recent := replicate OOW_RECENT_RING_SIZE (0, 0), te_oow_recent_write := 0\<rparr>"

definition clear_exit_node_state :: "Node \<Rightarrow> Node" where
  "clear_exit_node_state w = end_session (te_active_session_id (eng w)) (upd_te exit_cleared w)"

section \<open>Handlers of the exit node\<close>

definition get_wifi_sta_rssi :: "EngineEnv \<Rightarrow> i8" where
  "get_wifi_sta_rssi x = (case ee_ap_rssi x of Some r \<Rightarrow> if 0 < sint r then 0 else r | None \<Rightarrow> 0)"

definition send_transfer_ack :: "EngineEnv \<Rightarrow> MeshEnv \<Rightarrow> u16 \<Rightarrow> u16 \<Rightarrow> u8 \<Rightarrow> Node \<Rightarrow> Node" where
  "send_transfer_ack x e dst session_id active w =
     snd (engine_send e dst TRANSFER_ACK (enc_transfer_ack \<lparr>ta_session_id = session_id, ta_exit_node_addr = te_my_addr (eng w),
       ta_rssi_to_gw = get_wifi_sta_rssi x, ta_hops_to_gw = 0, ta_active_transfers = active\<rparr>) 0 w)"

definition ad_name :: "TransferAdPayload \<Rightarrow> string" where
  "ad_name ad = (if 0 < ad_filename_len ad \<and> unat (ad_filename_len ad) \<le> 32
     then cstring 32 (bytes_str (take (unat (ad_filename_len ad)) (ad_filename ad))) else [])"

definition become_exit_pending :: "MeshEnv \<Rightarrow> u16 \<Rightarrow> TransferAdPayload \<Rightarrow> TransferEngine \<Rightarrow> TransferEngine" where
  "become_exit_pending e src ad t = t\<lparr>te_exit_pending := True, te_active_session_id := ad_session_id ad, te_source_addr := src,
     te_transfer := (te_transfer t)\<lparr>at_size := unat (ad_file_size ad), at_fragment_count := ad_fragment_count ad,
       at_fragment_size := ucast (ad_fragment_size_d8 ad) * 8, at_crc32 := ad_crc32 ad, at_filename := ad_name ad\<rparr>,
     te_last_cloud_activity_ms := me_now e, te_last_meta_publish_ms := me_now e,
     te_arq := (te_arq t)[0 := set_peer_addr src (te_arq t ! 0)]\<rparr>"

definition handle_transfer_ad :: "EngineEnv \<Rightarrow> MeshEnv \<Rightarrow> PacketHeader \<Rightarrow> bytes \<Rightarrow> bool \<Rightarrow> Node \<Rightarrow> Node" where
  "handle_transfer_ad x e hdr payload has_internet w =
    (case dec_transfer_ad payload of
       None \<Rightarrow> w
     | Some ad \<Rightarrow>
         if \<not> has_internet then w
         else if at_active (xfer w) then w
         else if (te_is_exit_node (eng w) \<or> te_exit_pending (eng w)) \<and> te_active_session_id (eng w) \<noteq> ad_session_id ad then w
         else if (te_is_exit_node (eng w) \<or> te_exit_pending (eng w)) \<and> te_active_session_id (eng w) = ad_session_id ad
         then send_transfer_ack x e (src_addr hdr) (ad_session_id ad) 1 w
         else upd_te (become_exit_pending e (src_addr hdr) ad) (send_transfer_ack x e (src_addr hdr) (ad_session_id ad) 0 w))"

definition activate_exit :: "EngineEnv \<Rightarrow> Node \<Rightarrow> Node" where
  "activate_exit x w =
    (if te_exit_pending (eng w) \<and> \<not> te_is_exit_node (eng w) \<and> te_active_session_id (eng w) \<noteq> 0 then
       let w1 = upd_te (\<lambda>t. t\<lparr>te_is_exit_node := True, te_exit_pending := False\<rparr>) w; tr = xfer w1
       in forward_meta x (te_active_session_id (eng w1)) (at_filename tr) (te_source_addr (eng w1)) (of_nat (at_size tr))
            (at_fragment_count tr) (at_fragment_size tr) (at_crc32 tr) w1
     else w)"

definition handle_data :: "EngineEnv \<Rightarrow> MeshEnv \<Rightarrow> PacketHeader \<Rightarrow> bytes \<Rightarrow> Node \<Rightarrow> Node" where
  "handle_data x e hdr payload w =
    (if te_is_exit_node (eng w) \<or> te_exit_pending (eng w) then
       let w1 = activate_exit x w;
           (queued, w2) = forward_to_mqtt (te_active_session_id (eng w1)) (seq_num hdr) (te_source_addr (eng w1)) payload
             (at_filename (xfer w1)) w1
       in if queued then upd_te (\<lambda>t. t\<lparr>te_last_cloud_activity_ms := me_now e\<rparr>) w2 else upd_te signal_congestion w2
     else
       let a = set_peer_addr (src_addr hdr) (te_arq (eng w) ! 0);
           (_, a1, w1) = receive_fragment (arq_cb e) (me_now e) (seq_num hdr) payload a w
       in put_arq 0 a1 w1)"

section \<open>Handlers of the source\<close>

definition handle_transfer_ack :: "PacketHeader \<Rightarrow> bytes \<Rightarrow> Node \<Rightarrow> Node" where
  "handle_transfer_ack hdr payload w =
    (case dec_transfer_ack payload of
       None \<Rightarrow> w
     | Some ack \<Rightarrow>
         if \<not> te_election_active (eng w) then w
         else if list_ex (\<lambda>c. ec_addr c = ta_exit_node_addr ack) (te_candidates (eng w)) then w
         else if length (te_candidates (eng w)) < 4 then
           upd_te (\<lambda>t. t\<lparr>te_candidates := te_candidates t @ [\<lparr>ec_addr = ta_exit_node_addr ack, ec_rssi_to_gw = ta_rssi_to_gw ack,
             ec_hops_to_gw = (if ta_hops_to_gw ack \<noteq> 0 then ta_hops_to_gw ack else te_source_hops_to_exit_est t),
             ec_active_transfers = ta_active_transfers ack\<rparr>]\<rparr>) w
         else w)"

definition arq_index_for_peer :: "u16 \<Rightarrow> TransferEngine \<Rightarrow> nat option" where
  "arq_index_for_peer addr t = find_idx (\<lambda>a. a = addr) (take (at_exit_node_count (te_transfer t)) (at_exit_nodes (te_transfer t)))"

definition arq_index_for_sequence :: "u16 \<Rightarrow> TransferEngine \<Rightarrow> nat option" where
  "arq_index_for_sequence sq t = find_idx (contains_sequence sq) (take (at_exit_node_count (te_transfer t)) (te_arq t))"

definition f32_alpha :: rat where "f32_alpha = rnd32 (3 / 10)"

definition ewma :: "rat \<Rightarrow> rat \<Rightarrow> rat" where
  "ewma sample old = rnd32 (rnd32 (f32_alpha * sample) + rnd32 (rnd32 (1 - f32_alpha) * old))"

definition upd_stats :: "nat \<Rightarrow> (ExitPathStats \<Rightarrow> ExitPathStats) \<Rightarrow> TransferEngine \<Rightarrow> TransferEngine" where
  "upd_stats i f t = t\<lparr>te_path_stats := (te_path_stats t)[i := f (te_path_stats t ! i)]\<rparr>"

definition engine_handle_ack :: "MeshEnv \<Rightarrow> u16 \<Rightarrow> u16 \<Rightarrow> Node \<Rightarrow> Node" where
  "engine_handle_ack e sq from_addr w =
    (case arq_index_for_peer from_addr (eng w) of
       None \<Rightarrow> w
     | Some idx \<Rightarrow>
         let a = te_arq (eng w) ! idx; tracked = contains_sequence sq a;
             send_time = (if tracked then get_send_time sq a else 0);
             w1 = arq_ack e idx sq w
         in if tracked then
              let w2 = (if 0 < send_time \<and> send_time < me_now e
                        then upd_te (upd_stats idx (\<lambda>s. s\<lparr>xs_ewma_rtt_ms := ewma (f32_of (me_now e - send_time)) (xs_ewma_rtt_ms s)\<rparr>)) w1
                        else w1)
              in upd_te (upd_at (\<lambda>tr. tr\<lparr>at_last_ack_ms := (at_last_ack_ms tr)[idx := me_now e]\<rparr>))
                   (upd_te (upd_stats idx (\<lambda>s. s\<lparr>xs_acked := xs_acked s + 1\<rparr>)) w2)
            else w1)"

definition owned_nack :: "MeshEnv \<Rightarrow> nat \<Rightarrow> u16 \<Rightarrow> Node \<Rightarrow> Node" where
  "owned_nack e idx sq w = arq_nack e idx sq (upd_te (upd_stats idx (\<lambda>s. s\<lparr>xs_nacked := xs_nacked s + 1\<rparr>)) w)"

definition recently_resent :: "u32 \<Rightarrow> u16 \<Rightarrow> TransferEngine \<Rightarrow> bool" where
  "recently_resent now sq t \<longleftrightarrow>
     list_ex (\<lambda>(s, ms). ms \<noteq> 0 \<and> s = sq \<and> now - ms < OOW_RECENT_SUPPRESS_MS) (te_oow_recent t)"

definition queue_oow :: "MeshEnv \<Rightarrow> u16 \<Rightarrow> u16 \<Rightarrow> TransferEngine \<Rightarrow> TransferEngine" where
  "queue_oow e sq from_addr t =
    (if \<not> at_active (te_transfer t) \<or> at_fragment_count (te_transfer t) \<le> sq then t
     else case find_idx (\<lambda>it. fst it = sq) (te_oow_retx t) of
       Some i \<Rightarrow> t\<lparr>te_oow_retx := (te_oow_retx t)[i := (sq, from_addr)]\<rparr>
     | None \<Rightarrow>
         if recently_resent (me_now e) sq t then t
         else if length (te_oow_retx t) < OOW_RETX_QUEUE_SIZE then t\<lparr>te_oow_retx := te_oow_retx t @ [(sq, from_addr)]\<rparr>
         else t)"

definition engine_handle_nack :: "MeshEnv \<Rightarrow> u16 \<Rightarrow> u16 \<Rightarrow> Node \<Rightarrow> Node" where
  "engine_handle_nack e sq from_addr w =
    (case arq_index_for_peer from_addr (eng w) of
       None \<Rightarrow>
         (case arq_index_for_sequence sq (eng w) of None \<Rightarrow> w | Some idx \<Rightarrow> owned_nack e idx sq w)
     | Some idx \<Rightarrow>
         if contains_sequence sq (te_arq (eng w) ! idx) then owned_nack e idx sq w
         else (case arq_index_for_sequence sq (eng w) of
             Some _ \<Rightarrow> w
           | None \<Rightarrow> upd_te (queue_oow e sq from_addr) w))"

definition handle_transfer_done :: "u16 \<Rightarrow> bytes \<Rightarrow> Node \<Rightarrow> Node" where
  "handle_transfer_done sender payload w =
    (if \<not> at_active (xfer w) then w
     else case dec_transfer_done payload of
       None \<Rightarrow> w
     | Some d \<Rightarrow>
         if td_session_id d \<noteq> at_session_id (xfer w) then w
         else if sender \<noteq> td_exit_node_addr d \<or> arq_index_for_peer (td_exit_node_addr d) (eng w) = None then w
         else reset_sender_transfer_state True w)"

section \<open>Choosing an exit and redistributing\<close>

definition usable_exit :: "u16 \<Rightarrow> TransferEngine \<Rightarrow> nat \<Rightarrow> bool" where
  "usable_exit sq t i \<longleftrightarrow> at_exit_node_alive (te_transfer t) ! i \<and> can_send_sequence sq (te_arq t ! i) \<and>
     sr_in_flight (te_arq t ! i) < mesh_window_cap_per_exit t"

fun best_exit :: "u16 \<Rightarrow> TransferEngine \<Rightarrow> nat list \<Rightarrow> nat option \<times> rat \<Rightarrow> nat option \<times> rat" where
  "best_exit sq t [] best = best"
| "best_exit sq t (i # is) (best_idx, best_score) =
    (if usable_exit sq t i then
       let free_slots = mesh_window_cap_per_exit t - sr_in_flight (te_arq t ! i);
           score = rnd32 (xs_weight (te_path_stats t ! i) * of_nat (unat free_slots))
       in if best_score < score then best_exit sq t is (Some i, score) else best_exit sq t is (best_idx, best_score)
     else best_exit sq t is (best_idx, best_score))"

definition select_mesh_target_for_seq :: "u16 \<Rightarrow> TransferEngine \<Rightarrow> nat option" where
  "select_mesh_target_for_seq sq t =
    (if ucast (te_mesh_window_cap t) \<le> total_mesh_inflight t then None
     else case best_exit sq t [0..<at_exit_node_count (te_transfer t)] (None, - 1) of
       (Some i, _) \<Rightarrow> Some i
     | (None, _) \<Rightarrow> List.find (usable_exit sq t) [0..<at_exit_node_count (te_transfer t)])"

definition push_redist :: "u16 \<Rightarrow> TransferEngine \<Rightarrow> TransferEngine" where
  "push_redist sq t = (if length (te_redist_pending t) < REDIST_QUEUE_SIZE
     then t\<lparr>te_redist_pending := te_redist_pending t @ [sq]\<rparr> else t)"

definition redistribute_seq :: "MeshEnv \<Rightarrow> nat \<Rightarrow> u16 \<Rightarrow> Node \<Rightarrow> Node" where
  "redistribute_seq e first_alive sq w =
    (if is_parity_seq sq then w
     else
       let target = (case select_mesh_target_for_seq sq (eng w) of Some i \<Rightarrow> i | None \<Rightarrow> first_alive) in
       if can_send_sequence sq (te_arq (eng w) ! target) then
         let (ret, w1) = arq_send e target sq (Some (read_frag (xfer w) (seq_data_idx sq))) w
         in if ret = 0 then w1 else upd_te (push_redist sq) w1
       else upd_te (push_redist sq) w)"

definition alive_exits :: "TransferEngine \<Rightarrow> nat list" where
  "alive_exits t = filter (\<lambda>i. at_exit_node_alive (te_transfer t) ! i) [0..<at_exit_node_count (te_transfer t)]"

definition redistribute_dead_exit :: "MeshEnv \<Rightarrow> nat \<Rightarrow> Node \<Rightarrow> Node" where
  "redistribute_dead_exit e dead_idx w =
    (let w1 = upd_te (upd_at (\<lambda>tr. tr\<lparr>at_exit_node_alive := (at_exit_node_alive tr)[dead_idx := False]\<rparr>)) w;
         pend = snapshot_pending_sequences (of_nat ARQ_WINDOW) (te_arq (eng w1) ! dead_idx);
         w2 = put_arq dead_idx (reset_sender (te_arq (eng w1) ! dead_idx)) w1
     in case alive_exits (eng w2) of
          [] \<Rightarrow> w2
        | first_alive # _ \<Rightarrow> fold (redistribute_seq e first_alive) pend w2)"

definition handle_exit_offline :: "MeshEnv \<Rightarrow> u16 \<Rightarrow> u16 \<Rightarrow> Node \<Rightarrow> Node" where
  "handle_exit_offline e exit_addr session_id w =
    (let tr = xfer w in
     if \<not> at_active tr then w
     else if session_id \<noteq> 0 \<and> session_id \<noteq> at_session_id tr then w
     else case List.find (\<lambda>i. at_exit_nodes tr ! i = exit_addr \<and> at_exit_node_alive tr ! i) [0..<at_exit_node_count tr] of
       None \<Rightarrow> w | Some i \<Rightarrow> redistribute_dead_exit e i w)"

end
