(* ===== verification/Transfer_Run.thy ===== *)
theory Transfer_Run
  imports Transfer_Engine
begin

text \<open>
  The active side of the transfer engine: \<open>start_file_transfer\<close>, the election of exit nodes, the
  feeding loops of the local-exit path and of the mesh path (\<^verbatim>\<open>transfer_engine_arq.cpp\<close>), and the
  periodic \<open>tick\<close> of \<^verbatim>\<open>transfer_engine.cpp\<close>.
\<close>

unbundle bit_operations_syntax

section \<open>Starting a transfer\<close>

definition make_buffer_reader :: "bytes \<Rightarrow> ReadChunkFn" where
  "make_buffer_reader data offset len = (if length data \<le> offset then [] else take len (drop offset data))"

function crc_loop :: "(u32 \<Rightarrow> bytes \<Rightarrow> u32) \<Rightarrow> ReadChunkFn \<Rightarrow> nat \<Rightarrow> nat \<Rightarrow> u32 \<Rightarrow> u32" where
  "crc_loop crc32 rd sz off crc =
    (if off < sz then
       let chunk = (if sz - off < 512 then sz - off else 512); got = take chunk (rd off chunk)
       in if got = [] then crc else crc_loop crc32 rd sz (off + length got) (crc32 crc got)
     else crc)"
  by auto
termination
proof (relation "measure (\<lambda>(crc32, rd, sz, off, crc). sz - off)", goal_cases)
  case (2 crc32 rd sz off crc chunk got)
  then have "0 < length got" by simp
  with 2(1) have "sz - (off + length got) < sz - off" by linarith
  then show ?case by simp
qed simp

declare crc_loop.simps [simp del]

definition send_broadcast_with_retry :: "PacketType \<Rightarrow> bytes \<Rightarrow> u16 \<Rightarrow> u8 \<Rightarrow> TransferEngine \<Rightarrow> TransferEngine" where
  "send_broadcast_with_retry type payload dst max_retries t =
    (if MAX_MTU < length payload then t
     else t\<lparr>te_broadcast_retry := \<lparr>br_payload = payload, br_type = type, br_dst_addr = dst, br_max_retries = max_retries,
       br_attempt = 0, br_next_send_ms = 0, br_backoff_ms = BROADCAST_INITIAL_BACKOFF_MS, br_active = True\<rparr>\<rparr>)"

text \<open>The number of sequence numbers for \<open>data_frags\<close> fragments: full groups carry a parity fragment.\<close>

definition mesh_fragment_count :: "u16 \<Rightarrow> u16" where
  "mesh_fragment_count data_frags =
    (data_frags div of_nat FEC_GROUP_SIZE) * of_nat (FEC_GROUP_SIZE + 1) + data_frags mod of_nat FEC_GROUP_SIZE"

definition begin_transfer :: "EngineEnv \<Rightarrow> MeshEnv \<Rightarrow> string \<Rightarrow> nat \<Rightarrow> ReadChunkFn \<Rightarrow> u8 \<Rightarrow> TransferEngine \<Rightarrow> TransferEngine" where
  "begin_transfer x e filename sz read_chunk hops t =
    (let raw = ucast (ee_random x) :: u16 in
     t\<lparr>te_fec_encoder := enc_reset (ee_fec_alloc x) (te_fec_encoder t),
       te_transfer := (te_transfer t)\<lparr>at_read_chunk := Some read_chunk, at_size := sz,
         at_fragment_size := of_nat DEFAULT_TRANSFER_FRAGMENT_SIZE, at_next_fragment := 0, at_active := True,
         at_session_id := (if raw \<noteq> 0 then raw else 1), at_filename := take 32 filename,
         at_crc32 := crc_loop (ee_crc32 x) read_chunk sz 0 0\<rparr>,
       te_last_meta_publish_ms := me_now e, te_source_hops_to_exit_est := hops,
       te_exit_node_timeout_ms := compute_exit_timeout_ms hops\<rparr>)"

definition deactivate :: "Node \<Rightarrow> Node" where
  "deactivate = upd_te (upd_at (\<lambda>tr. tr\<lparr>at_active := False\<rparr>))"

definition start_local_exit :: "EngineEnv \<Rightarrow> MeshEnv \<Rightarrow> string \<Rightarrow> nat \<Rightarrow> u16 \<Rightarrow> Node \<Rightarrow> bool \<times> Node" where
  "start_local_exit x e filename sz data_frags w =
    (let w1 = upd_te (\<lambda>t. t\<lparr>te_local_exit := True, te_source_hops_to_exit_est := 0,
                te_exit_node_timeout_ms := BASE_EXIT_NODE_TIMEOUT_MS\<rparr>) w in
     if MAX_CLOUD_FRAGMENTS < unat data_frags then (False, deactivate w1)
     else
       let w2 = upd_te (upd_at (\<lambda>tr. tr\<lparr>at_fragment_count := data_frags\<rparr>)) w1 in
       if 60000 < at_fragment_count (xfer w2) then (False, deactivate w2)
       else
         let w3 = upd_te (\<lambda>t. t\<lparr>te_cloud_ack_bitmap := cloud_zero_bitmap, te_cloud_base_seq := 0, te_cloud_next_send := 0,
                    te_cloud_retx_queue := [], te_last_cloud_activity_ms := me_now e\<rparr>) w2
         in (True, forward_meta x (at_session_id (xfer w3)) filename (te_my_addr (eng w3)) (of_nat sz)
                     (at_fragment_count (xfer w3)) (at_fragment_size (xfer w3)) (at_crc32 (xfer w3)) w3))"

definition transfer_ad :: "string \<Rightarrow> TransferEngine \<Rightarrow> TransferAdPayload" where
  "transfer_ad filename t =
    (let tr = te_transfer t; name = take 32 (str_bytes filename) in
     \<lparr>ad_session_id = at_session_id tr, ad_file_size = of_nat (at_size tr),
      ad_fragment_size_d8 = ucast (at_fragment_size tr div 8), ad_crc32 = at_crc32 tr,
      ad_fragment_count = at_fragment_count tr, ad_filename_len = of_nat (length name),
      ad_filename = name @ replicate (32 - length name) 0\<rparr>)"

definition start_mesh :: "MeshEnv \<Rightarrow> string \<Rightarrow> u16 \<Rightarrow> u8 \<Rightarrow> Node \<Rightarrow> bool \<times> Node" where
  "start_mesh e filename data_frags hops w =
    (let w1 = upd_te (\<lambda>t. (upd_at (\<lambda>tr. tr\<lparr>at_fragment_count := mesh_fragment_count data_frags\<rparr>) t)\<lparr>te_local_exit := False\<rparr>) w in
     if 60000 < at_fragment_count (xfer w1) then (False, deactivate w1)
     else
       (True, upd_te (\<lambda>t. send_broadcast_with_retry TRANSFER_AD (enc_transfer_ad (transfer_ad filename t)) EXIT_ANY_ADDR 3
         (t\<lparr>te_candidates := [], te_election_active := True, te_election_start_ms := me_now e,
            te_election_timeout_ms := compute_election_timeout_ms hops, te_mesh_window_cap := compute_mesh_window_cap hops,
            te_arq := map (\<lambda>a. set_min_rto_floor (compute_min_rto_floor_ms hops) (set_timeout (compute_arq_timeout_ms hops) a))
              (te_arq t)\<rparr>)) w1))"

definition start_file_transfer :: "EngineEnv \<Rightarrow> MeshEnv \<Rightarrow> string \<Rightarrow> nat \<Rightarrow> ReadChunkFn \<Rightarrow> bool \<Rightarrow> bool \<Rightarrow> u8 \<Rightarrow> Node \<Rightarrow> bool \<times> Node" where
  "start_file_transfer x e filename sz read_chunk has_internet has_mqtt hops_to_internet w =
    (if at_active (xfer w) then (False, w)
     else if te_is_exit_node (eng w) then (False, w)
     else
       let hops = sanitize_hops_to_exit hops_to_internet;
           data_frags = of_nat ((sz + DEFAULT_TRANSFER_FRAGMENT_SIZE - 1) mod 2 ^ 32 div DEFAULT_TRANSFER_FRAGMENT_SIZE) :: u16;
           w1 = upd_te (begin_transfer x e filename sz read_chunk hops) w
       in if has_internet \<and> has_mqtt then start_local_exit x e filename sz data_frags w1
          else start_mesh e filename data_frags hops w1)"

section \<open>Election\<close>

definition candidate_score :: "ExitCandidate \<Rightarrow> int" where
  "candidate_score c = sint (ec_rssi_to_gw c) - 6 * int (unat (ec_hops_to_gw c)) - 32 * int (unat (ec_active_transfers c))"

text \<open>Insertion sort by falling score; the sorted part is kept reversed, as the inner loop walks it.\<close>

fun insert_candidate :: "ExitCandidate \<Rightarrow> ExitCandidate list \<Rightarrow> ExitCandidate list" where
  "insert_candidate tc [] = [tc]"
| "insert_candidate tc (c # rprefix) =
    (if candidate_score c < candidate_score tc then c # insert_candidate tc rprefix else tc # c # rprefix)"

fun sort_candidates :: "ExitCandidate list \<Rightarrow> ExitCandidate list \<Rightarrow> ExitCandidate list" where
  "sort_candidates rprefix [] = rev rprefix"
| "sort_candidates rprefix (tc # rest) = sort_candidates (insert_candidate tc rprefix) rest"

definition best_score :: "ExitCandidate list \<Rightarrow> int" where
  "best_score cs = fold (\<lambda>c best. if best < candidate_score c then candidate_score c else best) cs (- 32000)"

definition election_threshold :: "int \<Rightarrow> int" where
  "election_threshold best = (let margin = \<bar>best\<bar> * 2 div 3 in best - (if margin < 6 then 6 else margin))"

definition accept_limit :: "u8 \<Rightarrow> nat" where
  "accept_limit max_elected_exits = (if MAX_EXIT_NODES < unat max_elected_exits then MAX_EXIT_NODES else unat max_elected_exits)"

definition accept_exit :: "u32 \<Rightarrow> nat \<Rightarrow> ExitCandidate \<Rightarrow> TransferEngine \<Rightarrow> TransferEngine" where
  "accept_exit now i c t = t\<lparr>te_transfer := (te_transfer t)\<lparr>
       at_exit_nodes := (at_exit_nodes (te_transfer t))[i := ec_addr c],
       at_exit_node_alive := (at_exit_node_alive (te_transfer t))[i := True],
       at_last_ack_ms := (at_last_ack_ms (te_transfer t))[i := now]\<rparr>,
     te_arq := (te_arq t)[i := set_peer_addr (ec_addr c) (reset_sender (te_arq t ! i))],
     te_path_stats := (te_path_stats t)[i := ExitPathStats_new\<lparr>xs_ewma_rtt_ms := f32_of (compute_arq_timeout_ms (ec_hops_to_gw c))\<rparr>]\<rparr>"

fun accept_loop :: "u32 \<Rightarrow> int \<Rightarrow> nat \<Rightarrow> ExitCandidate list \<Rightarrow> nat \<Rightarrow> TransferEngine \<Rightarrow> nat \<times> TransferEngine" where
  "accept_loop now threshold limit [] accepted t = (accepted, t)"
| "accept_loop now threshold limit (c # cs) accepted t =
    (if \<not> accepted < limit then (accepted, t)
     else if threshold \<le> candidate_score c
     then accept_loop now threshold limit cs (accepted + 1) (accept_exit now accepted c t)
     else accept_loop now threshold limit cs accepted t)"

definition finish_election :: "EngineEnv \<Rightarrow> MeshEnv \<Rightarrow> TransferEngine \<Rightarrow> TransferEngine" where
  "finish_election x e t =
    (let cs = sort_candidates (take 1 (te_candidates t)) (drop 1 (te_candidates t));
         t1 = t\<lparr>te_candidates := cs\<rparr>;
         (accepted, t2) = accept_loop (me_now e) (election_threshold (best_score (te_candidates t)))
            (accept_limit (ee_max_elected_exits x)) cs 0 t1;
         (accepted, t3) = (if accepted = 0 then (1, accept_exit (me_now e) 0 (cs ! 0) t2) else (accepted, t2))
     in t3\<lparr>te_transfer := (te_transfer t3)\<lparr>at_exit_node_count := accepted, at_next_fragment := 0\<rparr>,
           te_weight_recompute_counter := 0,
           te_arq := map (\<lambda>i. if i < accepted then set_exit_stride (of_nat accepted) (of_nat i) (te_arq t3 ! i) else te_arq t3 ! i)
             [0..<length (te_arq t3)],
           te_events := te_events t3 @ [FLP_EVT_EXIT_NODE_ELECTED]\<rparr>)"

definition election_timeout_tick :: "EngineEnv \<Rightarrow> MeshEnv \<Rightarrow> Node \<Rightarrow> Node" where
  "election_timeout_tick x e w =
    (if \<not> te_election_active (eng w) \<or> me_now e - te_election_start_ms (eng w) \<le> te_election_timeout_ms (eng w) then w
     else
       let w1 = upd_te (\<lambda>t. t\<lparr>te_election_active := False\<rparr>) w
       in if te_candidates (eng w1) = [] then reset_sender_transfer_state False w1 else upd_te (finish_election x e) w1)"

definition broadcast_retry_tick :: "MeshEnv \<Rightarrow> Node \<Rightarrow> Node" where
  "broadcast_retry_tick e w =
    (let br = te_broadcast_retry (eng w) in
     if \<not> br_active br then w
     else if sint (me_now e - br_next_send_ms br) < 0 then w
     else
       let w1 = snd (engine_send e (br_dst_addr br) (br_type br) (br_payload br) 0 w);
           br1 = br\<lparr>br_attempt := br_attempt br + 1\<rparr>
       in upd_te (\<lambda>t. t\<lparr>te_broadcast_retry :=
            (if br_max_retries br1 \<le> br_attempt br1 then br1\<lparr>br_active := False\<rparr>
             else br1\<lparr>br_next_send_ms := me_now e + br_backoff_ms br1, br_backoff_ms := br_backoff_ms br1 * 2\<rparr>)\<rparr>) w1)"

section \<open>Draining queues of the MQTT client\<close>

text \<open>
  \<open>while (drain(session, seq)) { body }\<close>; the body says whether the loop goes on. Every turn takes an
  item off the queue and no body adds one before it ends the loop, so the length of the queue plus
  one is enough fuel.
\<close>

fun drain_loop :: "nat \<Rightarrow> (Node \<Rightarrow> u16 option \<times> Node) \<Rightarrow> (u16 \<Rightarrow> Node \<Rightarrow> bool \<times> Node) \<Rightarrow> Node \<Rightarrow> Node" where
  "drain_loop 0 drain body w = w"
| "drain_loop (Suc n) drain body w = (case drain w of
      (None, w1) \<Rightarrow> w1
    | (Some sq, w1) \<Rightarrow> (case body sq w1 of (True, w2) \<Rightarrow> drain_loop n drain body w2 | (False, w2) \<Rightarrow> w2))"

section \<open>The local-exit path\<close>

definition cloud_acked :: "TransferEngine \<Rightarrow> u16 \<Rightarrow> bool" where
  "cloud_acked t sq \<longleftrightarrow> bm_test (te_cloud_ack_bitmap t) (unat sq div 8) (unat sq)"

definition on_cloud_ack_seq :: "MeshEnv \<Rightarrow> u16 \<Rightarrow> Node \<Rightarrow> bool \<times> Node" where
  "on_cloud_ack_seq e sq w = (True,
     if sq < at_fragment_count (xfer w)
     then upd_te (\<lambda>t. t\<lparr>te_cloud_ack_bitmap := bm_set (te_cloud_ack_bitmap t) (unat sq), te_last_cloud_activity_ms := me_now e\<rparr>) w
     else w)"

function cloud_advance :: "bytes \<Rightarrow> nat \<Rightarrow> nat \<Rightarrow> nat" where
  "cloud_advance bm cnt base =
    (if base < cnt then if bm_test bm (base div 8) base then cloud_advance bm cnt (base + 1) else base else base)"
  by auto
termination by (relation "measure (\<lambda>(bm, cnt, base). cnt - base)") auto

declare cloud_advance.simps [simp del]

definition on_cloud_nack_seq :: "u16 \<Rightarrow> Node \<Rightarrow> bool \<times> Node" where
  "on_cloud_nack_seq sq w = (True,
     if at_fragment_count (xfer w) \<le> sq then w
     else if cloud_acked (eng w) sq then w
     else
       let w1 = with_mqtt (mark_fragment_for_republish (at_session_id (xfer w)) sq) w
       in if \<not> list_ex (\<lambda>s. s = sq) (te_cloud_retx_queue (eng w1)) \<and> length (te_cloud_retx_queue (eng w1)) < CLOUD_RETX_QUEUE_SIZE
          then upd_te (\<lambda>t. t\<lparr>te_cloud_retx_queue := te_cloud_retx_queue t @ [sq]\<rparr>) w1 else w1)"

definition publish_local :: "u16 \<Rightarrow> Node \<Rightarrow> bool \<times> Node" where
  "publish_local sq w = forward_to_mqtt (at_session_id (xfer w)) sq (te_my_addr (eng w)) (read_frag (xfer w) sq) (at_filename (xfer w)) w"

fun retx_loop :: "u16 list \<Rightarrow> nat \<Rightarrow> Node \<Rightarrow> nat \<times> Node" where
  "retx_loop [] n w = (n, w)"
| "retx_loop (sq # sqs) n w =
    (if \<not> n < CLOUD_WINDOW_SIZE then (n, w)
     else if cloud_acked (eng w) sq then retx_loop sqs n w
     else case publish_local sq w of (False, w1) \<Rightarrow> (n, w1) | (True, w1) \<Rightarrow> retx_loop sqs (n + 1) w1)"

fun compact_loop :: "(u16 \<Rightarrow> bool) \<Rightarrow> nat \<Rightarrow> u16 list \<Rightarrow> u16 list" where
  "compact_loop acked n [] = []"
| "compact_loop acked n (sq # sqs) =
    (if acked sq then compact_loop acked n sqs
     else if 0 < n then compact_loop acked (n - 1) sqs
     else sq # compact_loop acked n sqs)"

definition compact_retx_queue :: "nat \<Rightarrow> TransferEngine \<Rightarrow> TransferEngine" where
  "compact_retx_queue n t = t\<lparr>te_cloud_retx_queue := compact_loop (cloud_acked t) n (te_cloud_retx_queue t)\<rparr>"

text \<open>The loop over new fragments; \<open>room\<close> is what is left of the budget of \<open>CLOUD_WINDOW_SIZE\<close>.\<close>

fun new_local_loop :: "nat \<Rightarrow> u16 \<Rightarrow> Node \<Rightarrow> Node" where
  "new_local_loop 0 window_end w = w"
| "new_local_loop (Suc room) window_end w =
    (let sq = te_cloud_next_send (eng w) in
     if sq < at_fragment_count (xfer w) \<and> sq < window_end then
       case publish_local sq w of
         (False, w1) \<Rightarrow> w1
       | (True, w1) \<Rightarrow> new_local_loop room window_end (upd_te (\<lambda>t. t\<lparr>te_cloud_next_send := te_cloud_next_send t + 1\<rparr>) w1)
     else w)"

definition tick_local_exit_arq :: "MeshEnv \<Rightarrow> Node \<Rightarrow> Node" where
  "tick_local_exit_arq e w =
    (let sid = at_session_id (xfer w);
         w1 = drain_loop (Suc (length (mq_ack_queue (mqc w)))) (drain_via drain_cloud_ack sid) (on_cloud_ack_seq e) w;
         w2 = upd_te (\<lambda>t. t\<lparr>te_cloud_base_seq := of_nat (cloud_advance (te_cloud_ack_bitmap t)
                (unat (at_fragment_count (te_transfer t))) (unat (te_cloud_base_seq t)))\<rparr>) w1;
         w3 = drain_loop (Suc (length (mq_nack_queue (mqc w2)))) (drain_via drain_cloud_nack sid) on_cloud_nack_seq w2;
         (n, w4) = retx_loop (te_cloud_retx_queue (eng w3)) 0 w3;
         w5 = upd_te (compact_retx_queue n) w4;
         w6 = new_local_loop (CLOUD_WINDOW_SIZE - n) (te_cloud_base_seq (eng w5) + of_nat CLOUD_WINDOW_SIZE) w5
     in if at_fragment_count (xfer w6) \<le> te_cloud_base_seq (eng w6) then reset_sender_transfer_state True w6 else w6)"

section \<open>The mesh path\<close>

definition path_score :: "ExitPathStats \<Rightarrow> rat" where
  "path_score s =
    (let rtt = (if 10 < xs_ewma_rtt_ms s then xs_ewma_rtt_ms s else 10)
     in rnd32 (1 / rnd32 (rtt * rnd32 (1 + rnd32 (xs_ewma_loss s * 5)))))"

definition update_loss :: "ExitPathStats \<Rightarrow> ExitPathStats" where
  "update_loss s =
    (let loss = (if 0 < xs_sent s then rnd32 (f32_of (xs_nacked s) / f32_of (xs_sent s)) else 0)
     in s\<lparr>xs_ewma_loss := ewma loss (xs_ewma_loss s)\<rparr>)"

definition recompute_weights :: "TransferEngine \<Rightarrow> TransferEngine" where
  "recompute_weights t =
    (let tr = te_transfer t; n = at_exit_node_count tr;
         alive = (\<lambda>i. i < n \<and> at_exit_node_alive tr ! i);
         stats = map (\<lambda>i. if alive i then update_loss (te_path_stats t ! i) else te_path_stats t ! i) [0..<length (te_path_stats t)];
         scores = map (\<lambda>i. if alive i then path_score (stats ! i) else 0) [0..<length stats];
         total_score = fold (\<lambda>i tot. if alive i then rnd32 (tot + scores ! i) else tot) [0..<n] 0
     in if 0 < total_score
        then t\<lparr>te_path_stats := map (\<lambda>i. if i < n then (stats ! i)\<lparr>xs_weight := (if alive i then rnd32 (scores ! i / total_score) else 0)\<rparr>
               else stats ! i) [0..<length stats]\<rparr>
        else t\<lparr>te_path_stats := stats\<rparr>)"

text \<open>
  The payload of an out-of-window retransmission; \<open>None\<close> when the entry is dropped. A parity fragment
  is computed again from the seven data fragments of its group.
\<close>

definition ingest_frag :: "bool \<Rightarrow> bytes \<Rightarrow> FecEncoder \<Rightarrow> FecEncoder" where
  "ingest_frag alloc_ok frag enc = (case enc_ingest alloc_ok frag enc of Some enc' \<Rightarrow> enc' | None \<Rightarrow> enc)"

definition regenerate_parity :: "EngineEnv \<Rightarrow> ActiveTransfer \<Rightarrow> u16 \<Rightarrow> bytes option" where
  "regenerate_parity x tr grp =
    (let idxs = map (\<lambda>d. grp * of_nat FEC_GROUP_SIZE + of_nat d) [0..<FEC_GROUP_SIZE] in
     if list_ex (\<lambda>di. at_size tr \<le> frag_offset tr di) idxs then None
     else
       let enc = fold (\<lambda>di. ingest_frag (ee_fec_alloc x) (read_frag tr di)) idxs (enc_reset (ee_fec_alloc x) FecEncoder_new)
       in if fe_parity_len enc = 0 then None else Some (enc_parity_packet enc))"

definition oow_payload :: "EngineEnv \<Rightarrow> ActiveTransfer \<Rightarrow> u16 \<Rightarrow> bytes option" where
  "oow_payload x tr sq =
    (if is_parity_seq sq then regenerate_parity x tr (sq div of_nat (FEC_GROUP_SIZE + 1))
     else if at_size tr \<le> frag_offset tr (seq_data_idx sq) then None
     else Some (read_frag tr (seq_data_idx sq)))"

definition oow_target :: "u16 \<Rightarrow> TransferEngine \<Rightarrow> u16" where
  "oow_target dst t =
    (case arq_index_for_peer dst t of
       Some i \<Rightarrow> if at_exit_node_alive (te_transfer t) ! i then dst
                else (case alive_exits t of j # _ \<Rightarrow> at_exit_nodes (te_transfer t) ! j | [] \<Rightarrow> at_exit_nodes (te_transfer t) ! 0)
     | None \<Rightarrow> (case alive_exits t of j # _ \<Rightarrow> at_exit_nodes (te_transfer t) ! j | [] \<Rightarrow> at_exit_nodes (te_transfer t) ! 0))"

definition note_oow_sent :: "MeshEnv \<Rightarrow> u16 \<Rightarrow> TransferEngine \<Rightarrow> TransferEngine" where
  "note_oow_sent e sq t = t\<lparr>te_oow_recent := (te_oow_recent t)[te_oow_recent_write t := (sq, me_now e)],
     te_oow_recent_write := (te_oow_recent_write t + 1) mod OOW_RECENT_RING_SIZE, te_last_oow_retx_ms := me_now e\<rparr>"

fun oow_loop :: "EngineEnv \<Rightarrow> MeshEnv \<Rightarrow> bool \<Rightarrow> nat \<Rightarrow> (u16 \<times> u16) list \<Rightarrow> (u16 \<times> u16) list \<Rightarrow> Node \<Rightarrow> (u16 \<times> u16) list \<times> Node" where
  "oow_loop x e allow budget [] kept w = (kept, w)"
| "oow_loop x e allow budget ((sq, dst) # rest) kept w =
    (if \<not> allow \<or> budget = 0 then oow_loop x e allow budget rest (kept @ [(sq, dst)]) w
     else case oow_payload x (xfer w) sq of
       None \<Rightarrow> oow_loop x e allow budget rest kept w
     | Some got \<Rightarrow>
         if got = [] then oow_loop x e allow budget rest (kept @ [(sq, dst)]) w
         else
           let dst' = oow_target dst (eng w); (rc, w1) = engine_send e dst' DATA got sq w in
           if rc < 0 then (kept @ (sq, dst') # rest, w1)
           else oow_loop x e allow (budget - 1) rest kept (upd_te (note_oow_sent e sq) w1))"

definition oow_plan :: "TransferEngine \<Rightarrow> nat \<times> u32" where
  "oow_plan t =
    (let interval = 25 + 10 * ucast (te_source_hops_to_exit_est t); n = length (te_oow_retx t) in
     if 96 \<le> n then (4, 8) else if 32 \<le> n then (2, if 15 < interval then 15 else interval) else (4, interval))"

definition oow_phase :: "EngineEnv \<Rightarrow> MeshEnv \<Rightarrow> Node \<Rightarrow> Node" where
  "oow_phase x e w =
    (let (budget, interval) = oow_plan (eng w); allow = (interval \<le> me_now e - te_last_oow_retx_ms (eng w)) in
     if te_oow_retx (eng w) \<noteq> [] \<and> at_read_chunk (xfer w) \<noteq> None then
       let (kept, w1) = oow_loop x e allow budget (te_oow_retx (eng w)) [] w in upd_te (\<lambda>t. t\<lparr>te_oow_retx := kept\<rparr>) w1
     else w)"

fun redist_loop :: "MeshEnv \<Rightarrow> u16 list \<Rightarrow> u16 list \<Rightarrow> Node \<Rightarrow> u16 list \<times> Node" where
  "redist_loop e [] kept w = (kept, w)"
| "redist_loop e (sq # sqs) kept w =
    (case select_mesh_target_for_seq sq (eng w) of
       None \<Rightarrow> redist_loop e sqs (kept @ [sq]) w
     | Some target \<Rightarrow>
         if can_send_sequence sq (te_arq (eng w) ! target) then
           let (ret, w1) = arq_send e target sq (Some (read_frag (xfer w) (seq_data_idx sq))) w
           in redist_loop e sqs (if ret < 0 then kept @ [sq] else kept) w1
         else redist_loop e sqs (kept @ [sq]) w)"

definition redist_phase :: "MeshEnv \<Rightarrow> Node \<Rightarrow> Node" where
  "redist_phase e w =
    (let (kept, w1) = redist_loop e (te_redist_pending (eng w)) [] w in upd_te (\<lambda>t. t\<lparr>te_redist_pending := kept\<rparr>) w1)"

definition note_frag_sent :: "MeshEnv \<Rightarrow> nat \<Rightarrow> TransferEngine \<Rightarrow> TransferEngine" where
  "note_frag_sent e i t = (upd_at (\<lambda>tr. tr\<lparr>at_next_fragment := at_next_fragment tr + 1\<rparr>) (upd_stats i (\<lambda>s. s\<lparr>xs_sent := xs_sent s + 1\<rparr>) t))
     \<lparr>te_weight_recompute_counter := te_weight_recompute_counter t + 1, te_last_mesh_frag_send_ms := me_now e\<rparr>"

text \<open>
  The loop over new fragments. At most one fragment is sent per tick (both limits are 1); data slots
  past the end of the file are skipped. The number of remaining sequence numbers is enough fuel.
\<close>

fun new_frag_loop :: "nat \<Rightarrow> EngineEnv \<Rightarrow> MeshEnv \<Rightarrow> Node \<Rightarrow> Node" where
  "new_frag_loop 0 x e w = w"
| "new_frag_loop (Suc fuel) x e w =
    (let sq = at_next_fragment (xfer w); tr = xfer w in
     if \<not> sq < at_fragment_count tr then w
     else case select_mesh_target_for_seq sq (eng w) of
       None \<Rightarrow> w
     | Some i \<Rightarrow>
         if is_parity_seq sq then
           let (ret, w1) = arq_send e i sq (map_option (take (fe_parity_len (te_fec_encoder (eng w)))) (fe_parity (te_fec_encoder (eng w)))) w
           in if ret < 0 then w1
              else upd_te (note_frag_sent e i) (upd_te (\<lambda>t. t\<lparr>te_fec_encoder := enc_reset (ee_fec_alloc x) (te_fec_encoder t)\<rparr>) w1)
         else if at_size tr \<le> frag_offset tr (seq_data_idx sq)
         then new_frag_loop fuel x e (upd_te (upd_at (\<lambda>tr. tr\<lparr>at_next_fragment := at_next_fragment tr + 1\<rparr>)) w)
         else
           let got = read_frag tr (seq_data_idx sq); (ret, w1) = arq_send e i sq (Some got) w
           in if ret < 0 then w1
              else upd_te (note_frag_sent e i) (upd_te (\<lambda>t. t\<lparr>te_fec_encoder := ingest_frag (ee_fec_alloc x) got (te_fec_encoder t)\<rparr>) w1))"

definition check_upload_done :: "TransferEngine \<Rightarrow> TransferEngine" where
  "check_upload_done t =
    (if at_fragment_count (te_transfer t) \<le> at_next_fragment (te_transfer t) \<and>
        list_all (\<lambda>i. sr_in_flight (te_arq t ! i) = 0) (alive_exits t)
     then t\<lparr>te_mesh_upload_done := True\<rparr> else t)"

definition feed_phase :: "EngineEnv \<Rightarrow> MeshEnv \<Rightarrow> Node \<Rightarrow> Node" where
  "feed_phase x e w =
    (let interval = 15 + 5 * ucast (te_source_hops_to_exit_est (eng w)) in
     if me_now e - te_last_mesh_frag_send_ms (eng w) < interval then w
     else
       let w1 = (if 16 \<le> te_weight_recompute_counter (eng w)
                 then upd_te (\<lambda>t. (recompute_weights t)\<lparr>te_weight_recompute_counter := 0\<rparr>) w else w);
           w2 = new_frag_loop (Suc (unat (at_fragment_count (xfer w1)) - unat (at_next_fragment (xfer w1)))) x e w1
       in upd_te check_upload_done w2)"

definition tick_mesh_arq :: "EngineEnv \<Rightarrow> MeshEnv \<Rightarrow> Node \<Rightarrow> Node" where
  "tick_mesh_arq x e w =
    (if at_exit_node_count (xfer w) = 0 then w
     else if alive_exits (eng w) = [] then reset_sender_transfer_state False w
     else
       let w1 = oow_phase x e w in
       if 32 \<le> length (te_oow_retx (eng w1)) then upd_te signal_congestion w1
       else if te_mesh_upload_done (eng w) then w1
       else feed_phase x e (redist_phase e w1))"

definition transfer_tick :: "EngineEnv \<Rightarrow> MeshEnv \<Rightarrow> Node \<Rightarrow> Node" where
  "transfer_tick x e w =
    (if \<not> at_active (xfer w) \<or> te_election_active (eng w) then w
     else if 0 < te_congestion_backoff_ticks (eng w)
     then upd_te (\<lambda>t. t\<lparr>te_congestion_backoff_ticks := te_congestion_backoff_ticks t - 1\<rparr>) w
     else if te_local_exit (eng w) then tick_local_exit_arq e w else tick_mesh_arq x e w)"

section \<open>The periodic tick\<close>

definition health_check :: "MeshEnv \<Rightarrow> nat \<Rightarrow> Node \<Rightarrow> Node" where
  "health_check e i w =
    (if at_exit_node_alive (xfer w) ! i \<and> 0 < sr_in_flight (te_arq (eng w) ! i) \<and>
        te_exit_node_timeout_ms (eng w) < me_now e - at_last_ack_ms (xfer w) ! i
     then redistribute_dead_exit e i w else w)"

definition exit_node_health_tick :: "MeshEnv \<Rightarrow> Node \<Rightarrow> Node" where
  "exit_node_health_tick e w =
    (if \<not> at_active (xfer w) \<or> te_election_active (eng w) \<or> at_exit_node_count (xfer w) = 0 then w
     else fold (health_check e) [0..<at_exit_node_count (xfer w)] w)"

fun tick_exits :: "MeshEnv \<Rightarrow> nat list \<Rightarrow> u8 \<Rightarrow> Node \<Rightarrow> Node" where
  "tick_exits e [] budget w = w"
| "tick_exits e (i # is) budget w =
    (if budget = 0 then w
     else if \<not> at_exit_node_alive (xfer w) ! i then tick_exits e is budget w
     else let (n, w1) = arq_tick e i budget w in tick_exits e is (if budget \<le> n then 0 else budget - n) w1)"

definition tick_arqs :: "MeshEnv \<Rightarrow> Node \<Rightarrow> Node" where
  "tick_arqs e w =
    (if at_active (xfer w) \<and> \<not> te_local_exit (eng w) then tick_exits e [0..<at_exit_node_count (xfer w)] 4 w
     else fold (\<lambda>i w. snd (arq_tick e i 8 w)) [0..<MAX_EXIT_NODES] w)"

definition arq_failed :: "TransferEngine \<Rightarrow> bool" where
  "arq_failed t \<longleftrightarrow> at_active (te_transfer t) \<and> \<not> te_local_exit t \<and>
     list_ex sr_sender_failed (take (at_exit_node_count (te_transfer t)) (te_arq t))"

definition republish_meta :: "EngineEnv \<Rightarrow> MeshEnv \<Rightarrow> Node \<Rightarrow> Node" where
  "republish_meta x e w =
    (let t = eng w; tr = xfer w; now = me_now e in
     if 0 < te_last_meta_publish_ms t \<and> META_REPUBLISH_INTERVAL_MS < now - te_last_meta_publish_ms t \<and>
        0 < te_last_cloud_activity_ms t \<and> now - te_last_cloud_activity_ms t < 15000 \<and>
        (te_local_exit t \<and> at_active tr \<or> te_is_exit_node t)
     then upd_te (\<lambda>t. t\<lparr>te_last_meta_publish_ms := now\<rparr>)
            (forward_meta x (if te_local_exit t then at_session_id tr else te_active_session_id t) (at_filename tr)
              (if te_local_exit t then te_my_addr t else te_source_addr t) (of_nat (at_size tr)) (at_fragment_count tr)
              (at_fragment_size tr) (at_crc32 tr) w)
     else w)"

text \<open>The stall check; the result says whether the tick goes on.\<close>

definition stall_check :: "MeshEnv \<Rightarrow> Node \<Rightarrow> bool \<times> Node" where
  "stall_check e w =
    (let t = eng w; tr = xfer w in
     if 0 < te_last_cloud_activity_ms t \<and> CLOUD_STALL_TIMEOUT_MS < me_now e - te_last_cloud_activity_ms t then
       if te_local_exit t \<and> at_active tr then (False, reset_sender_transfer_state True w)
       else if te_mesh_upload_done t \<and> at_active tr \<and> \<not> te_local_exit t then (False, reset_sender_transfer_state False w)
       else if te_is_exit_node t \<or> te_exit_pending t then (True, clear_exit_node_state w)
       else (True, w)
     else (True, w))"

definition forward_nack :: "MeshEnv \<Rightarrow> u16 \<Rightarrow> Node \<Rightarrow> bool \<times> Node" where
  "forward_nack e sq w =
    (let sid = te_active_session_id (eng w);
         w1 = with_mqtt (mark_fragment_for_republish sid sq) w;
         (rc, w2) = engine_send e (te_source_addr (eng w1)) NACK [] sq w1
     in if rc < 0 then (False, with_mqtt (\<lambda>q. snd (requeue_cloud_nack sid sq q)) w2)
        else (True, upd_te (\<lambda>t. t\<lparr>te_last_cloud_activity_ms := me_now e\<rparr>) w2))"

definition forward_ack :: "MeshEnv \<Rightarrow> u16 \<Rightarrow> Node \<Rightarrow> bool \<times> Node" where
  "forward_ack e sq w =
    (let sid = te_active_session_id (eng w);
         (rc, w1) = engine_send e (te_source_addr (eng w)) ACK [] sq w
     in if rc < 0 then (False, with_mqtt (\<lambda>q. snd (requeue_fragment_ack sid sq q)) w1) else (True, w1))"

definition exit_nacks :: "MeshEnv \<Rightarrow> Node \<Rightarrow> Node" where
  "exit_nacks e w =
    (if te_is_exit_node (eng w)
     then drain_loop (Suc (length (mq_nack_queue (mqc w)))) (drain_via drain_cloud_nack (te_active_session_id (eng w))) (forward_nack e) w
     else w)"

definition exit_acks :: "MeshEnv \<Rightarrow> Node \<Rightarrow> Node" where
  "exit_acks e w =
    (if te_is_exit_node (eng w)
     then drain_loop (Suc (length (mq_fragment_ack_queue (mqc w)))) (drain_via drain_fragment_ack (te_active_session_id (eng w))) (forward_ack e) w
     else w)"

definition exit_complete :: "MeshEnv \<Rightarrow> Node \<Rightarrow> Node" where
  "exit_complete e w =
    (if te_is_exit_node (eng w) \<and> mm_mqtt_client (snd w) then
       let sid = te_active_session_id (eng w); (complete, q) = consume_transfer_complete sid (mqc w); w1 = upd_mq (\<lambda>_. q) w
       in if complete then
            clear_exit_node_state (snd (engine_send e (te_source_addr (eng w1)) TRANSFER_DONE
              (enc_transfer_done \<lparr>td_session_id = sid, td_exit_node_addr = te_my_addr (eng w1)\<rparr>) 0 w1))
          else w1
     else w)"

definition engine_tick :: "EngineEnv \<Rightarrow> MeshEnv \<Rightarrow> Node \<Rightarrow> Node" where
  "engine_tick x e w =
    (let w1 = tick_arqs e w in
     if arq_failed (eng w1) then reset_sender_transfer_state False w1
     else
       let (go_on, w2) = stall_check e (republish_meta x e w1) in
       if \<not> go_on then w2
       else
         let w3 = exit_complete e (exit_acks e (exit_nacks e w2));
             w4 = election_timeout_tick x e (broadcast_retry_tick e w3)
         in transfer_tick x e (exit_node_health_tick e w4))"

section \<open>The operations the mesh manager calls\<close>

definition flp_ops :: "EngineEnv \<Rightarrow> (TransferEngine \<times> MqttClient) EngineOps" where
  "flp_ops x = \<lparr>eo_handle_exit_offline = handle_exit_offline, eo_handle_transfer_ad = handle_transfer_ad x,
     eo_handle_transfer_ack = (\<lambda>e. handle_transfer_ack), eo_handle_data = handle_data x, eo_handle_ack = engine_handle_ack,
     eo_handle_nack = engine_handle_nack, eo_signal_congestion = (\<lambda>e. upd_te signal_congestion),
     eo_handle_transfer_done = (\<lambda>e. handle_transfer_done), eo_tick = engine_tick x,
     eo_is_transfer_active = (\<lambda>s. at_active (te_transfer (fst s))), eo_active_session_id = (\<lambda>s. active_session_id (fst s))\<rparr>"

text \<open>An example: a freshly started node and its environment.\<close>

definition ex_engine_env :: EngineEnv where
  "ex_engine_env = \<lparr>ee_mqtt = \<lparr>qe_now = 1000, qe_publish = (\<lambda>_. 0), qe_outbox_size = 0, qe_crc32 = (\<lambda>_. 0), qe_mutex = True,
       qe_topic_taken = False\<rparr>, ee_random = 77, ee_crc32 = (\<lambda>c d. c + of_nat (length d)), ee_ap_rssi = Some (- 50),
     ee_fec_alloc = True, ee_max_elected_exits = 2\<rparr>"

definition ex_node :: Node where
  "ex_node = ((engine_init 2 (\<lambda>_. True) 0x0A0B, MqttClient_new 0x0A0B), ex_mesh)"

lemma snd_ex_node [simp]: "snd ex_node = ex_mesh"
  by (simp only: ex_node_def snd_conv)

end
