(* ===== verification/Transfer_Steps.thy ===== *)
theory Transfer_Steps
  imports Transfer_Run Mesh_Dedup "HOL-Library.Sublist"
begin

text \<open>
  The transfer engine as a state machine. \<open>engine_upd\<close> lists the updates the engine makes of its own
  state, each with the guard under which the code makes it. Every operation of the engine is shown to
  be a sequence of such updates that sends frames of its own node only (\<open>moves\<close>); an invariant of
  \<open>engine_upd\<close> is therefore an invariant of every operation.
\<close>

unbundle bit_operations_syntax

section \<open>The updates\<close>

inductive engine_upd :: "TransferEngine \<Rightarrow> TransferEngine \<Rightarrow> bool" where
  backpressure: "engine_upd t (note_local_backpressure t)"
| congestion: "engine_upd t (signal_congestion t)"
| congestion_tick: "0 < te_congestion_backoff_ticks t \<Longrightarrow>
    engine_upd t (t\<lparr>te_congestion_backoff_ticks := te_congestion_backoff_ticks t - 1\<rparr>)"
| arq: "engine_upd t (t\<lparr>te_arq := (te_arq t)[i := a]\<rparr>)"
| exit_pending: "\<not> at_active (te_transfer t) \<Longrightarrow> \<not> te_is_exit_node t \<Longrightarrow> \<not> te_exit_pending t \<Longrightarrow>
    engine_upd t (become_exit_pending e src ad t)"
| exit_active: "te_exit_pending t \<Longrightarrow> \<not> te_is_exit_node t \<Longrightarrow> te_active_session_id t \<noteq> 0 \<Longrightarrow>
    engine_upd t (t\<lparr>te_is_exit_node := True, te_exit_pending := False\<rparr>)"
| activity: "te_is_exit_node t \<or> te_exit_pending t \<Longrightarrow> engine_upd t (t\<lparr>te_last_cloud_activity_ms := now\<rparr>)"
| candidate: "te_election_active t \<Longrightarrow> ec_addr c \<notin> ec_addr ` set (te_candidates t) \<Longrightarrow> length (te_candidates t) < 4 \<Longrightarrow>
    engine_upd t (t\<lparr>te_candidates := te_candidates t @ [c]\<rparr>)"
| stats: "engine_upd t (upd_stats i f t)"
| weights: "engine_upd t ((recompute_weights t)\<lparr>te_weight_recompute_counter := 0\<rparr>)"
| last_ack: "engine_upd t (upd_at (\<lambda>tr. tr\<lparr>at_last_ack_ms := (at_last_ack_ms tr)[i := now]\<rparr>) t)"
| oow_add: "engine_upd t (queue_oow e sq from_addr t)"
| oow_keep: "subseq (map fst kept) (map fst (te_oow_retx t)) \<Longrightarrow> engine_upd t (t\<lparr>te_oow_retx := kept\<rparr>)"
| oow_sent: "engine_upd t (note_oow_sent e sq t)"
| sender_reset: "at_active (te_transfer t) \<Longrightarrow> engine_upd t (sender_reset t)"
| completed: "engine_upd t (t\<lparr>te_events := te_events t @ [ev]\<rparr>)"
| exit_cleared: "te_is_exit_node t \<or> te_exit_pending t \<Longrightarrow> engine_upd t (exit_cleared t)"
| exit_dead: "engine_upd t (upd_at (\<lambda>tr. tr\<lparr>at_exit_node_alive := (at_exit_node_alive tr)[i := False]\<rparr>) t)"
| redist_add: "engine_upd t (push_redist sq t)"
| redist_keep: "subseq kept (te_redist_pending t) \<Longrightarrow> engine_upd t (t\<lparr>te_redist_pending := kept\<rparr>)"
| elected: "te_candidates t \<noteq> [] \<Longrightarrow> engine_upd t (finish_election x e (t\<lparr>te_election_active := False\<rparr>))"
| not_elected: "engine_upd t (sender_reset (t\<lparr>te_election_active := False\<rparr>))"
| retry: "engine_upd t (t\<lparr>te_broadcast_retry := br\<rparr>)"
| cloud_ack: "sq < at_fragment_count (te_transfer t) \<Longrightarrow> at_active (te_transfer t) \<Longrightarrow> te_local_exit t \<Longrightarrow>
    engine_upd t (t\<lparr>te_cloud_ack_bitmap := bm_set (te_cloud_ack_bitmap t) (unat sq), te_last_cloud_activity_ms := now\<rparr>)"
| cloud_base: "engine_upd t (t\<lparr>te_cloud_base_seq := of_nat (cloud_advance (te_cloud_ack_bitmap t)
    (unat (at_fragment_count (te_transfer t))) (unat (te_cloud_base_seq t)))\<rparr>)"
| cloud_retx: "sq < at_fragment_count (te_transfer t) \<Longrightarrow> \<not> cloud_acked t sq \<Longrightarrow> sq \<notin> set (te_cloud_retx_queue t) \<Longrightarrow>
    length (te_cloud_retx_queue t) < CLOUD_RETX_QUEUE_SIZE \<Longrightarrow>
    engine_upd t (t\<lparr>te_cloud_retx_queue := te_cloud_retx_queue t @ [sq]\<rparr>)"
| cloud_compact: "engine_upd t (compact_retx_queue n t)"
| cloud_next: "te_cloud_next_send t < at_fragment_count (te_transfer t) \<Longrightarrow>
    te_cloud_next_send t < te_cloud_base_seq t + of_nat CLOUD_WINDOW_SIZE \<Longrightarrow>
    engine_upd t (t\<lparr>te_cloud_next_send := te_cloud_next_send t + 1\<rparr>)"
| fec: "engine_upd t (t\<lparr>te_fec_encoder := enc\<rparr>)"
| skip_frag: "at_next_fragment (te_transfer t) < at_fragment_count (te_transfer t) \<Longrightarrow>
    engine_upd t (upd_at (\<lambda>tr. tr\<lparr>at_next_fragment := at_next_fragment tr + 1\<rparr>) t)"
| frag_sent: "at_next_fragment (te_transfer t) < at_fragment_count (te_transfer t) \<Longrightarrow> engine_upd t (note_frag_sent e i t)"
| upload_done: "engine_upd t (check_upload_done t)"
| meta: "engine_upd t (t\<lparr>te_last_meta_publish_ms := now\<rparr>)"
| start: "\<not> at_active (te_transfer t) \<Longrightarrow> \<not> te_is_exit_node t \<Longrightarrow>
    start_file_transfer x e filename sz read_chunk has_internet has_mqtt hops ((t, q), m) = (ok, ((t', q'), m')) \<Longrightarrow>
    engine_upd t t'"

section \<open>Moves of the node\<close>

definition moves :: "Node \<Rightarrow> Node \<Rightarrow> bool" where
  "moves w w' \<longleftrightarrow> engine_upd\<^sup>*\<^sup>* (eng w) (eng w') \<and> own_sends (snd w) (snd w')"

named_theorems moves_intros

lemma moves_refl [simp, intro, moves_intros]: "moves w w"
  by (simp add: moves_def)

lemma moves_trans [trans]: "moves w w' \<Longrightarrow> moves w' w'' \<Longrightarrow> moves w w''"
  unfolding moves_def using own_sends_trans by (meson rtranclp_trans)

lemma moves_te: "engine_upd (eng w) (f (eng w)) \<Longrightarrow> moves w (upd_te f w)"
  by (auto simp: moves_def upd_te_def)

lemma moves_mq [moves_intros]: "moves w (upd_mq f w)"
  by (simp add: moves_def upd_mq_def)

lemma moves_then_te: "moves w w' \<Longrightarrow> engine_upd (eng w') (f (eng w')) \<Longrightarrow> moves w (upd_te f w')"
  by (rule moves_trans [OF _ moves_te])

lemma eng_upd [simp]: "eng (upd_te f w) = f (eng w)" "eng (upd_mq g w) = eng w" "mqc (upd_te f w) = mqc w"
  "mqc (upd_mq g w) = g (mqc w)" "snd (upd_te f w) = snd w" "snd (upd_mq g w) = snd w"
  by (simp_all add: upd_te_def upd_mq_def)

text \<open>A send changes of the engine only the congestion counter.\<close>

definition cong :: "Node \<Rightarrow> Node \<Rightarrow> bool" where
  "cong w w' \<longleftrightarrow> moves w w' \<and> mqc w' = mqc w \<and> (\<exists>c. eng w' = (eng w)\<lparr>te_congestion_backoff_ticks := c\<rparr>)"

lemma congestion_same: "t\<lparr>te_congestion_backoff_ticks := te_congestion_backoff_ticks t\<rparr> = t"
  by (rule TransferEngine.equality) simp_all

lemma congI: "moves w w' \<Longrightarrow> mqc w' = mqc w \<Longrightarrow> eng w' = (eng w)\<lparr>te_congestion_backoff_ticks := c\<rparr> \<Longrightarrow> cong w w'"
  by (auto simp: cong_def)

lemma cong_refl [simp]: "cong w w"
  by (rule congI [OF moves_refl refl congestion_same [symmetric]])

lemma cong_trans:
  assumes "cong w w'" and "cong w' w''"
  shows "cong w w''"
proof -
  from assms obtain c d where "eng w' = (eng w)\<lparr>te_congestion_backoff_ticks := c\<rparr>"
    "eng w'' = (eng w')\<lparr>te_congestion_backoff_ticks := d\<rparr>" by (auto simp: cong_def)
  then have "eng w'' = (eng w)\<lparr>te_congestion_backoff_ticks := d\<rparr>" by simp
  with assms show ?thesis by (intro congI [of w w'' d]) (auto simp: cong_def intro: moves_trans)
qed

lemma cong_moves: "cong w w' \<Longrightarrow> moves w w'"
  by (simp add: cong_def)

lemma engine_send_cong: "cong w (snd (engine_send e dst type payload sq w))"
proof -
  let ?c = "is_congested (mm_buffer_pool (snd w)) \<or> mm_mqtt_client (snd w) \<and> is_fragment_queue_congested (mqc w)"
  let ?sq = "if type = ACK \<or> type = NACK then seq_with_congestion sq ?c else sq"
  obtain rc m where s: "send_packet e dst type payload ?sq (snd w) = (rc, m)" by fastforce
  have o: "own_sends (snd w) m" using own_sends_send_packet [of "snd w" e dst type payload ?sq] s by simp
  have 1: "cong w (fst w, m)"
    by (rule congI [where c = "te_congestion_backoff_ticks (eng w)"]) (simp_all add: moves_def o congestion_same)
  have "note_local_backpressure t = t\<lparr>te_congestion_backoff_ticks := te_congestion_backoff_ticks (note_local_backpressure t)\<rparr>" for t
    by (simp add: note_local_backpressure_def signal_congestion_def Let_def)
  then have 2: "cong (fst w, m) (upd_te note_local_backpressure (fst w, m))"
    by (intro congI [OF moves_te [where f = note_local_backpressure, OF engine_upd.backpressure]]) simp_all
  show ?thesis
    using 1 cong_trans [OF 1 2] s by (simp add: engine_send_def Let_def)
qed


section \<open>Operations of an ARQ instance\<close>

text \<open>What the send callback does to the world between two states, an operation of the instance does.\<close>

definition cb_within :: "('w \<Rightarrow> 'w \<Rightarrow> bool) \<Rightarrow> 'w SendCallback \<Rightarrow> bool" where
  "cb_within R cb \<longleftrightarrow> (\<forall>w. R w w) \<and> (\<forall>u v w. R u v \<longrightarrow> R v w \<longrightarrow> R u w) \<and>
     (\<forall>dst ty sq payload w. R w (snd (call_cb cb dst ty sq payload w)))"

lemma cb_withinD:
  assumes "cb_within R cb"
  shows "R w w" and "R u v \<Longrightarrow> R v w \<Longrightarrow> R u w" and "R w (snd (call_cb cb dst ty sq payload w))"
    and "call_cb cb dst ty sq payload w = (rc, w1) \<Longrightarrow> R w w1"
    and "call_cb cb dst ty sq payload w = (rc, w1) \<Longrightarrow> R w1 w2 \<Longrightarrow> R w w2"
  using assms unfolding cb_within_def by (blast, blast, blast, metis snd_conv, metis snd_conv)

lemma send_fragment_within:
  assumes "cb_within R cb" shows "R w (snd (snd (send_fragment cb now sq data a w)))"
  using cb_withinD(1,3) [OF assms] by (simp add: send_fragment_def Let_def case_prod_unfold split: option.split)

lemma handle_nack_within:
  assumes "cb_within R cb" shows "R w (snd (handle_nack cb now sq a w))"
  using cb_withinD(1,3) [OF assms] by (simp add: handle_nack_def Let_def case_prod_unfold split: option.split)

lemma tick_loop_within:
  assumes "cb_within R cb" shows "R w (snd (snd (tick_loop cb now mx idxs n a w)))"
proof (induction idxs arbitrary: n a w)
  case (Cons idx idxs)
  let ?slot = "the (sr_window a) ! idx"
  obtain rc w1 where k: "call_cb cb (sr_peer_addr a) DATA (fs_seq_tag ?slot) (take (fs_len ?slot) (fs_data ?slot)) w = (rc, w1)"
    by fastforce
  have "R w w1" "R w (snd (snd (tick_loop cb now mx idxs n' a' w1)))" for n' a'
    using cb_withinD(4) [OF assms k] cb_withinD(2) [OF assms cb_withinD(4) [OF assms k] Cons.IH] by auto
  then show ?case using Cons.IH cb_withinD(1) [OF assms] by (simp add: Let_def k)
qed (simp add: cb_withinD(1) [OF assms])

lemma tick_within:
  assumes "cb_within R cb" shows "R w (snd (snd (tick cb now mx a w)))"
  using cb_withinD(1) [OF assms] tick_loop_within [OF assms] by (auto simp: tick_def split: option.splits)

lemma nack_loop_within:
  assumes "cb_within R cb" shows "R w (snd (nack_loop cb now is a w))"
proof (induction "is" arbitrary: a w)
  case (Cons i "is")
  obtain rc w1 where k: "call_cb cb (sr_peer_addr a) NACK (of_nat i) [] w = (rc, w1)" by fastforce
  show ?case using Cons.IH cb_withinD(2) [OF assms cb_withinD(4) [OF assms k] Cons.IH] by (simp add: Let_def k)
qed (simp add: cb_withinD(1) [OF assms])

lemma receive_fragment_within:
  assumes "cb_within R cb" shows "R w (snd (snd (receive_fragment cb now sq payload a w)))"
proof -
  note c = cb_withinD [OF assms]
  have t: "R w (snd (take_recovered cb a w))" for a w
    using c(1,3) by (simp add: take_recovered_def Let_def case_prod_unfold)
  have r: "R w (snd (report_gap cb now sq a w))" for a w
    using c(1) nack_loop_within [OF assms] by (simp add: report_gap_def Let_def)
  have "R w (snd (snd (accept_fragment cb now sq payload a w)))" for a w
    using c(1) c(3) c(2) [OF c(3) r] by (simp add: accept_fragment_def Let_def)
  note acc = this
  show ?thesis
    using c(1) acc c(2) [OF t acc] by (simp add: receive_fragment_def Let_def case_prod_unfold)
qed

lemma arq_cb_within: "cb_within cong (arq_cb e)"
  unfolding cb_within_def arq_cb_def call_cb_def
  using engine_send_cong cong_trans by auto

text \<open>After an operation of instance \<open>i\<close> only that instance and the congestion counter may have changed.\<close>

definition arq_only :: "nat \<Rightarrow> Node \<Rightarrow> Node \<Rightarrow> bool" where
  "arq_only i w w' \<longleftrightarrow> moves w w' \<and> mqc w' = mqc w \<and>
     (\<exists>c a. eng w' = (eng w)\<lparr>te_congestion_backoff_ticks := c, te_arq := (te_arq (eng w))[i := a]\<rparr>)"

lemma cong_put_arq:
  assumes "cong w w'"
  shows "arq_only i w (put_arq i a w')"
proof -
  from assms obtain c where c: "eng w' = (eng w)\<lparr>te_congestion_backoff_ticks := c\<rparr>" by (auto simp: cong_def)
  have "moves w (put_arq i a w')"
    unfolding put_arq_def
    by (rule moves_then_te [where f = "\<lambda>t. t\<lparr>te_arq := (te_arq t)[i := a]\<rparr>", OF cong_moves [OF assms] engine_upd.arq])
  moreover have "eng (put_arq i a w') = (eng w)\<lparr>te_congestion_backoff_ticks := c, te_arq := (te_arq (eng w))[i := a]\<rparr>"
    by (simp add: put_arq_def c)
  ultimately show ?thesis using assms by (auto simp: arq_only_def cong_def put_arq_def)
qed

lemma arq_send_only: "arq_only i w (snd (arq_send e i sq data w))"
  using cong_put_arq [OF send_fragment_within [OF arq_cb_within]] by (simp add: arq_send_def case_prod_unfold Let_def)

lemma arq_ack_only: "arq_only i w (arq_ack e i sq w)"
  unfolding arq_ack_def by (rule cong_put_arq) simp

lemma arq_nack_only: "arq_only i w (arq_nack e i sq w)"
  using cong_put_arq [OF handle_nack_within [OF arq_cb_within]] by (simp add: arq_nack_def case_prod_unfold Let_def)

lemma arq_tick_only: "arq_only i w (snd (arq_tick e i budget w))"
  using cong_put_arq [OF tick_within [OF arq_cb_within]] by (simp add: arq_tick_def case_prod_unfold Let_def)

lemma arq_only_moves: "arq_only i w w' \<Longrightarrow> moves w w'"
  by (simp add: arq_only_def)

lemmas arq_moves [moves_intros] =
  arq_send_only [THEN arq_only_moves] arq_ack_only [THEN arq_only_moves]
  arq_nack_only [THEN arq_only_moves] arq_tick_only [THEN arq_only_moves]

lemmas send_moves [moves_intros] = engine_send_cong [THEN cong_moves]


section \<open>The handlers\<close>

lemma with_mqtt_eng [simp]: "eng (with_mqtt f w) = eng w" "snd (with_mqtt f w) = snd w"
  by (simp_all add: with_mqtt_def)

lemma end_session_eng [simp]: "eng (end_session sid w) = eng w" "snd (end_session sid w) = snd w"
  by (simp_all add: end_session_def)

lemma forward_meta_eng [simp]:
  "eng (forward_meta x sid fn src sz cnt fs crc w) = eng w" "snd (forward_meta x sid fn src sz cnt fs crc w) = snd w"
  by (simp_all add: forward_meta_def)

lemma forward_to_mqtt_eng [simp]:
  "eng (snd (forward_to_mqtt sid sq src d fn w)) = eng w" "snd (snd (forward_to_mqtt sid sq src d fn w)) = snd w"
  by (simp_all add: forward_to_mqtt_def case_prod_unfold Let_def)

lemma drain_via_eng [simp]: "eng (snd (drain_via f sid w)) = eng w" "snd (snd (drain_via f sid w)) = snd w"
  by (simp_all add: drain_via_def case_prod_unfold Let_def)

lemma moves_same: "eng w' = eng w \<Longrightarrow> snd w' = snd w \<Longrightarrow> moves w w'"
  by (simp add: moves_def)

lemma moves_upd: "moves w w' \<Longrightarrow> engine_upd (eng w') t \<Longrightarrow> eng w'' = t \<Longrightarrow> snd w'' = snd w' \<Longrightarrow> moves w w''"
  unfolding moves_def by auto

lemmas moves_step = moves_upd [OF moves_refl]

lemma reset_moves:
  assumes "at_active (xfer w)"
  shows "moves w (reset_sender_transfer_state b w)"
proof -
  let ?w1 = "end_session (at_session_id (xfer w)) (upd_te sender_reset w)"
  have 1: "moves w ?w1" by (rule moves_step [OF engine_upd.sender_reset [OF assms]]) simp_all
  have "moves w (upd_te (\<lambda>t. t\<lparr>te_events := te_events t @ [FLP_EVT_TRANSFER_COMPLETE]\<rparr>) ?w1)"
    by (rule moves_upd [OF 1 engine_upd.completed]) simp_all
  with 1 show ?thesis by (simp add: reset_sender_transfer_state_def Let_def)
qed

lemma clear_exit_moves: "te_is_exit_node (eng w) \<or> te_exit_pending (eng w) \<Longrightarrow> moves w (clear_exit_node_state w)"
  by (rule moves_step [OF engine_upd.exit_cleared]) (simp_all add: clear_exit_node_state_def)

lemma cong_fields:
  assumes "cong w w'"
  shows "te_transfer (eng w') = te_transfer (eng w)" "te_is_exit_node (eng w') = te_is_exit_node (eng w)"
    "te_exit_pending (eng w') = te_exit_pending (eng w)" "te_active_session_id (eng w') = te_active_session_id (eng w)"
    "te_local_exit (eng w') = te_local_exit (eng w)" "te_oow_retx (eng w') = te_oow_retx (eng w)"
    "te_redist_pending (eng w') = te_redist_pending (eng w)" "te_arq (eng w') = te_arq (eng w)" "mqc w' = mqc w"
  using assms by (auto simp: cong_def)

lemma arq_only_fields:
  assumes "arq_only i w w'"
  shows "te_transfer (eng w') = te_transfer (eng w)" "te_is_exit_node (eng w') = te_is_exit_node (eng w)"
    "te_exit_pending (eng w') = te_exit_pending (eng w)" "te_active_session_id (eng w') = te_active_session_id (eng w)"
    "te_local_exit (eng w') = te_local_exit (eng w)" "te_oow_retx (eng w') = te_oow_retx (eng w)"
    "te_redist_pending (eng w') = te_redist_pending (eng w)" "mqc w' = mqc w"
  using assms by (auto simp: arq_only_def)

lemma handle_transfer_ad_moves: "moves w (handle_transfer_ad x e hdr payload inet w)"
proof (cases "dec_transfer_ad payload")
  case (Some ad)
  have c: "cong w (send_transfer_ack x e (src_addr hdr) (ad_session_id ad) n w)" for n
    by (simp add: send_transfer_ack_def engine_send_cong)
  have "moves w (upd_te (become_exit_pending e (src_addr hdr) ad) (send_transfer_ack x e (src_addr hdr) (ad_session_id ad) 0 w))"
    if "\<not> at_active (xfer w)" "\<not> te_is_exit_node (eng w)" "\<not> te_exit_pending (eng w)"
    by (rule moves_upd [OF cong_moves [OF c] engine_upd.exit_pending]) (use that cong_fields [OF c] in simp_all)
  then show ?thesis using cong_moves [OF c] by (auto simp: handle_transfer_ad_def Some)
qed (simp add: handle_transfer_ad_def)

lemma activate_exit_moves: "moves w (activate_exit x w)"
  unfolding activate_exit_def Let_def
  by (auto intro!: moves_step [OF engine_upd.exit_active])

lemma activate_exit_role:
  "te_is_exit_node (eng w) \<or> te_exit_pending (eng w) \<Longrightarrow>
   te_is_exit_node (eng (activate_exit x w)) \<or> te_exit_pending (eng (activate_exit x w))"
  by (auto simp: activate_exit_def Let_def)

lemma handle_data_moves: "moves w (handle_data x e hdr payload w)"
proof (cases "te_is_exit_node (eng w) \<or> te_exit_pending (eng w)")
  case True
  define w1 where "w1 = activate_exit x w"
  define r where "r = forward_to_mqtt (te_active_session_id (eng w1)) (seq_num hdr) (te_source_addr (eng w1)) payload
             (at_filename (xfer w1)) w1"
  have 1: "moves w (snd r)"
    by (rule moves_trans [OF activate_exit_moves [of w x] moves_same]) (simp_all add: r_def w1_def)
  have role: "te_is_exit_node (eng (snd r)) \<or> te_exit_pending (eng (snd r))"
    using activate_exit_role [OF True] by (simp add: r_def w1_def)
  have "moves w (upd_te (\<lambda>t. t\<lparr>te_last_cloud_activity_ms := me_now e\<rparr>) (snd r))"
    by (rule moves_upd [OF 1 engine_upd.activity [OF role]]) simp_all
  moreover have "moves w (upd_te signal_congestion (snd r))"
    by (rule moves_upd [OF 1 engine_upd.congestion]) simp_all
  ultimately show ?thesis using True by (simp add: handle_data_def Let_def case_prod_unfold w1_def [symmetric] r_def [symmetric])
next
  case False
  then show ?thesis
    using cong_put_arq [OF receive_fragment_within [OF arq_cb_within], THEN arq_only_moves]
    by (simp add: handle_data_def Let_def case_prod_unfold)
qed

lemma handle_transfer_ack_moves: "moves w (handle_transfer_ack hdr payload w)"
proof (cases "dec_transfer_ack payload")
  case (Some ack)
  show ?thesis
    unfolding handle_transfer_ack_def Some
    by (auto simp: list_ex_iff intro!: moves_step [OF engine_upd.candidate])
qed (simp add: handle_transfer_ack_def)


lemma engine_handle_ack_moves: "moves w (engine_handle_ack e sq from_addr w)"
proof (cases "arq_index_for_peer from_addr (eng w)")
  case (Some i)
  let ?w1 = "arq_ack e i sq w"
  have 1: "moves w ?w1" by (rule arq_moves)
  have 2: "moves w (upd_te (upd_stats i f) ?w1)" for f
    by (rule moves_upd [OF 1 engine_upd.stats]) simp_all
  have 3: "moves w (upd_te (upd_at (\<lambda>tr. tr\<lparr>at_last_ack_ms := (at_last_ack_ms tr)[i := me_now e]\<rparr>)) (upd_te (upd_stats i f) w2))"
    if "moves w w2" for f w2
  proof -
    have "moves w (upd_te (upd_stats i f) w2)" by (rule moves_upd [OF that engine_upd.stats]) simp_all
    then show ?thesis by (rule moves_upd [OF _ engine_upd.last_ack]) simp_all
  qed
  show ?thesis
    unfolding engine_handle_ack_def Some Let_def using 1 3 [OF 1] 3 [OF 2] by (simp split: if_split)
qed (simp add: engine_handle_ack_def)

lemma owned_nack_moves: "moves w (owned_nack e i sq w)"
  unfolding owned_nack_def
  by (rule moves_trans [OF moves_step [OF engine_upd.stats] arq_moves(3)]) simp_all

lemma queue_oow_moves: "moves w (upd_te (queue_oow e sq from_addr) w)"
  by (rule moves_step [OF engine_upd.oow_add]) simp_all

lemma engine_handle_nack_moves: "moves w (engine_handle_nack e sq from_addr w)"
  by (auto simp: engine_handle_nack_def owned_nack_moves queue_oow_moves split: option.split)

lemma handle_transfer_done_moves: "moves w (handle_transfer_done src payload w)"
  by (auto simp: handle_transfer_done_def reset_moves split: option.split)

lemma push_redist_moves: "moves w w' \<Longrightarrow> moves w (upd_te (push_redist sq) w')"
  by (rule moves_upd [OF _ engine_upd.redist_add]) simp_all

lemma redistribute_seq_moves: "moves w (redistribute_seq e i sq w)"
  unfolding redistribute_seq_def Let_def case_prod_unfold
  by (simp add: push_redist_moves moves_intros split: if_split)

lemma fold_moves:
  assumes "\<And>i w. moves w (f i w)"
  shows "moves w (fold f xs w)"
proof (induction xs arbitrary: w)
  case (Cons a xs)
  show ?case using moves_trans [OF assms Cons.IH] by simp
qed simp

lemma redistribute_dead_exit_moves: "moves w (redistribute_dead_exit e i w)"
proof -
  let ?w1 = "upd_te (upd_at (\<lambda>tr. tr\<lparr>at_exit_node_alive := (at_exit_node_alive tr)[i := False]\<rparr>)) w"
  let ?w2 = "put_arq i (reset_sender (te_arq (eng ?w1) ! i)) ?w1"
  have 1: "moves w ?w1" by (rule moves_step [OF engine_upd.exit_dead]) simp_all
  have 2: "moves w ?w2" by (rule moves_trans [OF 1 arq_only_moves [OF cong_put_arq [OF cong_refl]]])
  show ?thesis
    using 2 moves_trans [OF 2 fold_moves [where f = "redistribute_seq e j" for j, OF redistribute_seq_moves]]
    by (simp add: redistribute_dead_exit_def Let_def split: list.split)
qed

lemma handle_exit_offline_moves: "moves w (handle_exit_offline e a sid w)"
  by (auto simp: handle_exit_offline_def Let_def redistribute_dead_exit_moves split: option.split)

section \<open>The tick\<close>

lemma drain_loop_moves:
  assumes "P w" and "\<And>w w'. P w \<Longrightarrow> eng w' = eng w \<Longrightarrow> P w'"
    and "\<And>sq w. P w \<Longrightarrow> moves w (snd (body sq w)) \<and> P (snd (body sq w))"
    and "\<And>w. eng (snd (drain w)) = eng w \<and> snd (snd (drain w)) = snd w"
  shows "moves w (drain_loop n drain body w) \<and> P (drain_loop n drain body w)"
  using assms(1)
proof (induction n arbitrary: w)
  case (Suc n)
  obtain r w1 where d: "drain w = (r, w1)" by (meson surj_pair)
  with assms(4) [of w] have w1: "moves w w1" by (auto intro: moves_same)
  have p1: "P w1" using assms(2) [OF Suc.prems] assms(4) [of w] d by simp
  show ?case
  proof (cases r)
    case (Some sq)
    obtain b w2 where b: "body sq w1 = (b, w2)" by (meson surj_pair)
    with assms(3) [OF p1, of sq] have w2: "moves w1 w2" "P w2" by auto
    note m2 = moves_trans [OF w1 w2(1)]
    show ?thesis using Suc.IH [OF w2(2)] m2 moves_trans [OF m2] w2(2) by (cases b) (auto simp: d Some b)
  qed (simp add: d w1 p1)
qed simp

lemma on_cloud_ack_moves:
  assumes "at_active (xfer w) \<and> te_local_exit (eng w)"
  shows "moves w (snd (on_cloud_ack_seq e sq w)) \<and>
    at_active (xfer (snd (on_cloud_ack_seq e sq w))) \<and> te_local_exit (eng (snd (on_cloud_ack_seq e sq w)))"
proof (cases "sq < at_fragment_count (xfer w)")
  case True
  have "moves w (upd_te (\<lambda>t. t\<lparr>te_cloud_ack_bitmap := bm_set (te_cloud_ack_bitmap t) (unat sq), te_last_cloud_activity_ms := me_now e\<rparr>) w)"
    by (rule moves_step [OF engine_upd.cloud_ack]) (use True assms in simp_all)
  then show ?thesis using True assms by (simp add: on_cloud_ack_seq_def)
qed (use assms in \<open>simp add: on_cloud_ack_seq_def\<close>)

lemma on_cloud_nack_moves:
  assumes "at_active (xfer w) \<and> te_local_exit (eng w)"
  shows "moves w (snd (on_cloud_nack_seq sq w)) \<and>
    at_active (xfer (snd (on_cloud_nack_seq sq w))) \<and> te_local_exit (eng (snd (on_cloud_nack_seq sq w)))"
proof -
  let ?w1 = "with_mqtt (mark_fragment_for_republish (at_session_id (xfer w)) sq) w"
  have 1: "moves w ?w1" by (rule moves_same) simp_all
  have "moves w (upd_te (\<lambda>t. t\<lparr>te_cloud_retx_queue := te_cloud_retx_queue t @ [sq]\<rparr>) ?w1)"
    if "sq < at_fragment_count (xfer w)" "\<not> cloud_acked (eng w) sq" "sq \<notin> set (te_cloud_retx_queue (eng w))"
      "length (te_cloud_retx_queue (eng w)) < CLOUD_RETX_QUEUE_SIZE"
    by (rule moves_upd [OF 1 engine_upd.cloud_retx]) (use that in simp_all)
  with 1 show ?thesis
    using assms by (auto simp: on_cloud_nack_seq_def Let_def list_ex_iff not_le)
qed

lemma publish_local_eng [simp]: "eng (snd (publish_local sq w)) = eng w" "snd (snd (publish_local sq w)) = snd w"
  by (simp_all add: publish_local_def)

lemma retx_loop_eng: "eng (snd (retx_loop sqs n w)) = eng w \<and> snd (snd (retx_loop sqs n w)) = snd w"
proof (induction sqs arbitrary: n w)
  case (Cons sq sqs)
  obtain ok w1 where p: "publish_local sq w = (ok, w1)" by (meson surj_pair)
  with publish_local_eng [of sq w] have "eng w1 = eng w" "snd w1 = snd w" by simp_all
  with Cons.IH [of n w] Cons.IH [of "n + 1" w1] show ?case by (simp add: p split: bool.split)
qed simp

lemma new_local_loop_moves:
  assumes "we \<le> te_cloud_base_seq (eng w) + of_nat CLOUD_WINDOW_SIZE"
  shows "moves w (new_local_loop room we w) \<and> te_transfer (eng (new_local_loop room we w)) = te_transfer (eng w)"
  using assms
proof (induction room arbitrary: w)
  case (Suc room)
  let ?sq = "te_cloud_next_send (eng w)"
  show ?case
  proof (cases "?sq < at_fragment_count (xfer w) \<and> ?sq < we")
    case True
    obtain ok w1 where p: "publish_local ?sq w = (ok, w1)" by (meson surj_pair)
    with publish_local_eng [of ?sq w] have w1: "eng w1 = eng w" "snd w1 = snd w" by simp_all
    let ?w2 = "upd_te (\<lambda>t. t\<lparr>te_cloud_next_send := te_cloud_next_send t + 1\<rparr>) w1"
    have m1: "moves w w1" by (rule moves_same) (use w1 in simp_all)
    have b: "?sq < te_cloud_base_seq (eng w) + of_nat CLOUD_WINDOW_SIZE" using True Suc.prems less_le_trans by blast
    have m2: "moves w ?w2"
      by (rule moves_upd [OF m1 engine_upd.cloud_next]) (use True b w1 in simp_all)
    show ?thesis
      using Suc.IH [of ?w2] Suc.prems m1 moves_trans [OF m2] w1 True by (cases ok) (simp_all add: p Let_def)
  next
    case False
    then have "new_local_loop (Suc room) we w = w" by (auto simp: Let_def)
    then show ?thesis by simp
  qed
qed simp


lemma tick_local_exit_arq_moves:
  assumes "at_active (xfer w)" and "te_local_exit (eng w)"
  shows "moves w (tick_local_exit_arq e w)"
proof -
  let ?P = "\<lambda>w. at_active (xfer w) \<and> te_local_exit (eng w)"
  define sid where "sid = at_session_id (xfer w)"
  define w1 where "w1 = drain_loop (Suc (length (mq_ack_queue (mqc w)))) (drain_via drain_cloud_ack sid) (on_cloud_ack_seq e) w"
  define w2 where "w2 = upd_te (\<lambda>t. t\<lparr>te_cloud_base_seq := of_nat (cloud_advance (te_cloud_ack_bitmap t)
                (unat (at_fragment_count (te_transfer t))) (unat (te_cloud_base_seq t)))\<rparr>) w1"
  define w3 where "w3 = drain_loop (Suc (length (mq_nack_queue (mqc w2)))) (drain_via drain_cloud_nack sid) on_cloud_nack_seq w2"
  define nw where "nw = retx_loop (te_cloud_retx_queue (eng w3)) 0 w3"
  define w5 where "w5 = upd_te (compact_retx_queue (fst nw)) (snd nw)"
  define w6 where "w6 = new_local_loop (CLOUD_WINDOW_SIZE - fst nw) (te_cloud_base_seq (eng w5) + of_nat CLOUD_WINDOW_SIZE) w5"
  have P0: "?P w" using assms by simp
  have 1: "moves w w1 \<and> ?P w1"
    unfolding w1_def by (rule drain_loop_moves [where P = ?P, OF P0]) (use on_cloud_ack_moves in auto)
  have 2: "moves w w2 \<and> ?P w2"
    using 1 moves_upd [OF conjunct1 [OF 1] engine_upd.cloud_base, of w2] by (simp add: w2_def)
  have "moves w2 w3 \<and> ?P w3"
    unfolding w3_def by (rule drain_loop_moves [where P = ?P, OF conjunct2 [OF 2]]) (use on_cloud_nack_moves in auto)
  then have 3: "moves w w3" "?P w3" using 2 moves_trans by blast+
  have 4: "moves w (snd nw)" "eng (snd nw) = eng w3"
    using retx_loop_eng [of "te_cloud_retx_queue (eng w3)" 0 w3] moves_trans [OF 3(1) moves_same] by (simp_all add: nw_def)
  have 5: "moves w w5" "te_transfer (eng w5) = te_transfer (eng w3)"
  proof -
    show "moves w w5" unfolding w5_def by (rule moves_upd [OF 4(1) engine_upd.cloud_compact]) simp_all
    show "te_transfer (eng w5) = te_transfer (eng w3)" using 4(2) by (simp add: w5_def compact_retx_queue_def)
  qed
  have n: "moves w5 w6 \<and> te_transfer (eng w6) = te_transfer (eng w5)"
    unfolding w6_def by (rule new_local_loop_moves) simp
  have 6: "moves w w6" "at_active (xfer w6)"
    using n 5(2) 3(2) moves_trans [OF 5(1) conjunct1 [OF n]] by simp_all
  have "tick_local_exit_arq e w = (if at_fragment_count (xfer w6) \<le> te_cloud_base_seq (eng w6)
      then reset_sender_transfer_state True w6 else w6)"
    unfolding tick_local_exit_arq_def Let_def case_prod_unfold w6_def w5_def nw_def w3_def w2_def w1_def sid_def by (rule refl)
  then show ?thesis using 6 moves_trans [OF 6(1) reset_moves [OF 6(2)]] by simp
qed

lemma oow_loop_moves:
  "moves w (snd (oow_loop x e allow budget items kept w)) \<and>
   te_oow_retx (eng (snd (oow_loop x e allow budget items kept w))) = te_oow_retx (eng w) \<and>
   te_transfer (eng (snd (oow_loop x e allow budget items kept w))) = te_transfer (eng w) \<and>
   (\<exists>ks. map fst (fst (oow_loop x e allow budget items kept w)) = map fst kept @ ks \<and> subseq ks (map fst items))"
proof (induction x e allow budget items kept w rule: oow_loop.induct)
  case (2 x e allow budget sq dst rest kept w)
  show ?case
  proof (cases "\<not> allow \<or> budget = 0")
    case True
    then show ?thesis using 2(1) by auto
  next
    case go: False
    show ?thesis
    proof (cases "oow_payload x (xfer w) sq")
      case None
      then show ?thesis using go 2(2) [OF go None] by auto
    next
      case (Some got)
      show ?thesis
      proof (cases "got = []")
        case True
        then show ?thesis using go Some 2(3) [OF go Some True] by auto
      next
        case False
        let ?dst = "oow_target dst (eng w)"
        obtain rc w1 where r: "engine_send e ?dst DATA got sq w = (rc, w1)" by (meson surj_pair)
        have c: "cong w w1" using engine_send_cong [of w e ?dst DATA got sq] r by simp
        let ?w2 = "upd_te (note_oow_sent e sq) w1"
        have m2: "moves w ?w2" by (rule moves_upd [OF cong_moves [OF c] engine_upd.oow_sent]) simp_all
        have f2: "te_oow_retx (eng ?w2) = te_oow_retx (eng w)" "te_transfer (eng ?w2) = te_transfer (eng w)"
          using cong_fields [OF c] by (simp_all add: note_oow_sent_def)
        show ?thesis
        proof (cases "rc < 0")
          case True
          then show ?thesis using go Some False cong_moves [OF c] cong_fields [OF c] by (auto simp: r)
        next
          case rc: False
          note ih = 2(4) [OF go Some False refl refl r [symmetric] rc]
          then show ?thesis using go Some False rc m2 f2 moves_trans [OF m2] by (auto simp: r)
        qed
      qed
    qed
  qed
qed simp

lemma oow_phase_moves:
  "moves w (oow_phase x e w) \<and> te_transfer (eng (oow_phase x e w)) = te_transfer (eng w)"
proof -
  obtain b i where p: "oow_plan (eng w) = (b, i)" by (meson surj_pair)
  let ?al = "i \<le> me_now e - te_last_oow_retx_ms (eng w)"
  obtain kept w1 where l: "oow_loop x e ?al b (te_oow_retx (eng w)) [] w = (kept, w1)" by (meson surj_pair)
  have o: "moves w w1" "te_oow_retx (eng w1) = te_oow_retx (eng w)" "te_transfer (eng w1) = te_transfer (eng w)"
    "subseq (map fst kept) (map fst (te_oow_retx (eng w)))"
    using oow_loop_moves [of w x e ?al b "te_oow_retx (eng w)" "[]"] by (auto simp: l)
  have "moves w (upd_te (\<lambda>t. t\<lparr>te_oow_retx := kept\<rparr>) w1)"
    by (rule moves_upd [OF o(1) engine_upd.oow_keep]) (use o in simp_all)
  then show ?thesis using o by (simp add: oow_phase_def p l Let_def)
qed


lemma redist_loop_moves:
  "moves w (snd (redist_loop e sqs kept w)) \<and>
   te_redist_pending (eng (snd (redist_loop e sqs kept w))) = te_redist_pending (eng w) \<and>
   te_transfer (eng (snd (redist_loop e sqs kept w))) = te_transfer (eng w) \<and>
   (\<exists>ks. fst (redist_loop e sqs kept w) = kept @ ks \<and> subseq ks sqs)"
proof (induction sqs arbitrary: kept w)
  case (Cons sq sqs)
  have keep: "?case" if "redist_loop e (sq # sqs) kept w = redist_loop e sqs (kept @ [sq]) w"
    unfolding that using Cons.IH [of w "kept @ [sq]"] by auto
  show ?case
  proof (cases "\<exists>i. select_mesh_target_for_seq sq (eng w) = Some i \<and> can_send_sequence sq (te_arq (eng w) ! i)")
    case True
    then obtain i where i: "select_mesh_target_for_seq sq (eng w) = Some i" "can_send_sequence sq (te_arq (eng w) ! i)" by blast
    obtain ret w1 where r: "arq_send e i sq (Some (read_frag (xfer w) (seq_data_idx sq))) w = (ret, w1)" by (meson surj_pair)
    have a: "arq_only i w w1" using arq_send_only [of i w e sq "Some (read_frag (xfer w) (seq_data_idx sq))"] r by simp
    note ih = Cons.IH [of w1 "if ret < 0 then kept @ [sq] else kept"]
    show ?thesis
      using ih arq_only_fields [OF a] moves_trans [OF arq_only_moves [OF a] conjunct1 [OF ih]] i by (auto simp: r split: if_splits)
  next
    case False
    then have "redist_loop e (sq # sqs) kept w = redist_loop e sqs (kept @ [sq]) w"
      by (auto split: option.split)
    then show ?thesis by (rule keep)
  qed
qed simp

lemma redist_phase_moves:
  "moves w (redist_phase e w) \<and> te_transfer (eng (redist_phase e w)) = te_transfer (eng w)"
proof -
  obtain kept w1 where l: "redist_loop e (te_redist_pending (eng w)) [] w = (kept, w1)" by (meson surj_pair)
  have o: "moves w w1" "te_redist_pending (eng w1) = te_redist_pending (eng w)" "te_transfer (eng w1) = te_transfer (eng w)"
    "subseq kept (te_redist_pending (eng w))"
    using redist_loop_moves [of w e "te_redist_pending (eng w)" "[]"] by (auto simp: l)
  have "moves w (upd_te (\<lambda>t. t\<lparr>te_redist_pending := kept\<rparr>) w1)"
    by (rule moves_upd [OF o(1) engine_upd.redist_keep]) (use o in simp_all)
  then show ?thesis using o by (simp add: redist_phase_def l)
qed

lemma note_frag_sent_moves:
  assumes "moves w w'" and "at_next_fragment (xfer w') < at_fragment_count (xfer w')"
  shows "moves w (upd_te (note_frag_sent e i) (upd_te (\<lambda>t. t\<lparr>te_fec_encoder := f t\<rparr>) w'))"
proof -
  have "moves w (upd_te (\<lambda>t. t\<lparr>te_fec_encoder := f t\<rparr>) w')"
    by (rule moves_upd [OF assms(1) engine_upd.fec]) simp_all
  then show ?thesis by (rule moves_upd [OF _ engine_upd.frag_sent]) (use assms(2) in simp_all)
qed

lemma new_frag_loop_moves: "moves w (new_frag_loop fuel x e w)"
proof (induction fuel arbitrary: w)
  case (Suc fuel)
  define sq where "sq = at_next_fragment (xfer w)"
  show ?case
  proof (cases "sq < at_fragment_count (xfer w)")
    case lt: True
    show ?thesis
    proof (cases "select_mesh_target_for_seq sq (eng w)")
      case (Some i)
      let ?skip = "upd_te (upd_at (\<lambda>tr. tr\<lparr>at_next_fragment := at_next_fragment tr + 1\<rparr>)) w"
      have sk: "moves w ?skip" by (rule moves_step [OF engine_upd.skip_frag]) (use lt sq_def in simp_all)
      have snd_ok: "moves w w1" "moves w (upd_te (note_frag_sent e i) (upd_te (\<lambda>t. t\<lparr>te_fec_encoder := f t\<rparr>) w1))"
        if "arq_send e i sq d w = (ret, w1)" for d ret w1 f
      proof -
        have a: "arq_only i w w1" using arq_send_only [of i w e sq d] that by simp
        show "moves w w1" by (rule arq_only_moves [OF a])
        show "moves w (upd_te (note_frag_sent e i) (upd_te (\<lambda>t. t\<lparr>te_fec_encoder := f t\<rparr>) w1))"
          by (rule note_frag_sent_moves [OF arq_only_moves [OF a]]) (use lt arq_only_fields(1) [OF a] sq_def in simp)
      qed
      show ?thesis
        using lt Some moves_trans [OF sk Suc.IH] snd_ok
        by (simp add: sq_def [symmetric] Let_def split: prod.split)
    qed (use lt in \<open>simp add: sq_def [symmetric] Let_def\<close>)
  qed (simp add: sq_def Let_def)
qed simp

lemma feed_phase_moves: "moves w (feed_phase x e w)"
proof -
  let ?w1 = "if 16 \<le> te_weight_recompute_counter (eng w)
     then upd_te (\<lambda>t. (recompute_weights t)\<lparr>te_weight_recompute_counter := 0\<rparr>) w else w"
  have 1: "moves w ?w1" using moves_step [OF engine_upd.weights, of _ w] by simp
  let ?w2 = "new_frag_loop (Suc (unat (at_fragment_count (xfer ?w1)) - unat (at_next_fragment (xfer ?w1)))) x e ?w1"
  have 2: "moves w ?w2" by (rule moves_trans [OF 1 new_frag_loop_moves])
  have "moves w (upd_te check_upload_done ?w2)" by (rule moves_upd [OF 2 engine_upd.upload_done]) simp_all
  then show ?thesis by (simp only: feed_phase_def Let_def) simp
qed

lemma tick_mesh_arq_moves:
  assumes "at_active (xfer w)"
  shows "moves w (tick_mesh_arq x e w)"
proof -
  let ?w1 = "oow_phase x e w"
  have 1: "moves w ?w1" using oow_phase_moves by blast
  have 2: "moves w (upd_te signal_congestion ?w1)" by (rule moves_upd [OF 1 engine_upd.congestion]) simp_all
  have 3: "moves w (feed_phase x e (redist_phase e ?w1))"
    by (rule moves_trans [OF moves_trans [OF 1 conjunct1 [OF redist_phase_moves]] feed_phase_moves])
  show ?thesis using 1 2 3 reset_moves [OF assms] by (simp add: tick_mesh_arq_def Let_def)
qed

lemma transfer_tick_moves: "moves w (transfer_tick x e w)"
proof -
  have "moves w (upd_te (\<lambda>t. t\<lparr>te_congestion_backoff_ticks := te_congestion_backoff_ticks t - 1\<rparr>) w)"
    if "0 < te_congestion_backoff_ticks (eng w)"
    by (rule moves_step [OF engine_upd.congestion_tick]) (use that in simp_all)
  then show ?thesis
    using tick_local_exit_arq_moves tick_mesh_arq_moves by (simp add: transfer_tick_def)
qed


lemma exit_node_health_tick_moves: "moves w (exit_node_health_tick e w)"
proof -
  have "moves w (health_check e i w)" for i w by (simp add: health_check_def redistribute_dead_exit_moves)
  then show ?thesis by (simp add: exit_node_health_tick_def fold_moves)
qed

lemma tick_exits_moves: "moves w (tick_exits e is budget w)"
proof (induction "is" arbitrary: budget w)
  case (Cons i "is")
  show ?case
    using Cons.IH moves_trans [OF arq_moves(4) Cons.IH] by (simp add: Let_def case_prod_unfold)
qed simp

lemma tick_arqs_moves: "moves w (tick_arqs e w)"
  using tick_exits_moves fold_moves [where f = "\<lambda>i w. snd (arq_tick e i 8 w)", OF arq_moves(4)] by (simp add: tick_arqs_def)

lemma republish_meta_moves: "moves w (republish_meta x e w)"
  unfolding republish_meta_def Let_def by (auto intro!: moves_step [OF engine_upd.meta])

lemma stall_check_moves: "moves w (snd (stall_check e w))"
  by (auto simp: stall_check_def Let_def reset_moves clear_exit_moves)

lemma engine_send_role:
  "te_is_exit_node (eng (snd (engine_send e dst ty d sq w))) = te_is_exit_node (eng w)"
  by (rule cong_fields(2) [OF engine_send_cong])

lemma forward_nack_moves:
  assumes "te_is_exit_node (eng w)"
  shows "moves w (snd (forward_nack e sq w)) \<and> te_is_exit_node (eng (snd (forward_nack e sq w)))"
proof -
  let ?w1 = "with_mqtt (mark_fragment_for_republish (te_active_session_id (eng w)) sq) w"
  obtain rc w2 where s: "engine_send e (te_source_addr (eng ?w1)) NACK [] sq ?w1 = (rc, w2)" by (meson surj_pair)
  have c: "cong ?w1 w2" using engine_send_cong [of ?w1 e "te_source_addr (eng ?w1)" NACK "[]" sq] s by simp
  have 2: "moves w w2" by (rule moves_trans [OF moves_same cong_moves [OF c]]) simp_all
  have x: "te_is_exit_node (eng w2)" using cong_fields(2) [OF c] assms by simp
  have 3: "moves w (upd_te (\<lambda>t. t\<lparr>te_last_cloud_activity_ms := me_now e\<rparr>) w2)"
    by (rule moves_upd [OF 2 engine_upd.activity]) (use x in simp_all)
  have 4: "moves w (with_mqtt f w2)" for f by (rule moves_trans [OF 2 moves_same]) simp_all
  show ?thesis using 3 4 x s by (simp add: forward_nack_def Let_def)
qed

lemma forward_ack_moves:
  assumes "te_is_exit_node (eng w)"
  shows "moves w (snd (forward_ack e sq w)) \<and> te_is_exit_node (eng (snd (forward_ack e sq w)))"
proof -
  obtain rc w2 where s: "engine_send e (te_source_addr (eng w)) ACK [] sq w = (rc, w2)" by (meson surj_pair)
  have c: "cong w w2" using engine_send_cong [of w e "te_source_addr (eng w)" ACK "[]" sq] s by simp
  have x: "te_is_exit_node (eng w2)" using cong_fields(2) [OF c] assms by simp
  have 4: "moves w (with_mqtt f w2)" for f by (rule moves_trans [OF cong_moves [OF c] moves_same]) simp_all
  show ?thesis using 4 cong_moves [OF c] x s by (simp add: forward_ack_def Let_def)
qed

lemma exit_nacks_moves: "moves w (exit_nacks e w)"
proof (cases "te_is_exit_node (eng w)")
  case True
  have "moves w (drain_loop n (drain_via drain_cloud_nack sid) (forward_nack e) w)" for n sid
    by (rule conjunct1 [OF drain_loop_moves [where P = "\<lambda>w. te_is_exit_node (eng w)"]]) (use True forward_nack_moves in auto)
  then show ?thesis by (simp only: exit_nacks_def True if_True)
qed (simp add: exit_nacks_def)

lemma exit_acks_moves: "moves w (exit_acks e w)"
proof (cases "te_is_exit_node (eng w)")
  case True
  have "moves w (drain_loop n (drain_via drain_fragment_ack sid) (forward_ack e) w)" for n sid
    by (rule conjunct1 [OF drain_loop_moves [where P = "\<lambda>w. te_is_exit_node (eng w)"]]) (use True forward_ack_moves in auto)
  then show ?thesis by (simp only: exit_acks_def True if_True)
qed (simp add: exit_acks_def)

lemma exit_complete_moves: "moves w (exit_complete e w)"
proof (cases "te_is_exit_node (eng w) \<and> mm_mqtt_client (snd w)")
  case True
  define sid where "sid = te_active_session_id (eng w)"
  define w1 where "w1 = upd_mq (\<lambda>_. snd (consume_transfer_complete sid (mqc w))) w"
  define w2 where "w2 = snd (engine_send e (te_source_addr (eng w1)) TRANSFER_DONE
    (enc_transfer_done \<lparr>td_session_id = sid, td_exit_node_addr = te_my_addr (eng w1)\<rparr>) 0 w1)"
  have 1: "moves w w1" unfolding w1_def by (rule moves_mq)
  have c: "cong w1 w2" unfolding w2_def by (rule engine_send_cong)
  have "te_is_exit_node (eng w2)" using cong_fields(2) [OF c] True by (simp add: w1_def)
  then have "moves w (clear_exit_node_state w2)"
    using moves_trans [OF moves_trans [OF 1 cong_moves [OF c]] clear_exit_moves] by simp
  moreover have "exit_complete e w = (if fst (consume_transfer_complete sid (mqc w)) then clear_exit_node_state w2 else w1)"
    using True by (simp add: exit_complete_def Let_def case_prod_unfold sid_def w1_def w2_def)
  ultimately show ?thesis using 1 by simp
qed (auto simp: exit_complete_def)

lemma broadcast_retry_tick_moves: "moves w (broadcast_retry_tick e w)"
proof -
  let ?br = "te_broadcast_retry (eng w)"
  have "moves w (upd_te (\<lambda>t. t\<lparr>te_broadcast_retry := b\<rparr>) (snd (engine_send e (br_dst_addr ?br) (br_type ?br) (br_payload ?br) 0 w)))" for b
    by (rule moves_upd [OF send_moves engine_upd.retry]) simp_all
  then show ?thesis by (simp add: broadcast_retry_tick_def Let_def)
qed

lemma election_timeout_tick_moves: "moves w (election_timeout_tick x e w)"
proof -
  let ?w1 = "upd_te (\<lambda>t. t\<lparr>te_election_active := False\<rparr>) w"
  have 1: "moves w (reset_sender_transfer_state False ?w1)"
    by (rule moves_step [OF engine_upd.not_elected]) (simp_all add: reset_sender_transfer_state_def)
  have 2: "moves w (upd_te (finish_election x e) ?w1)" if "te_candidates (eng w) \<noteq> []"
    by (rule moves_step [OF engine_upd.elected [OF that]]) simp_all
  show ?thesis using 1 2 by (simp add: election_timeout_tick_def Let_def)
qed

lemma engine_tick_moves: "moves w (engine_tick x e w)"
proof -
  define w1 where "w1 = tick_arqs e w"
  define w2 where "w2 = snd (stall_check e (republish_meta x e w1))"
  define w3 where "w3 = exit_complete e (exit_acks e (exit_nacks e w2))"
  define w4 where "w4 = election_timeout_tick x e (broadcast_retry_tick e w3)"
  have 1: "moves w w1" unfolding w1_def by (rule tick_arqs_moves)
  also have 2: "moves w1 w2" unfolding w2_def by (rule moves_trans [OF republish_meta_moves stall_check_moves])
  finally have m2: "moves w w2" .
  also have "moves w2 w3" unfolding w3_def by (rule moves_trans [OF exit_nacks_moves moves_trans [OF exit_acks_moves exit_complete_moves]])
  also have "moves w3 w4" unfolding w4_def by (rule moves_trans [OF broadcast_retry_tick_moves election_timeout_tick_moves])
  also have "moves w4 (transfer_tick x e (exit_node_health_tick e w4))"
    by (rule moves_trans [OF exit_node_health_tick_moves transfer_tick_moves])
  finally have m5: "moves w (transfer_tick x e (exit_node_health_tick e w4))" .
  have r: "moves w (reset_sender_transfer_state False w1)" if "arq_failed (eng w1)"
    using moves_trans [OF 1 reset_moves] that by (simp add: arq_failed_def)
  have "engine_tick x e w = (if arq_failed (eng w1) then reset_sender_transfer_state False w1
      else if \<not> fst (stall_check e (republish_meta x e w1)) then w2 else transfer_tick x e (exit_node_health_tick e w4))"
    unfolding engine_tick_def Let_def case_prod_unfold w4_def w3_def w2_def w1_def by (rule refl)
  then show ?thesis using r m2 m5 by simp
qed


lemma deactivate_simps [simp]: "snd (deactivate w) = snd w"
  by (simp add: deactivate_def)

lemma start_local_exit_snd: "snd (snd (start_local_exit x e fn sz n w)) = snd w"
  unfolding start_local_exit_def Let_def by (simp split: if_split)

lemma start_mesh_snd: "snd (snd (start_mesh e fn n hops w)) = snd w"
  unfolding start_mesh_def Let_def by (simp split: if_split)

lemma start_file_transfer_moves: "moves w (snd (start_file_transfer x e fn sz rd inet mqtt hops w))"
proof (cases "at_active (xfer w) \<or> te_is_exit_node (eng w)")
  case False
  obtain ok w' where s: "start_file_transfer x e fn sz rd inet mqtt hops w = (ok, w')" by (meson surj_pair)
  obtain t q m where w: "w = ((t, q), m)" by (metis prod.collapse)
  obtain t' q' m' where w': "w' = ((t', q'), m')" by (metis prod.collapse)
  have "snd (snd (start_file_transfer x e fn sz rd inet mqtt hops w)) = snd w"
    using False by (simp add: start_file_transfer_def start_local_exit_snd start_mesh_snd Let_def)
  then have "m' = m" using s by (simp add: w w')
  moreover have "engine_upd t t'"
    using engine_upd.start [of t x e fn sz rd inet mqtt hops q m ok t' q' m'] s False by (simp add: w w')
  ultimately have "moves w w'" by (simp add: w w' moves_def r_into_rtranclp)
  then show ?thesis by (simp add: s)
qed (auto simp: start_file_transfer_def)

section \<open>The engine behind the mesh manager\<close>

interpretation flp: own_engine "flp_ops x"
  for x :: EngineEnv
proof unfold_locales
  have own: "moves w w' \<Longrightarrow> own_sends (snd w) (snd w')" for w w' by (simp add: moves_def)
  fix s :: Node and e a sid hdr payload is_exit sq src
  show "own_sends (snd s) (snd (eo_handle_exit_offline (flp_ops x) e a sid s))"
    and "own_sends (snd s) (snd (eo_handle_transfer_ad (flp_ops x) e hdr payload is_exit s))"
    and "own_sends (snd s) (snd (eo_handle_transfer_ack (flp_ops x) e hdr payload s))"
    and "own_sends (snd s) (snd (eo_handle_data (flp_ops x) e hdr payload s))"
    and "own_sends (snd s) (snd (eo_handle_ack (flp_ops x) e sq src s))"
    and "own_sends (snd s) (snd (eo_handle_nack (flp_ops x) e sq src s))"
    and "own_sends (snd s) (snd (eo_signal_congestion (flp_ops x) e s))"
    and "own_sends (snd s) (snd (eo_handle_transfer_done (flp_ops x) e src payload s))"
    by (simp_all add: flp_ops_def own handle_exit_offline_moves handle_transfer_ad_moves handle_transfer_ack_moves handle_data_moves
        engine_handle_ack_moves engine_handle_nack_moves handle_transfer_done_moves)
qed

text \<open>
  C7. The hop limit. However a packet travels - relayed by any nodes, in any state, through any number
  of hops - a copy that went through \<open>n\<close> relays has lost \<open>n\<close> of its time to live, gained \<open>n\<close> hops and
  still carries the version, the type, the addresses and the payload of the original, and its sequence
  number too, except that relays under congestion set the congestion flag in the sequence number of
  an ACK or NACK. So a packet is relayed at most as often as its time to live says, \<open>DEFAULT_TTL\<close>
  times for the packets the nodes send. Supposed is that time to live and hop count of the original
  add up to at most 15, as 8 and 0 do: the hop count has four bits.
\<close>

theorem relay_hop_limit:
  assumes "relay_chain (flp_ops x) n d0 d" and "dec_header d0 = Some h0"
    and "unat (hdr_ttl h0) + unat (hdr_hop_count h0) \<le> 15"
  shows "n \<le> unat (hdr_ttl h0) \<and> (\<exists>h. dec_header d = Some h \<and> unat (hdr_ttl h) = unat (hdr_ttl h0) - n \<and>
    unat (hdr_hop_count h) = unat (hdr_hop_count h0) + n \<and> ver_type h = ver_type h0 \<and>
    src_addr h = src_addr h0 \<and> dst_addr h = dst_addr h0 \<and>
    (seq_num h = seq_num h0 \<or> hdr_type h0 \<in> {ACK, NACK} \<and> seq_num h = seq_num h0 OR CONGESTION_FLAG)) \<and> drop 8 d = drop 8 d0"
  using flp.relay_chain_header [OF assms(1,2)] assms(3) by auto


text \<open>An example: the advertisement of another node that a node without neighbours relays.\<close>

definition ex_ad_frame :: bytes where
  "ex_ad_frame = enc_header (own_header TRANSFER_AD EXIT_ANY_ADDR 0 (MeshManager_new 5 BufferPool_new 6 7)) @ [1, 2]"

lemma ex_relay_step:
  "\<exists>d. relay_chain (flp_ops ex_engine_env) 1 ex_ad_frame d"
proof -
  let ?slab = "\<lparr>bs_data = ex_ad_frame, bs_len = length ex_ad_frame, bs_rssi = - 40, bs_source = ESPNOW, bs_refcount = 1, bs_next_free = - 1\<rparr>"
  define h where "h = own_header TRANSFER_AD EXIT_ANY_ADDR 0 (MeshManager_new 5 BufferPool_new 6 7)"
  define d where "d = enc_header (set_ttl_hops (hdr_ttl h - 1) (hdr_hop_count h + 1) h) @ drop 8 ex_ad_frame"
  have b: "slab_bytes ?slab = ex_ad_frame" by (simp add: slab_bytes_def)
  have dh: "dec_header ex_ad_frame = Some h" by (simp add: ex_ad_frame_def h_def wheader.dec_enc_append)
  have dh': "dec_header (slab_bytes ?slab) = Some h" by (simp only: b dh)
  have h: "hdr_version h = 1" "hdr_type h = TRANSFER_AD" "src_addr h = 5" "dst_addr h = EXIT_ANY_ADDR" "hdr_ttl h = 8" "hdr_hop_count h = 0"
    "seq_num h = 0"
    using own_header_fields [of TRANSFER_AD] by (simp_all add: h_def named_types_def MeshManager_new_def)
  have m: "mm_my_addr ex_mesh = 0x0A0B" "mm_blocked_peers ex_mesh = []" "mm_has_internet ex_mesh = False"
    "\<not> list_ex (seen_in 1000 5 EXIT_ANY_ADDR n 0 k) (mm_seen_cache ex_mesh)" for n k
    by (simp_all add: ex_mesh_def MeshManager_new_def seen_in_def list_ex_iff)
  have r: "to_relay ex_mesh_env h (snd ex_node)" by (simp add: to_relay_def h m for_us_def node_is_exit_def)
  have "\<not> fst (lookup_seen (me_now ex_mesh_env) h (snd ex_node))"
    using m(4) by (simp add: fst_lookup_seen h ex_mesh_env_def)
  note ns = this
  define m' where "m' = snd (lookup_seen (me_now ex_mesh_env) h (note_neighbor ex_mesh_env ?slab h (snd ex_node)))"
  have p: "snd (process_slab (flp_ops ex_engine_env) ex_mesh_env ?slab ex_node) = forward_packet ex_mesh_env ex_ad_frame h m'"
    by (simp only: m'_def process_slab_relay [OF dh' r, of "flp_ops ex_engine_env"] if_not_P [OF ns] b snd_conv)
  have o: "mm_out m' = mm_out (snd ex_node)" by (simp add: m'_def)
  have "mm_out (forward_packet ex_mesh_env ex_ad_frame h m') = mm_out m' @ [Radio T_ESPNOW BROADCAST_ADDR d, Radio T_LORA BROADCAST_ADDR d]"
    by (simp add: forward_packet_def Let_def h broadcast_both_def send_raw_def ex_mesh_env_def d_def)
  then have out: "mm_out (snd (process_slab (flp_ops ex_engine_env) ex_mesh_env ?slab ex_node)) =
      mm_out (snd ex_node) @ [Radio T_ESPNOW BROADCAST_ADDR d, Radio T_LORA BROADCAST_ADDR d]" unfolding p o by simp
  have "\<not> frame_from (mm_my_addr (snd ex_node)) (Radio T_ESPNOW BROADCAST_ADDR d)"
    by (simp add: frame_from_def d_def wheader.dec_enc_append m h set_ttl_hops_def)
  then show ?thesis
    using relay_chain.relay [OF relay_chain.origin [of _ "slab_bytes ?slab"] out, of T_ESPNOW BROADCAST_ADDR d] by (auto simp: b)
qed

theorem relay_hop_limit_witness:
  "\<exists>d h. relay_chain (flp_ops ex_engine_env) 1 ex_ad_frame d \<and> dec_header d = Some h \<and> unat (hdr_ttl h) = 7 \<and>
     src_addr h = 5 \<and> drop 8 d = [1, 2]"
proof -
  let ?h = "own_header TRANSFER_AD EXIT_ANY_ADDR 0 (MeshManager_new 5 BufferPool_new 6 7)"
  obtain d where c: "relay_chain (flp_ops ex_engine_env) 1 ex_ad_frame d" using ex_relay_step by blast
  have dh: "dec_header ex_ad_frame = Some ?h" by (simp add: ex_ad_frame_def wheader.dec_enc_append)
  have h: "hdr_ttl ?h = 8" "hdr_hop_count ?h = 0" "src_addr ?h = 5"
    using own_header_fields [of TRANSFER_AD] by (simp_all add: named_types_def MeshManager_new_def)
  from relay_hop_limit [OF c dh] c h show ?thesis by (auto simp: ex_ad_frame_def wheader.enc_length)
qed

end
