(* ===== verification/Mesh_Telemetry.thy ===== *)
theory Mesh_Telemetry
  imports Transfer_Steps Mesh_Dedup
begin

text \<open>
  The way of a telemetry report from a deep-field node to the broker, through the operations that carry
  it: \<open>relay_publish\<close> (\<^verbatim>\<open>components/mesh/mesh_manager_bridge.cpp\<close>) hands it to \<open>send_packet\<close> as a
  \<open>MESH_PUB\<close> packet for any exit, relays pass copies on (\<open>relay_chain\<close>), and the packet dispatch of an exit
  (\<open>process_slab\<close>, \<^verbatim>\<open>components/mesh/mesh_manager_packets.cpp\<close>) publishes what it receives. The last
  theorem shows what relays do to reports that follow each other.
\<close>

text \<open>The frame a report is sent in: the topic and at most 255 bytes of the report.\<close>

definition report_frame :: "u8 \<Rightarrow> bytes \<Rightarrow> MeshManager \<Rightarrow> bytes" where
  "report_frame relay_topic data m = enc_header (own_header MESH_PUB EXIT_ANY_ADDR 0 m) @ relay_topic # take 255 data"










section \<open>Reports that follow each other\<close>

text \<open>
  All reports carry the sequence number 0, and relays recognise duplicates by source, destination, type and
  sequence number. So a relay that passed on one report of a node drops every further one of that node, of
  whatever topic and content, for ten seconds. \<open>publish_all_telemetry\<close> sends topology, metrics and heap at once.
\<close>

theorem relay_drops_second_report:
  assumes "slab_bytes slab = report_frame rt data deep" and "slab_bytes slab' = report_frame rt' data' deep'"
    and "mm_my_addr deep' = mm_my_addr deep" and "seen_ok (snd s)"
    and "to_relay e (own_header MESH_PUB EXIT_ANY_ADDR 0 deep) (snd s)" "to_relay e' (own_header MESH_PUB EXIT_ANY_ADDR 0 deep) (snd s)"
    and "\<not> fst (lookup_seen (me_now e) (own_header MESH_PUB EXIT_ANY_ADDR 0 deep) (snd s))" and "me_now e' - me_now e < 10000"
  shows "mm_out (snd (process_slab ops e' slab' (process_slab ops e slab s))) = mm_out (snd (process_slab ops e slab s))"
proof -
  let ?h = "own_header MESH_PUB EXIT_ANY_ADDR 0 deep"
  have d: "dec_header (slab_bytes slab) = Some ?h" "dec_header (slab_bytes slab') = Some ?h"
    using assms(1-3) by (simp_all add: report_frame_def own_header_def wheader.dec_enc_append)
  have "MESH_PUB \<in> set named_types" by (simp add: named_types_def)
  from own_header_fields(2) [OF this, of EXIT_ANY_ADDR 0 deep] have "dedup_window (hdr_type ?h) = 10000" by (simp add: dedup_window_def)
  then show ?thesis using relay_suppresses_copy [OF d refl assms(4,5,7,6)] assms(8) by simp
qed

end
