(* ===== verification/Transfer_Election.thy ===== *)
theory Transfer_Election
  imports Transfer_Run "HOL-Library.Multiset"
begin

text \<open>
  The election of exit nodes: the insertion sort of \<open>election_timeout_tick\<close> is a stable sort by falling
  score, and the elected exits are the best candidates within the quality threshold.
\<close>

section \<open>The insertion sort\<close>

lemma insert_candidate_mset: "mset (insert_candidate c cs) = add_mset c (mset cs)"
  by (induction cs) auto

lemma insert_candidate_sorted:
  "sorted (map candidate_score cs) \<Longrightarrow> sorted (map candidate_score (insert_candidate c cs))"
proof (induction cs)
  case (Cons d cs)
  have "set (insert_candidate c cs) = insert c (set cs)" by (metis insert_candidate_mset set_mset_add_mset_insert set_mset_mset)
  with Cons show ?case by auto
qed simp

lemma insert_candidate_filter:
  assumes "sorted (map candidate_score cs)"
  shows "filter (\<lambda>d. candidate_score d = k) (insert_candidate c cs) =
    (if candidate_score c = k then c # filter (\<lambda>d. candidate_score d = k) cs else filter (\<lambda>d. candidate_score d = k) cs)"
  using assms
proof (induction cs)
  case (Cons d cs)
  show ?case
  proof (cases "candidate_score d < candidate_score c")
    case True
    then show ?thesis using Cons by auto
  qed auto
qed simp

lemma sort_candidates_spec:
  assumes "sorted (map candidate_score rp)"
  shows "mset (sort_candidates rp cs) = mset rp + mset cs"
    and "sorted (map (\<lambda>c. - candidate_score c) (sort_candidates rp cs))"
    and "filter (\<lambda>d. candidate_score d = k) (sort_candidates rp cs) =
      rev (filter (\<lambda>d. candidate_score d = k) rp) @ filter (\<lambda>d. candidate_score d = k) cs"
proof -
  have *: "mset (sort_candidates rp cs) = mset rp + mset cs \<and> sorted (map (\<lambda>c. - candidate_score c) (sort_candidates rp cs)) \<and>
    filter (\<lambda>d. candidate_score d = k) (sort_candidates rp cs) =
      rev (filter (\<lambda>d. candidate_score d = k) rp) @ filter (\<lambda>d. candidate_score d = k) cs"
    using assms
  proof (induction cs arbitrary: rp)
    case Nil
    have "sorted (map (\<lambda>c. - candidate_score c) (rev rp))"
      using Nil.prems by (induction rp) (auto simp: sorted_append)
    then show ?case by (simp add: rev_filter)
  next
    case (Cons c cs)
    note ih = Cons.IH [OF insert_candidate_sorted [OF Cons.prems], of c]
    then show ?case by (simp add: insert_candidate_mset insert_candidate_filter [OF Cons.prems])
  qed
  then show "mset (sort_candidates rp cs) = mset rp + mset cs"
    and "sorted (map (\<lambda>c. - candidate_score c) (sort_candidates rp cs))"
    and "filter (\<lambda>d. candidate_score d = k) (sort_candidates rp cs) =
      rev (filter (\<lambda>d. candidate_score d = k) rp) @ filter (\<lambda>d. candidate_score d = k) cs" by blast+
qed

lemma sort_candidates_sort_key:
  "sort_candidates (take 1 cs) (drop 1 cs) = sort_key (\<lambda>c. - candidate_score c) cs"
proof -
  have s: "sorted (map candidate_score (take 1 cs))" by (cases cs) simp_all
  have f: "rev (filter P (take 1 cs)) @ filter P (drop 1 cs) = filter P cs" for P by (cases cs) simp_all
  show ?thesis
  proof (rule properties_for_sort_key [symmetric])
    show "mset (sort_candidates (take 1 cs) (drop 1 cs)) = mset cs"
      unfolding sort_candidates_spec(1) [OF s] by (metis append_take_drop_id mset_append)
    show "filter (\<lambda>x. - candidate_score k = - candidate_score x) (sort_candidates (take 1 cs) (drop 1 cs)) =
        filter (\<lambda>x. - candidate_score k = - candidate_score x) cs" for k
      using sort_candidates_spec(3) [OF s, of "candidate_score k" "drop 1 cs"] f by (simp add: eq_commute)
    show "sorted (map (\<lambda>c. - candidate_score c) (sort_candidates (take 1 cs) (drop 1 cs)))"
      by (rule sort_candidates_spec(2) [OF s])
  qed
qed

section \<open>The best score\<close>

lemma candidate_score_bounds: "- 32000 < candidate_score c"
proof -
  have "- 128 \<le> sint (ec_rssi_to_gw c)" using sint_range_size [of "ec_rssi_to_gw c"] by (simp add: word_size)
  moreover have "unat (ec_hops_to_gw c) < 256" "unat (ec_active_transfers c) < 256"
    by (rule unat_u8_bound)+
  ultimately show ?thesis unfolding candidate_score_def by linarith
qed

lemma best_score_Max: "cs \<noteq> [] \<Longrightarrow> best_score cs = Max (candidate_score ` set cs)"
proof -
  have f: "fold (\<lambda>c best. if best < candidate_score c then candidate_score c else best) cs b = Max (insert b (candidate_score ` set cs))" for b
  proof (induction cs arbitrary: b)
    case (Cons c cs)
    have "Max (insert (if b < candidate_score c then candidate_score c else b) (candidate_score ` set cs)) =
      Max (insert b (insert (candidate_score c) (candidate_score ` set cs)))"
      by (cases "candidate_score ` set cs = {}") (auto simp: max_def)
    with Cons show ?case by simp
  qed simp
  assume "cs \<noteq> []"
  then have "- 32000 < Max (candidate_score ` set cs)" using candidate_score_bounds by (subst Max_gr_iff) (auto simp: neq_Nil_conv)
  with \<open>cs \<noteq> []\<close> show ?thesis by (simp add: best_score_def f)
qed

lemma election_threshold_less: "election_threshold b < b"
  by (simp add: election_threshold_def Let_def)

section \<open>The elected exits\<close>

fun accept_all :: "u32 \<Rightarrow> nat \<Rightarrow> ExitCandidate list \<Rightarrow> TransferEngine \<Rightarrow> TransferEngine" where
  "accept_all now k [] t = t"
| "accept_all now k (c # cs) t = accept_all now (k + 1) cs (accept_exit now k c t)"

lemma accept_loop_all:
  "accept_loop now th limit cs k t =
    (k + length (take (limit - k) (filter (\<lambda>c. th \<le> candidate_score c) cs)),
     accept_all now k (take (limit - k) (filter (\<lambda>c. th \<le> candidate_score c) cs)) t)"
proof (induction cs arbitrary: k t)
  case (Cons c cs)
  show ?case
  proof (cases "k < limit")
    case True
    then obtain r where r: "limit - k = Suc r" "limit - Suc k = r" by (cases "limit - k") auto
    show ?thesis using Cons.IH [of "k + 1"] Cons.IH [of k t] True by (simp add: r)
  qed simp
qed simp

lemma accept_all_fields:
  "at_exit_node_count (te_transfer (accept_all now k cs t)) = at_exit_node_count (te_transfer t)"
  "at_active (te_transfer (accept_all now k cs t)) = at_active (te_transfer t)"
  "length (at_exit_nodes (te_transfer (accept_all now k cs t))) = length (at_exit_nodes (te_transfer t))"
  "length (at_exit_node_alive (te_transfer (accept_all now k cs t))) = length (at_exit_node_alive (te_transfer t))"
  "length (at_last_ack_ms (te_transfer (accept_all now k cs t))) = length (at_last_ack_ms (te_transfer t))"
  "length (te_arq (accept_all now k cs t)) = length (te_arq t)"
  "length (te_path_stats (accept_all now k cs t)) = length (te_path_stats t)"
  by (induction cs arbitrary: k t) (simp_all add: accept_exit_def)


lemma accept_all_nodes:
  "k + length cs \<le> length (at_exit_nodes (te_transfer t)) \<Longrightarrow>
   take (k + length cs) (at_exit_nodes (te_transfer (accept_all now k cs t))) = take k (at_exit_nodes (te_transfer t)) @ map ec_addr cs"
proof (induction cs arbitrary: k t)
  case (Cons c cs)
  have k: "k < length (at_exit_nodes (te_transfer t))" using Cons.prems by simp
  have "take (k + 1) ((at_exit_nodes (te_transfer t))[k := ec_addr c]) = take k (at_exit_nodes (te_transfer t)) @ [ec_addr c]"
    using k by (simp add: take_Suc_conv_app_nth)
  then show ?case using Cons.IH [of "k + 1" "accept_exit now k c t"] Cons.prems by (simp add: accept_exit_def)
qed simp

text \<open>
  The specification: the candidates within the threshold of the best one, best first and earlier
  answers first among equals, up to the configured limit; a limit of zero still elects one.
\<close>

definition elected :: "u8 \<Rightarrow> ExitCandidate list \<Rightarrow> ExitCandidate list" where
  "elected max_elected_exits cs =
     take (max 1 (accept_limit max_elected_exits))
       (filter (\<lambda>c. election_threshold (Max (candidate_score ` set cs)) \<le> candidate_score c)
         (sort_key (\<lambda>c. - candidate_score c) cs))"

lemma elected_hd:
  assumes "cs \<noteq> []"
  shows "elected n cs \<noteq> []" and "hd (elected n cs) = hd (sort_key (\<lambda>c. - candidate_score c) cs)"
    and "candidate_score (hd (elected n cs)) = Max (candidate_score ` set cs)"
proof -
  let ?s = "sort_key (\<lambda>c. - candidate_score c) cs"
  obtain c ds where s: "?s = c # ds" using assms by (cases ?s) (auto dest: arg_cong [where f = length])
  have set: "set cs = insert c (set ds)" using s by (metis list.simps(15) set_sort)
  have "sorted (map (\<lambda>c. - candidate_score c) ?s)" by (rule sorted_sort_key)
  then have "\<forall>d \<in> set ds. candidate_score d \<le> candidate_score c" by (simp add: s)
  then have m: "Max (candidate_score ` set cs) = candidate_score c" unfolding set by (intro Max_eqI) auto
  then have "election_threshold (Max (candidate_score ` set cs)) \<le> candidate_score c"
    using election_threshold_less [of "candidate_score c"] by simp
  then have e: "elected n cs = c # take (max 1 (accept_limit n) - 1)
      (filter (\<lambda>c. election_threshold (Max (candidate_score ` set cs)) \<le> candidate_score c) ds)"
    by (simp add: elected_def s take_Cons' max_def)
  then show "elected n cs \<noteq> []" "hd (elected n cs) = hd ?s" "candidate_score (hd (elected n cs)) = Max (candidate_score ` set cs)"
    by (simp_all add: s m)
qed

lemma accept_limit_le: "accept_limit n \<le> MAX_EXIT_NODES"
  by (simp add: accept_limit_def)

lemma length_elected: "length (elected n cs) \<le> max 1 (accept_limit n)" "length (elected n cs) \<le> MAX_EXIT_NODES"
  using accept_limit_le [of n] by (auto simp: elected_def max_def)

lemma finish_election_accept_all:
  assumes "te_candidates t \<noteq> []"
  shows "finish_election x e t =
    (let cs = sort_key (\<lambda>c. - candidate_score c) (te_candidates t);
         el = elected (ee_max_elected_exits x) (te_candidates t);
         t3 = accept_all (me_now e) 0 el (t\<lparr>te_candidates := cs\<rparr>)
     in t3\<lparr>te_transfer := (te_transfer t3)\<lparr>at_exit_node_count := length el, at_next_fragment := 0\<rparr>,
           te_weight_recompute_counter := 0,
           te_arq := map (\<lambda>i. if i < length el then set_exit_stride (of_nat (length el)) (of_nat i) (te_arq t3 ! i) else te_arq t3 ! i)
             [0..<length (te_arq t3)],
           te_events := te_events t3 @ [FLP_EVT_EXIT_NODE_ELECTED]\<rparr>)"
proof -
  let ?n = "ee_max_elected_exits x"
  let ?cs = "sort_key (\<lambda>c. - candidate_score c) (te_candidates t)"
  let ?f = "filter (\<lambda>c. election_threshold (best_score (te_candidates t)) \<le> candidate_score c) ?cs"
  let ?sel = "take (accept_limit ?n) ?f"
  have el: "elected ?n (te_candidates t) = take (max 1 (accept_limit ?n)) ?f"
    using best_score_Max [OF assms] by (simp add: elected_def)
  have l: "accept_loop (me_now e) (election_threshold (best_score (te_candidates t))) (accept_limit ?n) ?cs 0 t' =
      (length ?sel, accept_all (me_now e) 0 ?sel t')" for t'
    using accept_loop_all [of _ _ _ _ 0] by simp
  have p: "(if length ?sel = 0 then (1, accept_exit (me_now e) 0 (?cs ! 0) (accept_all (me_now e) 0 ?sel t'))
        else (length ?sel, accept_all (me_now e) 0 ?sel t')) =
      (length (elected ?n (te_candidates t)), accept_all (me_now e) 0 (elected ?n (te_candidates t)) t')" for t'
  proof (cases "accept_limit ?n = 0")
    case True
    have h: "?cs \<noteq> []" using assms by (metis length_0_conv length_sort)
    have "elected ?n (te_candidates t) = [?cs ! 0]"
      using elected_hd(1,2) [OF assms, of ?n] True length_elected(1) [of ?n "te_candidates t"] hd_conv_nth [OF h]
      by (cases "elected ?n (te_candidates t)") auto
    then show ?thesis using True by simp
  next
    case False
    then have "?sel = elected ?n (te_candidates t)" by (simp add: el max_def)
    then show ?thesis using elected_hd(1) [OF assms, of ?n] by simp
  qed
  show ?thesis
    unfolding finish_election_def sort_candidates_sort_key Let_def l prod.case p by (rule refl)
qed


text \<open>
  C6. When the election window closes with at least one answer, the exits of the transfer are exactly
  the specified ones, in that order: the best candidate leads, none falls below the threshold, and
  there are at most as many as configured. The election is over and the event is raised once.
\<close>

theorem election_elects_best:
  fixes x :: EngineEnv
  assumes "te_election_active (eng w)" and "te_election_timeout_ms (eng w) < me_now e - te_election_start_ms (eng w)"
    and "te_candidates (eng w) \<noteq> []" and "length (at_exit_nodes (xfer w)) = MAX_EXIT_NODES"
  defines "w' \<equiv> election_timeout_tick x e w" and "el \<equiv> elected (ee_max_elected_exits x) (te_candidates (eng w))"
  shows "take (at_exit_node_count (xfer w')) (at_exit_nodes (xfer w')) = map ec_addr el \<and>
    at_exit_node_count (xfer w') = length el \<and> 1 \<le> length el \<and> length el \<le> max 1 (unat (ee_max_elected_exits x)) \<and>
    candidate_score (hd el) = Max (candidate_score ` set (te_candidates (eng w))) \<and>
    \<not> te_election_active (eng w') \<and> te_events (eng w') = te_events (eng w) @ [FLP_EVT_EXIT_NODE_ELECTED] \<and> snd w' = snd w"
proof -
  let ?t = "(eng w)\<lparr>te_election_active := False\<rparr>"
  have c: "te_candidates ?t \<noteq> []" using assms(3) by simp
  have w': "eng w' = finish_election x e ?t" "snd w' = snd w"
    using assms(1-3) by (simp_all add: w'_def election_timeout_tick_def Let_def upd_te_def not_le)
  note f = finish_election_accept_all [OF c, of x e, folded w'(1)]
  let ?a = "accept_all (me_now e) 0 el (?t\<lparr>te_candidates := sort_key (\<lambda>c. - candidate_score c) (te_candidates (eng w))\<rparr>)"
  have x: "te_election_active (accept_all now k cs t) = te_election_active t" "te_events (accept_all now k cs t) = te_events t"
    for now k cs t by (induction cs arbitrary: k t) (simp_all add: accept_exit_def)
  have cnt: "at_exit_node_count (xfer w') = length el" using f by (simp add: el_def Let_def)
  have "at_exit_nodes (xfer w') = at_exit_nodes (te_transfer ?a)" using f by (simp add: el_def Let_def)
  moreover have "take (length el) (at_exit_nodes (te_transfer ?a)) = map ec_addr el"
    using accept_all_nodes [of 0 el "?t\<lparr>te_candidates := sort_key (\<lambda>c. - candidate_score c) (te_candidates (eng w))\<rparr>" "me_now e"]
      length_elected(2) [of "ee_max_elected_exits x" "te_candidates (eng w)"] assms(4) by (simp add: el_def)
  ultimately have n: "take (at_exit_node_count (xfer w')) (at_exit_nodes (xfer w')) = map ec_addr el" by (simp only: cnt)
  have l: "1 \<le> length el" using elected_hd(1) [OF assms(3), of "ee_max_elected_exits x"] by (simp add: el_def Suc_le_eq)
  have m: "length el \<le> max 1 (unat (ee_max_elected_exits x))"
    using length_elected(1) [of "ee_max_elected_exits x" "te_candidates (eng w)"]
    by (simp add: el_def accept_limit_def max_def split: if_splits)
  have b: "candidate_score (hd el) = Max (candidate_score ` set (te_candidates (eng w)))"
    unfolding el_def by (rule elected_hd(3) [OF assms(3)])
  have d: "\<not> te_election_active (eng w')" "te_events (eng w') = te_events (eng w) @ [FLP_EVT_EXIT_NODE_ELECTED]"
    using f x by (simp_all add: Let_def)
  show ?thesis using n cnt l m b d w'(2) by blast
qed

definition ex_candidate :: "u16 \<Rightarrow> i8 \<Rightarrow> u8 \<Rightarrow> u8 \<Rightarrow> ExitCandidate" where
  "ex_candidate a rssi hops act = \<lparr>ec_addr = a, ec_rssi_to_gw = rssi, ec_hops_to_gw = hops, ec_active_transfers = act\<rparr>"

definition ex_election :: "Node \<Rightarrow> Node" where
  "ex_election = upd_te (\<lambda>t. t\<lparr>te_election_active := True, te_election_start_ms := 0, te_election_timeout_ms := 500,
     te_transfer := ActiveTransfer_new,
     te_candidates := [ex_candidate 7 (- 80) 2 0, ex_candidate 8 (- 40) 1 0, ex_candidate 9 (- 60) 1 3]\<rparr>)"

theorem election_elects_best_witness:
  "at_exit_node_count (xfer (election_timeout_tick ex_engine_env ex_mesh_env (ex_election ex_node))) = 1 \<and>
   take 1 (at_exit_nodes (xfer (election_timeout_tick ex_engine_env ex_mesh_env (ex_election ex_node)))) = [8]"
proof -
  let ?w = "ex_election ex_node"
  have c: "te_candidates (eng ?w) = [ex_candidate 7 (- 80) 2 0, ex_candidate 8 (- 40) 1 0, ex_candidate 9 (- 60) 1 3]"
    by (simp add: ex_election_def upd_te_def)
  have l: "ee_max_elected_exits ex_engine_env = 2" by (simp add: ex_engine_env_def)
  have e: "elected 2 (te_candidates (eng ?w)) = [ex_candidate 8 (- 40) 1 0]"
    unfolding c by (simp add: elected_def accept_limit_def candidate_score_def ex_candidate_def election_threshold_def)
  have "te_election_active (eng ?w)" "te_election_timeout_ms (eng ?w) < me_now ex_mesh_env - te_election_start_ms (eng ?w)"
    "te_candidates (eng ?w) \<noteq> []" "length (at_exit_nodes (xfer ?w)) = MAX_EXIT_NODES"
    by (simp_all add: ex_election_def upd_te_def ex_mesh_env_def ActiveTransfer_new_def)
  note b = election_elects_best [OF this, of ex_engine_env, unfolded l e]
  have n: "at_exit_node_count (xfer (election_timeout_tick ex_engine_env ex_mesh_env ?w)) = 1" using b by simp
  then show ?thesis using conjunct1 [OF b, unfolded n] by (simp add: ex_candidate_def)
qed

end
