(* ===== verification/Transfer_Invariant.thy ===== *)
theory Transfer_Invariant
  imports Transfer_Steps Transfer_Election
begin

text \<open>
  Invariants of the transfer engine, each proved for the updates of \<^theory_text>\<open>engine_upd\<close> and thereby for every
  operation: the fixed-size arrays and bounded queues stay within their bounds, elected exits and
  queued sequence numbers are distinct, the exit role and an own transfer exclude each other as long as
  no transfer is started by a pending exit.
\<close>

unbundle bit_operations_syntax

section \<open>Arrays and queues\<close>

definition arrays_ok :: "TransferEngine \<Rightarrow> bool" where
  "arrays_ok t \<longleftrightarrow>
     length (te_arq t) = MAX_EXIT_NODES \<and> length (te_path_stats t) = MAX_EXIT_NODES \<and>
     length (at_exit_nodes (te_transfer t)) = MAX_EXIT_NODES \<and> length (at_exit_node_alive (te_transfer t)) = MAX_EXIT_NODES \<and>
     length (at_last_ack_ms (te_transfer t)) = MAX_EXIT_NODES \<and> at_exit_node_count (te_transfer t) \<le> MAX_EXIT_NODES \<and>
     distinct (take (at_exit_node_count (te_transfer t)) (at_exit_nodes (te_transfer t))) \<and>
     length (te_candidates t) \<le> 4 \<and> distinct (map ec_addr (te_candidates t))"

definition queues_ok :: "TransferEngine \<Rightarrow> bool" where
  "queues_ok t \<longleftrightarrow>
     length (te_oow_retx t) \<le> OOW_RETX_QUEUE_SIZE \<and> distinct (map fst (te_oow_retx t)) \<and>
     length (te_oow_recent t) = OOW_RECENT_RING_SIZE \<and> te_oow_recent_write t < OOW_RECENT_RING_SIZE \<and>
     length (te_redist_pending t) \<le> REDIST_QUEUE_SIZE \<and>
     length (te_cloud_retx_queue t) \<le> CLOUD_RETX_QUEUE_SIZE \<and> distinct (te_cloud_retx_queue t) \<and>
     length (te_cloud_ack_bitmap t) = MAX_CLOUD_FRAGMENTS div 8 \<and> te_congestion_backoff_ticks t \<le> 16"

lemmas upd_defs = note_local_backpressure_def signal_congestion_def become_exit_pending_def upd_stats_def upd_at_def note_oow_sent_def
  sender_reset_def exit_cleared_def push_redist_def compact_retx_queue_def note_frag_sent_def check_upload_done_def Let_def
  ActiveTransfer_new_def


text \<open>The engine state in which a transfer starts.\<close>

lemma start_engine:
  assumes "start_file_transfer x e fn sz rd inet mqtt hops ((t, q), m) = (ok, ((t', q'), m'))"
    and "\<not> at_active (te_transfer t)" and "\<not> te_is_exit_node t"
  shows "te_candidates t' = te_candidates t \<or> te_candidates t' = []"
    and "length (te_arq t') = length (te_arq t)" and "te_path_stats t' = te_path_stats t"
    and "at_exit_nodes (te_transfer t') = at_exit_nodes (te_transfer t)"
    and "at_exit_node_alive (te_transfer t') = at_exit_node_alive (te_transfer t)"
    and "at_last_ack_ms (te_transfer t') = at_last_ack_ms (te_transfer t)"
    and "at_exit_node_count (te_transfer t') = at_exit_node_count (te_transfer t)"
    and "te_oow_retx t' = te_oow_retx t" and "te_oow_recent t' = te_oow_recent t"
    and "te_oow_recent_write t' = te_oow_recent_write t" and "te_redist_pending t' = te_redist_pending t"
    and "te_cloud_retx_queue t' = te_cloud_retx_queue t \<or> te_cloud_retx_queue t' = []"
    and "te_cloud_ack_bitmap t' = te_cloud_ack_bitmap t \<or> te_cloud_ack_bitmap t' = cloud_zero_bitmap"
    and "te_congestion_backoff_ticks t' = te_congestion_backoff_ticks t"
    and "te_is_exit_node t' = te_is_exit_node t" and "te_exit_pending t' = te_exit_pending t"
    and "te_active_session_id t' = te_active_session_id t"
    and "te_last_cloud_activity_ms t' = te_last_cloud_activity_ms t \<or> at_active (te_transfer t') \<and> te_local_exit t'"
proof -
  let ?h = "sanitize_hops_to_exit hops"
  let ?n = "of_nat ((sz + DEFAULT_TRANSFER_FRAGMENT_SIZE - 1) mod 2 ^ 32 div DEFAULT_TRANSFER_FRAGMENT_SIZE) :: u16"
  let ?b = "begin_transfer x e fn sz rd ?h t"
  define l where "l = ?b\<lparr>te_local_exit := True, te_source_hops_to_exit_est := 0, te_exit_node_timeout_ms := BASE_EXIT_NODE_TIMEOUT_MS\<rparr>"
  define z where "z = ?b\<lparr>te_transfer := (te_transfer ?b)\<lparr>at_fragment_count := mesh_fragment_count ?n\<rparr>, te_local_exit := False\<rparr>"
  let ?m = "z\<lparr>te_candidates := [], te_election_active := True, te_election_start_ms := me_now e,
          te_election_timeout_ms := compute_election_timeout_ms ?h, te_mesh_window_cap := compute_mesh_window_cap ?h,
          te_arq := map (\<lambda>a. set_min_rto_floor (compute_min_rto_floor_ms ?h) (set_timeout (compute_arq_timeout_ms ?h) a)) (te_arq z)\<rparr>"
  let ?off = "\<lambda>t. t\<lparr>te_transfer := (te_transfer t)\<lparr>at_active := False\<rparr>\<rparr>"
  have c: "t' \<in> {?off l, ?off (l\<lparr>te_transfer := (te_transfer l)\<lparr>at_fragment_count := ?n\<rparr>\<rparr>),
     l\<lparr>te_transfer := (te_transfer l)\<lparr>at_fragment_count := ?n\<rparr>, te_cloud_ack_bitmap := cloud_zero_bitmap, te_cloud_base_seq := 0,
       te_cloud_next_send := 0, te_cloud_retx_queue := [], te_last_cloud_activity_ms := me_now e\<rparr>,
     ?off z, send_broadcast_with_retry TRANSFER_AD (enc_transfer_ad (transfer_ad fn z)) EXIT_ANY_ADDR 3 ?m}"
    using assms
    by (auto simp: start_file_transfer_def start_local_exit_def start_mesh_def Let_def upd_te_def upd_at_def deactivate_def l_def z_def
        forward_meta_def upd_mq_def split: if_splits)
  have b: "te_candidates ?b = te_candidates t" "te_arq ?b = te_arq t" "te_path_stats ?b = te_path_stats t"
    "at_exit_nodes (te_transfer ?b) = at_exit_nodes (te_transfer t)" "at_exit_node_alive (te_transfer ?b) = at_exit_node_alive (te_transfer t)"
    "at_last_ack_ms (te_transfer ?b) = at_last_ack_ms (te_transfer t)" "at_exit_node_count (te_transfer ?b) = at_exit_node_count (te_transfer t)"
    "te_oow_retx ?b = te_oow_retx t" "te_oow_recent ?b = te_oow_recent t" "te_oow_recent_write ?b = te_oow_recent_write t"
    "te_redist_pending ?b = te_redist_pending t" "te_cloud_retx_queue ?b = te_cloud_retx_queue t"
    "te_cloud_ack_bitmap ?b = te_cloud_ack_bitmap t" "te_congestion_backoff_ticks ?b = te_congestion_backoff_ticks t"
    "te_is_exit_node ?b = te_is_exit_node t" "te_exit_pending ?b = te_exit_pending t" "te_active_session_id ?b = te_active_session_id t"
    "te_last_cloud_activity_ms ?b = te_last_cloud_activity_ms t" "at_active (te_transfer ?b)"
    by (simp_all add: begin_transfer_def Let_def)
  have r: "\<exists>br. send_broadcast_with_retry ty p dst n t0 = t0\<lparr>te_broadcast_retry := br\<rparr>" for ty p dst n t0
    by (auto simp: send_broadcast_with_retry_def intro: exI [of _ "te_broadcast_retry t0"])
  obtain br where br: "send_broadcast_with_retry TRANSFER_AD (enc_transfer_ad (transfer_ad fn z)) EXIT_ANY_ADDR 3 ?m = ?m\<lparr>te_broadcast_retry := br\<rparr>"
    using r by blast
  note c' = c [unfolded br, unfolded l_def z_def]
  have u: "t' \<in> {t1, t2, t3, t4, t5} \<Longrightarrow> P t1 \<Longrightarrow> P t2 \<Longrightarrow> P t3 \<Longrightarrow> P t4 \<Longrightarrow> P t5 \<Longrightarrow> P t'" for t1 t2 t3 t4 t5 P by auto
  show "te_candidates t' = te_candidates t \<or> te_candidates t' = []"
    and "length (te_arq t') = length (te_arq t)" and "te_path_stats t' = te_path_stats t"
    and "at_exit_nodes (te_transfer t') = at_exit_nodes (te_transfer t)"
    and "at_exit_node_alive (te_transfer t') = at_exit_node_alive (te_transfer t)"
    and "at_last_ack_ms (te_transfer t') = at_last_ack_ms (te_transfer t)"
    and "at_exit_node_count (te_transfer t') = at_exit_node_count (te_transfer t)"
    and "te_oow_retx t' = te_oow_retx t" and "te_oow_recent t' = te_oow_recent t"
    and "te_oow_recent_write t' = te_oow_recent_write t" and "te_redist_pending t' = te_redist_pending t"
    and "te_cloud_retx_queue t' = te_cloud_retx_queue t \<or> te_cloud_retx_queue t' = []"
    and "te_cloud_ack_bitmap t' = te_cloud_ack_bitmap t \<or> te_cloud_ack_bitmap t' = cloud_zero_bitmap"
    and "te_congestion_backoff_ticks t' = te_congestion_backoff_ticks t"
    and "te_is_exit_node t' = te_is_exit_node t" and "te_exit_pending t' = te_exit_pending t"
    and "te_active_session_id t' = te_active_session_id t"
    and "te_last_cloud_activity_ms t' = te_last_cloud_activity_ms t \<or> at_active (te_transfer t') \<and> te_local_exit t'"
    by (rule u [OF c'], simp_all add: b)+
qed


lemma length_recompute_weights: "length (te_path_stats (recompute_weights t)) = length (te_path_stats t)"
  by (simp add: recompute_weights_def Let_def)

lemma recompute_weights_fields [simp]:
  "te_arq (recompute_weights t) = te_arq t" "te_transfer (recompute_weights t) = te_transfer t"
  "te_candidates (recompute_weights t) = te_candidates t" "te_oow_retx (recompute_weights t) = te_oow_retx t"
  "te_oow_recent (recompute_weights t) = te_oow_recent t" "te_oow_recent_write (recompute_weights t) = te_oow_recent_write t"
  "te_redist_pending (recompute_weights t) = te_redist_pending t" "te_cloud_retx_queue (recompute_weights t) = te_cloud_retx_queue t"
  "te_cloud_ack_bitmap (recompute_weights t) = te_cloud_ack_bitmap t"
  "te_congestion_backoff_ticks (recompute_weights t) = te_congestion_backoff_ticks t"
  "te_is_exit_node (recompute_weights t) = te_is_exit_node t" "te_exit_pending (recompute_weights t) = te_exit_pending t"
  "te_active_session_id (recompute_weights t) = te_active_session_id t" "te_local_exit (recompute_weights t) = te_local_exit t"
  "te_last_cloud_activity_ms (recompute_weights t) = te_last_cloud_activity_ms t"
  by (simp_all add: recompute_weights_def Let_def)

lemma queue_oow_fields [simp]:
  "te_arq (queue_oow e sq a t) = te_arq t" "te_transfer (queue_oow e sq a t) = te_transfer t"
  "te_candidates (queue_oow e sq a t) = te_candidates t" "te_path_stats (queue_oow e sq a t) = te_path_stats t"
  "te_oow_recent (queue_oow e sq a t) = te_oow_recent t" "te_oow_recent_write (queue_oow e sq a t) = te_oow_recent_write t"
  "te_redist_pending (queue_oow e sq a t) = te_redist_pending t" "te_cloud_retx_queue (queue_oow e sq a t) = te_cloud_retx_queue t"
  "te_cloud_ack_bitmap (queue_oow e sq a t) = te_cloud_ack_bitmap t"
  "te_congestion_backoff_ticks (queue_oow e sq a t) = te_congestion_backoff_ticks t"
  "te_is_exit_node (queue_oow e sq a t) = te_is_exit_node t" "te_exit_pending (queue_oow e sq a t) = te_exit_pending t"
  "te_active_session_id (queue_oow e sq a t) = te_active_session_id t" "te_local_exit (queue_oow e sq a t) = te_local_exit t"
  "te_last_cloud_activity_ms (queue_oow e sq a t) = te_last_cloud_activity_ms t"
  by (simp_all add: queue_oow_def split: option.split)

lemma finish_election_fields:
  assumes "te_candidates t \<noteq> []"
  shows "mset (te_candidates (finish_election x e t)) = mset (te_candidates t)"
    and "te_oow_retx (finish_election x e t) = te_oow_retx t" and "te_oow_recent (finish_election x e t) = te_oow_recent t"
    and "te_oow_recent_write (finish_election x e t) = te_oow_recent_write t"
    and "te_redist_pending (finish_election x e t) = te_redist_pending t"
    and "te_cloud_retx_queue (finish_election x e t) = te_cloud_retx_queue t"
    and "te_cloud_ack_bitmap (finish_election x e t) = te_cloud_ack_bitmap t"
    and "te_congestion_backoff_ticks (finish_election x e t) = te_congestion_backoff_ticks t"
    and "te_is_exit_node (finish_election x e t) = te_is_exit_node t" and "te_exit_pending (finish_election x e t) = te_exit_pending t"
    and "te_active_session_id (finish_election x e t) = te_active_session_id t"
    and "te_local_exit (finish_election x e t) = te_local_exit t"
    and "te_last_cloud_activity_ms (finish_election x e t) = te_last_cloud_activity_ms t"
    and "at_active (te_transfer (finish_election x e t)) = at_active (te_transfer t)"
proof -
  have a: "te_candidates (accept_all now k cs u) = te_candidates u" "te_oow_retx (accept_all now k cs u) = te_oow_retx u"
    "te_oow_recent (accept_all now k cs u) = te_oow_recent u" "te_oow_recent_write (accept_all now k cs u) = te_oow_recent_write u"
    "te_redist_pending (accept_all now k cs u) = te_redist_pending u" "te_cloud_retx_queue (accept_all now k cs u) = te_cloud_retx_queue u"
    "te_cloud_ack_bitmap (accept_all now k cs u) = te_cloud_ack_bitmap u"
    "te_congestion_backoff_ticks (accept_all now k cs u) = te_congestion_backoff_ticks u"
    "te_is_exit_node (accept_all now k cs u) = te_is_exit_node u" "te_exit_pending (accept_all now k cs u) = te_exit_pending u"
    "te_active_session_id (accept_all now k cs u) = te_active_session_id u" "te_local_exit (accept_all now k cs u) = te_local_exit u"
    "te_last_cloud_activity_ms (accept_all now k cs u) = te_last_cloud_activity_ms u"
    "at_active (te_transfer (accept_all now k cs u)) = at_active (te_transfer u)" for now k cs u
    by (induction cs arbitrary: k u) (simp_all add: accept_exit_def)
  show "mset (te_candidates (finish_election x e t)) = mset (te_candidates t)"
    and "te_oow_retx (finish_election x e t) = te_oow_retx t" and "te_oow_recent (finish_election x e t) = te_oow_recent t"
    and "te_oow_recent_write (finish_election x e t) = te_oow_recent_write t"
    and "te_redist_pending (finish_election x e t) = te_redist_pending t"
    and "te_cloud_retx_queue (finish_election x e t) = te_cloud_retx_queue t"
    and "te_cloud_ack_bitmap (finish_election x e t) = te_cloud_ack_bitmap t"
    and "te_congestion_backoff_ticks (finish_election x e t) = te_congestion_backoff_ticks t"
    and "te_is_exit_node (finish_election x e t) = te_is_exit_node t" and "te_exit_pending (finish_election x e t) = te_exit_pending t"
    and "te_active_session_id (finish_election x e t) = te_active_session_id t"
    and "te_local_exit (finish_election x e t) = te_local_exit t"
    and "te_last_cloud_activity_ms (finish_election x e t) = te_last_cloud_activity_ms t"
    and "at_active (te_transfer (finish_election x e t)) = at_active (te_transfer t)"
    by (simp_all add: finish_election_accept_all [OF assms] Let_def a)
qed

lemma finish_election_arrays:
  assumes "te_candidates t \<noteq> []" and "arrays_ok t"
  shows "arrays_ok (finish_election x e t)"
proof -
  let ?el = "elected (ee_max_elected_exits x) (te_candidates t)"
  let ?t = "t\<lparr>te_candidates := sort_key (\<lambda>c. - candidate_score c) (te_candidates t)\<rparr>"
  have m: "mset (map ec_addr (te_candidates (finish_election x e t))) = mset (map ec_addr (te_candidates t))"
    using finish_election_fields(1) [OF assms(1)] by simp
  have c: "length (te_candidates (finish_election x e t)) \<le> 4" "distinct (map ec_addr (te_candidates (finish_election x e t)))"
    using assms(2) mset_eq_length [OF m] mset_eq_imp_distinct_iff [OF m] by (simp_all add: arrays_ok_def)
  have k: "at_exit_node_count (te_transfer (finish_election x e t)) = length ?el" "at_exit_nodes (te_transfer (finish_election x e t)) =
      at_exit_nodes (te_transfer (accept_all (me_now e) 0 ?el ?t))"
    by (simp_all add: finish_election_accept_all [OF assms(1)] Let_def)
  have "distinct (map ec_addr (sort_key (\<lambda>c. - candidate_score c) (te_candidates t)))"
    using assms(2) mset_eq_imp_distinct_iff [of "map ec_addr (sort_key (\<lambda>c. - candidate_score c) (te_candidates t))" "map ec_addr (te_candidates t)"]
    by (simp add: arrays_ok_def)
  then have "distinct (map ec_addr ?el)"
    unfolding elected_def take_map [symmetric] by (intro distinct_take distinct_map_filter)
  then have d: "distinct (take (at_exit_node_count (te_transfer (finish_election x e t))) (at_exit_nodes (te_transfer (finish_election x e t))))"
    using accept_all_nodes [of 0 ?el ?t "me_now e"] length_elected(2) [of "ee_max_elected_exits x" "te_candidates t"] assms(2)
    by (simp add: k arrays_ok_def)
  show ?thesis
    using c d k(1) length_elected(2) [of "ee_max_elected_exits x" "te_candidates t"] assms(2)
    by (simp add: arrays_ok_def finish_election_accept_all [OF assms(1)] Let_def accept_all_fields)
qed

lemma engine_upd_arrays:
  assumes "engine_upd t t'" and "arrays_ok t"
  shows "arrays_ok t'"
  using assms
proof (cases rule: engine_upd.cases)
  case (elected x e)
  then show ?thesis using finish_election_arrays [of "t\<lparr>te_election_active := False\<rparr>" x e] assms(2) by (simp add: arrays_ok_def)
next
  case (start x e filename sz read_chunk has_internet has_mqtt hops q m ok q' m')
  note s = start_engine [OF start(3,1,2)]
  show ?thesis using s(1-7) assms(2) by (auto simp: arrays_ok_def)
next
  case (weights)
  then show ?thesis using assms(2) by (simp add: arrays_ok_def length_recompute_weights)
next
  case (candidate c)
  then show ?thesis using assms(2) by (auto simp: arrays_ok_def)
qed (simp_all add: arrays_ok_def upd_defs queue_oow_fields)


lemma queue_oow_queues:
  assumes "queues_ok t" shows "queues_ok (queue_oow e sq a t)"
proof (cases "find_idx (\<lambda>it. fst it = sq) (te_oow_retx t)")
  case None
  then have n: "sq \<notin> fst ` set (te_oow_retx t)" by (auto simp: find_idx_None_iff)
  show ?thesis using assms n by (auto simp: queues_ok_def queue_oow_def None)
next
  case (Some i)
  then have "i < length (te_oow_retx t)" "fst (te_oow_retx t ! i) = sq" by (auto dest: find_idx_SomeD)
  then have "map fst ((te_oow_retx t)[i := (sq, a)]) = map fst (te_oow_retx t)" by (simp add: map_update list_update_same_conv)
  then show ?thesis using assms by (simp add: queues_ok_def queue_oow_def Some)
qed

lemma compact_loop_drop: "compact_loop acked n sqs = drop n (filter (\<lambda>sq. \<not> acked sq) sqs)"
  by (induction sqs arbitrary: n) (auto simp: drop_Cons')

lemma subseq_distinct: "subseq xs ys \<Longrightarrow> distinct ys \<Longrightarrow> distinct xs"
  by (induction rule: list_emb.induct) (auto dest: list_emb_set)

lemma engine_upd_queues:
  assumes "engine_upd t t'" and "queues_ok t"
  shows "queues_ok t'"
  using assms
proof (cases rule: engine_upd.cases)
  case (oow_keep kept)
  then show ?thesis using assms(2) subseq_distinct [OF oow_keep(2)] list_emb_length [OF oow_keep(2)] by (simp add: queues_ok_def)
next
  case (redist_keep kept)
  then show ?thesis using assms(2) list_emb_length [OF redist_keep(2)] by (simp add: queues_ok_def)
next
  case (elected x e)
  then show ?thesis
    using finish_election_fields [of "t\<lparr>te_election_active := False\<rparr>" x e] assms(2) by (simp add: queues_ok_def)
next
  case (start x e filename sz read_chunk has_internet has_mqtt hops q m ok q' m')
  note s = start_engine [OF start(3,1,2)]
  show ?thesis using s(8-14) assms(2) by (auto simp: queues_ok_def cloud_zero_bitmap_def)
next
  case (oow_add e sq a)
  then show ?thesis using queue_oow_queues [OF assms(2)] by simp
next
  case congestion_tick
  then have "unat (te_congestion_backoff_ticks t - 1) = unat (te_congestion_backoff_ticks t) - 1"
    by (simp add: unat_minus_one word_gt_0)
  moreover have "unat (te_congestion_backoff_ticks t) \<le> 16" using assms(2) by (simp add: queues_ok_def word_le_nat_alt)
  ultimately have "unat (te_congestion_backoff_ticks t - 1) \<le> 16" by linarith
  then show ?thesis using assms(2) congestion_tick(1) by (simp add: queues_ok_def word_le_nat_alt)
next
  case (cloud_compact n)
  have "length (filter (\<lambda>sq. \<not> cloud_acked t sq) (te_cloud_retx_queue t)) - n \<le> length (te_cloud_retx_queue t)"
    by (rule le_trans [OF diff_le_self length_filter_le])
  also have "\<dots> \<le> 16" using assms(2) by (simp add: queues_ok_def)
  finally show ?thesis using assms(2) cloud_compact by (simp add: queues_ok_def compact_retx_queue_def compact_loop_drop)
next
  case backpressure
  then show ?thesis using assms(2) by (simp add: queues_ok_def note_local_backpressure_def signal_congestion_def Let_def not_less)
next
  case congestion
  then show ?thesis using assms(2) by (auto simp: queues_ok_def signal_congestion_def Let_def not_less elim: order_trans)
qed (simp_all add: queues_ok_def upd_defs cloud_zero_bitmap_def)


section \<open>Roles\<close>

text \<open>
  A node that serves as exit, or waits for data to do so, knows the session; the activity clock of
  the cloud runs only for an exit or for a transfer that the node itself publishes.
\<close>

definition roles_ok :: "TransferEngine \<Rightarrow> bool" where
  "roles_ok t \<longleftrightarrow> (te_is_exit_node t \<longrightarrow> te_active_session_id t \<noteq> 0 \<and> \<not> te_exit_pending t) \<and>
     (te_last_cloud_activity_ms t \<noteq> 0 \<longrightarrow> te_is_exit_node t \<or> te_exit_pending t \<or> at_active (te_transfer t) \<and> te_local_exit t)"

lemma engine_upd_roles:
  assumes "engine_upd t t'" and "roles_ok t"
  shows "roles_ok t'"
  using assms
proof (cases rule: engine_upd.cases)
  case (elected x e)
  then show ?thesis
    using finish_election_fields [of "t\<lparr>te_election_active := False\<rparr>" x e] assms(2) by (simp add: roles_ok_def)
next
  case (start x e filename sz read_chunk has_internet has_mqtt hops q m ok q' m')
  note s = start_engine [OF start(3,1,2)]
  show ?thesis using s(15-18) start(1,2) assms(2) by (auto simp: roles_ok_def)
qed (use assms(2) in \<open>auto simp: roles_ok_def upd_defs\<close>)


section \<open>Runs of a node\<close>

lemma process_slab_engine: "engine_upd\<^sup>*\<^sup>* (eng w) (eng (process_slab (flp_ops x) e slab w))"
proof -
  have en: "moves w w' \<Longrightarrow> engine_upd\<^sup>*\<^sup>* (eng w) (eng w')" for w w' by (simp add: moves_def)
  have c: "engine_upd\<^sup>*\<^sup>* (eng w) (eng (consume_exit_offline (flp_ops x) e hdr payload w))" for hdr payload w
    by (simp add: consume_exit_offline_def flp_ops_def en handle_exit_offline_moves split: option.split)
  have sc: "moves w (upd_te signal_congestion w')" if "moves w w'" for w w'
    by (rule moves_upd [OF that engine_upd.congestion]) simp_all
  have d: "engine_upd\<^sup>*\<^sup>* (eng w) (eng (dispatch (flp_ops x) e hdr src ex payload w))" for hdr src ex payload w
    by (simp add: dispatch_def flp_ops_def Let_def en handle_transfer_ad_moves handle_transfer_ack_moves handle_data_moves
        engine_handle_ack_moves engine_handle_nack_moves handle_transfer_done_moves sc split: PacketType.split)
  show ?thesis
  proof (cases "dec_header (slab_bytes slab)")
    case (Some hdr)
    define s1 where "s1 = consume_exit_offline (flp_ops x) e hdr (drop 8 (slab_bytes slab)) w"
    have 1: "engine_upd\<^sup>*\<^sup>* (eng w) (eng s1)" unfolding s1_def by (rule c)
    have 2: "engine_upd\<^sup>*\<^sup>* (eng w) (eng (dispatch (flp_ops x) e hdr src ex payload (fst s1, m)))" for src ex payload m
      using rtranclp_trans [OF 1] d [of "(fst s1, m)"] by simp
    show ?thesis
      using 1 2 by (simp add: process_slab_def Some Let_def s1_def [symmetric] case_prod_unfold)
  qed (simp add: process_slab_def)
qed

text \<open>
  What happens to a node: a received packet is processed, the engine ticks, a transfer is started, and
  meanwhile the MQTT task changes the client and the mesh manager its own state.
\<close>

inductive node_step :: "EngineEnv \<Rightarrow> Node \<Rightarrow> Node \<Rightarrow> bool" where
  packet: "node_step x w (process_slab (flp_ops x) e slab w)"
| tick: "node_step x w (engine_tick x e w)"
| start: "node_step x w (snd (start_file_transfer x e filename sz read_chunk has_internet has_mqtt hops w))"
| mqtt_task: "node_step x ((t, q), m) ((t, q'), m)"
| mesh_manager: "node_step x (s, m) (s, m')"

lemma node_step_engine: "node_step x w w' \<Longrightarrow> engine_upd\<^sup>*\<^sup>* (eng w) (eng w')"
proof (induction rule: node_step.induct)
  case (tick x w e)
  then show ?case using engine_tick_moves [of w x e] by (simp add: moves_def)
next
  case (start x w e filename sz read_chunk has_internet has_mqtt hops)
  then show ?case using start_file_transfer_moves by (simp add: moves_def)
qed (simp_all add: process_slab_engine)

definition node_run :: "Node \<Rightarrow> Node \<Rightarrow> bool" where
  "node_run = (\<lambda>w w'. \<exists>x. node_step x w w')\<^sup>*\<^sup>*"

lemma node_run_invariant:
  assumes "node_run w w'" and "P (eng w)" and "\<And>t t'. engine_upd t t' \<Longrightarrow> P t \<Longrightarrow> P t'"
  shows "P (eng w')"
proof -
  have *: "engine_upd\<^sup>*\<^sup>* t t' \<Longrightarrow> P t \<Longrightarrow> P t'" for t t'
    by (induction rule: rtranclp_induct) (use assms(3) in blast)+
  from assms(1) show ?thesis
    unfolding node_run_def
  proof (induction rule: rtranclp_induct)
    case (step y z)
    then obtain x where "node_step x y z" by blast
    then show ?case using * [OF node_step_engine] step.IH by blast
  qed (rule assms(2))
qed

lemma engine_init_ok: "arrays_ok (engine_init n ok a)" "queues_ok (engine_init n ok a)" "roles_ok (engine_init n ok a)"
  by (simp_all add: arrays_ok_def queues_ok_def roles_ok_def engine_init_def ActiveTransfer_new_def cloud_zero_bitmap_def)

text \<open>
  C5. Whatever packets arrive and whatever the broker does, the engine stays within its arrays: the per-exit
  arrays keep their four entries and at most four exits are elected, all different; the queues of
  out-of-window and cloud retransmissions never exceed their capacity and hold no sequence number
  twice; the redistribution queue never exceeds its capacity (\<open>push_redist\<close> appends without looking
  whether the number is queued already, so that one may hold a number twice); the congestion pause is at most 16 ticks; an active exit knows its session, and the
  stall clock runs only while the node publishes to the cloud.
\<close>

theorem engine_invariant:
  assumes "node_run ((engine_init n alloc_ok addr, q), m) w"
  shows "arrays_ok (eng w) \<and> queues_ok (eng w) \<and> roles_ok (eng w)"
  using node_run_invariant [OF assms, of arrays_ok] node_run_invariant [OF assms, of queues_ok]
    node_run_invariant [OF assms, of roles_ok] engine_upd_arrays engine_upd_queues engine_upd_roles engine_init_ok
  by (simp add: fst_conv)

theorem engine_invariant_witness:
  "\<exists>w. node_run ((engine_init 2 (\<lambda>_. True) 7, MqttClient_new 7), ex_mesh) w \<and> at_exit_node_count (xfer w) \<le> MAX_EXIT_NODES"
proof -
  let ?w = "((engine_init 2 (\<lambda>_. True) 7, MqttClient_new 7), ex_mesh) :: Node"
  have r: "node_run ?w (engine_tick ex_engine_env ex_mesh_env ?w)"
    unfolding node_run_def by (rule r_into_rtranclp) (blast intro: node_step.tick)
  from engine_invariant [OF r] r show ?thesis unfolding arrays_ok_def by blast
qed

end
