(* ===== verification/Mqtt_Custody.thy ===== *)
theory Mqtt_Custody
  imports Mqtt_Client
begin

text \<open>
  Custody of fragments in the MQTT client of an exit node. While a session is active, whatever order
  the mesh task and the MQTT task interleave their calls in: only submitted fragments are published,
  each at most once unless the cloud or a disconnect asked for it again, and a fragment is acknowledged
  to the mesh only after esp-mqtt has accepted it.
\<close>

unbundle bit_operations_syntax

section \<open>Bitmaps and queues\<close>

lemma bitmap_set_test:
  assumes "length bm = FRAGMENT_BITMAP_BYTES"
  shows "bitmap_test (bitmap_set bm i) j \<longleftrightarrow> is_trackable_fragment j \<and> j = i \<or> bitmap_test bm j"
proof (cases "is_trackable_fragment i")
  case True
  then have "unat i div 8 < length bm" using assms by (auto simp: is_trackable_fragment_def FRAGMENT_BITMAP_BYTES_def)
  from bm_test_set [OF this, of "unat j"] True show ?thesis by (auto simp: bitmap_test_def bitmap_set_def word_unat_eq_iff)
qed (auto simp: bitmap_test_def bitmap_set_def)

lemma bitmap_clear_test:
  assumes "length bm = FRAGMENT_BITMAP_BYTES"
  shows "bitmap_test (bitmap_clear bm i) j \<longleftrightarrow> j \<noteq> i \<and> bitmap_test bm j"
proof (cases "is_trackable_fragment i \<and> is_trackable_fragment j")
  case True
  have "j = i \<longleftrightarrow> unat j div 8 = unat i div 8 \<and> unat j mod 8 = unat i mod 8"
    by (metis div_mult_mod_eq word_unat_eq_iff)
  moreover have "unat i div 8 < length bm" using assms True by (auto simp: is_trackable_fragment_def FRAGMENT_BITMAP_BYTES_def)
  ultimately show ?thesis using True
    by (auto simp: bitmap_test_def bitmap_clear_def bm_test_bit nth_list_update bit_and_iff bit_not_iff bit_mask_iff)
qed (auto simp: bitmap_test_def bitmap_clear_def)

lemma bitmap_length [simp]:
  "length (bitmap_set bm i) = length bm" "length (bitmap_clear bm i) = length bm"
  by (simp_all add: bitmap_set_def bitmap_clear_def)

lemma zero_bitmap_test [simp]: "length zero_bitmap = FRAGMENT_BITMAP_BYTES" "\<not> bitmap_test zero_bitmap sq"
proof -
  show "length zero_bitmap = FRAGMENT_BITMAP_BYTES" by (simp add: zero_bitmap_def)
  have "unat sq div 8 < FRAGMENT_BITMAP_BYTES" if "is_trackable_fragment sq"
    using that by (auto simp: is_trackable_fragment_def FRAGMENT_BITMAP_BYTES_def)
  then show "\<not> bitmap_test zero_bitmap sq" by (auto simp: bitmap_test_def zero_bitmap_def bm_test_def)
qed

text \<open>Draining returns an item of the session and keeps the others, possibly rotated.\<close>

lemma q_drain_props:
  assumes "q_drain n ok q = (r, q')"
  shows "case r of None \<Rightarrow> mset q' = mset q | Some x \<Rightarrow> ok x \<and> mset q = add_mset x (mset q')"
  using assms
proof (induction n ok q rule: q_drain.induct)
  case (3 n ok x q)
  then show ?case by (cases "ok x") (auto split: option.splits)
qed auto

lemma q_drain_set:
  assumes "q_drain n ok q = (r, q')"
  shows "set q' \<subseteq> set q" and "r = Some x \<Longrightarrow> x \<in> set q \<and> ok x"
proof -
  note p = q_drain_props [OF assms]
  show "set q' \<subseteq> set q"
  proof (cases r)
    case None
    with p have "mset q' = mset q" by simp
    then have "set q' = set q" by (rule mset_eq_setD)
    then show ?thesis by simp
  next
    case (Some y)
    with p have "mset q = mset (y # q')" by simp
    then have "set q = set (y # q')" by (rule mset_eq_setD)
    then show ?thesis by auto
  qed
  show "x \<in> set q \<and> ok x" if "r = Some x"
  proof -
    from p that have m: "mset q = mset (x # q')" and "ok x" by simp_all
    moreover from mset_eq_setD [OF m] have "x \<in> set q" by simp
    ultimately show ?thesis by simp
  qed
qed

section \<open>The custody invariant\<close>

definition waiting :: "MqttClient \<Rightarrow> FragmentPublishRequest list" where
  "waiting q = (case mq_pending_fragment q of None \<Rightarrow> [] | Some r \<Rightarrow> [r]) @ mq_fragment_publish_queue q"

text \<open>The chunks esp-mqtt accepted since \<open>b\<close> log entries.\<close>

definition chunk_of :: "string \<Rightarrow> mqtt_out \<Rightarrow> bytes list" where
  "chunk_of topic x = (case x of Broker_publish t d qos mid \<Rightarrow> if t = topic \<and> 0 \<le> mid then [d] else [] | _ \<Rightarrow> [])"

definition data_topic :: "MqttClient \<Rightarrow> string" where
  "data_topic q = ''flp/'' @ hex4_lower (mq_node_addr q) @ ''/file/data''"

definition chunks :: "nat \<Rightarrow> MqttClient \<Rightarrow> bytes list" where
  "chunks b q = concat (map (chunk_of (data_topic q)) (drop b (mq_out q)))"

definition chunk_key :: "u16 \<Rightarrow> u16 \<Rightarrow> bytes \<Rightarrow> bool" where
  "chunk_key s sq d \<longleftrightarrow> take 4 d = le16 s @ le16 sq"

definition trackable_seqs :: "FragmentPublishRequest list \<Rightarrow> u16 list" where
  "trackable_seqs rs = filter is_trackable_fragment (map fr_seq rs)"

definition submitted_chunk :: "u16 \<Rightarrow> (u16 \<times> bytes) set \<Rightarrow> bytes \<Rightarrow> bool" where
  "submitted_chunk S sub d \<longleftrightarrow> (\<exists>sq x. (sq, x) \<in> sub \<and> d = le16 S @ le16 sq @ x)"

definition custody :: "nat \<Rightarrow> u16 \<Rightarrow> (u16 \<times> bytes) set \<Rightarrow> MqttClient \<Rightarrow> bool" where
  "custody b S sub q \<longleftrightarrow> S \<noteq> 0 \<and> mq_active_transfer_session q = S \<and> b \<le> length (mq_out q) \<and>
     length (mq_fragment_queued q) = FRAGMENT_BITMAP_BYTES \<and> length (mq_fragment_accepted q) = FRAGMENT_BITMAP_BYTES \<and>
     list_all (\<lambda>r. fr_session_id r = S \<and> (fr_seq r, fr_data r) \<in> sub) (waiting q) \<and>
     distinct (trackable_seqs (waiting q)) \<and>
     (\<forall>sq. bitmap_test (mq_fragment_queued q) sq \<longleftrightarrow> sq \<in> set (trackable_seqs (waiting q))) \<and>
     (\<forall>sq. bitmap_test (mq_fragment_queued q) sq \<longrightarrow> \<not> bitmap_test (mq_fragment_accepted q) sq) \<and>
     (\<forall>sq. bitmap_test (mq_fragment_accepted q) sq \<longrightarrow> list_ex (chunk_key S sq) (chunks b q)) \<and>
     list_all (\<lambda>it. fst it = S \<and> list_ex (chunk_key S (snd it)) (chunks b q)) (mq_fragment_ack_queue q) \<and>
     list_all (submitted_chunk S sub) (chunks b q)"

definition published_count :: "nat \<Rightarrow> u16 \<Rightarrow> u16 \<Rightarrow> MqttClient \<Rightarrow> nat" where
  "published_count b S sq q = length (filter (chunk_key S sq) (chunks b q))"

text \<open>Publications of a fragment never exceed the permissions given for it, plus one while it counts as accepted.\<close>

definition within_grants :: "nat \<Rightarrow> u16 \<Rightarrow> u16 \<Rightarrow> nat \<Rightarrow> MqttClient \<Rightarrow> bool" where
  "within_grants b S sq g q \<longleftrightarrow> published_count b S sq q \<le> g + (if bitmap_test (mq_fragment_accepted q) sq then 1 else 0)"

section \<open>Preservation\<close>

lemma chunk_key_fragment [simp]: "chunk_key s sq (fragment_chunk r) \<longleftrightarrow> fr_session_id r = s \<and> fr_seq r = sq"
proof -
  have "le16 a = le16 c \<longleftrightarrow> a = c" for a c by (metis rd16_le16)
  then show ?thesis by (simp add: chunk_key_def fragment_chunk_def append_eq_append_conv)
qed

text \<open>Operations that leave the custody fields alone.\<close>

definition custody_view :: "MqttClient \<Rightarrow>
    (u16 \<times> u16 \<times> mqtt_out list) \<times> (FragmentPublishRequest list \<times> bytes \<times> bytes) \<times> CloudItem list" where
  "custody_view q = ((mq_active_transfer_session q, mq_node_addr q, mq_out q),
     (waiting q, mq_fragment_queued q, mq_fragment_accepted q), mq_fragment_ack_queue q)"

lemma custody_cong:
  assumes "custody_view q' = custody_view q"
  shows "custody b S sub q' = custody b S sub q" and "within_grants b S sq g q' = within_grants b S sq g q"
  using assms
  by (simp_all add: custody_view_def custody_def within_grants_def published_count_def chunks_def data_topic_def)

lemma custody_D:
  assumes "custody b S sub q"
  shows "S \<noteq> 0" "mq_active_transfer_session q = S" "b \<le> length (mq_out q)"
    "length (mq_fragment_queued q) = FRAGMENT_BITMAP_BYTES" "length (mq_fragment_accepted q) = FRAGMENT_BITMAP_BYTES"
    "list_all (\<lambda>r. fr_session_id r = S \<and> (fr_seq r, fr_data r) \<in> sub) (waiting q)"
    "distinct (trackable_seqs (waiting q))"
    "bitmap_test (mq_fragment_queued q) sq \<longleftrightarrow> sq \<in> set (trackable_seqs (waiting q))"
    "bitmap_test (mq_fragment_queued q) sq \<Longrightarrow> \<not> bitmap_test (mq_fragment_accepted q) sq"
    "bitmap_test (mq_fragment_accepted q) sq \<Longrightarrow> list_ex (chunk_key S sq) (chunks b q)"
    "list_all (\<lambda>it. fst it = S \<and> list_ex (chunk_key S (snd it)) (chunks b q)) (mq_fragment_ack_queue q)"
    "list_all (submitted_chunk S sub) (chunks b q)"
  using assms by (simp_all add: custody_def)

lemma custody_mono:
  assumes "custody b S sub q" and "sub \<subseteq> sub'"
  shows "custody b S sub' q"
proof -
  have "list_all (\<lambda>r. fr_session_id r = S \<and> (fr_seq r, fr_data r) \<in> sub') (waiting q)"
    "list_all (submitted_chunk S sub') (chunks b q)"
    using custody_D(6,12) [OF assms(1)] assms(2)
    unfolding submitted_chunk_def list_all_iff by blast+
  with assms(1) show ?thesis by (simp add: custody_def)
qed

text \<open>What a turn of the publishing loop does to the custody fields.\<close>

definition turn_fields :: "MqttClient \<Rightarrow> MqttClient \<Rightarrow> bool" where
  "turn_fields q q' \<longleftrightarrow> mq_active_transfer_session q' = mq_active_transfer_session q \<and> mq_node_addr q' = mq_node_addr q \<and>
    (\<exists>r rest mid. waiting q = r # rest \<and> mq_out q' = mq_out q @ [Broker_publish (data_topic q) (fragment_chunk r) 0 mid] \<and>
      (if mid < 0 then waiting q' = waiting q \<and> mq_fragment_queued q' = mq_fragment_queued q \<and>
         mq_fragment_accepted q' = mq_fragment_accepted q \<and> mq_fragment_ack_queue q' = mq_fragment_ack_queue q
       else waiting q' = rest \<and> mq_fragment_queued q' = bitmap_clear (mq_fragment_queued q) (fr_seq r) \<and>
         mq_fragment_accepted q' = bitmap_set (mq_fragment_accepted q) (fr_seq r) \<and>
         (mq_fragment_ack_queue q' = mq_fragment_ack_queue q \<or>
          mq_fragment_ack_queue q' = mq_fragment_ack_queue q @ [(fr_session_id r, fr_seq r)])))"

lemma queue_fragment_ack_fields [simp]:
  fixes s sq q
  defines "q' \<equiv> snd (queue_fragment_ack s sq q)"
  shows "mq_active_transfer_session q' = mq_active_transfer_session q" "mq_node_addr q' = mq_node_addr q"
    "mq_out q' = mq_out q" "mq_fragment_queued q' = mq_fragment_queued q" "mq_fragment_accepted q' = mq_fragment_accepted q"
    "mq_connected q' = mq_connected q" "mq_nack_queue q' = mq_nack_queue q" "mq_recent_publish_ring q' = mq_recent_publish_ring q"
  unfolding q'_def by (auto simp: queue_fragment_ack_def q_send_def)

lemma queue_fragment_ack_queue:
  "mq_fragment_ack_queue (snd (queue_fragment_ack s sq q)) = mq_fragment_ack_queue q \<or>
   mq_fragment_ack_queue (snd (queue_fragment_ack s sq q)) = mq_fragment_ack_queue q @ [(s, sq)]"
  by (auto simp: queue_fragment_ack_def q_send_def)

lemma note_published_ack_queue:
  "mq_fragment_ack_queue (note_published e r fp q) = mq_fragment_ack_queue q \<or>
   mq_fragment_ack_queue (note_published e r fp q) = mq_fragment_ack_queue q @ [(fr_session_id r, fr_seq r)]"
proof -
  have "mq_fragment_ack_queue (snd (queue_fragment_ack s sq q1)) = mq_fragment_ack_queue q \<or>
      mq_fragment_ack_queue (snd (queue_fragment_ack s sq q1)) = mq_fragment_ack_queue q @ [(s, sq)]"
    if "mq_fragment_ack_queue q1 = mq_fragment_ack_queue q" for s sq q1
    using queue_fragment_ack_queue [of s sq q1] that by simp
  then show ?thesis by (simp add: note_published_def Let_def)
qed

lemma fragment_turn_fields:
  assumes "\<forall>r \<in> set (waiting q). fr_session_id r = mq_active_transfer_session q" and "mq_active_transfer_session q \<noteq> 0"
  shows "waiting q = [] \<and> fragment_turn e q = (False, q) \<or> turn_fields q (snd (fragment_turn e q))"
proof (cases "next_fragment q")
  case None
  then show ?thesis by (auto simp: next_fragment_def fragment_turn_def waiting_def split: option.splits list.splits)
next
  case (Some n)
  obtain r fp q1 where n: "n = (r, fp, q1)" by (cases n)
  obtain rest where w: "waiting q = r # rest" "fr_session_id r = mq_active_transfer_session q"
    and q1: "q1 = (if fp then q else q\<lparr>mq_fragment_publish_queue := rest\<rparr>)"
      "mq_pending_fragment q = (if fp then Some r else None)" "mq_fragment_publish_queue q = (if fp then rest else r # rest)"
    using Some n assms(1) by (auto simp: next_fragment_def waiting_def split: option.splits list.splits)
  define mid where "mid = qe_publish e (length (mq_out q))"
  define q2 where "q2 = q1\<lparr>mq_out := mq_out q @ [Broker_publish (data_topic q) (fragment_chunk r) 0 mid]\<rparr>"
  have s: "snd (fragment_turn e q) = (if mid < 0 then q2\<lparr>mq_pending_fragment := Some r\<rparr> else note_published e r fp q2)"
    using Some n w(2) assms(2) q1(1)
    by (simp add: fragment_turn_def esp_publish_def Let_def q2_def mid_def data_topic_def)
  have f: "turn_fields q (q2\<lparr>mq_pending_fragment := Some r\<rparr>)" if "mid < 0"
    using that w q1 by (auto simp: turn_fields_def q2_def waiting_def)
  have "turn_fields q (note_published e r fp q2)" if "\<not> mid < 0"
  proof -
    let ?q3 = "note_published e r fp q2"
    have "waiting ?q3 = rest" using q1 by (simp add: note_published_def Let_def waiting_def q2_def)
    moreover have "mq_active_transfer_session ?q3 = mq_active_transfer_session q" "mq_node_addr ?q3 = mq_node_addr q"
      "mq_out ?q3 = mq_out q @ [Broker_publish (data_topic q) (fragment_chunk r) 0 mid]"
      "mq_fragment_queued ?q3 = bitmap_clear (mq_fragment_queued q) (fr_seq r)"
      "mq_fragment_accepted ?q3 = bitmap_set (mq_fragment_accepted q) (fr_seq r)"
      by (cases fp; simp add: note_published_def Let_def q2_def q1(1))+
    moreover have "mq_fragment_ack_queue ?q3 = mq_fragment_ack_queue q \<or>
        mq_fragment_ack_queue ?q3 = mq_fragment_ack_queue q @ [(fr_session_id r, fr_seq r)]"
      using note_published_ack_queue [of e r fp q2] by (cases fp) (simp_all add: q2_def q1(1))
    ultimately show ?thesis using that w(1) by (simp add: turn_fields_def)
  qed
  with f s show ?thesis by simp
qed

lemma chunks_append:
  assumes "mq_node_addr q' = mq_node_addr q" and "mq_out q' = mq_out q @ [x]" and "b \<le> length (mq_out q)"
  shows "chunks b q' = chunks b q @ chunk_of (data_topic q) x"
  using assms by (simp add: chunks_def data_topic_def)

lemma custody_turn:
  assumes "custody b S sub q" and "turn_fields q q'"
  shows "custody b S sub q'" and "is_trackable_fragment sq \<Longrightarrow> within_grants b S sq g q \<Longrightarrow> within_grants b S sq g q'"
proof -
  obtain r rest mid where w: "waiting q = r # rest" and f: "mq_active_transfer_session q' = mq_active_transfer_session q"
      "mq_node_addr q' = mq_node_addr q" "mq_out q' = mq_out q @ [Broker_publish (data_topic q) (fragment_chunk r) 0 mid]"
    and c: "if mid < 0 then waiting q' = waiting q \<and> mq_fragment_queued q' = mq_fragment_queued q \<and>
         mq_fragment_accepted q' = mq_fragment_accepted q \<and> mq_fragment_ack_queue q' = mq_fragment_ack_queue q
       else waiting q' = rest \<and> mq_fragment_queued q' = bitmap_clear (mq_fragment_queued q) (fr_seq r) \<and>
         mq_fragment_accepted q' = bitmap_set (mq_fragment_accepted q) (fr_seq r) \<and>
         (mq_fragment_ack_queue q' = mq_fragment_ack_queue q \<or>
          mq_fragment_ack_queue q' = mq_fragment_ack_queue q @ [(fr_session_id r, fr_seq r)])"
    using assms(2) unfolding turn_fields_def by blast
  note I = custody_D [OF assms(1)]
  have ch: "chunks b q' = chunks b q @ (if mid < 0 then [] else [fragment_chunk r])"
    using chunks_append [OF f(2,3) I(3)] by (simp add: chunk_of_def)
  have S: "fr_session_id r = S" "(fr_seq r, fr_data r) \<in> sub" using I(6) w by simp_all
  show "custody b S sub q'"
  proof (cases "mid < 0")
    case True
    then show ?thesis using assms(1) c f(1,3) ch by (simp add: custody_def)
  next
    case False
    have d: "submitted_chunk S sub (fragment_chunk r)" using S by (auto simp: fragment_chunk_def submitted_chunk_def)
    have t: "fr_seq r \<notin> set (trackable_seqs rest)" using I(7) w unfolding trackable_seqs_def
      by (auto split: if_splits)
    have rest: "set (trackable_seqs (waiting q)) - {fr_seq r} = set (trackable_seqs rest)"
      using w t by (auto simp: trackable_seqs_def) (metis image_eqI)
    have qd: "bitmap_test (mq_fragment_queued q') sq \<longleftrightarrow> sq \<in> set (trackable_seqs (waiting q'))" for sq
      using False c I(8) [of sq] rest by (auto simp: bitmap_clear_test [OF I(4)])
    have ac: "bitmap_test (mq_fragment_accepted q') sq \<longrightarrow> list_ex (chunk_key S sq) (chunks b q')" for sq
      using False c I(10) [of sq] ch S by (auto simp: bitmap_set_test [OF I(5)])
    have dj: "bitmap_test (mq_fragment_queued q') sq \<longrightarrow> \<not> bitmap_test (mq_fragment_accepted q') sq" for sq
      using False c I(9) [of sq] by (simp add: bitmap_set_test [OF I(5)] bitmap_clear_test [OF I(4)])
    have ak: "list_all (\<lambda>it. fst it = S \<and> list_ex (chunk_key S (snd it)) (chunks b q')) (mq_fragment_ack_queue q')"
      using False c I(11) ch S by (auto simp: list_all_iff)
    have "distinct (trackable_seqs rest)" "list_all (\<lambda>r. fr_session_id r = S \<and> (fr_seq r, fr_data r) \<in> sub) rest"
      using I(6,7) w by (simp_all add: trackable_seqs_def split: if_splits)
    then show ?thesis using False c I f ch d qd ac dj ak by (simp add: custody_def)
  qed
  show "within_grants b S sq g q'" if tr: "is_trackable_fragment sq" and "within_grants b S sq g q"
  proof (cases "mid < 0 \<or> fr_seq r \<noteq> sq")
    case True
    with that c ch show ?thesis
      by (auto simp: within_grants_def published_count_def bitmap_set_test [OF I(5)])
  next
    case False
    then have "bitmap_test (mq_fragment_queued q) sq" using I(8) [of sq] w tr by (simp add: trackable_seqs_def)
    from I(9) [OF this] that False c ch S tr show ?thesis
      by (simp add: within_grants_def published_count_def bitmap_set_test [OF I(5)])
  qed
qed

lemma custody_loop:
  assumes "custody b S sub q"
  shows "custody b S sub (fragment_loop e q) \<and>
    (is_trackable_fragment sq \<longrightarrow> within_grants b S sq g q \<longrightarrow> within_grants b S sq g (fragment_loop e q))"
  using assms
proof (induction e q rule: fragment_loop.induct)
  case (1 e q)
  obtain c q' where t: "fragment_turn e q = (c, q')" by fastforce
  have "\<forall>r \<in> set (waiting q). fr_session_id r = mq_active_transfer_session q" "mq_active_transfer_session q \<noteq> 0"
    using custody_D [OF 1(2)] by (simp_all add: list_all_iff)
  from fragment_turn_fields [OF this, of e] t consider "q' = q" "\<not> c" | "turn_fields q q'" by auto
  then show ?case
  proof cases
    case 1
    with t show ?thesis using \<open>custody b S sub q\<close> by (simp add: fragment_loop.simps)
  next
    case 2
    note ct = custody_turn [OF 1(2) this]
    show ?thesis
    proof (cases c)
      case True
      with t have t': "fragment_turn e q = (True, q')" by simp
      with 1(1) ct(1) have "custody b S sub (fragment_loop e q') \<and> (is_trackable_fragment sq \<longrightarrow>
          within_grants b S sq g q' \<longrightarrow> within_grants b S sq g (fragment_loop e q'))" by auto
      with ct(2) t' show ?thesis by (simp add: fragment_loop.simps [of e q])
    next
      case False
      with t ct show ?thesis by (auto simp: fragment_loop.simps [of e q])
    qed
  qed
qed

lemma custody_submit:
  assumes "custody b S sub q"
  shows "custody b S (insert (sq, take MAX_MTU d) sub) (snd (publish_fragment S sq src (Some d) (Some name) q))"
    and "within_grants b S s g (snd (publish_fragment S sq src (Some d) (Some name) q)) = within_grants b S s g q"
proof -
  let ?sub = "insert (sq, take MAX_MTU d) sub" and ?q' = "snd (publish_fragment S sq src (Some d) (Some name) q)"
  note I = custody_D [OF assms]
  have m: "custody b S ?sub q" by (rule custody_mono [OF assms]) auto
  note J = custody_D [OF m]
  define r where "r = \<lparr>fr_session_id = S, fr_seq = sq, fr_src_node = src, fr_data = take MAX_MTU d, fr_filename = take 32 name\<rparr>"
  have eq: "?q' = (if d = [] then q else if bitmap_test (mq_fragment_accepted q) sq
      then if src \<noteq> mq_node_addr q then snd (queue_fragment_ack S sq q) else q
      else if bitmap_test (mq_fragment_queued q) sq then q
      else if length (mq_fragment_publish_queue q) < MQTT_FRAGMENT_QUEUE_DEPTH
      then q\<lparr>mq_fragment_publish_queue := mq_fragment_publish_queue q @ [r],
             mq_fragment_queued := bitmap_set (mq_fragment_queued q) sq\<rparr> else q)"
    by (simp add: publish_fragment_def Let_def q_send_def I(2) r_def)
  consider (same) "?q' = q"
    | (ack) "bitmap_test (mq_fragment_accepted q) sq" "?q' = snd (queue_fragment_ack S sq q)"
    | (queued) "fr_session_id r = S" "fr_seq r = sq" "fr_data r = take MAX_MTU d"
        "\<not> bitmap_test (mq_fragment_accepted q) sq" "\<not> bitmap_test (mq_fragment_queued q) sq"
        "?q' = q\<lparr>mq_fragment_publish_queue := mq_fragment_publish_queue q @ [r],
           mq_fragment_queued := bitmap_set (mq_fragment_queued q) sq\<rparr>"
  proof (cases "bitmap_test (mq_fragment_accepted q) sq")
    case True
    then have "?q' = q \<or> ?q' = snd (queue_fragment_ack S sq q)" unfolding eq by simp
    with that(1) that(2) [OF True] show thesis by blast
  next
    case False
    have r: "fr_session_id r = S" "fr_seq r = sq" "fr_data r = take MAX_MTU d" by (simp_all add: r_def)
    show thesis
    proof (cases "bitmap_test (mq_fragment_queued q) sq")
      case True
      with False have "?q' = q" unfolding eq by simp
      then show thesis by (rule that(1))
    next
      case nq: False
      with False have "?q' = q \<or> ?q' = q\<lparr>mq_fragment_publish_queue := mq_fragment_publish_queue q @ [r],
          mq_fragment_queued := bitmap_set (mq_fragment_queued q) sq\<rparr>" unfolding eq by simp
      with that(1) that(3) [OF r False nq] show thesis by blast
    qed
  qed
  then have "custody b S ?sub ?q' \<and> within_grants b S s g ?q' = within_grants b S s g q"
  proof cases
    case ack
    have "list_all (\<lambda>it. fst it = S \<and> list_ex (chunk_key S (snd it)) (chunks b q)) (mq_fragment_ack_queue ?q')"
      using queue_fragment_ack_queue [of S sq q] ack J(10,11) by (auto simp: list_all_iff)
    moreover have "chunks b ?q' = chunks b q" "waiting ?q' = waiting q"
      by (simp_all add: ack(2) chunks_def data_topic_def waiting_def)
    ultimately show ?thesis using m by (simp add: custody_def within_grants_def published_count_def ack(2))
  next
    case queued
    have w: "waiting ?q' = waiting q @ [r]" "chunks b ?q' = chunks b q"
      by (simp_all add: queued(6) waiting_def chunks_def data_topic_def)
    have "trackable_seqs (waiting ?q') = trackable_seqs (waiting q) @ (if is_trackable_fragment sq then [sq] else [])"
      by (simp add: w trackable_seqs_def queued(2))
    moreover have "sq \<notin> set (trackable_seqs (waiting q))" using queued(5) J(8) [of sq] by simp
    moreover have "bitmap_test (mq_fragment_queued ?q') x \<longleftrightarrow> is_trackable_fragment x \<and> x = sq \<or> x \<in> set (trackable_seqs (waiting q))" for x
      using J(8) [of x] by (simp add: queued(6) bitmap_set_test [OF J(4)])
    ultimately show ?thesis
      using m queued(1-4) w by (auto simp: custody_def within_grants_def published_count_def queued(6))
  qed (use m in simp)
  then show "custody b S ?sub ?q'" "within_grants b S s g ?q' = within_grants b S s g q" by simp_all
qed

lemma chunks_cong: "fst (custody_view q') = fst (custody_view q) \<Longrightarrow> chunks b q' = chunks b q"
  by (simp add: custody_view_def chunks_def data_topic_def)

lemma custody_ack_queue:
  assumes "custody b S sub q" and "set (mq_fragment_ack_queue q') \<subseteq> set (mq_fragment_ack_queue q)"
    and "fst (custody_view q') = fst (custody_view q)" and "fst (snd (custody_view q')) = fst (snd (custody_view q))"
  shows "custody b S sub q'" and "within_grants b S s g q' = within_grants b S s g q"
proof -
  have "list_all (\<lambda>it. fst it = S \<and> list_ex (chunk_key S (snd it)) (chunks b q)) (mq_fragment_ack_queue q')"
    using custody_D(11) [OF assms(1)] assms(2) by (auto simp: list_all_iff)
  then show "custody b S sub q'" "within_grants b S s g q' = within_grants b S s g q"
    using assms(1,3,4) chunks_cong [OF assms(3), of b]
    by (simp_all add: custody_view_def custody_def within_grants_def published_count_def)
qed

text \<open>Forgetting acceptances keeps the invariant, and allows one more publication.\<close>

definition forgets :: "MqttClient \<Rightarrow> MqttClient \<Rightarrow> bool" where
  "forgets q q' \<longleftrightarrow> fst (custody_view q') = fst (custody_view q) \<and> waiting q' = waiting q \<and>
     mq_fragment_queued q' = mq_fragment_queued q \<and> mq_fragment_ack_queue q' = mq_fragment_ack_queue q \<and>
     length (mq_fragment_accepted q') = length (mq_fragment_accepted q) \<and>
     (length (mq_fragment_accepted q) = FRAGMENT_BITMAP_BYTES \<longrightarrow>
      (\<forall>sq. bitmap_test (mq_fragment_accepted q') sq \<longrightarrow> bitmap_test (mq_fragment_accepted q) sq))"

lemma forgets_refl: "custody_view q' = custody_view q \<Longrightarrow> forgets q q'"
  by (simp add: forgets_def custody_view_def)

lemma forgets_trans: "forgets q q' \<Longrightarrow> forgets q' q'' \<Longrightarrow> forgets q q''"
  by (simp add: forgets_def)

lemma custody_forgets:
  assumes "custody b S sub q" and "forgets q q'"
  shows "custody b S sub q'" and "within_grants b S s g q \<Longrightarrow> within_grants b S s (g + 1) q'"
proof -
  note f = assms(2) [unfolded forgets_def]
  have ch: "chunks b q' = chunks b q" using f chunks_cong by blast
  have ac: "bitmap_test (mq_fragment_accepted q') sq \<Longrightarrow> bitmap_test (mq_fragment_accepted q) sq" for sq
    using f custody_D(5) [OF assms(1)] by blast
  have "bitmap_test (mq_fragment_queued q) sq \<longrightarrow> \<not> bitmap_test (mq_fragment_accepted q') sq"
    "bitmap_test (mq_fragment_accepted q') sq \<longrightarrow> list_ex (chunk_key S sq) (chunks b q)" for sq
    using custody_D(9,10) [OF assms(1), of sq] ac [of sq] by blast+
  then show "custody b S sub q'" using f assms(1) ch by (simp add: custody_view_def custody_def)
  show "within_grants b S s (g + 1) q'" if "within_grants b S s g q"
    using that ch by (auto simp: within_grants_def published_count_def split: if_splits)
qed

lemma forgets_clear:
  assumes "fst (custody_view q') = fst (custody_view q)" and "waiting q' = waiting q"
    and "mq_fragment_queued q' = mq_fragment_queued q" and "mq_fragment_ack_queue q' = mq_fragment_ack_queue q"
    and "mq_fragment_accepted q' = bitmap_clear (mq_fragment_accepted q) sq"
  shows "forgets q q'"
  using assms by (simp add: forgets_def bitmap_clear_test)

lemma custody_republish:
  assumes "custody b S sub q"
  shows "custody b S sub (mark_fragment_for_republish s sq q)"
    and "within_grants b S x g q \<Longrightarrow> within_grants b S x (if x = sq then g + 1 else g) (mark_fragment_for_republish s sq q)"
proof -
  let ?q' = "mark_fragment_for_republish s sq q"
  have "forgets q (q\<lparr>mq_fragment_accepted := bitmap_clear (mq_fragment_accepted q) sq\<rparr>)"
    by (rule forgets_clear [of _ _ sq]) (simp_all add: custody_view_def waiting_def)
  then have "forgets q ?q'" by (simp add: mark_fragment_for_republish_def forgets_refl)
  note c = custody_forgets [OF assms this]
  show "custody b S sub ?q'" by (rule c)
  have "within_grants b S x g ?q'" if "within_grants b S x g q" "x \<noteq> sq"
  proof -
    have "chunks b ?q' = chunks b q" by (rule chunks_cong) (simp add: mark_fragment_for_republish_def custody_view_def)
    with that bitmap_clear_test [OF custody_D(5) [OF assms]] show ?thesis
      by (auto simp: within_grants_def published_count_def mark_fragment_for_republish_def)
  qed
  with c(2) show "within_grants b S x g q \<Longrightarrow> within_grants b S x (if x = sq then g + 1 else g) ?q'" by auto
qed

section \<open>Runs of a session\<close>

text \<open>
  The calls made while session \<open>S\<close> is active: submissions by the mesh task, the publishing loop of the
  MQTT task, the transfer engine draining an acknowledgement (and putting it back when the radio
  refused it), requests of the cloud to publish again, and broker events.
\<close>

datatype custody_op = Submit u16 u16 bytes string | Publish MqttEnv | Take_ack bool | Republish u16 | Broker MqttEnv mqtt_event

fun custody_step :: "u16 \<Rightarrow> custody_op \<Rightarrow> u16 list \<times> MqttClient \<Rightarrow> u16 list \<times> MqttClient" where
  "custody_step S (Submit sq src d name) (acks, q) = (acks, snd (publish_fragment S sq src (Some d) (Some name) q))"
| "custody_step S (Publish e) (acks, q) = (acks, process_fragment_publish e q)"
| "custody_step S (Take_ack on_air) (acks, q) = (case drain_fragment_ack S q of
      (None, q') \<Rightarrow> (acks, q')
    | (Some sq, q') \<Rightarrow> if on_air then (acks @ [sq], q') else (acks, snd (requeue_fragment_ack S sq q')))"
| "custody_step S (Republish sq) (acks, q) = (acks, mark_fragment_for_republish S sq q)"
| "custody_step S (Broker e ev) (acks, q) = (acks, handle_mqtt_event e (Some ev) q)"

definition submissions :: "custody_op list \<Rightarrow> (u16 \<times> bytes) list" where
  "submissions ops = concat (map (\<lambda>op. case op of Submit sq src d name \<Rightarrow> [(sq, take MAX_MTU d)] | _ \<Rightarrow> []) ops)"

text \<open>An operation that allows \<open>sq\<close> to be published again.\<close>

definition grants :: "u16 \<Rightarrow> custody_op \<Rightarrow> bool" where
  "grants sq op = (case op of Republish s \<Rightarrow> s = sq | Broker e ev \<Rightarrow> ev = MQTT_EVENT_DISCONNECTED | _ \<Rightarrow> False)"

text \<open>Broker events: only a disconnect touches the custody fields, and it only forgets acceptances.\<close>

lemma forgets_replay: "forgets q (replay_entry now sid i q)"
proof -
  have "forgets q (q\<lparr>mq_nack_queue := nq, mq_fragment_accepted := bitmap_clear (mq_fragment_accepted q) sq, mq_recent_publish_ring := r\<rparr>)"
    for nq sq r by (rule forgets_clear [of _ _ sq]) (simp_all add: custody_view_def waiting_def)
  moreover have "forgets q (q\<lparr>mq_recent_publish_ring := r\<rparr>)" for r
    by (rule forgets_refl) (simp add: custody_view_def waiting_def)
  ultimately show ?thesis by (simp add: replay_entry_def Let_def q_send_def forgets_refl)
qed

lemma forgets_disconnect: "forgets q (on_mqtt_disconnected e q)"
proof -
  have "forgets q0 (fold (replay_entry now sid) is q0)" for now sid "is" q0
    by (induction "is" arbitrary: q0) (auto intro: forgets_refl forgets_trans forgets_replay)
  moreover have "forgets q (q\<lparr>mq_connected := False\<rparr>)" by (rule forgets_refl) (simp add: custody_view_def waiting_def)
  ultimately show ?thesis unfolding on_mqtt_disconnected_def Let_def by (auto intro: forgets_trans)
qed

lemma push_nack_view: "custody_view (fold (push_nack sid) sqs q) = custody_view q"
  by (induction sqs arbitrary: q) (simp_all add: push_nack_def custody_view_def waiting_def)

lemma on_mqtt_data_view: "custody_view (on_mqtt_data topic data q) = custody_view q"
proof -
  have "custody_view (on_cloud_ack sid s q) = custody_view q" for sid s
    using push_nack_view [of sid "[_]" q]
    by (auto simp: on_cloud_ack_def custody_view_def waiting_def split: option.splits)
  moreover have "custody_view (on_transfer_nack sid s q) = custody_view q" for sid s
    using push_nack_view by (auto simp: on_transfer_nack_def split: option.splits)
  moreover have "custody_view (for_active_session s f q) = custody_view q"
    if "\<And>sid. custody_view (f sid q) = custody_view q" for s f
    using that by (auto simp: for_active_session_def split: option.splits)
  ultimately show ?thesis
    unfolding on_mqtt_data_def Let_def by (simp add: on_admin_cmd_def custody_view_def waiting_def)
qed

lemma custody_connected:
  assumes "custody b S sub q"
  shows "custody b S sub (on_mqtt_connected q)" and "within_grants b S s g (on_mqtt_connected q) = within_grants b S s g q"
proof -
  let ?q' = "on_mqtt_connected q"
  have "chunks b ?q' = chunks b q" using custody_D(3) [OF assms]
    by (simp add: on_mqtt_connected_def esp_subscribe_def chunks_def data_topic_def chunk_of_def)
  moreover have "mq_active_transfer_session ?q' = mq_active_transfer_session q" "waiting ?q' = waiting q"
    "mq_fragment_queued ?q' = mq_fragment_queued q" "mq_fragment_accepted ?q' = mq_fragment_accepted q"
    "mq_fragment_ack_queue ?q' = mq_fragment_ack_queue q" "length (mq_out q) \<le> length (mq_out ?q')"
    by (simp_all add: on_mqtt_connected_def esp_subscribe_def waiting_def)
  ultimately show "custody b S sub ?q'" "within_grants b S s g ?q' = within_grants b S s g q"
    using assms by (simp_all add: custody_def within_grants_def published_count_def)
qed

lemma custody_take_ack:
  assumes "custody b S sub q" and "custody_step S (Take_ack on_air) (acks, q) = (acks', q')"
  shows "custody b S sub q'" and "within_grants b S s g q' = within_grants b S s g q"
    and "acks' = acks \<or> (\<exists>sq. acks' = acks @ [sq] \<and> list_ex (chunk_key S sq) (chunks b q'))"
proof -
  obtain r q1 where d: "drain_fragment_ack S q = (r, q1)" by fastforce
  obtain x aq where qd: "q_drain (length (mq_fragment_ack_queue q)) (\<lambda>it. fst it = S) (mq_fragment_ack_queue q) = (x, aq)"
    by fastforce
  note qs = q_drain_set [OF qd]
  have q1: "mq_fragment_ack_queue q1 = aq" "fst (custody_view q1) = fst (custody_view q)"
    "fst (snd (custody_view q1)) = fst (snd (custody_view q))" "r = map_option snd x"
    using d qd by (auto simp: drain_fragment_ack_def custody_view_def waiting_def split: option.splits)
  have q': "set (mq_fragment_ack_queue q') \<subseteq> set (mq_fragment_ack_queue q)" "fst (custody_view q') = fst (custody_view q)"
    "fst (snd (custody_view q')) = fst (snd (custody_view q))"
    "acks' = acks \<or> (\<exists>it. x = Some it \<and> acks' = acks @ [snd it])"
    using assms(2) d q1 qs
    by (auto simp: requeue_fragment_ack_def q_send_front_def custody_view_def waiting_def prod_eq_iff split: option.splits if_splits)
  note c = custody_ack_queue [OF assms(1) q'(1-3)]
  show "custody b S sub q'" "within_grants b S s g q' = within_grants b S s g q" by (rule c)+
  have "list_ex (chunk_key S (snd it)) (chunks b q')" if "x = Some it" for it
  proof -
    have "list_ex (chunk_key S (snd it)) (chunks b q)"
      using qs(2) [OF that] custody_D(11) [OF assms(1)] by (auto simp: list_all_iff)
    moreover have "chunks b q' = chunks b q" using q'(2) by (simp add: custody_view_def chunks_def data_topic_def)
    ultimately show ?thesis by simp
  qed
  with q'(4) show "acks' = acks \<or> (\<exists>sq. acks' = acks @ [sq] \<and> list_ex (chunk_key S sq) (chunks b q'))" by blast
qed

section \<open>Theorems\<close>

definition run_ok :: "nat \<Rightarrow> u16 \<Rightarrow> custody_op list \<Rightarrow> u16 list \<times> MqttClient \<Rightarrow> bool" where
  "run_ok b S ops s \<longleftrightarrow> custody b S (set (submissions ops)) (snd s) \<and>
     list_all (\<lambda>sq. list_ex (chunk_key S sq) (chunks b (snd s))) (fst s) \<and>
     (\<forall>sq. is_trackable_fragment sq \<longrightarrow> within_grants b S sq (length (filter (grants sq) ops)) (snd s))"

text \<open>A step never forgets a chunk that was logged.\<close>

lemma fragment_loop_log: "\<exists>l. mq_out (fragment_loop e q) = mq_out q @ l \<and> mq_node_addr (fragment_loop e q) = mq_node_addr q"
proof (induction e q rule: fragment_loop.induct)
  case (1 e q)
  obtain c q' where t: "fragment_turn e q = (c, q')" by fastforce
  then have q': "\<exists>l. mq_out q' = mq_out q @ l \<and> mq_node_addr q' = mq_node_addr q"
    by (auto simp: fragment_turn_def next_fragment_def drop_stale_def note_published_def esp_publish_def Let_def
        split: option.splits list.splits if_splits)
  show ?case
  proof (cases c)
    case True
    with t have t': "fragment_turn e q = (True, q')" by simp
    with 1 have "\<exists>l. mq_out (fragment_loop e q') = mq_out q' @ l \<and> mq_node_addr (fragment_loop e q') = mq_node_addr q'" by auto
    with q' t' show ?thesis by (auto simp: fragment_loop.simps [of e q])
  qed (use t q' in \<open>simp add: fragment_loop.simps [of e q]\<close>)
qed

lemma view_log: "fst (custody_view q') = fst (custody_view q) \<Longrightarrow> \<exists>l. mq_out q' = mq_out q @ l \<and> mq_node_addr q' = mq_node_addr q"
  by (simp add: custody_view_def)

lemma publish_fragment_view: "fst (custody_view (snd (publish_fragment S sq src d name q))) = fst (custody_view q)"
  by (auto simp: publish_fragment_def Let_def q_send_def custody_view_def split: option.splits)

lemma step_log: "\<exists>l. mq_out (snd (custody_step S op s)) = mq_out (snd s) @ l \<and> mq_node_addr (snd (custody_step S op s)) = mq_node_addr (snd s)"
proof (cases s)
  case (Pair acks q)
  show ?thesis
  proof (cases op)
    case (Submit sq src d name)
    with Pair view_log [OF publish_fragment_view] show ?thesis by simp
  next
    case (Publish e)
    with Pair fragment_loop_log [of e q] show ?thesis by (simp add: process_fragment_publish_def)
  next
    case (Take_ack on_air)
    with Pair show ?thesis
      by (auto simp: drain_fragment_ack_def requeue_fragment_ack_def q_send_front_def split: prod.splits option.splits)
  next
    case (Republish sq)
    with Pair show ?thesis by (simp add: mark_fragment_for_republish_def)
  next
    case (Broker e ev)
    have "\<exists>l. mq_out (on_mqtt_connected q) = mq_out q @ l \<and> mq_node_addr (on_mqtt_connected q) = mq_node_addr q"
      by (simp add: on_mqtt_connected_def esp_subscribe_def)
    moreover have "fst (custody_view (on_mqtt_disconnected e q)) = fst (custody_view q)"
      using forgets_disconnect by (simp add: forgets_def)
    note view_log [OF this]
    moreover have "fst (custody_view (on_mqtt_data topic data q)) = fst (custody_view q)" for topic data
      by (simp add: on_mqtt_data_view)
    note view_log [OF this]
    ultimately show ?thesis unfolding Broker Pair by (cases ev) (simp_all add: handle_mqtt_event_def)
  qed
qed

lemma list_ex_chunks_mono:
  assumes "\<exists>l. mq_out q' = mq_out q @ l \<and> mq_node_addr q' = mq_node_addr q" and "b \<le> length (mq_out q)"
    and "list_all (\<lambda>sq. list_ex (P sq) (chunks b q)) xs"
  shows "list_all (\<lambda>sq. list_ex (P sq) (chunks b q')) xs"
proof -
  obtain l where "chunks b q' = chunks b q @ l" using assms(1,2) by (auto simp: chunks_def data_topic_def)
  with assms(3) show ?thesis by (auto elim: list.pred_mono_strong)
qed

lemma run_ok_step:
  assumes "run_ok b S ops s"
  shows "run_ok b S (ops @ [op]) (custody_step S op s)"
proof -
  obtain acks q where s: "s = (acks, q)" by (cases s)
  note R = assms [unfolded run_ok_def s fst_conv snd_conv]
  then have c: "custody b S (set (submissions ops)) q" by simp
  have log: "list_all (\<lambda>sq. list_ex (chunk_key S sq) (chunks b (snd (custody_step S op s)))) acks"
    using list_ex_chunks_mono [OF step_log [of S op s]] custody_D(3) [OF c] R s by auto
  have keep: "run_ok b S (ops @ [op]) (acks, q')"
    if "snd (custody_step S op s) = q'" "set (submissions (ops @ [op])) = set (submissions ops)"
      "custody b S (set (submissions ops)) q'"
      "\<And>sq. is_trackable_fragment sq \<Longrightarrow> within_grants b S sq (length (filter (grants sq) ops)) q \<Longrightarrow>
         within_grants b S sq (length (filter (grants sq) ops) + (if grants sq op then 1 else 0)) q'" for q'
  proof -
    have "length (filter (grants sq) (ops @ [op])) = length (filter (grants sq) ops) + (if grants sq op then 1 else 0)" for sq
      by simp
    with that R log show ?thesis unfolding run_ok_def fst_conv snd_conv by metis
  qed
  show ?thesis
  proof (cases op)
    case (Submit sq src d name)
    from custody_submit [OF c] R log show ?thesis
      by (simp add: Submit s run_ok_def submissions_def grants_def insert_commute)
  next
    case (Publish e)
    have l: "custody b S (set (submissions ops)) (fragment_loop e q)"
      "\<And>sq g. is_trackable_fragment sq \<Longrightarrow> within_grants b S sq g q \<Longrightarrow> within_grants b S sq g (fragment_loop e q)"
      using custody_loop [OF c] by blast+
    then show ?thesis
      using keep [of "process_fragment_publish e q"] c by (simp add: Publish s grants_def submissions_def process_fragment_publish_def)
  next
    case (Take_ack on_air)
    obtain acks' q' where st: "custody_step S op s = (acks', q')" by fastforce
    with Take_ack s have st': "custody_step S (Take_ack on_air) (acks, q) = (acks', q')" by simp
    note t = custody_take_ack [OF c st']
    have "run_ok b S (ops @ [op]) (acks, q')"
      using keep [of q'] t(1,2) st by (simp add: Take_ack grants_def submissions_def)
    with t(3) st show ?thesis by (auto simp: run_ok_def)
  next
    case (Republish sq)
    have "within_grants b S x (g + (if grants x op then 1 else 0)) (mark_fragment_for_republish S sq q)"
      if "within_grants b S x g q" for x g
      using custody_republish(2) [OF c that, of sq S] by (auto simp: Republish grants_def)
    with custody_republish(1) [OF c] keep [of "mark_fragment_for_republish S sq q"] show ?thesis
      by (simp add: Republish s submissions_def)
  next
    case (Broker e ev)
    have sub: "set (submissions (ops @ [op])) = set (submissions ops)" by (simp add: Broker submissions_def)
    have "custody b S (set (submissions ops)) (handle_mqtt_event e (Some ev) q) \<and>
      (\<forall>sq g. within_grants b S sq g q \<longrightarrow> within_grants b S sq (g + (if grants sq op then 1 else 0)) (handle_mqtt_event e (Some ev) q))"
      using custody_connected [OF c] custody_forgets [OF c forgets_disconnect] custody_cong [OF on_mqtt_data_view] c
      by (cases ev) (simp_all add: handle_mqtt_event_def Broker grants_def)
    then show ?thesis using keep [of "handle_mqtt_event e (Some ev) q"] sub by (simp add: Broker s)
  qed
qed

lemma run_ok_fold:
  assumes "run_ok b S done s"
  shows "run_ok b S (done @ ops) (fold (custody_step S) ops s)"
  using assms
proof (induction ops arbitrary: "done" s)
  case (Cons op ops)
  from Cons.IH [OF run_ok_step [OF Cons.prems, of op]] show ?case by simp
qed simp

lemma fresh_session_ok:
  assumes "S \<noteq> 0" and "mq_active_transfer_session q \<noteq> S"
  shows "run_ok (length (mq_out q)) S [] ([], activate_transfer_session S q)"
proof -
  let ?q = "activate_transfer_session S q"
  have "waiting ?q = []" "chunks (length (mq_out q)) ?q = []" "mq_out ?q = mq_out q"
    "mq_fragment_queued ?q = zero_bitmap" "mq_fragment_accepted ?q = zero_bitmap" "mq_fragment_ack_queue ?q = []"
    "mq_active_transfer_session ?q = S"
    using assms(2) by (simp_all add: activate_transfer_session_def reset_transfer_runtime_state_def waiting_def chunks_def)
  then show ?thesis using assms(1)
    by (simp add: run_ok_def custody_def trackable_seqs_def within_grants_def published_count_def submissions_def)
qed

text \<open>
  C4. Custody of fragments at the exit node: while a session is active, for every interleaving of
  submissions, publishing, acknowledging, republish requests and broker events, each chunk esp-mqtt
  accepts is the session number, a sequence number and the data submitted under it, and every
  sequence number acknowledged to the mesh had been accepted by esp-mqtt before.
\<close>

theorem exit_custody:
  assumes "S \<noteq> 0" and "mq_active_transfer_session q \<noteq> S"
    and "fold (custody_step S) ops ([], activate_transfer_session S q) = (acks, q')"
  shows "list_all (submitted_chunk S (set (submissions ops))) (chunks (length (mq_out q)) q') \<and>
    list_all (\<lambda>sq. list_ex (chunk_key S sq) (chunks (length (mq_out q)) q')) acks"
  using run_ok_fold [OF fresh_session_ok [OF assms(1,2)], of ops] assms(3) custody_D(12)
  by (simp add: run_ok_def)

text \<open>
  C8. No duplicates towards the cloud: during a session a fragment with a sequence number below 60000,
  the numbers the client keeps bitmaps for, is published at most once, plus once for every request to
  publish it again and every disconnect. Fragments with larger numbers are not tracked: they are
  published at every submission, see \<open>untracked_published_again\<close> below.
\<close>

theorem exit_publishes_at_most_once:
  assumes "S \<noteq> 0" and "mq_active_transfer_session q \<noteq> S" and "is_trackable_fragment sq"
    and "fold (custody_step S) ops ([], activate_transfer_session S q) = (acks, q')"
  shows "published_count (length (mq_out q)) S sq q' \<le> 1 + length (filter (grants sq) ops)"
  using run_ok_fold [OF fresh_session_ok [OF assms(1,2)], of ops] assms(3,4)
  by (auto simp: run_ok_def within_grants_def split: if_splits)

definition ex_mqtt :: MqttClient where
  "ex_mqtt = (MqttClient_new 9)\<lparr>mq_connected := True\<rparr>"

definition ex_mqtt_env :: MqttEnv where
  "ex_mqtt_env = \<lparr>qe_now = 100, qe_publish = (\<lambda>n. 0), qe_outbox_size = 0, qe_crc32 = (\<lambda>d. 0), qe_mutex = True, qe_topic_taken = True\<rparr>"

definition ex_custody_ops :: "custody_op list" where
  "ex_custody_ops = [Submit 3 7 [1, 2] ''f'', Submit 3 7 [1, 2] ''f'', Publish ex_mqtt_env, Submit 3 7 [1, 2] ''f'', Take_ack True]"

theorem exit_custody_witness:
  "list_all (submitted_chunk 5 (set (submissions ex_custody_ops)))
     (chunks (length (mq_out ex_mqtt)) (snd (fold (custody_step 5) ex_custody_ops ([], activate_transfer_session 5 ex_mqtt))))"
proof -
  have "(5 :: u16) \<noteq> 0" "mq_active_transfer_session ex_mqtt \<noteq> 5" by (simp_all add: ex_mqtt_def MqttClient_new_def)
  from exit_custody [OF this surjective_pairing] show ?thesis by (rule conjunct1)
qed

theorem exit_publishes_at_most_once_witness:
  "published_count (length (mq_out ex_mqtt)) 5 3 (snd (fold (custody_step 5) ex_custody_ops ([], activate_transfer_session 5 ex_mqtt))) \<le> 1"
proof -
  have "(5 :: u16) \<noteq> 0" "mq_active_transfer_session ex_mqtt \<noteq> 5" "is_trackable_fragment 3"
    by (simp_all add: ex_mqtt_def MqttClient_new_def is_trackable_fragment_def)
  from exit_publishes_at_most_once [OF this surjective_pairing, of ex_custody_ops] show ?thesis
    by (simp add: ex_custody_ops_def grants_def)
qed

section \<open>The publishing loop empties the queue\<close>

definition current :: "MqttClient \<Rightarrow> FragmentPublishRequest \<Rightarrow> bool" where
  "current q r \<longleftrightarrow> mq_active_transfer_session q \<noteq> 0 \<and> fr_session_id r = mq_active_transfer_session q"

lemma fragment_turn_accepts:
  assumes "0 \<le> qe_publish e (length (mq_out q))"
  shows "case waiting q of
      [] \<Rightarrow> fragment_turn e q = (False, q)
    | r # rest \<Rightarrow> \<exists>q'. fragment_turn e q = (True, q') \<and> waiting q' = rest \<and> mq_node_addr q' = mq_node_addr q \<and>
        mq_active_transfer_session q' = mq_active_transfer_session q \<and>
        (\<exists>mid \<ge> 0. mq_out q' = mq_out q @ (if current q r then [Broker_publish (data_topic q) (fragment_chunk r) 0 mid] else []))"
proof (cases "next_fragment q")
  case None
  then show ?thesis by (auto simp: next_fragment_def fragment_turn_def waiting_def split: option.splits list.splits)
next
  case (Some n)
  obtain r fp q1 where n: "n = (r, fp, q1)" by (cases n)
  obtain rest where w: "waiting q = r # rest" and q1: "q1 = (if fp then q else q\<lparr>mq_fragment_publish_queue := rest\<rparr>)"
      "mq_pending_fragment q = (if fp then Some r else None)" "mq_fragment_publish_queue q = (if fp then rest else r # rest)"
    using Some n by (auto simp: next_fragment_def waiting_def split: option.splits list.splits)
  show ?thesis
  proof (cases "current q r")
    case False
    with Some n have "fragment_turn e q = (True, drop_stale r fp q1)"
      by (cases fp) (auto simp: fragment_turn_def current_def q1(1))
    with False w q1 assms show ?thesis by (cases fp) (auto simp: drop_stale_def waiting_def)
  next
    case True
    define q2 where "q2 = q1\<lparr>mq_out := mq_out q @ [Broker_publish (data_topic q) (fragment_chunk r) 0 (qe_publish e (length (mq_out q)))]\<rparr>"
    have "fragment_turn e q = (True, note_published e r fp q2)"
      using Some n True assms by (cases fp)
        (simp_all add: fragment_turn_def current_def q1(1) esp_publish_def Let_def q2_def data_topic_def)
    moreover have "waiting (note_published e r fp q2) = rest" "mq_node_addr (note_published e r fp q2) = mq_node_addr q"
      "mq_active_transfer_session (note_published e r fp q2) = mq_active_transfer_session q" "mq_out (note_published e r fp q2) = mq_out q2"
      by (cases fp; use q1 in \<open>simp add: note_published_def Let_def waiting_def q2_def\<close>)+
    ultimately show ?thesis using True w assms by (auto simp: q2_def)
  qed
qed

lemma fragment_loop_accepts:
  assumes "\<And>n. 0 \<le> qe_publish e n" and "b \<le> length (mq_out q)"
  shows "waiting (fragment_loop e q) = [] \<and>
    chunks b (fragment_loop e q) = chunks b q @ map fragment_chunk (filter (current q) (waiting q))"
  using assms(2)
proof (induction "waiting q" arbitrary: q)
  case Nil
  with fragment_turn_accepts [OF assms(1), of q] have "fragment_turn e q = (False, q)" by simp
  then show ?case using Nil by (simp add: fragment_loop.simps [of e q])
next
  case (Cons r rest)
  from fragment_turn_accepts [OF assms(1), of q] Cons(2) [symmetric] obtain q' mid
    where t: "fragment_turn e q = (True, q')" "waiting q' = rest" "mq_node_addr q' = mq_node_addr q"
        "mq_active_transfer_session q' = mq_active_transfer_session q" "(0 :: int) \<le> mid"
        "mq_out q' = mq_out q @ (if current q r then [Broker_publish (data_topic q) (fragment_chunk r) 0 mid] else [])"
    by auto
  have IH: "waiting (fragment_loop e q') = [] \<and>
      chunks b (fragment_loop e q') = chunks b q' @ map fragment_chunk (filter (current q') (waiting q'))"
    using Cons(1) [OF t(2) [symmetric]] Cons(3) t(6) by simp
  have "chunks b q' = chunks b q @ (if current q r then [fragment_chunk r] else [])"
    using Cons(3) t(3,5,6) by (simp add: chunks_def data_topic_def chunk_of_def)
  moreover have "current q' = current q" using t(4) by (simp add: current_def fun_eq_iff)
  ultimately show ?case using IH t(1,2) Cons(2) [symmetric] by (simp add: fragment_loop.simps [of e q])
qed

text \<open>
  The range in C8 is needed: a fragment with a number that no bitmap covers is published whenever it is
  submitted, however often it was published before.
\<close>

theorem untracked_published_again:
  assumes "S \<noteq> 0" and "mq_active_transfer_session q = S" and "\<not> is_trackable_fragment sq" and "d \<noteq> []" and "waiting q = []"
    and "mq_connected q" and "\<And>n. 0 \<le> qe_publish e n"
  shows "chunks (length (mq_out q)) (process_fragment_publish e (snd (publish_fragment S sq src (Some d) (Some name) q))) =
    [fragment_chunk \<lparr>fr_session_id = S, fr_seq = sq, fr_src_node = src, fr_data = take MAX_MTU d, fr_filename = take 32 name\<rparr>]"
proof -
  let ?r = "\<lparr>fr_session_id = S, fr_seq = sq, fr_src_node = src, fr_data = take MAX_MTU d, fr_filename = take 32 name\<rparr>"
  have w: "mq_fragment_publish_queue q = []" "mq_pending_fragment q = None"
    using assms(5) by (auto simp: waiting_def split: option.splits)
  define q' where "q' = q\<lparr>mq_fragment_publish_queue := [?r]\<rparr>"
  have "snd (publish_fragment S sq src (Some d) (Some name) q) = q'"
    using assms(1-4) w by (simp add: publish_fragment_def Let_def bitmap_test_def bitmap_set_def q_send_def
        MQTT_FRAGMENT_QUEUE_DEPTH_def q'_def)
  moreover have "chunks (length (mq_out q)) (fragment_loop e q') = [fragment_chunk ?r]"
    using fragment_loop_accepts [OF assms(7), of "length (mq_out q)" q'] assms(1,2) w
    by (simp add: q'_def waiting_def current_def chunks_def)
  ultimately show ?thesis using assms(6) by (simp add: process_fragment_publish_def q'_def)
qed

text \<open>
  C22. While the broker is connected and esp-mqtt accepts every publication, one run of the publishing
  loop ends with nothing waiting, and it has published exactly the waiting fragments of the active
  session, once each and in order; fragments of other sessions are dropped.
\<close>

theorem publishing_drains_queue:
  assumes "mq_connected q" and "\<And>n. 0 \<le> qe_publish e n"
  shows "waiting (process_fragment_publish e q) = [] \<and>
    chunks (length (mq_out q)) (process_fragment_publish e q) = map fragment_chunk (filter (current q) (waiting q))"
  using fragment_loop_accepts [of e "length (mq_out q)" q] assms by (simp add: process_fragment_publish_def chunks_def)

definition ex_fragment :: "u16 \<Rightarrow> u16 \<Rightarrow> FragmentPublishRequest" where
  "ex_fragment sid sq = \<lparr>fr_session_id = sid, fr_seq = sq, fr_src_node = 3, fr_data = [1, 2], fr_filename = ''f''\<rparr>"

theorem publishing_drains_queue_witness:
  "let q = ex_mqtt\<lparr>mq_active_transfer_session := 5, mq_fragment_publish_queue := [ex_fragment 5 7, ex_fragment 4 9, ex_fragment 5 8]\<rparr>
   in waiting (process_fragment_publish ex_mqtt_env q) = [] \<and>
     chunks (length (mq_out q)) (process_fragment_publish ex_mqtt_env q) = map fragment_chunk [ex_fragment 5 7, ex_fragment 5 8]"
  using publishing_drains_queue [of "ex_mqtt\<lparr>mq_active_transfer_session := 5,
      mq_fragment_publish_queue := [ex_fragment 5 7, ex_fragment 4 9, ex_fragment 5 8]\<rparr>" ex_mqtt_env]
  by (simp add: ex_mqtt_def ex_mqtt_env_def MqttClient_new_def ex_fragment_def waiting_def current_def Let_def)

section \<open>Replay after a disconnect\<close>

text \<open>The ring entries that a disconnect at \<open>now\<close> reports as lost.\<close>

definition lost_entries :: "u32 \<Rightarrow> u16 \<Rightarrow> RecentPublishEntry list \<Rightarrow> CloudItem list" where
  "lost_entries now sid ring = map (\<lambda>en. (rp_session_id en, rp_seq en))
     (filter (\<lambda>en. rp_publish_ms en \<noteq> 0 \<and> rp_session_id en = sid \<and> \<not> RECENT_PUBLISH_REPLAY_MS < now - rp_publish_ms en) ring)"

lemma replay_entries:
  assumes "n \<le> length (mq_recent_publish_ring q)" and "length (mq_nack_queue q) \<le> MQTT_NACK_QUEUE_DEPTH"
  shows "mq_nack_queue (fold (replay_entry now sid) [k..<n] q) =
    mq_nack_queue q @ take (MQTT_NACK_QUEUE_DEPTH - length (mq_nack_queue q))
      (lost_entries now sid (drop k (take n (mq_recent_publish_ring q))))"
  using assms
proof (induction "n - k" arbitrary: k q)
  case 0
  then show ?case by (simp add: lost_entries_def)
next
  case (Suc m)
  let ?ring = "mq_recent_publish_ring q" and ?q' = "replay_entry now sid k q"
  let ?en = "?ring ! k"
  have k: "k < n" "k < length ?ring" using Suc by linarith+
  have ring: "mq_recent_publish_ring ?q' = ?ring \<or> mq_recent_publish_ring ?q' = ?ring[k := ?en\<lparr>rp_publish_ms := 0\<rparr>]"
    by (auto simp: replay_entry_def Let_def q_send_def)
  have d: "drop (Suc k) (take n (mq_recent_publish_ring ?q')) = drop (Suc k) (take n ?ring)"
    using ring by (auto simp: take_update_swap)
  have nack: "mq_nack_queue ?q' = mq_nack_queue q @ take (MQTT_NACK_QUEUE_DEPTH - length (mq_nack_queue q)) (lost_entries now sid [?en])"
    using Suc(4) by (auto simp: replay_entry_def Let_def q_send_def lost_entries_def)
  have "length (lost_entries now sid [?en]) \<le> 1" by (simp add: lost_entries_def)
  then have len: "length (mq_nack_queue ?q') \<le> MQTT_NACK_QUEUE_DEPTH" using nack Suc(4) by simp
  have "lost_entries now sid (drop k (take n ?ring)) = lost_entries now sid [?en] @ lost_entries now sid (drop (Suc k) (take n ?ring))"
    using k by (simp add: lost_entries_def Cons_nth_drop_Suc [symmetric])
  moreover have "mq_nack_queue (fold (replay_entry now sid) [Suc k..<n] ?q') = mq_nack_queue ?q' @
      take (MQTT_NACK_QUEUE_DEPTH - length (mq_nack_queue ?q')) (lost_entries now sid (drop (Suc k) (take n (mq_recent_publish_ring ?q'))))"
    using Suc(1) [of "Suc k" ?q'] Suc(2,3) ring len by auto
  moreover have "16 - (a + min l (16 - a)) = 16 - (a + l)" if "a \<le> 16" for a l :: nat using that by arith
  ultimately show ?case using k nack d Suc(4) by (simp add: upt_conv_Cons)
qed

text \<open>
  C30. A disconnect during a session reports the publications of the last 15 seconds as lost, in ring
  order, but only as far as the queue of 16 NACKs has room: of 64 recent publications at least 48 are
  not reported, and the client stays silent about them.
\<close>

theorem disconnect_replays:
  assumes "mq_active_transfer_session q \<noteq> 0" and "qe_mutex e" and "length (mq_recent_publish_ring q) = RECENT_PUBLISH_RING_SIZE"
    and "length (mq_nack_queue q) \<le> MQTT_NACK_QUEUE_DEPTH"
  shows "mq_nack_queue (on_mqtt_disconnected e q) = mq_nack_queue q @
    take (MQTT_NACK_QUEUE_DEPTH - length (mq_nack_queue q))
      (lost_entries (qe_now e) (mq_active_transfer_session q) (mq_recent_publish_ring q))"
  using replay_entries [of 64 "q\<lparr>mq_connected := False\<rparr>" "qe_now e" "mq_active_transfer_session q" 0] assms
  by (simp add: on_mqtt_disconnected_def Let_def)

definition ex_busy_mqtt :: MqttClient where
  "ex_busy_mqtt = ex_mqtt\<lparr>mq_active_transfer_session := 5,
     mq_recent_publish_ring := map (\<lambda>i. \<lparr>rp_session_id = 5, rp_seq = of_nat i, rp_publish_ms = 90\<rparr>) [0..<64]\<rparr>"

theorem disconnect_replays_witness:
  "mq_nack_queue (on_mqtt_disconnected ex_mqtt_env ex_busy_mqtt) = map (\<lambda>i. (5, of_nat i)) [0..<16]"
proof -
  have l: "lost_entries 100 5 (mq_recent_publish_ring ex_busy_mqtt) = map (\<lambda>i. (5, of_nat i)) [0..<64]"
    by (simp add: ex_busy_mqtt_def lost_entries_def filter_map comp_def)
  show ?thesis
    using disconnect_replays [of ex_busy_mqtt ex_mqtt_env] l
    by (simp add: ex_busy_mqtt_def ex_mqtt_def ex_mqtt_env_def MqttClient_new_def take_map)
qed

section \<open>Transfer NACKs of the cloud\<close>

text \<open>The message the cloud sends: a JSON document with the list of missing sequence numbers.\<close>

fun comma_join :: "string list \<Rightarrow> string" where
  "comma_join [] = []"
| "comma_join [s] = s"
| "comma_join (s # ss) = s @ '','' @ comma_join ss"

definition nack_message :: "u16 \<Rightarrow> u16 list \<Rightarrow> string" where
  "nack_message sid sqs = ''{'' @ json_field ''session_id'' (json_string (dec_str (unat sid))) @ '','' @
     json_field ''seqs'' (''['' @ comma_join (map (\<lambda>sq. dec_str (unat sq)) sqs) @ '']'') @ ''}''"

lemma dec_str_props:
  "list_all c_isdigit (dec_str n) \<and> dec_str n \<noteq> [] \<and> dec_val (dec_str n) = int n"
proof (induction n rule: dec_str.induct)
  case (1 n)
  have d: "(of_char (char_of (48 + k) :: char) :: nat) = 48 + k" if "k < 10" for k :: nat
    using that by (simp add: of_char_of)
  have i: "(of_char (char_of (48 + k) :: char) :: int) = 48 + int k" if "k < 10" for k :: nat
    using d [OF that] by (metis of_nat_of_char of_nat_add of_nat_numeral)
  show ?case
  proof (cases "n < 10")
    case True
    then show ?thesis by (simp add: dec_str.simps [of n] c_isdigit_def d i dec_val_def)
  next
    case False
    have "n mod 10 < 10" "n mod 10 \<le> 9" by simp_all
    moreover have "10 * int (n div 10) + int (n mod 10) = int n"
      by (metis mult_div_mod_eq of_nat_add of_nat_mult of_nat_numeral)
    ultimately show ?thesis using False 1
      by (simp add: dec_str.simps [of n] c_isdigit_def d i dec_val_def)
  qed
qed

lemma digit_other: "c_isdigit c \<Longrightarrow> \<not> c_isspace c \<and> c \<noteq> CHR ''-'' \<and> c \<noteq> CHR ''+'' \<and> c \<noteq> CHR '']'' \<and> c \<noteq> CHR 0x22"
  by (auto simp: c_isdigit_def c_isspace_def)

lemma strtol10_dec:
  assumes "n < 2 ^ 31" and "rest = [] \<or> \<not> c_isdigit (hd rest)"
  shows "strtol10 (dec_str n @ rest) = Some (int n, rest)"
proof -
  obtain d ds where ds: "dec_str n = d # ds" using dec_str_props [of n] by (cases "dec_str n") auto
  have dig: "list_all c_isdigit (dec_str n)" "dec_val (dec_str n) = int n" using dec_str_props by auto
  then have "c_isdigit d" using ds by simp
  then have "dropWhile c_isspace (dec_str n @ rest) = dec_str n @ rest" "d \<noteq> CHR ''-''" "d \<noteq> CHR ''+''"
    using digit_other ds by auto
  moreover have "takeWhile c_isdigit (dec_str n @ rest) = dec_str n" "dropWhile c_isdigit (dec_str n @ rest) = rest"
    using dig(1) assms(2) by (cases rest; auto simp: list_all_iff takeWhile_append dropWhile_append)+
  ultimately show ?thesis using ds dig(2) assms(1) by (simp add: strtol10_def Let_def)
qed

lemma u16_bound: "unat (w :: u16) \<le> 0xFFFF"
  using unat_u16_bound [of w] by linarith

lemma nack_seqs_number:
  assumes "n \<le> 0xFFFF" and "\<not> c_isdigit c"
  shows "nack_seqs (dec_str n @ c # rest) = of_nat n # nack_seqs (if c = CHR '','' then rest else c # rest)"
proof -
  obtain d ds where ds: "dec_str n = d # ds" using dec_str_props [of n] by (cases "dec_str n") auto
  then have "d \<noteq> CHR '']''" using dec_str_props [of n] digit_other by auto
  moreover have "strtol10 (d # (ds @ c # rest)) = Some (int n, c # rest)"
    using strtol10_dec [of n "c # rest"] assms ds by simp
  ultimately show ?thesis using ds assms(1) by (simp add: nack_seqs.simps(2))
qed

lemma nack_seqs_list: "nack_seqs (comma_join (map (\<lambda>sq. dec_str (unat sq)) sqs) @ '']'' @ rest) = sqs"
proof (induction sqs rule: induct_list012)
  case 1
  show ?case by (simp add: nack_seqs.simps)
next
  case (2 sq)
  from u16_bound [of sq] show ?case by (simp add: nack_seqs_number c_isdigit_def nack_seqs.simps(2) [of "CHR '']''"])
next
  case (3 sq sq' sqs)
  from u16_bound [of sq] show ?case using 3 by (simp add: nack_seqs_number c_isdigit_def)
qed

lemma strstr_skip: "list_all c_isdigit ds \<Longrightarrow> strstr (CHR 0x22 # pat) (ds @ s) = strstr (CHR 0x22 # pat) s"
  by (induction ds) (auto dest: digit_other)

lemma strstr_seqs:
  "strstr (json_string ''seqs'' @ '':['') (nack_message sid sqs) =
    Some (json_string ''seqs'' @ '':['' @ comma_join (map (\<lambda>sq. dec_str (unat sq)) sqs) @ '']}'')"
proof -
  obtain d ds where ds: "dec_str (unat sid) = d # ds" "c_isdigit d" "list_all c_isdigit ds"
    using dec_str_props [of "unat sid"] by (cases "dec_str (unat sid)") auto
  then have "d \<noteq> CHR ''s''" "d \<noteq> CHR 0x22" by (auto simp: c_isdigit_def)
  with ds show ?thesis by (simp add: nack_message_def json_field_def json_string_def strstr_skip)
qed

lemma push_nacks:
  assumes "length (mq_nack_queue q) \<le> MQTT_NACK_QUEUE_DEPTH"
  shows "mq_nack_queue (fold (push_nack sid) sqs q) =
    mq_nack_queue q @ take (MQTT_NACK_QUEUE_DEPTH - length (mq_nack_queue q)) (map (Pair sid) sqs)"
  using assms
proof (induction sqs arbitrary: q)
  case (Cons sq sqs)
  show ?case
  proof (cases "length (mq_nack_queue q) < 16")
    case True
    then obtain k where k: "16 - length (mq_nack_queue q) = Suc k" by (cases "16 - length (mq_nack_queue q)") auto
    then have "k = 15 - length (mq_nack_queue q)" by simp
    with k Cons.IH [of "push_nack sid sq q"] True show ?thesis by (simp add: push_nack_def q_send_def)
  next
    case False
    with Cons.IH [of "push_nack sid sq q"] Cons.prems show ?thesis by (simp add: push_nack_def q_send_def)
  qed
qed simp

lemma dec_str_length: "0 < k \<Longrightarrow> n < 10 ^ k \<Longrightarrow> length (dec_str n) \<le> k"
proof (induction n arbitrary: k rule: dec_str.induct)
  case (1 n)
  show ?case
  proof (cases "n < 10")
    case False
    then obtain j where j: "k = Suc j" "0 < j" using 1(2,3) by (cases k; cases "k - 1") auto
    then have "n div 10 < 10 ^ j" using 1(3) by (simp add: less_mult_imp_div_less mult.commute)
    with 1(1) [OF False j(2)] j(1) False show ?thesis by (simp add: dec_str.simps [of n])
  qed (use 1(2) in \<open>simp add: dec_str.simps [of n]\<close>)
qed

lemma dec_str_u16: "length (dec_str (unat (w :: u16))) \<le> 5"
  by (rule dec_str_length) (use u16_bound [of w] in simp_all)

lemma cstring_id: "length s \<le> n \<Longrightarrow> CHR 0x00 \<notin> set s \<Longrightarrow> cstring n s = s"
  by (simp add: cstring_def takeWhile_eq_all_conv) (metis)

lemma bytes_str_bytes [simp]: "bytes_str (str_bytes s) = s"
proof -
  have "char_of (unat (of_char c :: u8)) = c" for c :: char
  proof -
    have "(of_char c :: u8) = of_nat (of_char c)" by (simp only: of_nat_of_char)
    then have "unat (of_char c :: u8) = take_bit 8 (of_char c)" by (simp only: unat_of_nat) (simp add: take_bit_eq_mod)
    then show ?thesis by (simp add: take_bit_eq_mod)
  qed
  then show ?thesis by (simp add: bytes_str_def str_bytes_def map_idI)
qed

lemma dec_str_no_nul: "CHR 0x00 \<notin> set (dec_str n)"
  using dec_str_props [of n] by (auto simp: list_all_iff c_isdigit_def)

lemma comma_join_set: "set (comma_join ss) \<subseteq> \<Union> (set ` set ss) \<union> {CHR '',''}"
  by (induction ss rule: comma_join.induct) auto

lemma nack_message_no_nul: "CHR 0x00 \<notin> set (nack_message sid sqs)"
  using comma_join_set [of "map (\<lambda>sq. dec_str (unat sq)) sqs"] dec_str_no_nul
  by (auto simp: nack_message_def json_field_def json_string_def)

lemma topic_session_dec: "topic_session (dec_str (unat sid)) = Some sid"
proof -
  have "int (unat sid) \<le> 0xFFFF" using u16_bound [of sid] by linarith
  then show ?thesis using strtol10_dec [of "unat sid" "[]"] u16_bound [of sid] by (simp add: topic_session_def)
qed

text \<open>
  A transfer NACK of the cloud for the active session is understood: every sequence number of the
  list is queued for retransmission, in order, as long as the queue of 16 has room; what does not
  fit is dropped.
\<close>

theorem transfer_nack_understood:
  assumes "mq_active_transfer_session q = sid" and "sid \<noteq> 0" and "length (nack_message sid sqs) \<le> 511"
    and "length (mq_nack_queue q) \<le> MQTT_NACK_QUEUE_DEPTH"
  shows "mq_nack_queue (on_mqtt_data (''flp/admin/transfer_nack/'' @ dec_str (unat sid)) (Some (str_bytes (nack_message sid sqs))) q) =
    mq_nack_queue q @ take (MQTT_NACK_QUEUE_DEPTH - length (mq_nack_queue q)) (map (Pair sid) sqs)"
proof -
  let ?topic = "''flp/admin/transfer_nack/'' @ dec_str (unat sid)" and ?msg = "nack_message sid sqs"
  have t: "cstring 127 ?topic = ?topic"
    by (rule cstring_id) (use dec_str_u16 [of sid] dec_str_no_nul [of "unat sid"] in auto)
  have m: "cstring 511 ?msg = ?msg" by (rule cstring_id [OF assms(3) nack_message_no_nul])
  have "str_bytes ?msg \<noteq> []" by (simp add: nack_message_def str_bytes_def)
  then have "on_mqtt_data ?topic (Some (str_bytes ?msg)) q =
      for_active_session (dec_str (unat sid)) (\<lambda>sid. on_transfer_nack sid ?msg) q"
    using t m by (simp add: on_mqtt_data_def Let_def is_prefix_def)
  also have "\<dots> = on_transfer_nack sid ?msg q" using assms(1,2) by (simp add: for_active_session_def topic_session_dec)
  also have "\<dots> = fold (push_nack sid) sqs q"
    using nack_seqs_list [of sqs "''}''"] by (simp add: on_transfer_nack_def strstr_seqs) (simp add: json_string_def)
  finally show ?thesis using push_nacks [OF assms(4), of sid sqs] by simp
qed

theorem transfer_nack_understood_witness:
  "mq_nack_queue (on_mqtt_data (''flp/admin/transfer_nack/'' @ dec_str 5) (Some (str_bytes (nack_message 5 [12, 65535]))) ex_busy_mqtt) =
    [(5, 12), (5, 65535)]"
proof -
  have "length (comma_join [dec_str 12, dec_str 65535]) \<le> 11" "length (dec_str 5) \<le> 5"
    using dec_str_u16 [of 12] dec_str_u16 [of 65535] dec_str_u16 [of 5] by simp_all
  then have "length (nack_message 5 [12, 65535]) \<le> 511" by (simp add: nack_message_def json_field_def json_string_def)
  from transfer_nack_understood [of ex_busy_mqtt 5, OF _ _ this] show ?thesis
    by (simp add: ex_busy_mqtt_def ex_mqtt_def MqttClient_new_def)
qed

end
