(* ===== verification/Transfer_Hazards.thy ===== *)
theory Transfer_Hazards
  imports Transfer_Invariant Mqtt_Custody
begin

text \<open>
  Behaviours of the transfer engine at the edges of its design: a source waiting for the final
  confirmation, timers after long uptimes, files with too many fragments, answers that are not
  matched to their session, and a transfer started by a node that has offered itself as exit.
\<close>

unbundle bit_operations_syntax

section \<open>Waiting for the confirmation\<close>

text \<open>
  The source has fed every fragment and every fragment was acknowledged; it waits for
  \<open>TRANSFER_DONE\<close>. No ARQ instance has anything in flight.
\<close>

definition arq_idle :: "SelectiveRepeat \<Rightarrow> bool" where
  "arq_idle a \<longleftrightarrow> sr_in_flight a = 0 \<and> \<not> sr_sender_failed a \<and>
     (case sr_window a of None \<Rightarrow> True | Some win \<Rightarrow> unat (sr_window_size a) \<le> length win \<and> list_all (\<lambda>s. \<not> fs_sent s) win)"

definition awaiting_done :: "TransferEngine \<Rightarrow> bool" where
  "awaiting_done t \<longleftrightarrow> at_active (te_transfer t) \<and> \<not> te_local_exit t \<and> te_mesh_upload_done t \<and> \<not> te_election_active t \<and>
     \<not> te_is_exit_node t \<and> \<not> te_exit_pending t \<and> te_last_cloud_activity_ms t = 0 \<and> \<not> br_active (te_broadcast_retry t) \<and>
     alive_exits t \<noteq> [] \<and> at_exit_node_count (te_transfer t) \<le> length (te_arq t) \<and> list_all arq_idle (te_arq t) \<and> te_oow_retx t = []"

lemma tick_loop_idle:
  assumes "\<forall>i \<in> set idxs. \<not> fs_sent (the (sr_window a) ! i)"
  shows "tick_loop cb now mx idxs n a w = (n, a, w)"
  using assms by (induction idxs arbitrary: n) simp_all

lemma tick_idle: "arq_idle a \<Longrightarrow> tick cb now mx a w = (0, a, w)"
  by (auto simp: arq_idle_def tick_def list_all_length intro!: tick_loop_idle split: option.splits)

lemma put_same_arq: "i < length (te_arq (eng w)) \<Longrightarrow> put_arq i (te_arq (eng w) ! i) w = w"
  by (cases w; cases "fst w") (simp add: put_arq_def upd_te_def)

lemma arq_tick_idle:
  assumes "list_all arq_idle (te_arq (eng w))" and "i < length (te_arq (eng w))"
  shows "arq_tick e i b w = (0, w)"
proof -
  have "arq_idle (te_arq (eng w) ! i)" using assms by (simp add: list_all_length)
  then show ?thesis using put_same_arq [OF assms(2)] by (simp add: arq_tick_def tick_idle)
qed

lemma tick_exits_idle:
  assumes "list_all arq_idle (te_arq (eng w))" and "\<forall>i \<in> set is. i < length (te_arq (eng w))"
  shows "tick_exits e is b w = w"
  using assms(2) by (induction "is" arbitrary: b) (simp_all add: arq_tick_idle [OF assms(1)])

lemma awaiting_tick:
  assumes "awaiting_done (eng w)"
  shows "engine_tick x e w = (if te_congestion_backoff_ticks (eng w) = 0 then w
     else upd_te (\<lambda>t. t\<lparr>te_congestion_backoff_ticks := te_congestion_backoff_ticks t - 1\<rparr>) w)"
proof -
  note a = assms [unfolded awaiting_done_def]
  let ?t = "eng w"
  have "\<forall>i \<in> set [0..<at_exit_node_count (xfer w)]. i < length (te_arq ?t)" using a by simp
  then have 1: "tick_arqs e w = w" using a tick_exits_idle [of w "[0..<at_exit_node_count (xfer w)]"] by (simp add: tick_arqs_def)
  have id: "\<forall>i < at_exit_node_count (xfer w). arq_idle (te_arq ?t ! i)" using a by (simp add: list_all_length)
  have 2: "\<not> arq_failed ?t" using a by (auto simp: arq_failed_def list_ex_length list_all_length arq_idle_def)
  have 3: "republish_meta x e w = w" "stall_check e w = (True, w)" using a by (simp_all add: republish_meta_def stall_check_def Let_def)
  have 4: "exit_nacks e w = w" "exit_acks e w = w" "exit_complete e w = w" "broadcast_retry_tick e w = w" "election_timeout_tick x e w = w"
    using a by (simp_all add: exit_nacks_def exit_acks_def exit_complete_def broadcast_retry_tick_def election_timeout_tick_def Let_def)
  have "fold (health_check e) is w = w" if "set is \<subseteq> {0..<at_exit_node_count (xfer w)}" for "is"
    using that by (induction "is") (use id in \<open>auto simp: health_check_def arq_idle_def\<close>)
  then have 5: "exit_node_health_tick e w = w" by (simp add: exit_node_health_tick_def)
  have "alive_exits ?t \<noteq> []" using a by simp
  moreover have "alive_exits ?t = []" if "at_exit_node_count (xfer w) = 0" using that by (simp add: alive_exits_def)
  ultimately have 6: "tick_mesh_arq x e w = w"
    using a by (auto simp: tick_mesh_arq_def oow_phase_def oow_plan_def Let_def)
  show ?thesis
    using a by (simp add: engine_tick_def 1 2 3 4 5 transfer_tick_def 6 word_gt_0)
qed

lemma awaiting_congestion: "awaiting_done t \<Longrightarrow> awaiting_done (t\<lparr>te_congestion_backoff_ticks := c\<rparr>)"
  by (simp add: awaiting_done_def alive_exits_def)

lemma awaiting_ticks:
  "awaiting_done (eng w) \<Longrightarrow> awaiting_done (eng (fold (\<lambda>(x, e). engine_tick x e) evs w)) \<and>
     te_redist_pending (eng (fold (\<lambda>(x, e). engine_tick x e) evs w)) = te_redist_pending (eng w) \<and>
     mm_out (snd (fold (\<lambda>(x, e). engine_tick x e) evs w)) = mm_out (snd w)"
proof (induction evs arbitrary: w)
  case (Cons ev evs)
  obtain x e where ev: "ev = (x, e)" by fastforce
  have "awaiting_done (eng (engine_tick x e w))" "te_redist_pending (eng (engine_tick x e w)) = te_redist_pending (eng w)"
    "snd (engine_tick x e w) = snd w"
    using Cons.prems awaiting_congestion by (simp_all add: awaiting_tick)
  then show ?case using Cons.IH [of "engine_tick x e w"] by (simp add: ev)
qed simp

text \<open>
  C31. A source that has uploaded everything and does not hear from an exit waits for ever: no number of
  ticks, however late the clock, ends the transfer, and nothing is sent meanwhile. In particular
  fragments still queued for redistribution stay queued. (The post-upload stall check reads a clock
  that only the exit role and the local exit ever start.)
\<close>

theorem waits_for_done_forever:
  assumes "awaiting_done (eng w)"
  shows "at_active (xfer (fold (\<lambda>(x, e). engine_tick x e) evs w)) \<and>
    te_redist_pending (eng (fold (\<lambda>(x, e). engine_tick x e) evs w)) = te_redist_pending (eng w) \<and>
    mm_out (snd (fold (\<lambda>(x, e). engine_tick x e) evs w)) = mm_out (snd w)"
  using awaiting_ticks [OF assms, of evs] by (simp add: awaiting_done_def)


definition ex_uploaded :: Node where
  "ex_uploaded = upd_te (\<lambda>t. t\<lparr>te_transfer := ActiveTransfer_new\<lparr>at_active := True, at_exit_node_count := 1, at_exit_nodes := [9, 0, 0, 0]\<rparr>,
     te_local_exit := False, te_mesh_upload_done := True, te_election_active := False, te_is_exit_node := False, te_exit_pending := False,
     te_last_cloud_activity_ms := 0, te_broadcast_retry := BroadcastRetry_new, te_arq := replicate 4 SelectiveRepeat_new,
     te_oow_retx := [], te_redist_pending := [3]\<rparr>) ex_node"

theorem waits_for_done_forever_witness:
  "at_active (xfer (fold (\<lambda>(x, e). engine_tick x e) (replicate 1000 (ex_engine_env, ex_mesh_env\<lparr>me_now := 0xFFFFFFF0\<rparr>)) ex_uploaded)) \<and>
   te_redist_pending (eng (fold (\<lambda>(x, e). engine_tick x e) (replicate 1000 (ex_engine_env, ex_mesh_env\<lparr>me_now := 0xFFFFFFF0\<rparr>)) ex_uploaded)) = [3]"
proof -
  have "awaiting_done (eng ex_uploaded)"
    by (simp add: ex_uploaded_def awaiting_done_def ActiveTransfer_new_def BroadcastRetry_new_def alive_exits_def arq_idle_def
        SelectiveRepeat_new_def list_all_iff)
  moreover have "te_redist_pending (eng ex_uploaded) = [3]" by (simp add: ex_uploaded_def)
  ultimately show ?thesis
    using waits_for_done_forever [of ex_uploaded "replicate 1000 (ex_engine_env, ex_mesh_env\<lparr>me_now := 0xFFFFFFF0\<rparr>)"] by metis
qed

section \<open>The broadcast timer\<close>

lemma sint_neg_iff: "sint (x :: u32) < 0 \<longleftrightarrow> 2 ^ 31 \<le> unat x"
proof -
  have "sint x < 0 \<longleftrightarrow> bit x 31" using bit_last_iff [of x] by simp
  also have "\<dots> \<longleftrightarrow> odd (unat x div 2 ^ 31)" using bit_unsigned_iff [of x 31, where 'a = nat] by (simp add: bit_iff_odd)
  also have "\<dots> \<longleftrightarrow> 2 ^ 31 \<le> unat x"
  proof -
    have "unat x < 2 ^ 31 * 2" using unat_u32_bound [of x] by simp
    then have "unat x div 2 ^ 31 < 2" by (simp add: less_mult_imp_div_less)
    then have "unat x div 2 ^ 31 = 0 \<or> unat x div 2 ^ 31 = 1" by linarith
    then show ?thesis by (auto simp: div_eq_0_iff)
  qed
  finally show ?thesis .
qed

text \<open>
  A broadcast with retries is first sent on the next tick, provided the node has been up for less
  than \<open>2 ^ 31\<close> milliseconds: the first due time is 0 and compared as a signed difference. From then
  on, and until the clock wraps, the advertisement of a transfer is never transmitted.
\<close>

theorem broadcast_first_attempt:
  fixes w :: Node
  assumes "length payload \<le> MAX_MTU"
  shows "let w1 = upd_te (send_broadcast_with_retry type payload dst n) w in if unat (me_now e) < 2 ^ 31
    then br_attempt (te_broadcast_retry (eng (broadcast_retry_tick e w1))) = 1 \<and>
      snd (broadcast_retry_tick e w1) = snd (snd (engine_send e dst type payload 0 w1))
    else broadcast_retry_tick e w1 = w1"
proof -
  let ?w1 = "upd_te (send_broadcast_with_retry type payload dst n) w"
  have br: "te_broadcast_retry (eng ?w1) = \<lparr>br_payload = payload, br_type = type, br_dst_addr = dst, br_max_retries = n,
       br_attempt = 0, br_next_send_ms = 0, br_backoff_ms = BROADCAST_INITIAL_BACKOFF_MS, br_active = True\<rparr>"
    using assms(1) by (simp add: send_broadcast_with_retry_def)
  show ?thesis
    using br by (simp add: broadcast_retry_tick_def Let_def sint_neg_iff not_le)
qed

theorem broadcast_first_attempt_witness:
  "\<exists>w. broadcast_retry_tick (ex_mesh_env\<lparr>me_now := 0x80000000\<rparr>) w = w \<and> br_active (te_broadcast_retry (eng w)) \<and>
     br_attempt (te_broadcast_retry (eng w)) = 0"
proof -
  let ?w = "upd_te (send_broadcast_with_retry TRANSFER_AD [1, 2] EXIT_ANY_ADDR 3) ex_node"
  have "broadcast_retry_tick (ex_mesh_env\<lparr>me_now := 0x80000000\<rparr>) ?w = ?w"
    using broadcast_first_attempt [of "[1, 2]" TRANSFER_AD EXIT_ANY_ADDR 3 ex_node "ex_mesh_env\<lparr>me_now := 0x80000000\<rparr>"] by (simp add: Let_def)
  moreover have "br_active (te_broadcast_retry (eng ?w))" "br_attempt (te_broadcast_retry (eng ?w)) = 0"
    by (simp_all add: send_broadcast_with_retry_def)
  ultimately show ?thesis by blast
qed

section \<open>Data of another source\<close>

text \<open>An exit of a session that has not yet seen fragment \<open>sq\<close> and has room for it.\<close>

definition exit_ready :: "u16 \<Rightarrow> Node \<Rightarrow> bool" where
  "exit_ready sq w \<longleftrightarrow> te_is_exit_node (eng w) \<and> mm_mqtt_client (snd w) \<and> is_trackable_fragment sq \<and>
     mq_active_transfer_session (mqc w) = te_active_session_id (eng w) \<and> length (mq_fragment_queued (mqc w)) = FRAGMENT_BITMAP_BYTES \<and>
     \<not> bitmap_test (mq_fragment_accepted (mqc w)) sq \<and> \<not> bitmap_test (mq_fragment_queued (mqc w)) sq \<and>
     length (mq_fragment_publish_queue (mqc w)) < MQTT_FRAGMENT_QUEUE_DEPTH"

text \<open>
  C32. An exit does not look at the sender of a data packet. A fragment from any node is queued under the
  session and the source that the exit serves, and the fragment of the same number that the source
  itself sends afterwards is taken for a duplicate: its contents are never published.
\<close>

theorem foreign_fragment_displaces:
  assumes "exit_ready (seq_num hdr) w" and "foreign \<noteq> []" and "genuine \<noteq> []" and "seq_num hdr' = seq_num hdr"
  shows "mq_fragment_publish_queue (mqc (handle_data x e' hdr' genuine (handle_data x e hdr foreign w))) =
    mq_fragment_publish_queue (mqc w) @
      [\<lparr>fr_session_id = te_active_session_id (eng w), fr_seq = seq_num hdr, fr_src_node = te_source_addr (eng w),
        fr_data = take MAX_MTU foreign, fr_filename = take 32 (at_filename (xfer w))\<rparr>]"
proof -
  note r = assms(1) [unfolded exit_ready_def]
  let ?q = "(mqc w)\<lparr>mq_fragment_publish_queue := mq_fragment_publish_queue (mqc w) @
      [\<lparr>fr_session_id = te_active_session_id (eng w), fr_seq = seq_num hdr, fr_src_node = te_source_addr (eng w),
        fr_data = take MAX_MTU foreign, fr_filename = take 32 (at_filename (xfer w))\<rparr>],
      mq_fragment_queued := bitmap_set (mq_fragment_queued (mqc w)) (seq_num hdr)\<rparr>"
  let ?w1 = "upd_te (\<lambda>t. t\<lparr>te_last_cloud_activity_ms := me_now e\<rparr>) (upd_mq (\<lambda>_. ?q) w)"
  have 1: "handle_data x e hdr foreign w = ?w1"
    using r assms(2)
    by (simp add: handle_data_def activate_exit_def forward_to_mqtt_def publish_fragment_def q_send_def Let_def)
  have t: "bitmap_test (mq_fragment_queued (mqc ?w1)) (seq_num hdr)" "\<not> bitmap_test (mq_fragment_accepted (mqc ?w1)) (seq_num hdr)"
    using r bitmap_set_test by (simp_all add: is_trackable_fragment_def)
  have "mqc (handle_data x e' hdr' genuine ?w1) = ?q"
    using r t assms(3,4)
    by (simp add: handle_data_def activate_exit_def forward_to_mqtt_def publish_fragment_def q_send_def Let_def)
  then show ?thesis by (simp add: 1)
qed


definition ex_exit_node :: Node where
  "ex_exit_node = ((\<lambda>((t, q), m). ((t\<lparr>te_is_exit_node := True, te_active_session_id := 5, te_source_addr := 3,
       te_transfer := (te_transfer t)\<lparr>at_filename := ''a.jpg''\<rparr>\<rparr>, (MqttClient_new 7)\<lparr>mq_active_transfer_session := 5\<rparr>),
       m\<lparr>mm_mqtt_client := True\<rparr>)) ex_node)"

theorem foreign_fragment_displaces_witness:
  "mq_fragment_publish_queue (mqc (handle_data ex_engine_env ex_mesh_env \<lparr>ver_type = 0, src_addr = 3, dst_addr = 7, ttl_hops = 0, seq_num = 1\<rparr> [1, 2, 3]
     (handle_data ex_engine_env ex_mesh_env \<lparr>ver_type = 0, src_addr = 4, dst_addr = 7, ttl_hops = 0, seq_num = 1\<rparr> [9] ex_exit_node))) =
   [\<lparr>fr_session_id = 5, fr_seq = 1, fr_src_node = 3, fr_data = [9], fr_filename = ''a.jpg''\<rparr>]"
proof -
  have f: "te_is_exit_node (eng ex_exit_node)" "mm_mqtt_client (snd ex_exit_node)" "te_active_session_id (eng ex_exit_node) = 5"
    "te_source_addr (eng ex_exit_node) = 3" "at_filename (xfer ex_exit_node) = ''a.jpg''"
    "mqc ex_exit_node = (MqttClient_new 7)\<lparr>mq_active_transfer_session := 5\<rparr>"
    by (simp_all add: ex_exit_node_def case_prod_unfold)
  have q: "mq_fragment_publish_queue (MqttClient_new 7) = []" "mq_fragment_queued (MqttClient_new 7) = zero_bitmap"
    "mq_fragment_accepted (MqttClient_new 7) = zero_bitmap"
    unfolding MqttClient_new_def by (simp_all only: MqttClient.simps)
  have "exit_ready 1 ex_exit_node"
    using f q by (simp add: exit_ready_def is_trackable_fragment_def MQTT_FRAGMENT_QUEUE_DEPTH_def)
  then show ?thesis
    using foreign_fragment_displaces [of "\<lparr>ver_type = 0, src_addr = 4, dst_addr = 7, ttl_hops = 0, seq_num = 1\<rparr>" ex_exit_node "[9]" "[1, 2, 3]"
        "\<lparr>ver_type = 0, src_addr = 3, dst_addr = 7, ttl_hops = 0, seq_num = 1\<rparr>" ex_engine_env ex_mesh_env ex_mesh_env] f q
    by simp
qed

section \<open>Too many fragments\<close>

text \<open>
  What \<open>start_file_transfer\<close> makes of a file on the mesh path. The number of data fragments and the number
  of sequence numbers are both reduced modulo \<open>2 ^ 16\<close> before the test against 60000. The count is
  right for files of up to 52500 fragments; beyond 57343 fragments it wraps, and such files are
  accepted with a count that covers only a part of them.
\<close>

theorem start_mesh_fragment_count:
  assumes "\<not> at_active (xfer w)" and "\<not> te_is_exit_node (eng w)" and "\<not> (has_internet \<and> has_mqtt)"
    and "sz < 2 ^ 32 - DEFAULT_TRANSFER_FRAGMENT_SIZE"
    and "n = (sz + DEFAULT_TRANSFER_FRAGMENT_SIZE - 1) div DEFAULT_TRANSFER_FRAGMENT_SIZE"
    and "c = (n mod 2 ^ 16 div 7 * 8 + n mod 2 ^ 16 mod 7) mod 2 ^ 16"
    and "start_file_transfer x e filename sz read_chunk has_internet has_mqtt hops w = (ok, w')"
  shows "(ok \<longleftrightarrow> c \<le> 60000) \<and> unat (at_fragment_count (xfer w')) = c \<and> at_active (xfer w') = ok \<and>
    (n \<le> 52500 \<longrightarrow> ok \<and> c = n + n div 7) \<and> (57344 \<le> n \<longrightarrow> c < n)"
proof -
  let ?n = "of_nat n :: u16"
  have sz: "(sz + DEFAULT_TRANSFER_FRAGMENT_SIZE - 1) mod 2 ^ 32 = sz + DEFAULT_TRANSFER_FRAGMENT_SIZE - 1" using assms(4) by simp
  have cn: "unat (mesh_fragment_count ?n) = c"
    by (simp add: mesh_fragment_count_def unat_word_ariths unat_div unat_mod unat_of_nat assms(6) mod_simps)
  have "ok = (\<not> 60000 < mesh_fragment_count ?n) \<and> at_fragment_count (xfer w') = mesh_fragment_count ?n \<and> at_active (xfer w') = ok"
    using assms(1-3,7) unfolding start_file_transfer_def Let_def sz assms(5) [symmetric]
    by (auto simp: start_mesh_def Let_def upd_te_def upd_at_def deactivate_def send_broadcast_with_retry_def begin_transfer_def split: if_splits)
  moreover have "(60000 < mesh_fragment_count ?n) = (60000 < c)" using cn by (simp add: word_less_nat_alt)
  moreover have "c = n + n div 7" "c \<le> 60000" if "n \<le> 52500"
  proof -
    have m: "n mod 2 ^ 16 = n" using that by simp
    have e: "n div 7 * 8 + n mod 7 = n + n div 7" using div_mult_mod_eq [of n 7] by linarith
    have l: "n + n div 7 \<le> 60000" using that by linarith
    have "c = (n + n div 7) mod 2 ^ 16" unfolding assms(6) m e ..
    with l show "c = n + n div 7" "c \<le> 60000" by simp_all
  qed
  moreover have "c < n" if "57344 \<le> n"
  proof (cases "n < 65536")
    case True
    have e: "n div 7 * 8 + n mod 7 = n + n div 7" using div_mult_mod_eq [of n 7] by linarith
    have b: "65536 \<le> n + n div 7" using that by linarith
    have l: "n + n div 7 < n + 65536" using True by linarith
    have "c = (n + n div 7) mod 2 ^ 16" using assms(6) True by (simp add: e)
    also have "\<dots> \<le> n + n div 7 - 65536" using b by (simp add: le_mod_geq)
    also have "\<dots> < n" using b l by linarith
    finally show ?thesis .
  next
    case False
    have "c < 65536" using assms(6) by simp
    with False show ?thesis by linarith
  qed
  ultimately show ?thesis using cn by (auto simp: not_less)
qed


definition ex_idle :: Node where
  "ex_idle = upd_te (\<lambda>t. t\<lparr>te_transfer := (te_transfer t)\<lparr>at_active := False\<rparr>, te_is_exit_node := False\<rparr>) ex_node"

theorem start_mesh_fragment_count_witness:
  "\<exists>ok w'. start_file_transfer ex_engine_env ex_mesh_env ''f'' (57344 * DEFAULT_TRANSFER_FRAGMENT_SIZE) (\<lambda>_ _. []) False False 1 ex_idle = (ok, w') \<and>
     ok \<and> at_fragment_count (xfer w') = 0"
proof -
  obtain ok w' where s: "start_file_transfer ex_engine_env ex_mesh_env ''f'' (57344 * DEFAULT_TRANSFER_FRAGMENT_SIZE) (\<lambda>_ _. []) False False 1 ex_idle = (ok, w')"
    by (meson surj_pair)
  have "\<not> at_active (xfer ex_idle)" "\<not> te_is_exit_node (eng ex_idle)"
    by (simp_all add: ex_idle_def)
  from start_mesh_fragment_count [OF this _ _ _ _ s, of 57344 0] have "ok" "unat (at_fragment_count (xfer w')) = 0" by simp_all
  then show ?thesis using s by (auto simp: unat_eq_0)
qed


section \<open>A transfer started by a pending exit\<close>

lemma drain_loop_keeps:
  assumes "P w" and "\<And>w. P w \<Longrightarrow> P (snd (drain w))" and "\<And>sq w. P w \<Longrightarrow> P (snd (body sq w))"
  shows "P (drain_loop n drain body w)"
  using assms(1)
proof (induction n arbitrary: w)
  case (Suc n)
  obtain r w1 where d: "drain w = (r, w1)" by (meson surj_pair)
  have p1: "P w1" using assms(2) [OF Suc.prems] d by simp
  show ?case
  proof (cases r)
    case (Some sq)
    obtain b w2 where b: "body sq w1 = (b, w2)" by (meson surj_pair)
    with assms(3) [OF p1, of sq] have "P w2" by simp
    then show ?thesis using Suc.IH by (cases b) (simp_all add: d Some b)
  qed (simp add: d p1)
qed simp

lemma tick_local_nothing_to_send:
  assumes "at_fragment_count (xfer w) = 0"
  shows "te_events (eng (tick_local_exit_arq e w)) = te_events (eng w) @ [FLP_EVT_TRANSFER_COMPLETE] \<and>
    \<not> at_active (xfer (tick_local_exit_arq e w))"
proof -
  let ?P = "\<lambda>v :: Node. at_fragment_count (xfer v) = 0 \<and> te_events (eng v) = te_events (eng w)"
  define sid where "sid = at_session_id (xfer w)"
  define w1 where "w1 = drain_loop (Suc (length (mq_ack_queue (mqc w)))) (drain_via drain_cloud_ack sid) (on_cloud_ack_seq e) w"
  define w2 where "w2 = upd_te (\<lambda>t. t\<lparr>te_cloud_base_seq := of_nat (cloud_advance (te_cloud_ack_bitmap t)
                (unat (at_fragment_count (te_transfer t))) (unat (te_cloud_base_seq t)))\<rparr>) w1"
  define w3 where "w3 = drain_loop (Suc (length (mq_nack_queue (mqc w2)))) (drain_via drain_cloud_nack sid) on_cloud_nack_seq w2"
  define nw where "nw = retx_loop (te_cloud_retx_queue (eng w3)) 0 w3"
  define w5 where "w5 = upd_te (compact_retx_queue (fst nw)) (snd nw)"
  define w6 where "w6 = new_local_loop (CLOUD_WINDOW_SIZE - fst nw) (te_cloud_base_seq (eng w5) + of_nat CLOUD_WINDOW_SIZE) w5"
  have 1: "?P w1" unfolding w1_def by (rule drain_loop_keeps [where P = ?P]) (use assms in \<open>auto simp: on_cloud_ack_seq_def\<close>)
  then have 2: "?P w2" by (simp add: w2_def)
  have 3: "?P w3" unfolding w3_def by (rule drain_loop_keeps [where P = ?P]) (use 2 in \<open>auto simp: on_cloud_nack_seq_def\<close>)
  have 5: "?P w5" using 3 retx_loop_eng [of "te_cloud_retx_queue (eng w3)" 0 w3] by (simp add: w5_def nw_def compact_retx_queue_def)
  then have "w6 = w5" unfolding w6_def by (cases "CLOUD_WINDOW_SIZE - fst nw") (simp_all add: Let_def)
  with 5 have 6: "?P w6" by simp
  have "tick_local_exit_arq e w = (if at_fragment_count (xfer w6) \<le> te_cloud_base_seq (eng w6)
      then reset_sender_transfer_state True w6 else w6)"
    unfolding tick_local_exit_arq_def Let_def case_prod_unfold w6_def w5_def nw_def w3_def w2_def w1_def sid_def by (rule refl)
  then show ?thesis using 6 by (simp add: reset_sender_transfer_state_def sender_reset_def ActiveTransfer_new_def Let_def)
qed

text \<open>A node in both roles: it serves an exit session and sends a file of its own over its own uplink.\<close>

definition serves_and_sends :: "Node \<Rightarrow> bool" where
  "serves_and_sends w \<longleftrightarrow> te_is_exit_node (eng w) \<and> at_active (xfer w) \<and> te_local_exit (eng w) \<and> \<not> te_election_active (eng w) \<and>
     at_exit_node_count (xfer w) = 0 \<and> \<not> br_active (te_broadcast_retry (eng w))"

text \<open>The part of a node that the steps of a tick before the completion check leave alone.\<close>

definition tick_view :: "Node \<Rightarrow> ActiveTransfer \<times> bool \<times> bool \<times> bool \<times> u16 \<times> engine_event list \<times> BroadcastRetry \<times> u16 list \<times> bool" where
  "tick_view w = (xfer w, te_is_exit_node (eng w), te_local_exit (eng w), te_election_active (eng w), te_active_session_id (eng w),
     te_events (eng w), te_broadcast_retry (eng w), mq_transfer_complete_queue (mqc w), mm_mqtt_client (snd w))"

definition tick_keeps :: "Node \<Rightarrow> Node \<Rightarrow> bool" where
  "tick_keeps w w' \<longleftrightarrow> tick_view w' = tick_view w \<and> te_last_cloud_activity_ms (eng w') = te_last_cloud_activity_ms (eng w) \<and>
     te_last_meta_publish_ms (eng w') = te_last_meta_publish_ms (eng w)"

lemma tick_keeps_view: "tick_keeps w w' \<Longrightarrow> tick_view w' = tick_view w"
  by (simp add: tick_keeps_def)

lemma engine_send_keeps: "tick_keeps w (snd (engine_send e dst ty d sq w))"
proof -
  have "mm_mqtt_client (snd (send_packet e dst ty d sq' m)) = mm_mqtt_client m" for sq' m
  proof -
    obtain rc m' where s: "send_packet e dst ty d sq' m = (rc, m')" by fastforce
    from send_packet_sent [OF s] show ?thesis using s sent_fields(3) by auto
  qed
  then have "mm_mqtt_client (snd (snd (engine_send e dst ty d sq w))) = mm_mqtt_client (snd w)"
    by (simp add: engine_send_def Let_def case_prod_unfold)
  then show ?thesis using engine_send_cong [of w e dst ty d sq] by (auto simp: cong_def tick_keeps_def tick_view_def)
qed

lemma arq_tick_keeps: "tick_keeps w (snd (arq_tick e i b w))"
proof -
  have "cb_within tick_keeps (arq_cb e)"
    using engine_send_keeps by (auto simp: cb_within_def tick_keeps_def arq_cb_def call_cb_def)
  from tick_within [OF this, of w "me_now e" b "te_arq (eng w) ! i"] show ?thesis
    by (simp add: arq_tick_def case_prod_unfold Let_def put_arq_def tick_keeps_def tick_view_def)
qed

lemma tick_arqs_keeps:
  assumes "te_local_exit (eng w)"
  shows "tick_keeps w (tick_arqs e w)"
proof -
  have "tick_keeps w (fold (\<lambda>i w. snd (arq_tick e i 8 w)) is w)" for "is" w
  proof (induction "is" arbitrary: w)
    case (Cons i "is")
    then show ?case using arq_tick_keeps [of w e i 8] by (simp add: tick_keeps_def)
  qed (simp add: tick_keeps_def)
  then show ?thesis using assms by (simp add: tick_arqs_def)
qed

lemma tick_view_nacks: "tick_view (exit_nacks e w) = tick_view w"
proof -
  have step: "tick_view (snd (forward_nack e sq w)) = tick_view w" for sq w
  proof -
    let ?w1 = "with_mqtt (mark_fragment_for_republish (te_active_session_id (eng w)) sq) w"
    obtain rc w2 where s: "engine_send e (te_source_addr (eng ?w1)) NACK [] sq ?w1 = (rc, w2)" by (meson surj_pair)
    have c: "tick_view w2 = tick_view ?w1"
      using engine_send_keeps [of ?w1 e "te_source_addr (eng ?w1)" NACK "[]" sq] s by (simp add: tick_keeps_def)
    have 1: "tick_view ?w1 = tick_view w" by (simp add: tick_view_def with_mqtt_def mark_fragment_for_republish_def)
    have 2: "tick_view (with_mqtt (\<lambda>q. snd (requeue_cloud_nack sid sq q)) w2) = tick_view w2" for sid
      by (simp add: tick_view_def with_mqtt_def requeue_cloud_nack_def case_prod_unfold Let_def)
    have 3: "tick_view (upd_te (\<lambda>t. t\<lparr>te_last_cloud_activity_ms := me_now e\<rparr>) w2) = tick_view w2" by (simp add: tick_view_def)
    show ?thesis using s c by (simp add: forward_nack_def Let_def 1 2 3)
  qed
  have "tick_view (drain_loop n (drain_via drain_cloud_nack sid) (forward_nack e) w) = tick_view w" for n sid
    by (rule drain_loop_keeps [where P = "\<lambda>v. tick_view v = tick_view w"])
      (simp_all add: step, simp add: tick_view_def drain_via_def drain_cloud_nack_def case_prod_unfold Let_def)
  then show ?thesis by (simp only: exit_nacks_def split: if_split) simp
qed

lemma tick_view_acks: "tick_view (exit_acks e w) = tick_view w"
proof -
  have step: "tick_view (snd (forward_ack e sq w)) = tick_view w" for sq w
  proof -
    obtain rc w2 where s: "engine_send e (te_source_addr (eng w)) ACK [] sq w = (rc, w2)" by (meson surj_pair)
    have c: "tick_view w2 = tick_view w"
      using engine_send_keeps [of w e "te_source_addr (eng w)" ACK "[]" sq] s by (simp add: tick_keeps_def)
    have 2: "tick_view (with_mqtt (\<lambda>q. snd (requeue_fragment_ack sid sq q)) w2) = tick_view w2" for sid
      by (simp add: tick_view_def with_mqtt_def requeue_fragment_ack_def split: prod.split bool.split)
    show ?thesis using s c by (simp add: forward_ack_def Let_def 2)
  qed
  have "tick_view (drain_loop n (drain_via drain_fragment_ack sid) (forward_ack e) w) = tick_view w" for n sid
    by (rule drain_loop_keeps [where P = "\<lambda>v. tick_view v = tick_view w"])
      (simp_all add: step, simp add: tick_view_def drain_via_def drain_fragment_ack_def case_prod_unfold Let_def split: option.split)
  then show ?thesis by (simp only: exit_acks_def split: if_split) simp
qed

text \<open>The tick in which the broker's completion of the served session is taken up.\<close>

lemma completion_tick:
  assumes "serves_and_sends v" and "mm_mqtt_client (snd v)" and "fst (consume_transfer_complete (te_active_session_id (eng v)) (mqc v))"
    and "te_last_cloud_activity_ms (eng v) = 0 \<or> me_now e - te_last_cloud_activity_ms (eng v) \<le> CLOUD_STALL_TIMEOUT_MS"
    and "me_now e - te_last_meta_publish_ms (eng v) \<le> META_REPUBLISH_INTERVAL_MS"
  shows "te_events (eng (engine_tick x e v)) = te_events (eng v) @ [FLP_EVT_TRANSFER_COMPLETE] \<and> \<not> at_active (xfer (engine_tick x e v))"
proof -
  note b = assms(1) [unfolded serves_and_sends_def]
  define v1 where "v1 = tick_arqs e v"
  define v3 where "v3 = exit_acks e (exit_nacks e v1)"
  have 1: "tick_view v1 = tick_view v" "te_last_cloud_activity_ms (eng v1) = te_last_cloud_activity_ms (eng v)"
    "te_last_meta_publish_ms (eng v1) = te_last_meta_publish_ms (eng v)"
    using tick_arqs_keeps b by (simp_all add: v1_def tick_keeps_def)
  have 2: "republish_meta x e v1 = v1" using leD [OF assms(5)] 1(3) by (simp add: republish_meta_def Let_def)
  have 3: "tick_view v3 = tick_view v" by (simp add: v3_def tick_view_nacks tick_view_acks 1(1))
  define sid where "sid = te_active_session_id (eng v3)"
  define u where "u = upd_mq (\<lambda>_. snd (consume_transfer_complete sid (mqc v3))) v3"
  define u' where "u' = snd (engine_send e (te_source_addr (eng u)) TRANSFER_DONE
    (enc_transfer_done \<lparr>td_session_id = sid, td_exit_node_addr = te_my_addr (eng u)\<rparr>) 0 u)"
  define v4 where "v4 = clear_exit_node_state u'"
  have c: "tick_view u' = tick_view u" unfolding u'_def by (rule tick_keeps_view [OF engine_send_keeps])
  have q: "mq_transfer_complete_queue (mqc v3) = mq_transfer_complete_queue (mqc v)" "sid = te_active_session_id (eng v)"
    "te_is_exit_node (eng v3)" "mm_mqtt_client (snd v3)"
    using 3 b assms(2) by (simp_all add: tick_view_def sid_def)
  have "fst (consume_transfer_complete sid (mqc v3))"
    using assms(3) by (simp add: consume_transfer_complete_def case_prod_unfold Let_def q)
  then have ec: "exit_complete e v3 = v4"
    using q(3,4) by (simp add: exit_complete_def Let_def case_prod_unfold sid_def [symmetric] u_def [symmetric] u'_def [symmetric] v4_def)
  have u: "xfer u' = xfer v" "te_local_exit (eng u')" "\<not> te_election_active (eng u')" "te_events (eng u') = te_events (eng v)"
    "te_broadcast_retry (eng u') = te_broadcast_retry (eng v)"
    using c 3 b by (simp_all add: tick_view_def u_def)
  have v4: "at_active (xfer v4)" "te_local_exit (eng v4)" "\<not> te_election_active (eng v4)" "at_fragment_count (xfer v4) = 0"
    "te_congestion_backoff_ticks (eng v4) = 0" "te_events (eng v4) = te_events (eng v)" "at_exit_node_count (xfer v4) = 0"
    "\<not> br_active (te_broadcast_retry (eng v4))"
    using u b by (simp_all add: v4_def clear_exit_node_state_def exit_cleared_def)
  have nf: "\<not> arq_failed (eng v1)" using 1(1) b by (simp add: arq_failed_def tick_view_def)
  have st: "stall_check e v1 = (True, v1)" using assms(4) 1(2) by (auto simp: stall_check_def Let_def word_gt_0 not_less)
  have rest: "broadcast_retry_tick e v4 = v4" "election_timeout_tick x e v4 = v4" "exit_node_health_tick e v4 = v4"
    using v4 by (simp_all add: broadcast_retry_tick_def election_timeout_tick_def exit_node_health_tick_def Let_def)
  have "engine_tick x e v = transfer_tick x e v4"
    using nf st ec rest 2 by (simp add: engine_tick_def Let_def v1_def [symmetric] v3_def [symmetric])
  also have "\<dots> = tick_local_exit_arq e v4" using v4 by (simp add: transfer_tick_def)
  finally show ?thesis using tick_local_nothing_to_send [OF v4(4), of e] v4(6) by simp
qed

text \<open>
  C33. \<open>start_file_transfer\<close> refuses a node that serves as exit, but not one that has offered itself and waits
  for data. If such a node starts a transfer of its own over its own uplink and then the other source
  elects it by sending it data, it plays both roles on one transfer record. From every state in which it
  does, whatever has been delivered of its own file: when the broker has completed the served session, the
  next tick wipes the fragment count of the own transfer and reports the own transfer complete - unless
  that tick finds the cloud stalled for longer than the timeout, or is the one in which the metadata of
  the own transfer is due to be published again (which switches the MQTT client to the own session).
\<close>

theorem pending_exit_false_completion:
  assumes "te_exit_pending (eng w)" and "\<not> te_is_exit_node (eng w)" and "\<not> at_active (xfer w)" and "te_active_session_id (eng w) \<noteq> 0"
    and "\<not> te_election_active (eng w)" and "at_exit_node_count (xfer w) = 0" and "\<not> br_active (te_broadcast_retry (eng w))"
    and "start_file_transfer x e filename sz read_chunk True True hops w = (True, w1)"
    and "w2 = handle_data x e' hdr payload w1"
  shows "serves_and_sends w2 \<and>
    (serves_and_sends v \<and> mm_mqtt_client (snd v) \<and> fst (consume_transfer_complete (te_active_session_id (eng v)) (mqc v)) \<and>
      (te_last_cloud_activity_ms (eng v) = 0 \<or> me_now e'' - te_last_cloud_activity_ms (eng v) \<le> CLOUD_STALL_TIMEOUT_MS) \<and>
      me_now e'' - te_last_meta_publish_ms (eng v) \<le> META_REPUBLISH_INTERVAL_MS \<longrightarrow>
      te_events (eng (engine_tick x e'' v)) = te_events (eng v) @ [FLP_EVT_TRANSFER_COMPLETE] \<and> \<not> at_active (xfer (engine_tick x e'' v)))"
proof -
  have w1: "te_exit_pending (eng w1)" "\<not> te_is_exit_node (eng w1)" "at_active (xfer w1)" "te_local_exit (eng w1)"
    "te_active_session_id (eng w1) \<noteq> 0" "\<not> te_election_active (eng w1)" "at_exit_node_count (xfer w1) = 0"
    "\<not> br_active (te_broadcast_retry (eng w1))"
    using assms(1-8) by (auto simp: start_file_transfer_def start_local_exit_def Let_def begin_transfer_def upd_at_def split: if_splits)
  define a where "a = activate_exit x w1"
  have a: "te_is_exit_node (eng a)" "at_active (xfer a)" "te_local_exit (eng a)" "\<not> te_election_active (eng a)"
    "at_exit_node_count (xfer a) = 0" "\<not> br_active (te_broadcast_retry (eng a))"
    using w1 by (simp_all add: a_def activate_exit_def Let_def)
  have "eng w2 = (if fst (forward_to_mqtt (te_active_session_id (eng a)) (seq_num hdr) (te_source_addr (eng a)) payload
      (at_filename (xfer a)) a) then (eng a)\<lparr>te_last_cloud_activity_ms := me_now e'\<rparr> else signal_congestion (eng a))"
    using w1(1) by (simp add: assms(9) handle_data_def Let_def a_def [symmetric] case_prod_unfold)
  then have "serves_and_sends w2"
    using a by (simp add: serves_and_sends_def signal_congestion_def Let_def)
  then show ?thesis using completion_tick [of v e'' x] by blast
qed


definition ex_pending :: Node where
  "ex_pending = upd_te (\<lambda>t. t\<lparr>te_transfer := (te_transfer t)\<lparr>at_active := False, at_exit_node_count := 0\<rparr>, te_is_exit_node := False,
     te_exit_pending := True, te_active_session_id := 5, te_election_active := False, te_broadcast_retry := BroadcastRetry_new\<rparr>)
     (fst ex_node, (snd ex_node)\<lparr>mm_mqtt_client := True\<rparr>)"

theorem pending_exit_false_completion_witness:
  "\<exists>w1 e. start_file_transfer ex_engine_env ex_mesh_env ''f'' 3000 (\<lambda>_ _. []) True True 1 ex_pending = (True, w1) \<and>
     (let w2 = handle_data ex_engine_env ex_mesh_env \<lparr>ver_type = 0, src_addr = 3, dst_addr = 7, ttl_hops = 0, seq_num = 1\<rparr> [1] w1;
          v = upd_mq (\<lambda>q. q\<lparr>mq_transfer_complete_queue := [te_active_session_id (eng w2)]\<rparr>) w2
      in te_events (eng (engine_tick ex_engine_env e v)) = te_events (eng w2) @ [FLP_EVT_TRANSFER_COMPLETE])"
proof -
  have p: "te_exit_pending (eng ex_pending)" "\<not> te_is_exit_node (eng ex_pending)" "\<not> at_active (xfer ex_pending)"
    "te_active_session_id (eng ex_pending) \<noteq> 0" "\<not> te_election_active (eng ex_pending)" "at_exit_node_count (xfer ex_pending) = 0"
    "\<not> br_active (te_broadcast_retry (eng ex_pending))"
    by (simp_all add: ex_pending_def BroadcastRetry_new_def)
  let ?h = "\<lparr>ver_type = 0, src_addr = 3, dst_addr = 7, ttl_hops = 0, seq_num = 1\<rparr> :: PacketHeader"
  obtain ok w1 where s: "start_file_transfer ex_engine_env ex_mesh_env ''f'' 3000 (\<lambda>_ _. []) True True 1 ex_pending = (ok, w1)"
    by (meson surj_pair)
  have "fst (start_file_transfer ex_engine_env ex_mesh_env ''f'' 3000 (\<lambda>_ _. []) True True 1 ex_pending)"
    using p(2,3) by (simp add: start_file_transfer_def start_local_exit_def Let_def upd_at_def)
  with s have s: "start_file_transfer ex_engine_env ex_mesh_env ''f'' 3000 (\<lambda>_ _. []) True True 1 ex_pending = (True, w1)" by simp
  define w2 where "w2 = handle_data ex_engine_env ex_mesh_env ?h [1] w1"
  define v where "v = upd_mq (\<lambda>q. q\<lparr>mq_transfer_complete_queue := [te_active_session_id (eng w2)]\<rparr>) w2"
  note t = pending_exit_false_completion [OF p s w2_def]
  let ?now = "me_now ex_mesh_env"
  have w1: "snd w1 = snd ex_pending" "te_exit_pending (eng w1)" "te_last_cloud_activity_ms (eng w1) = ?now" "te_last_meta_publish_ms (eng w1) = ?now"
    using s p(1-3) by (auto simp: start_file_transfer_def start_local_exit_def begin_transfer_def Let_def upd_at_def split: if_splits)
  have "snd w2 = snd w1" "te_last_cloud_activity_ms (eng w2) = ?now" "te_last_meta_publish_ms (eng w2) = ?now"
    using w1 by (simp_all add: w2_def handle_data_def activate_exit_def signal_congestion_def Let_def case_prod_unfold)
  with w1(1) have m: "mm_mqtt_client (snd w2)" "te_last_cloud_activity_ms (eng v) = ?now" "te_last_meta_publish_ms (eng v) = ?now"
    by (simp_all add: ex_pending_def v_def)
  note t = t [of v ex_mesh_env]
  have v: "serves_and_sends v" "mm_mqtt_client (snd v)" "te_events (eng v) = te_events (eng w2)"
    "fst (consume_transfer_complete (te_active_session_id (eng v)) (mqc v))"
    using t m(1) by (simp_all add: v_def serves_and_sends_def consume_transfer_complete_def Let_def)
  have "te_events (eng (engine_tick ex_engine_env ex_mesh_env v)) = te_events (eng v) @ [FLP_EVT_TRANSFER_COMPLETE]"
    using t v(1,2,4) m(2,3) by simp
  then show ?thesis
    using s v(3) by (intro exI [of _ w1] exI [of _ ex_mesh_env]) (simp add: Let_def v_def w2_def)
qed

end
