(* ===== verification/Radio_Rx.thy ===== *)
theory Radio_Rx
  imports Mesh_Packets
begin

text \<open>
  What the two radio drivers share on reception: a received frame is copied into a slab of the
  buffer pool, and the slab is put into one of two FreeRTOS queues by the type of the packet. The
  queues hold slab numbers; \<open>MeshManager::init\<close> passes the high-priority queue also as the fallback
  \<open>packet_queue_\<close>. The invariant is that a slab is either free or in exactly one queue, once. Its
  general form \<open>slabs_used\<close> also carries the slabs that were lost: those of packets without a byte that
  found the high-priority queue full.
\<close>

unbundle bit_operations_syntax

record RxQueues =
  rq_dual :: bool
  rq_hi :: "int list"
  rq_lo :: "int list"

type_synonym Rx = "RxQueues \<times> BufferPool"

definition fill_slab :: "int \<Rightarrow> (BufferSlab \<Rightarrow> BufferSlab) \<Rightarrow> BufferPool \<Rightarrow> BufferPool" where
  "fill_slab t f p = p\<lparr>bp_slabs := map_option (\<lambda>ss. ss[nat t := f (ss ! nat t)]) (bp_slabs p)\<rparr>"

definition is_high_pri :: "u8 \<Rightarrow> bool" where
  "is_high_pri b \<longleftrightarrow> b AND 0x3F \<in> {pt_code ACK, pt_code NACK, pt_code DISCOVERY, pt_code ROUTE_ERROR, pt_code TRANSFER_ACK, pt_code ROUTE_REPLY}"

text \<open>
  The end of both receive paths: the slab goes to the queue of its priority and is released when
  that is full. A packet without a byte goes to the fallback queue, and the result of that send
  is not looked at.
\<close>

definition rx_enqueue :: "int \<Rightarrow> bytes \<Rightarrow> Rx \<Rightarrow> Rx" where
  "rx_enqueue slab frame s =
     (let (q, p) = s
      in if rq_dual q \<and> frame \<noteq> []
         then
           if is_high_pri (hd frame)
           then if length (rq_hi q) < kQueueDepth then (q\<lparr>rq_hi := rq_hi q @ [slab]\<rparr>, p) else (q, pool_release (Some slab) p)
           else if length (rq_lo q) < kQueueDepth then (q\<lparr>rq_lo := rq_lo q @ [slab]\<rparr>, p) else (q, pool_release (Some slab) p)
         else if length (rq_hi q) < kQueueDepth then (q\<lparr>rq_hi := rq_hi q @ [slab]\<rparr>, p) else (q, p))"

definition rx_inv :: "Rx \<Rightarrow> bool" where
  "rx_inv s \<longleftrightarrow> pool_inv (snd s) \<and> distinct (rq_hi (fst s) @ rq_lo (fst s)) \<and>
     set (rq_hi (fst s) @ rq_lo (fst s)) \<subseteq> {0..<int POOL_SIZE} \<and>
     (\<forall>i < POOL_SIZE. refs (snd s) i = (if int i \<in> set (rq_hi (fst s) @ rq_lo (fst s)) then 1 else 0))"

lemma fill_slab_pool:
  assumes "pool_inv p" and "0 < refs p (nat t)" and "\<And>s. bs_refcount (f s) = bs_refcount s" and "\<And>s. bs_next_free (f s) = bs_next_free s"
  shows "pool_inv (fill_slab t f p)" and "refs (fill_slab t f p) = refs p"
proof -
  obtain fs where "pool_rel p fs" using assms(1) by (auto simp: pool_inv_def)
  then obtain ss where s: "bp_slabs p = Some ss" "length ss = POOL_SIZE" "free_chain ss (bp_top p) fs" "distinct fs"
    "\<forall>i < POOL_SIZE. i \<in> set fs \<longleftrightarrow> bs_refcount (ss ! i) = 0" "bp_free_count p = int (length fs)" by (auto simp: pool_rel_def)
  let ?ss = "ss[nat t := f (ss ! nat t)]"
  have r: "bs_refcount (?ss ! i) = bs_refcount (ss ! i)" if "i < POOL_SIZE" for i
    using that s(2) assms(3) by (cases "i = nat t") auto
  show "refs (fill_slab t f p) = refs p" using s(1,2) r by (auto simp: refs_def fill_slab_def fun_eq_iff)
  have "nat t \<notin> set fs" using assms(2) s(1,2,5) by (auto simp: refs_def split: if_splits)
  then have "free_chain ?ss (bp_top p) fs" using s(3) free_chain_frame by blast
  then show "pool_inv (fill_slab t f p)" using s r by (auto simp: pool_inv_def pool_rel_def fill_slab_def)
qed

text \<open>The slabs of a list are in use once each, all others are free.\<close>

definition slabs_used :: "int list \<Rightarrow> BufferPool \<Rightarrow> bool" where
  "slabs_used ss p \<longleftrightarrow> pool_inv p \<and> distinct ss \<and> set ss \<subseteq> {0..<int POOL_SIZE} \<and>
     (\<forall>i < POOL_SIZE. refs p i = (if int i \<in> set ss then 1 else 0))"

abbreviation (input) rx_queued :: "RxQueues \<Rightarrow> int list" where
  "rx_queued q \<equiv> rq_hi q @ rq_lo q"

lemma rx_inv_slabs: "rx_inv (q, p) \<longleftrightarrow> slabs_used (rx_queued q) p"
  by (simp add: rx_inv_def slabs_used_def)

lemma rx_enqueue_slabs:
  assumes "pool_inv p" and "slabs_used (rx_queued q @ lost) p0" and "i < POOL_SIZE" and "refs p0 i = 0" and "refs p = (refs p0)(i := 1)"
    and "rq_dual q"
  shows "if frame \<noteq> [] \<or> length (rq_hi q) < kQueueDepth
    then case rx_enqueue (int i) frame (q, p) of (q', p') \<Rightarrow> slabs_used (rx_queued q' @ lost) p'
    else rx_enqueue (int i) frame (q, p) = (q, p) \<and> slabs_used (rx_queued q @ lost @ [int i]) p"
proof -
  have new: "int i \<notin> set (rx_queued q @ lost)" using assms(2-4) by (fastforce simp: slabs_used_def split: if_splits)
  have rel: "slabs_used (rx_queued q @ lost) (pool_release (Some (int i)) p)"
  proof -
    have "0 < refs p i" using assms(5) by simp
    note c = bpool.release_cnt [OF assms(1,3) this]
    then have "refs (pool_release (Some (int i)) p) = refs p0" using assms(4,5) by (auto simp: fun_eq_iff)
    then show ?thesis using c assms(2) by (simp add: slabs_used_def)
  qed
  have "slabs_used ((rq_hi q @ [int i]) @ rq_lo q @ lost) p" "slabs_used (rq_hi q @ (rq_lo q @ [int i]) @ lost) p"
    "slabs_used (rx_queued q @ lost @ [int i]) p"
    using assms(1,2,3,5) new by (auto simp: slabs_used_def)
  with rel assms(6) show ?thesis by (auto simp: rx_enqueue_def)
qed

lemma rx_enqueue_inv:
  assumes "pool_inv p" and "rx_inv (q, p0)" and "i < POOL_SIZE" and "refs p0 i = 0" and "refs p = (refs p0)(i := 1)"
    and "rq_dual q" and "frame \<noteq> [] \<or> length (rq_hi q) < kQueueDepth"
  shows "rx_inv (rx_enqueue (int i) frame (q, p))"
proof -
  have "slabs_used (rx_queued q @ []) p0" using assms(2) by (simp add: rx_inv_slabs)
  from rx_enqueue_slabs [OF assms(1) this assms(3-6), of frame] assms(7) show ?thesis
    by (cases "rx_enqueue (int i) frame (q, p)") (simp add: rx_inv_slabs)
qed

text \<open>A frame that was received: a slab is taken if there is one, filled and queued, or else lost.\<close>

definition rx_store :: "bytes \<Rightarrow> (BufferSlab \<Rightarrow> BufferSlab) \<Rightarrow> Rx \<Rightarrow> Rx" where
  "rx_store frame f s = (case pool_acquire (snd s) of (None, p1) \<Rightarrow> (fst s, p1)
     | (Some slab, p1) \<Rightarrow> rx_enqueue slab frame (fst s, fill_slab slab f p1))"

definition lost_slab :: "bytes \<Rightarrow> Rx \<Rightarrow> int list" where
  "lost_slab frame s = (if frame \<noteq> [] \<or> length (rq_hi (fst s)) < kQueueDepth then []
     else case fst (pool_acquire (snd s)) of None \<Rightarrow> [] | Some slab \<Rightarrow> [slab])"

lemma rx_store_slabs:
  assumes "slabs_used (rx_queued q @ lost) p" and "rq_dual q" and "rx_store frame f (q, p) = (q', p')"
    and "\<And>b. bs_refcount (f b) = bs_refcount b" and "\<And>b. bs_next_free (f b) = bs_next_free b"
  shows "slabs_used (rx_queued q' @ lost @ lost_slab frame (q, p)) p' \<and> rq_dual q'"
proof -
  have inv: "pool_inv p" using assms(1) by (simp add: slabs_used_def)
  obtain so p1 where a: "pool_acquire p = (so, p1)" by (meson surj_pair)
  show ?thesis
  proof (cases so)
    case None
    then have "refs p1 = refs p \<and> pool_inv p1" using bpool.acquire_None [OF inv] a by blast
    then show ?thesis using a None assms(1-3) by (auto simp: slabs_used_def rx_store_def lost_slab_def)
  next
    case (Some slab)
    then obtain i where i: "i < POOL_SIZE" "slab = int i" "refs p i = 0" "refs p1 = (refs p)(i := 1)" "pool_inv p1"
      using bpool.acquire_Some [OF inv] a by blast
    have "0 < refs p1 (nat slab)" using i by simp
    note fl = fill_slab_pool [OF i(5) this, of f, OF assms(4,5)]
    have e: "rx_enqueue (int i) frame (q, fill_slab (int i) f p1) = (q', p')"
      using assms(3) a Some i(2) by (simp add: rx_store_def)
    have "refs (fill_slab (int i) f p1) = (refs p)(i := 1)" "pool_inv (fill_slab (int i) f p1)" using fl i(2,4) by simp_all
    note s = rx_enqueue_slabs [OF this(2) assms(1) i(1,3) this(1) assms(2), of frame]
    have "rq_dual q'" using e assms(2) by (auto simp: rx_enqueue_def split: if_splits)
    then show ?thesis using s e a Some i(2) by (auto simp: lost_slab_def split: if_splits)
  qed
qed

lemma rq_dual_rx_enqueue [simp]: "rq_dual (fst (rx_enqueue slab frame s)) = rq_dual (fst s)"
  by (simp add: rx_enqueue_def case_prod_unfold Let_def)

end
