(* ===== verification/Espnow_Transport.thy ===== *)
theory Espnow_Transport
  imports Radio_Rx
begin

text \<open>
  The ESP-NOW driver of the firmware (\<^verbatim>\<open>components/espnow/espnow_transport.cpp\<close>): the peer table, the
  two pools of transmit slots with the ring that remembers the class of each frame in flight, and
  the receive callback. The ESP-NOW library is a parameter: its answer to each call is given by
  the number of calls made before, and the calls are logged. Waiting for a slot is waiting for a
  send callback; a callback that arrives during the wait is ordered before the send.

  Shown are that the slot accounting refines a queue of frame classes, that control frames are
  held back only by control frames, and that the receive path never loses a slab.
\<close>

unbundle bit_operations_syntax

abbreviation (input) ESPNOW_MAX_PEERS :: nat where "ESPNOW_MAX_PEERS \<equiv> 20"
abbreviation (input) ESPNOW_PENDING_PEER_QUEUE_DEPTH :: nat where "ESPNOW_PENDING_PEER_QUEUE_DEPTH \<equiv> 8"
abbreviation (input) TX_CTRL_DEPTH :: nat where "TX_CTRL_DEPTH \<equiv> 8"
abbreviation (input) TX_DATA_DEPTH :: nat where "TX_DATA_DEPTH \<equiv> 20"
abbreviation (input) TX_SLOT_DEPTH :: nat where "TX_SLOT_DEPTH \<equiv> 28"
abbreviation (input) ESP_NOW_MAX_DATA_LEN_V2 :: nat where "ESP_NOW_MAX_DATA_LEN_V2 \<equiv> 1470"

definition ESPNOW_BCAST_MAC :: bytes where "ESPNOW_BCAST_MAC = replicate 6 0xFF"

record PeerInfo =
  pi_mac :: bytes
  pi_addr :: u16
  pi_rssi :: i8
  pi_active :: bool

record PendingPeer =
  pp_mac :: bytes
  pp_rssi :: i8

datatype now_call = Now_add_peer bytes | Now_del_peer bytes | Now_send bytes bytes
datatype now_err = Now_ok | Now_no_mem | Now_error

text \<open>The semaphores are their counts, \<open>None\<close> before they exist; the callback instance is a flag.\<close>

record EspNowTransport =
  en_tx_ctrl_slots :: "nat option"
  en_tx_data_slots :: "nat option"
  en_tx_slot_class :: "bool list"
  en_tx_ring_write :: nat
  en_tx_ring_read :: nat
  en_peers :: "PeerInfo list"
  en_peer_count :: u8
  en_node_addr :: u16
  en_initialized :: bool
  en_instance :: bool
  en_pending :: "PendingPeer list option"
  en_submit_count :: u32
  en_complete_count :: u32
  en_fail_status_count :: u32
  en_semaphore_full_count :: u32
  en_send_error_count :: u32
  en_last_full_peer :: u16
  en_last_tx_diag_ms :: u32
  en_calls :: "now_call list"

definition EspNowTransport_new :: EspNowTransport where
  "EspNowTransport_new = \<lparr>en_tx_ctrl_slots = None, en_tx_data_slots = None, en_tx_slot_class = replicate TX_SLOT_DEPTH False,
     en_tx_ring_write = 0, en_tx_ring_read = 0,
     en_peers = replicate ESPNOW_MAX_PEERS \<lparr>pi_mac = replicate 6 0, pi_addr = 0, pi_rssi = 0, pi_active = False\<rparr>,
     en_peer_count = 0, en_node_addr = 0, en_initialized = False, en_instance = False, en_pending = None,
     en_submit_count = 0, en_complete_count = 0, en_fail_status_count = 0, en_semaphore_full_count = 0,
     en_send_error_count = 0, en_last_full_peer = 0, en_last_tx_diag_ms = 0, en_calls = []\<rparr>"

record NowEnv =
  nw_now :: u32
  nw_send :: "nat \<Rightarrow> now_err"
  nw_bcast_exists :: bool
  nw_mac :: bytes
  nw_queue_ok :: bool
  nw_ctrl_sem_ok :: bool
  nw_data_sem_ok :: bool
  nw_init_ok :: bool

section \<open>Diagnostics and peers\<close>

definition maybe_log_tx_diag :: "NowEnv \<Rightarrow> EspNowTransport \<Rightarrow> EspNowTransport" where
  "maybe_log_tx_diag e t =
     (if en_last_tx_diag_ms t \<noteq> 0 \<and> nw_now e - en_last_tx_diag_ms t < 1000 then t
      else t\<lparr>en_last_tx_diag_ms := nw_now e, en_submit_count := 0, en_complete_count := 0, en_fail_status_count := 0,
             en_semaphore_full_count := 0, en_send_error_count := 0\<rparr>)"

definition addr_from_mac :: "bytes \<Rightarrow> u16" where
  "addr_from_mac mac = push_bit 8 (ucast (mac ! 4)) OR ucast (mac ! 5)"

definition find_mac :: "u16 \<Rightarrow> EspNowTransport \<Rightarrow> bytes option" where
  "find_mac addr t = map_option pi_mac (List.find (\<lambda>p. pi_active p \<and> pi_addr p = addr) (en_peers t))"

definition now_log :: "now_call \<Rightarrow> EspNowTransport \<Rightarrow> EspNowTransport" where
  "now_log c t = t\<lparr>en_calls := en_calls t @ [c]\<rparr>"

definition add_peer_if_new :: "bytes \<Rightarrow> i8 \<Rightarrow> EspNowTransport \<Rightarrow> EspNowTransport" where
  "add_peer_if_new mac rssi t =
     (let addr = addr_from_mac mac; known = (\<lambda>p. pi_active p \<and> pi_addr p = addr)
      in if list_ex known (en_peers t) then t\<lparr>en_peers := update_first known (\<lambda>p. p\<lparr>pi_rssi := rssi\<rparr>) (en_peers t)\<rparr>
         else if list_ex (\<lambda>p. \<not> pi_active p) (en_peers t)
         then now_log (Now_add_peer mac)
           (t\<lparr>en_peers := update_first (\<lambda>p. \<not> pi_active p)
                (\<lambda>p. \<lparr>pi_mac = mac, pi_addr = addr, pi_rssi = rssi, pi_active = True\<rparr>) (en_peers t),
              en_peer_count := en_peer_count t + 1\<rparr>)
         else t)"

definition get_peer_rssi :: "u16 \<Rightarrow> EspNowTransport \<Rightarrow> i8" where
  "get_peer_rssi addr t = (case List.find (\<lambda>p. pi_active p \<and> pi_addr p = addr) (en_peers t) of Some p \<Rightarrow> pi_rssi p | None \<Rightarrow> - 127)"

definition update_broadcast_peer :: "EspNowTransport \<Rightarrow> EspNowTransport" where
  "update_broadcast_peer t =
     (if \<not> en_initialized t then t
      else now_log (Now_add_peer ESPNOW_BCAST_MAC) (now_log (Now_del_peer ESPNOW_BCAST_MAC) t))"

definition drain_pending_peers :: "EspNowTransport \<Rightarrow> EspNowTransport" where
  "drain_pending_peers t =
     (case en_pending t of None \<Rightarrow> t
      | Some ps \<Rightarrow> fold (\<lambda>p. add_peer_if_new (pp_mac p) (pp_rssi p)) ps (t\<lparr>en_pending := Some []\<rparr>))"

section \<open>Life cycle\<close>

definition espnow_init :: "NowEnv \<Rightarrow> EspNowTransport \<Rightarrow> EspNowTransport" where
  "espnow_init e t =
     (if en_initialized t then t
      else
        let t1 = t\<lparr>en_instance := True\<rparr>
        in if \<not> nw_queue_ok e then t1\<lparr>en_pending := None\<rparr>
           else
             let t2 = t1\<lparr>en_pending := Some []\<rparr>
             in if \<not> nw_ctrl_sem_ok e \<or> \<not> nw_data_sem_ok e then t2\<lparr>en_tx_ctrl_slots := None, en_tx_data_slots := None\<rparr>
                else
                  let t3 = t2\<lparr>en_tx_ctrl_slots := Some TX_CTRL_DEPTH, en_tx_data_slots := Some TX_DATA_DEPTH,
                         en_tx_ring_write := 0, en_tx_ring_read := 0, en_node_addr := addr_from_mac (nw_mac e)\<rparr>
                  in if \<not> nw_init_ok e then t3\<lparr>en_tx_ctrl_slots := None, en_tx_data_slots := None, en_pending := None\<rparr>
                     else (now_log (Now_add_peer ESPNOW_BCAST_MAC) t3)\<lparr>en_initialized := True\<rparr>)"

definition espnow_deinit :: "EspNowTransport \<Rightarrow> EspNowTransport" where
  "espnow_deinit t =
     (if \<not> en_initialized t then t
      else t\<lparr>en_pending := None, en_tx_ctrl_slots := None, en_tx_data_slots := None, en_instance := False, en_initialized := False\<rparr>)"

section \<open>Reception\<close>

definition espnow_on_recv :: "bytes \<Rightarrow> i8 option \<Rightarrow> bytes \<Rightarrow> EspNowTransport \<times> Rx \<Rightarrow> EspNowTransport \<times> Rx" where
  "espnow_on_recv src rx_rssi frame s =
     (let (t, q, p) = s
      in if \<not> en_instance t \<or> frame = [] \<or> MAX_MTU < length frame then s
         else
           let rssi = (case rx_rssi of Some r \<Rightarrow> r | None \<Rightarrow> - 90);
               t1 = t\<lparr>en_pending := map_option (\<lambda>ps. if length ps < ESPNOW_PENDING_PEER_QUEUE_DEPTH
                      then ps @ [\<lparr>pp_mac = take 6 src, pp_rssi = rssi\<rparr>] else ps) (en_pending t)\<rparr>
           in case pool_acquire p of
                (None, p1) \<Rightarrow> (t1, q, p1)
              | (Some slab, p1) \<Rightarrow>
                  (t1, rx_enqueue slab frame
                     (q, fill_slab slab (\<lambda>b. b\<lparr>bs_len := length frame, bs_data := write_at 0 frame (bs_data b),
                           bs_source := ESPNOW, bs_rssi := rssi\<rparr>) p1)))"

section \<open>Transmission\<close>

definition is_ctrl_frame :: "bytes \<Rightarrow> bool" where
  "is_ctrl_frame frame \<longleftrightarrow> frame \<noteq> [] \<and> hd frame AND 0x3F \<in> {pt_code ACK, pt_code NACK, pt_code TRANSFER_ACK, pt_code DISCOVERY,
     pt_code ROUTE_ERROR, pt_code ROUTE_REPLY, pt_code TRANSFER_DONE}"

definition slots_of :: "bool \<Rightarrow> EspNowTransport \<Rightarrow> nat option" where
  "slots_of ctrl t = (if ctrl then en_tx_ctrl_slots t else en_tx_data_slots t)"

definition set_slots :: "bool \<Rightarrow> nat option \<Rightarrow> EspNowTransport \<Rightarrow> EspNowTransport" where
  "set_slots ctrl n t = (if ctrl then t\<lparr>en_tx_ctrl_slots := n\<rparr> else t\<lparr>en_tx_data_slots := n\<rparr>)"

text \<open>Giving a slot back; a FreeRTOS counting semaphore does not count past its maximum.\<close>

definition give_slot :: "bool \<Rightarrow> EspNowTransport \<Rightarrow> EspNowTransport" where
  "give_slot ctrl t = set_slots ctrl (map_option (\<lambda>n. min (n + 1) (if ctrl then TX_CTRL_DEPTH else TX_DATA_DEPTH)) (slots_of ctrl t)) t"

definition on_send :: "bool \<Rightarrow> EspNowTransport \<Rightarrow> EspNowTransport" where
  "on_send success t =
     (if \<not> en_instance t then t
      else
        let ridx = en_tx_ring_read t;
            t1 = give_slot (en_tx_slot_class t ! ridx) (t\<lparr>en_tx_ring_read := (ridx + 1) mod TX_SLOT_DEPTH\<rparr>)
        in t1\<lparr>en_complete_count := en_complete_count t1 + 1,
              en_fail_status_count := (if success then en_fail_status_count t1 else en_fail_status_count t1 + 1)\<rparr>)"

definition take_back :: "NowEnv \<Rightarrow> bool \<Rightarrow> EspNowTransport \<Rightarrow> EspNowTransport" where
  "take_back e ctrl t = maybe_log_tx_diag e (give_slot ctrl
     (t\<lparr>en_send_error_count := en_send_error_count t + 1,
        en_tx_ring_write := (en_tx_ring_write t + TX_SLOT_DEPTH - 1) mod TX_SLOT_DEPTH\<rparr>))"

definition submit :: "NowEnv \<Rightarrow> bool \<Rightarrow> bytes \<Rightarrow> bytes \<Rightarrow> EspNowTransport \<Rightarrow> int \<times> EspNowTransport" where
  "submit e ctrl mac frame t =
     (let err = nw_send e (length (en_calls t)); t1 = now_log (Now_send mac frame) t
      in case err of
           Now_ok \<Rightarrow> (TRANSPORT_SEND_OK, maybe_log_tx_diag e (t1\<lparr>en_submit_count := en_submit_count t1 + 1\<rparr>))
         | Now_no_mem \<Rightarrow> (SEND_BACKPRESSURE, take_back e ctrl t1)
         | Now_error \<Rightarrow> (TRANSPORT_SEND_FAILED, take_back e ctrl t1))"

definition espnow_send :: "NowEnv \<Rightarrow> u16 \<Rightarrow> bytes \<Rightarrow> EspNowTransport \<Rightarrow> int \<times> EspNowTransport" where
  "espnow_send e peer_addr frame t =
     (if ESP_NOW_MAX_DATA_LEN_V2 < length frame then (TRANSPORT_SEND_FAILED, t)
      else
        let ctrl = is_ctrl_frame frame
        in if slots_of ctrl t = Some 0
           then (SEND_BACKPRESSURE, maybe_log_tx_diag e
                  (t\<lparr>en_semaphore_full_count := en_semaphore_full_count t + 1, en_last_full_peer := peer_addr\<rparr>))
           else
             let t1 = set_slots ctrl (map_option (\<lambda>n. n - 1) (slots_of ctrl t)) t;
                 t2 = t1\<lparr>en_tx_slot_class := (en_tx_slot_class t1)[en_tx_ring_write t1 := ctrl],
                         en_tx_ring_write := (en_tx_ring_write t1 + 1) mod TX_SLOT_DEPTH\<rparr>
             in if peer_addr = BROADCAST_ADDR
                then submit e ctrl ESPNOW_BCAST_MAC frame (if nw_bcast_exists e then t2 else update_broadcast_peer t2)
                else case find_mac peer_addr t2 of
                       None \<Rightarrow> (TRANSPORT_SEND_FAILED, take_back e ctrl t2)
                     | Some mac \<Rightarrow> submit e ctrl mac frame t2)"

section \<open>The slots are a queue of frame classes\<close>

text \<open>
  \<open>q\<close> is the queue of the classes of the frames that ESP-NOW has accepted and not yet confirmed, oldest
  first (\<open>True\<close> for control). Each pool has the slots that the queue does not hold, and the ring holds
  the queue from its read index on.
\<close>

definition slot_depth :: "bool \<Rightarrow> nat" where
  "slot_depth ctrl = (if ctrl then TX_CTRL_DEPTH else TX_DATA_DEPTH)"

definition ring_rel :: "EspNowTransport \<Rightarrow> bool list \<Rightarrow> bool" where
  "ring_rel t q \<longleftrightarrow> length (en_tx_slot_class t) = TX_SLOT_DEPTH \<and> en_tx_ring_read t < TX_SLOT_DEPTH \<and>
     en_tx_ring_write t = (en_tx_ring_read t + length q) mod TX_SLOT_DEPTH \<and> length q \<le> TX_SLOT_DEPTH \<and>
     (\<forall>i < length q. en_tx_slot_class t ! ((en_tx_ring_read t + i) mod TX_SLOT_DEPTH) = q ! i)"

definition pools_rel :: "EspNowTransport \<Rightarrow> bool list \<Rightarrow> bool" where
  "pools_rel t q \<longleftrightarrow> (\<forall>c. count_list q c \<le> slot_depth c \<and> slots_of c t = Some (slot_depth c - count_list q c))"

definition tx_rel :: "EspNowTransport \<Rightarrow> bool list \<Rightarrow> bool" where
  "tx_rel t q \<longleftrightarrow> en_instance t \<and> ring_rel t q \<and> pools_rel t q"

lemma slots_of_set [simp]: "slots_of c (set_slots d n t) = (if c = d then n else slots_of c t)"
  by (auto simp: slots_of_def set_slots_def)

lemma set_slots_fields [simp]:
  "en_tx_slot_class (set_slots c n t) = en_tx_slot_class t" "en_tx_ring_write (set_slots c n t) = en_tx_ring_write t"
  "en_tx_ring_read (set_slots c n t) = en_tx_ring_read t" "en_instance (set_slots c n t) = en_instance t"
  "en_peers (set_slots c n t) = en_peers t"
  by (simp_all add: set_slots_def)

lemma tx_rel_same:
  assumes "en_instance t' = en_instance t" "en_tx_slot_class t' = en_tx_slot_class t" "en_tx_ring_read t' = en_tx_ring_read t"
    "en_tx_ring_write t' = en_tx_ring_write t" "en_tx_ctrl_slots t' = en_tx_ctrl_slots t" "en_tx_data_slots t' = en_tx_data_slots t"
  shows "tx_rel t' q = tx_rel t q"
  using assms by (simp add: tx_rel_def ring_rel_def pools_rel_def slots_of_def)

lemma tx_rel_diag [simp]: "tx_rel (maybe_log_tx_diag e t) q = tx_rel t q"
  by (rule tx_rel_same) (simp_all add: maybe_log_tx_diag_def)

lemma tx_rel_update_broadcast_peer [simp]: "tx_rel (update_broadcast_peer t) q = tx_rel t q"
  by (rule tx_rel_same) (simp_all add: update_broadcast_peer_def now_log_def)

lemma ring_index_inj: "i < 28 \<Longrightarrow> j < 28 \<Longrightarrow> (r + i) mod 28 = (r + j) mod (28 :: nat) \<Longrightarrow> i = j"
proof (induction i j rule: linorder_wlog)
  case (le i j)
  then have "28 dvd (r + j) - (r + i)" using mod_eq_dvd_iff_nat [of "r + i" "r + j" 28] by simp
  then show ?case using le(1,3) by (auto dest: dvd_imp_le)
qed auto

lemma count_list_total: "count_list q True + count_list q False = length q"
  by (induction q) auto

lemma pools_rel_length: "pools_rel t q \<Longrightarrow> length q \<le> TX_SLOT_DEPTH"
  using count_list_total [of q] by (auto simp: pools_rel_def slot_depth_def all_bool_eq)

text \<open>Taking a slot and recording its class appends to the queue.\<close>

definition claim :: "bool \<Rightarrow> EspNowTransport \<Rightarrow> EspNowTransport" where
  "claim ctrl t = (let t1 = set_slots ctrl (map_option (\<lambda>n. n - 1) (slots_of ctrl t)) t
     in t1\<lparr>en_tx_slot_class := (en_tx_slot_class t1)[en_tx_ring_write t1 := ctrl],
           en_tx_ring_write := (en_tx_ring_write t1 + 1) mod TX_SLOT_DEPTH\<rparr>)"

lemma claim_fields [simp]:
  "en_instance (claim c t) = en_instance t" "en_tx_ring_read (claim c t) = en_tx_ring_read t"
  "en_tx_slot_class (claim c t) = (en_tx_slot_class t)[en_tx_ring_write t := c]"
  "en_tx_ring_write (claim c t) = (en_tx_ring_write t + 1) mod TX_SLOT_DEPTH"
  "slots_of d (claim c t) = (if d = c then map_option (\<lambda>n. n - 1) (slots_of d t) else slots_of d t)"
  by (auto simp: claim_def Let_def slots_of_def set_slots_def)

lemma claim_rel:
  assumes "tx_rel t q" and "count_list q c < slot_depth c"
  shows "tx_rel (claim c t) (q @ [c])"
proof -
  have p: "pools_rel (claim c t) (q @ [c])"
    using assms by (auto simp: tx_rel_def pools_rel_def)
  from assms(1) have r: "length (en_tx_slot_class t) = 28" "en_tx_ring_read t < 28" "en_tx_ring_write t = (en_tx_ring_read t + length q) mod 28"
    "\<And>i. i < length q \<Longrightarrow> en_tx_slot_class t ! ((en_tx_ring_read t + i) mod 28) = q ! i"
    by (simp_all add: tx_rel_def ring_rel_def)
  have l: "length q < 28" using pools_rel_length [OF p] by simp
  have "(en_tx_slot_class t)[en_tx_ring_write t := c] ! ((en_tx_ring_read t + i) mod 28) = (q @ [c]) ! i" if "i < length (q @ [c])" for i
  proof (cases "i = length q")
    case True
    then show ?thesis using r(1,3) by simp
  next
    case False
    then have "i < length q" using that by simp
    moreover from this have "en_tx_ring_write t \<noteq> (en_tx_ring_read t + i) mod 28"
      unfolding r(3) using ring_index_inj [of "length q" i "en_tx_ring_read t"] l by auto
    ultimately show ?thesis using r(4) by (simp add: nth_append)
  qed
  then have "ring_rel (claim c t) (q @ [c])" using r l by (simp add: ring_rel_def mod_simps)
  with p show ?thesis using assms(1) by (simp add: tx_rel_def)
qed

lemma give_slot_fields [simp]:
  "en_instance (give_slot c t) = en_instance t" "en_tx_ring_read (give_slot c t) = en_tx_ring_read t"
  "en_tx_slot_class (give_slot c t) = en_tx_slot_class t" "en_tx_ring_write (give_slot c t) = en_tx_ring_write t"
  "slots_of d (give_slot c t) = (if d = c then map_option (\<lambda>n. min (n + 1) (slot_depth c)) (slots_of d t) else slots_of d t)"
  by (auto simp: give_slot_def slot_depth_def)

lemma pools_rel_give:
  assumes "pools_rel t (q1 @ c # q2)" and "\<And>d. slots_of d t' = slots_of d t"
  shows "pools_rel (give_slot c t') (q1 @ q2)"
  unfolding pools_rel_def
proof
  fix d
  have "count_list (q1 @ c # q2) d \<le> slot_depth d" "slots_of d t' = Some (slot_depth d - count_list (q1 @ c # q2) d)"
    using assms by (simp_all add: pools_rel_def)
  then show "count_list (q1 @ q2) d \<le> slot_depth d \<and> slots_of d (give_slot c t') = Some (slot_depth d - count_list (q1 @ q2) d)"
    by (cases "c = d") simp_all
qed

text \<open>A failed submission undoes the claim.\<close>

lemma ring_rewind: "(n + 1) mod 28 = m \<Longrightarrow> n < (28 :: nat) \<Longrightarrow> (m + 28 - 1) mod 28 = n"
  by (auto simp: mod_Suc split: if_splits)

lemma take_back_rel:
  assumes "tx_rel t (q @ [c])"
  shows "tx_rel (take_back e c t) q"
proof -
  let ?t = "give_slot c (t\<lparr>en_send_error_count := en_send_error_count t + 1, en_tx_ring_write := (en_tx_ring_write t + 28 - 1) mod 28\<rparr>)"
  have s: "slots_of d (t\<lparr>en_send_error_count := k, en_tx_ring_write := w\<rparr>) = slots_of d t" for d k w by (simp add: slots_of_def)
  have "pools_rel ?t q" using pools_rel_give [of t q c "[]"] assms s by (simp add: tx_rel_def)
  moreover have "ring_rel ?t q"
  proof -
    have r: "en_tx_ring_write t = ((en_tx_ring_read t + length q) mod 28 + 1) mod 28" "length q < 28"
      "\<And>i. i < length q \<Longrightarrow> en_tx_slot_class t ! ((en_tx_ring_read t + i) mod 28) = q ! i"
      using assms by (auto simp: tx_rel_def ring_rel_def mod_simps nth_append)
    then show ?thesis using assms ring_rewind [OF r(1) [symmetric]] by (simp add: tx_rel_def ring_rel_def)
  qed
  ultimately have "tx_rel ?t q" using assms by (simp add: tx_rel_def)
  then show ?thesis by (simp add: take_back_def)
qed

lemma submit_rel:
  assumes "tx_rel t (q @ [c])" and "submit e c mac frame t = (rc, t')"
  shows "tx_rel t' (if rc = TRANSPORT_SEND_OK then q @ [c] else q)"
proof -
  have l: "tx_rel (now_log x t) r = tx_rel t r" for x r by (rule tx_rel_same) (simp_all add: now_log_def)
  have k: "tx_rel (t\<lparr>en_calls := x, en_submit_count := n\<rparr>) r = tx_rel t r" for x n r by (rule tx_rel_same) simp_all
  have tb: "tx_rel (take_back e c (now_log (Now_send mac frame) t)) q" by (rule take_back_rel) (simp add: l assms(1))
  have ok: "tx_rel ((now_log (Now_send mac frame) t)\<lparr>en_submit_count := n\<rparr>) (q @ [c])" for n using assms(1) by (simp add: now_log_def k)
  show ?thesis using assms(2) tb ok by (auto simp: submit_def Let_def split: now_err.splits)
qed

lemma espnow_send_rel:
  assumes "tx_rel t q" and "espnow_send e a frame t = (rc, t')"
  shows "tx_rel t' (if rc = TRANSPORT_SEND_OK then q @ [is_ctrl_frame frame] else q)"
proof (cases "1470 < length frame \<or> slots_of (is_ctrl_frame frame) t = Some 0")
  case True
  have "tx_rel (t\<lparr>en_semaphore_full_count := n, en_last_full_peer := a\<rparr>) q = tx_rel t q" for n by (rule tx_rel_same) simp_all
  with True assms show ?thesis by (auto simp: espnow_send_def Let_def split: if_splits)
next
  case False
  let ?c = "is_ctrl_frame frame"
  have "count_list q ?c < slot_depth ?c" using assms(1) False by (force simp: tx_rel_def pools_rel_def)
  note cl = claim_rel [OF assms(1) this]
  have "espnow_send e a frame t = (if a = BROADCAST_ADDR
      then submit e ?c ESPNOW_BCAST_MAC frame (if nw_bcast_exists e then claim ?c t else update_broadcast_peer (claim ?c t))
      else case find_mac a (claim ?c t) of None \<Rightarrow> (TRANSPORT_SEND_FAILED, take_back e ?c (claim ?c t))
        | Some mac \<Rightarrow> submit e ?c mac frame (claim ?c t))"
    using False unfolding espnow_send_def claim_def Let_def by simp
  note run = assms(2) [unfolded this]
  have ub: "tx_rel (if nw_bcast_exists e then claim ?c t else update_broadcast_peer (claim ?c t)) (q @ [?c])" using cl by simp
  show ?thesis
  proof (cases "a = BROADCAST_ADDR")
    case True
    from submit_rel [OF ub run [unfolded if_P [OF True]]] show ?thesis .
  next
    case False
    show ?thesis
    proof (cases "find_mac a (claim ?c t)")
      case None
      then show ?thesis using run False take_back_rel [OF cl] by auto
    next
      case (Some mac)
      from submit_rel [OF cl run [unfolded if_not_P [OF False] Some option.case]] show ?thesis .
    qed
  qed
qed

lemma on_send_rel:
  assumes "tx_rel t (c # q)"
  shows "tx_rel (on_send success t) q"
proof -
  let ?r = "en_tx_ring_read t"
  have r: "length (en_tx_slot_class t) = 28" "?r < 28" "en_tx_ring_write t = (?r + Suc (length q)) mod 28" "Suc (length q) \<le> 28"
    "\<And>i. i < Suc (length q) \<Longrightarrow> en_tx_slot_class t ! ((?r + i) mod 28) = (c # q) ! i"
    using assms by (simp_all add: tx_rel_def ring_rel_def)
  have c: "en_tx_slot_class t ! ?r = c" using r(5) [of 0] r(2) by simp
  let ?t = "give_slot c (t\<lparr>en_tx_ring_read := (?r + 1) mod 28\<rparr>)"
  have s: "slots_of d (t\<lparr>en_tx_ring_read := w\<rparr>) = slots_of d t" for d w by (simp add: slots_of_def)
  have "pools_rel ?t q" using pools_rel_give [of t "[]" c q] assms s by (simp add: tx_rel_def)
  moreover have "ring_rel ?t q"
    using r(1,3,4) r(5) [of "Suc _"] by (simp add: ring_rel_def mod_simps)
  ultimately have "tx_rel ?t q" using assms by (simp add: tx_rel_def)
  moreover have "tx_rel (on_send success t) q = tx_rel ?t q"
    using assms by (intro tx_rel_same) (simp_all add: on_send_def tx_rel_def Let_def c)
  ultimately show ?thesis by simp
qed

section \<open>Flow control\<close>

text \<open>
  A history of sends and send callbacks. ESP-NOW calls back once for every frame it has accepted,
  so a callback without a frame in flight does not happen. The second component collects the
  classes of the frames in flight.
\<close>

datatype tx_event = Send_frame NowEnv u16 bytes | Sent bool

fun tx_event_step :: "tx_event \<Rightarrow> EspNowTransport \<times> bool list \<Rightarrow> EspNowTransport \<times> bool list" where
  "tx_event_step (Send_frame e a frame) (t, q) =
     (let (rc, t') = espnow_send e a frame t in (t', if rc = TRANSPORT_SEND_OK then q @ [is_ctrl_frame frame] else q))"
| "tx_event_step (Sent success) (t, []) = (t, [])"
| "tx_event_step (Sent success) (t, c # q) = (on_send success t, q)"

lemma tx_event_step_rel:
  assumes "tx_rel t q" and "tx_event_step ev (t, q) = (t', q')"
  shows "tx_rel t' q'"
proof (cases ev)
  case (Send_frame e a frame)
  obtain rc t1 where s: "espnow_send e a frame t = (rc, t1)" by (meson surj_pair)
  with assms(2) Send_frame show ?thesis using espnow_send_rel [OF assms(1) s] by auto
next
  case (Sent success)
  show ?thesis
  proof (cases q)
    case (Cons c r)
    then show ?thesis using assms Sent on_send_rel [of t c r success] by simp
  qed (use assms Sent in simp)
qed

lemma tx_events_rel: "tx_rel t q \<Longrightarrow> fold tx_event_step evs (t, q) = (t', q') \<Longrightarrow> tx_rel t' q'"
proof (induction evs arbitrary: t q)
  case (Cons ev evs)
  obtain t1 q1 where s: "tx_event_step ev (t, q) = (t1, q1)" by (meson surj_pair)
  then have "fold tx_event_step evs (t1, q1) = (t', q')" using Cons.prems(2) by simp
  from Cons.IH [OF tx_event_step_rel [OF Cons.prems(1) s] this] show ?case .
qed simp

lemma espnow_init_rel:
  assumes "en_initialized (espnow_init e EspNowTransport_new)"
  shows "tx_rel (espnow_init e EspNowTransport_new) []"
proof -
  have "nw_queue_ok e" "nw_ctrl_sem_ok e" "nw_data_sem_ok e" "nw_init_ok e"
    using assms by (auto simp: espnow_init_def EspNowTransport_new_def Let_def split: if_splits)
  then show ?thesis
    by (simp add: espnow_init_def EspNowTransport_new_def Let_def now_log_def tx_rel_def ring_rel_def pools_rel_def slots_of_def slot_depth_def)
qed

text \<open>What a send to \<open>a\<close> returns while no slot is missing: ESP-NOW's answer to the call the driver makes next.\<close>

definition now_answer :: "NowEnv \<Rightarrow> u16 \<Rightarrow> EspNowTransport \<Rightarrow> int" where
  "now_answer e a t = (case nw_send e (length (en_calls (if a = BROADCAST_ADDR \<and> \<not> nw_bcast_exists e then update_broadcast_peer t else t))) of
       Now_ok \<Rightarrow> TRANSPORT_SEND_OK | Now_no_mem \<Rightarrow> SEND_BACKPRESSURE | Now_error \<Rightarrow> TRANSPORT_SEND_FAILED)"

lemma set_slots_other [simp]:
  "en_calls (set_slots c n t) = en_calls t" "en_initialized (set_slots c n t) = en_initialized t"
  by (simp_all add: set_slots_def)

lemma fst_submit:
  "fst (submit e c mac frame t) = (case nw_send e (length (en_calls t)) of
     Now_ok \<Rightarrow> TRANSPORT_SEND_OK | Now_no_mem \<Rightarrow> SEND_BACKPRESSURE | Now_error \<Rightarrow> TRANSPORT_SEND_FAILED)"
  by (simp add: submit_def Let_def split: now_err.split)

lemma espnow_send_outcome:
  "fst (espnow_send e a frame t) =
     (if ESP_NOW_MAX_DATA_LEN_V2 < length frame then TRANSPORT_SEND_FAILED
      else if slots_of (is_ctrl_frame frame) t = Some 0 then SEND_BACKPRESSURE
      else if a \<noteq> BROADCAST_ADDR \<and> find_mac a t = None then TRANSPORT_SEND_FAILED
      else now_answer e a t)"
  by (auto simp: espnow_send_def Let_def fst_submit now_answer_def update_broadcast_peer_def now_log_def find_mac_def split: option.split)

text \<open>
  C10. Flow control of the ESP-NOW driver. After any history of sends, failures and callbacks the free
  slots of each pool are those not held by frames of its class in flight, and the ring, which has
  28 places, holds exactly their classes in order. What the next send returns, to any address and for any
  frame, is then this: a frame of more than 1470 bytes fails; otherwise it is refused with backpressure
  if all slots of its own class are in flight, whatever the other class holds, so that data frames never
  hold back a control frame; otherwise a frame to an address that is neither broadcast nor a known peer
  fails; otherwise the answer is that of \<open>esp_now_send\<close>: accepted, backpressure when it is out of memory,
  failed on every other error.
\<close>

theorem espnow_flow_control:
  assumes "en_initialized (espnow_init e0 EspNowTransport_new)"
    and "fold tx_event_step evs (espnow_init e0 EspNowTransport_new, []) = (t, q)"
  shows "en_tx_ctrl_slots t = Some (TX_CTRL_DEPTH - count_list q True) \<and> en_tx_data_slots t = Some (TX_DATA_DEPTH - count_list q False) \<and>
    length q \<le> TX_SLOT_DEPTH \<and> map (\<lambda>i. en_tx_slot_class t ! ((en_tx_ring_read t + i) mod TX_SLOT_DEPTH)) [0..<length q] = q \<and>
    fst (espnow_send e a frame t) =
      (if ESP_NOW_MAX_DATA_LEN_V2 < length frame then TRANSPORT_SEND_FAILED
       else if count_list q (is_ctrl_frame frame) = slot_depth (is_ctrl_frame frame) then SEND_BACKPRESSURE
       else if a \<noteq> BROADCAST_ADDR \<and> find_mac a t = None then TRANSPORT_SEND_FAILED
       else now_answer e a t)"
proof -
  have r: "tx_rel t q" using tx_events_rel [OF espnow_init_rel [OF assms(1)] assms(2)] .
  then have p: "count_list q c \<le> slot_depth c" "slots_of c t = Some (slot_depth c - count_list q c)" for c
    by (simp_all add: tx_rel_def pools_rel_def)
  have s: "en_tx_ctrl_slots t = Some (8 - count_list q True)" "en_tx_data_slots t = Some (20 - count_list q False)"
    using p(2) [of True] p(2) [of False] by (simp_all add: slots_of_def slot_depth_def)
  have l: "length q \<le> 28" "map (\<lambda>i. en_tx_slot_class t ! ((en_tx_ring_read t + i) mod 28)) [0..<length q] = q"
    using r by (auto simp: tx_rel_def ring_rel_def intro: nth_equalityI)
  have "slots_of (is_ctrl_frame frame) t = Some 0 \<longleftrightarrow> count_list q (is_ctrl_frame frame) = slot_depth (is_ctrl_frame frame)"
    using p [of "is_ctrl_frame frame"] by auto
  with s l show ?thesis by (simp add: espnow_send_outcome)
qed

definition ex_now :: NowEnv where
  "ex_now = \<lparr>nw_now = 5, nw_send = (\<lambda>_. Now_ok), nw_bcast_exists = True, nw_mac = [1, 2, 3, 4, 5, 6], nw_queue_ok = True,
     nw_ctrl_sem_ok = True, nw_data_sem_ok = True, nw_init_ok = True\<rparr>"

theorem espnow_flow_control_witness:
  "\<exists>t q. fold tx_event_step [Send_frame ex_now BROADCAST_ADDR [0x01], Send_frame ex_now BROADCAST_ADDR [0x02], Sent True]
       (espnow_init ex_now EspNowTransport_new, []) = (t, q) \<and>
     en_tx_ctrl_slots t = Some (TX_CTRL_DEPTH - count_list q True) \<and>
     fst (espnow_send ex_now BROADCAST_ADDR (replicate 1471 0) t) = TRANSPORT_SEND_FAILED"
proof -
  let ?evs = "[Send_frame ex_now BROADCAST_ADDR [0x01], Send_frame ex_now BROADCAST_ADDR [0x02], Sent True]"
  obtain t q where r: "fold tx_event_step ?evs (espnow_init ex_now EspNowTransport_new, []) = (t, q)" by (meson surj_pair)
  have "en_initialized (espnow_init ex_now EspNowTransport_new)"
    by (simp add: espnow_init_def ex_now_def EspNowTransport_new_def now_log_def)
  from espnow_flow_control [OF this r, of ex_now BROADCAST_ADDR "replicate 1471 0"] r show ?thesis by auto
qed

section \<open>The peer table\<close>

definition peers_ok :: "EspNowTransport \<Rightarrow> bool" where
  "peers_ok t \<longleftrightarrow> length (en_peers t) = ESPNOW_MAX_PEERS \<and> distinct (map pi_addr (filter pi_active (en_peers t))) \<and>
     (\<forall>p \<in> set (en_peers t). pi_active p \<longrightarrow> pi_addr p = addr_from_mac (pi_mac p)) \<and>
     unat (en_peer_count t) = length (filter pi_active (en_peers t))"

lemma update_first_split:
  "list_ex P xs \<Longrightarrow> \<exists>ys x zs. xs = ys @ x # zs \<and> P x \<and> (\<forall>f. update_first P f xs = ys @ f x # zs)"
proof (induction xs)
  case (Cons a xs)
  show ?case
  proof (cases "P a")
    case True
    then have "a # xs = [] @ a # xs \<and> P a \<and> (\<forall>f. update_first P f (a # xs) = [] @ f a # xs)" by simp
    then show ?thesis by blast
  next
    case False
    then have "list_ex P xs" using Cons.prems by simp
    with Cons.IH obtain ys x zs where "xs = ys @ x # zs" "P x" "\<forall>f. update_first P f xs = ys @ f x # zs" by blast
    with False have "a # xs = (a # ys) @ x # zs \<and> P x \<and> (\<forall>f. update_first P f (a # xs) = (a # ys) @ f x # zs)" by simp
    then show ?thesis by blast
  qed
qed simp

lemma peers_ok_replace:
  assumes "peers_ok t" and "length L = length (en_peers t)" and "map pi_addr (filter pi_active L) = map pi_addr (filter pi_active (en_peers t))"
    and "\<And>p. p \<in> set L \<Longrightarrow> pi_active p \<Longrightarrow> pi_addr p = addr_from_mac (pi_mac p)"
  shows "peers_ok (t\<lparr>en_peers := L\<rparr>)"
proof -
  have "length (filter pi_active L) = length (filter pi_active (en_peers t))" using arg_cong [OF assms(3), of length] by simp
  then show ?thesis using assms(1,2,4) unfolding peers_ok_def by (simp add: assms(3))
qed

lemma add_peer_ok:
  assumes "peers_ok t"
  shows "peers_ok (add_peer_if_new mac rssi t)"
proof -
  let ?known = "\<lambda>p. pi_active p \<and> pi_addr p = addr_from_mac mac"
  consider (known) "list_ex ?known (en_peers t)" | (free) "\<not> list_ex ?known (en_peers t)" "list_ex (\<lambda>p. \<not> pi_active p) (en_peers t)"
    | (full) "\<not> list_ex ?known (en_peers t)" "\<not> list_ex (\<lambda>p. \<not> pi_active p) (en_peers t)" by blast
  then show ?thesis
  proof cases
    case known
    obtain ys x zs where s: "en_peers t = ys @ x # zs" "?known x" "\<forall>f. update_first ?known f (en_peers t) = ys @ f x # zs"
      using update_first_split [OF known] by blast
    have "add_peer_if_new mac rssi t = t\<lparr>en_peers := ys @ x\<lparr>pi_rssi := rssi\<rparr> # zs\<rparr>"
      unfolding add_peer_if_new_def Let_def if_P [OF known] by (simp only: s(3))
    moreover have "peers_ok (t\<lparr>en_peers := ys @ x\<lparr>pi_rssi := rssi\<rparr> # zs\<rparr>)"
      by (rule peers_ok_replace [OF assms]) (use assms s(1,2) in \<open>auto simp: peers_ok_def\<close>)
    ultimately show ?thesis by simp
  next
    case free
    obtain ys x zs where s: "en_peers t = ys @ x # zs" "\<not> pi_active x" "\<forall>f. update_first (\<lambda>p. \<not> pi_active p) f (en_peers t) = ys @ f x # zs"
      using update_first_split [OF free(2)] by blast
    have c: "length (filter pi_active ys) + length (filter pi_active zs) \<le> length ys + length zs"
      by (intro add_mono length_filter_le)
    have "length ys + length zs = 19" using assms s(1) by (simp add: peers_ok_def)
    moreover have "unat (en_peer_count t) = length (filter pi_active ys) + length (filter pi_active zs)"
      using assms s(1,2) by (simp add: peers_ok_def)
    ultimately have u: "unat (en_peer_count t + 1) = unat (en_peer_count t) + 1"
      using c unat_plus_if_size [of "en_peer_count t" 1] by (simp add: word_size)
    let ?p = "\<lparr>pi_mac = mac, pi_addr = addr_from_mac mac, pi_rssi = rssi, pi_active = True\<rparr>"
    have "add_peer_if_new mac rssi t = now_log (Now_add_peer mac) (t\<lparr>en_peers := ys @ ?p # zs, en_peer_count := en_peer_count t + 1\<rparr>)"
      unfolding add_peer_if_new_def Let_def if_not_P [OF free(1)] if_P [OF free(2)] by (simp only: s(3))
    then show ?thesis using assms s(1,2) free(1) u by (auto simp: peers_ok_def now_log_def list_ex_iff)
  next
    case full
    then show ?thesis using assms by (simp add: add_peer_if_new_def Let_def)
  qed
qed

lemma drain_pending_peers_ok: "peers_ok t \<Longrightarrow> peers_ok (drain_pending_peers t)"
proof -
  have "peers_ok (fold (\<lambda>p. add_peer_if_new (pp_mac p) (pp_rssi p)) ps t)" if "peers_ok t" for ps :: "PendingPeer list" and t
    using that add_peer_ok by (induction ps arbitrary: t) auto
  moreover have "peers_ok (t\<lparr>en_pending := ps\<rparr>) = peers_ok t" for ps by (simp add: peers_ok_def)
  ultimately show "peers_ok t \<Longrightarrow> peers_ok (drain_pending_peers t)" by (cases "en_pending t") (simp_all add: drain_pending_peers_def)
qed

lemma find_mac_addr: "peers_ok t \<Longrightarrow> find_mac a t = Some mac \<Longrightarrow> addr_from_mac mac = a"
  by (auto simp: find_mac_def peers_ok_def find_Some_iff)

lemma add_peer_found:
  assumes "peers_ok t" and "en_peer_count t \<noteq> 20"
  shows "\<exists>m. find_mac (addr_from_mac mac) (add_peer_if_new mac rssi t) = Some m"
proof -
  let ?known = "\<lambda>p. pi_active p \<and> pi_addr p = addr_from_mac mac"
  have "\<exists>p \<in> set (en_peers (add_peer_if_new mac rssi t)). ?known p"
  proof (cases "list_ex ?known (en_peers t)")
    case True
    obtain ys x zs where s: "en_peers t = ys @ x # zs" "?known x" "\<forall>f. update_first ?known f (en_peers t) = ys @ f x # zs"
      using update_first_split [OF True] by blast
    show ?thesis unfolding add_peer_if_new_def Let_def if_P [OF True] using s(2,3) by simp
  next
    case False
    have "list_ex (\<lambda>p. \<not> pi_active p) (en_peers t)"
    proof (rule ccontr)
      assume "\<not> list_ex (\<lambda>p. \<not> pi_active p) (en_peers t)"
      then have "filter pi_active (en_peers t) = en_peers t" by (auto simp: list_ex_iff filter_id_conv)
      then have "unat (en_peer_count t) = unat (20 :: u8)" using assms(1) by (simp add: peers_ok_def)
      then show False using assms(2) by (simp only: word_unat_eq_iff)
    qed
    from update_first_split [OF this] obtain ys x zs where
      s: "\<forall>f. update_first (\<lambda>p. \<not> pi_active p) f (en_peers t) = ys @ f x # zs" by blast
    then show ?thesis using False \<open>list_ex (\<lambda>p. \<not> pi_active p) (en_peers t)\<close> by (simp add: add_peer_if_new_def Let_def now_log_def)
  qed
  then have "List.find ?known (en_peers (add_peer_if_new mac rssi t)) \<noteq> None" unfolding find_None_iff by blast
  then show ?thesis by (auto simp: find_mac_def)
qed

section \<open>Reception loses no slab\<close>

text \<open>
  Receiving a frame keeps every slab accounted for. If a slab was free and the queue for the type of
  the packet has room, the slab is appended to that queue and holds exactly the received bytes;
  otherwise the frame is dropped and the queues are unchanged.
\<close>

theorem espnow_recv_delivers:
  assumes "rx_inv (q, p)" and "rq_dual q" and "en_instance t" and "frame \<noteq> []" and "length frame \<le> MAX_MTU"
    and "espnow_on_recv src rssi frame (t, q, p) = (t', q', p')"
  defines "queue \<equiv> (if is_high_pri (hd frame) then rq_hi else rq_lo)"
  shows "rx_inv (q', p') \<and>
    (if (\<exists>i < POOL_SIZE. refs p i = 0) \<and> length (queue q) < kQueueDepth
     then \<exists>slab. queue q' = queue q @ [slab] \<and> slab_bytes (the (bp_slabs p') ! nat slab) = frame
     else rq_hi q' = rq_hi q \<and> rq_lo q' = rq_lo q)"
proof -
  have inv: "pool_inv p" using assms(1) by (simp add: rx_inv_def)
  obtain so p1 where a: "pool_acquire p = (so, p1)" by (meson surj_pair)
  have e: "(q', p') = (case so of None \<Rightarrow> (q, p1) | Some slab \<Rightarrow> rx_enqueue slab frame
       (q, fill_slab slab (\<lambda>b. b\<lparr>bs_len := length frame, bs_data := write_at 0 frame (bs_data b), bs_source := ESPNOW,
          bs_rssi := (case rssi of Some r \<Rightarrow> r | None \<Rightarrow> - 90)\<rparr>) p1))"
    using assms(3-6) a by (auto simp: espnow_on_recv_def Let_def split: option.splits)
  show ?thesis
  proof (cases so)
    case None
    then have "(\<forall>i < POOL_SIZE. 0 < refs p i) \<and> refs p1 = refs p \<and> pool_inv p1" using bpool.acquire_None [OF inv] a by blast
    then show ?thesis using e None assms(1) by (auto simp: rx_inv_def)
  next
    case (Some slab)
    then obtain i where i: "i < POOL_SIZE" "slab = int i" "refs p i = 0" "refs p1 = (refs p)(i := 1)" "pool_inv p1"
      using bpool.acquire_Some [OF inv] a by blast
    define f :: "BufferSlab \<Rightarrow> BufferSlab" where "f = (\<lambda>b. b\<lparr>bs_len := length frame, bs_data := write_at 0 frame (bs_data b), bs_source := ESPNOW,
          bs_rssi := (case rssi of Some r \<Rightarrow> r | None \<Rightarrow> - 90)\<rparr>)"
    have "0 < refs p1 (nat slab)" using i by simp
    note fl = fill_slab_pool [OF i(5) this, of f]
    have e': "(q', p') = rx_enqueue (int i) frame (q, fill_slab (int i) f p1)" using e Some i(2) by (simp add: f_def)
    have inv': "rx_inv (q', p')"
      unfolding e' by (rule rx_enqueue_inv [OF _ assms(1) i(1,3)]) (use fl i(2,4) assms(2,4) in \<open>simp_all add: f_def\<close>)
    obtain ss where ss: "bp_slabs p1 = Some ss" "length ss = POOL_SIZE" using i(5) by (auto simp: pool_inv_def pool_rel_def)
    have data: "slab_bytes (the (bp_slabs (fill_slab (int i) f p1)) ! i) = frame"
      using ss i(1) by (simp add: fill_slab_def f_def slab_bytes_def write_at_def)
    have q: "(\<exists>slab. queue q' = queue q @ [slab] \<and> slab_bytes (the (bp_slabs p') ! nat slab) = frame)" if "length (queue q) < kQueueDepth"
      using e' that assms(2,4) data by (auto simp: rx_enqueue_def queue_def split: if_splits)
    have "rq_hi q' = rq_hi q \<and> rq_lo q' = rq_lo q" if "\<not> length (queue q) < kQueueDepth"
      using e' that assms(2,4) by (auto simp: rx_enqueue_def queue_def split: if_splits)
    then show ?thesis using inv' q i(1,3) by auto
  qed
qed

definition ex_pool :: BufferPool where
  "ex_pool = the (pool_init (Some (\<lambda>_. [])) BufferPool_new)"

definition ex_queues :: RxQueues where
  "ex_queues = \<lparr>rq_dual = True, rq_hi = [], rq_lo = []\<rparr>"

lemma ex_rx_inv: "rx_inv (ex_queues, ex_pool)"
proof -
  have i: "pool_init (Some (\<lambda>_. [])) BufferPool_new = Some ex_pool" by (simp add: ex_pool_def pool_init_def)
  have "refs ex_pool k = 0" for k by (simp add: refs_def ex_pool_def pool_init_def init_slab_def)
  moreover have "pool_inv ex_pool" using pool_init_rel [OF i] by (auto simp: pool_inv_def)
  ultimately show ?thesis by (simp add: rx_inv_def ex_queues_def)
qed

theorem espnow_recv_delivers_witness:
  "\<exists>t q p. espnow_on_recv [1, 2, 3, 4, 5, 6] None [0x41, 7] (EspNowTransport_new\<lparr>en_instance := True\<rparr>, ex_queues, ex_pool) = (t, q, p) \<and>
     rx_inv (q, p) \<and> (\<exists>slab. rq_lo q = [slab] \<and> slab_bytes (the (bp_slabs p) ! nat slab) = [0x41, 7])"
proof -
  obtain t q p where r: "espnow_on_recv [1, 2, 3, 4, 5, 6] None [0x41, 7] (EspNowTransport_new\<lparr>en_instance := True\<rparr>, ex_queues, ex_pool) = (t, q, p)"
    by (metis surj_pair)
  have h: "\<not> is_high_pri 0x41" by (simp add: is_high_pri_def)
  have "refs ex_pool 0 = 0" using ex_rx_inv by (simp add: rx_inv_def ex_queues_def)
  then have "\<exists>i < POOL_SIZE. refs ex_pool i = 0" by (intro exI [of _ 0]) simp
  with espnow_recv_delivers [OF ex_rx_inv _ _ _ _ r] h r show ?thesis by (auto simp: ex_queues_def)
qed

end
