(* ===== verification/Lora_Transport.thy ===== *)
theory Lora_Transport
  imports Radio_Rx Float32
begin

text \<open>
  The LoRa driver (\<^verbatim>\<open>components/lora/lora_transport.cpp\<close>) for the SX1280 radio. The radio is
  observed through its SPI interface and the two pins of the RF switch: the model logs every SPI
  transaction and pin change in order. What the radio answers, whether a mutex is obtained in time
  and whether \<open>TxDone\<close> arrives are given by the environment. Delays, the wait for the BUSY pin and the
  configuration of GPIO and SPI peripherals are left out.

  Shown are that the radio is back in continuous reception with the spreading factor that the
  driver believes in after any sequence of operations, what a transmission puts on the SPI bus, the
  accuracy of the programmed frequency, and that reception keeps the slabs accounted for, except
  for an empty packet that finds the queue full.
\<close>

unbundle bit_operations_syntax

section \<open>The chip interface\<close>

abbreviation (input) LORA_MAX_PACKET :: nat where "LORA_MAX_PACKET \<equiv> 255"
abbreviation (input) CMD_SET_SLEEP :: u8 where "CMD_SET_SLEEP \<equiv> 0x84"
abbreviation (input) CMD_SET_STANDBY :: u8 where "CMD_SET_STANDBY \<equiv> 0x80"
abbreviation (input) CMD_SET_TX :: u8 where "CMD_SET_TX \<equiv> 0x83"
abbreviation (input) CMD_SET_RX :: u8 where "CMD_SET_RX \<equiv> 0x82"
abbreviation (input) CMD_SET_RF_FREQUENCY :: u8 where "CMD_SET_RF_FREQUENCY \<equiv> 0x86"
abbreviation (input) CMD_SET_PACKET_TYPE :: u8 where "CMD_SET_PACKET_TYPE \<equiv> 0x8A"
abbreviation (input) CMD_SET_MOD_PARAMS :: u8 where "CMD_SET_MOD_PARAMS \<equiv> 0x8B"
abbreviation (input) CMD_SET_PACKET_PARAMS :: u8 where "CMD_SET_PACKET_PARAMS \<equiv> 0x8C"
abbreviation (input) CMD_SET_TX_PARAMS :: u8 where "CMD_SET_TX_PARAMS \<equiv> 0x8E"
abbreviation (input) CMD_SET_BUFFER_BASE :: u8 where "CMD_SET_BUFFER_BASE \<equiv> 0x8F"
abbreviation (input) CMD_SET_DIO_IRQ_PARAMS :: u8 where "CMD_SET_DIO_IRQ_PARAMS \<equiv> 0x8D"
abbreviation (input) CMD_GET_IRQ_STATUS :: u8 where "CMD_GET_IRQ_STATUS \<equiv> 0x15"
abbreviation (input) CMD_CLR_IRQ_STATUS :: u8 where "CMD_CLR_IRQ_STATUS \<equiv> 0x97"
abbreviation (input) CMD_GET_RX_BUFFER_STATUS :: u8 where "CMD_GET_RX_BUFFER_STATUS \<equiv> 0x17"
abbreviation (input) CMD_GET_PACKET_STATUS :: u8 where "CMD_GET_PACKET_STATUS \<equiv> 0x1D"
abbreviation (input) CMD_WRITE_BUFFER :: u8 where "CMD_WRITE_BUFFER \<equiv> 0x1A"
abbreviation (input) CMD_READ_BUFFER :: u8 where "CMD_READ_BUFFER \<equiv> 0x1B"
abbreviation (input) CMD_READ_REGISTER :: u8 where "CMD_READ_REGISTER \<equiv> 0x19"
abbreviation (input) IRQ_TX_DONE :: u16 where "IRQ_TX_DONE \<equiv> 0x0001"
abbreviation (input) IRQ_RX_DONE :: u16 where "IRQ_RX_DONE \<equiv> 0x0002"
abbreviation (input) IRQ_CRC_ERROR :: u16 where "IRQ_CRC_ERROR \<equiv> 0x0040"

datatype lora_op = Spi bytes | Rx_en bool | Tx_en bool | Reset

record LoraTransport =
  lt_rf_switch :: bool
  lt_mutexes :: bool
  lt_spi :: bool
  lt_rx_task :: bool
  lt_initialized :: bool
  lt_current_sf :: u8
  lt_ops :: "lora_op list"

definition LoraTransport_new :: LoraTransport where
  "LoraTransport_new = \<lparr>lt_rf_switch = False, lt_mutexes = False, lt_spi = False, lt_rx_task = False, lt_initialized = False,
     lt_current_sf = 7, lt_ops = []\<rparr>"

text \<open>
  \<open>le_spi_mutex n\<close> tells whether the SPI mutex is obtained when \<open>n\<close> operations have been logged, and
  \<open>le_answer n\<close> what is then read (arbitrary bytes when the mutex is not obtained).
\<close>

record LoraEnv =
  le_spi_mutex :: "nat \<Rightarrow> bool"
  le_answer :: "nat \<Rightarrow> bytes"
  le_radio_mutex :: bool
  le_tx_done :: bool
  le_dio1 :: bool
  le_lilygo :: bool
  le_sems_ok :: bool
  le_bus_ok :: bool
  le_device_ok :: bool

definition lora_log :: "lora_op \<Rightarrow> LoraTransport \<Rightarrow> LoraTransport" where
  "lora_log x t = t\<lparr>lt_ops := lt_ops t @ [x]\<rparr>"

definition spi_transmit :: "LoraEnv \<Rightarrow> bytes \<Rightarrow> LoraTransport \<Rightarrow> LoraTransport" where
  "spi_transmit e tx t = (if le_spi_mutex e (length (lt_ops t)) then lora_log (Spi tx) t else t)"

definition spi_answer :: "LoraEnv \<Rightarrow> nat \<Rightarrow> nat \<Rightarrow> LoraTransport \<Rightarrow> bytes" where
  "spi_answer e skip len t = take len (drop skip (le_answer e (length (lt_ops t)) @ replicate (skip + len) 0))"

definition set_rf_switch_idle :: "LoraTransport \<Rightarrow> LoraTransport" where
  "set_rf_switch_idle t = (if lt_rf_switch t then lora_log (Tx_en False) (lora_log (Rx_en False) t) else t)"

definition set_rf_switch_rx :: "LoraTransport \<Rightarrow> LoraTransport" where
  "set_rf_switch_rx t = (if lt_rf_switch t then lora_log (Rx_en True) (lora_log (Tx_en False) t) else t)"

definition set_rf_switch_tx :: "LoraTransport \<Rightarrow> LoraTransport" where
  "set_rf_switch_tx t = (if lt_rf_switch t then lora_log (Tx_en True) (lora_log (Rx_en False) t) else t)"

definition write_command :: "LoraEnv \<Rightarrow> u8 \<Rightarrow> bytes \<Rightarrow> LoraTransport \<Rightarrow> LoraTransport" where
  "write_command e cmd params t = spi_transmit e (cmd # params) t"

definition read_command :: "LoraEnv \<Rightarrow> u8 \<Rightarrow> nat \<Rightarrow> LoraTransport \<Rightarrow> bytes \<times> LoraTransport" where
  "read_command e cmd len t = (spi_answer e 2 len t, spi_transmit e (cmd # replicate (1 + len) 0) t)"

definition write_buffer :: "LoraEnv \<Rightarrow> u8 \<Rightarrow> bytes \<Rightarrow> LoraTransport \<Rightarrow> LoraTransport" where
  "write_buffer e offset data t = spi_transmit e (CMD_WRITE_BUFFER # offset # data) t"

definition read_buffer :: "LoraEnv \<Rightarrow> u8 \<Rightarrow> nat \<Rightarrow> LoraTransport \<Rightarrow> bytes \<times> LoraTransport" where
  "read_buffer e offset len t = (spi_answer e 3 len t, spi_transmit e (CMD_READ_BUFFER # offset # replicate (1 + len) 0) t)"

definition read_register :: "LoraEnv \<Rightarrow> u16 \<Rightarrow> nat \<Rightarrow> LoraTransport \<Rightarrow> bytes \<times> LoraTransport" where
  "read_register e addr len t =
     (spi_answer e 4 len t, spi_transmit e (CMD_READ_REGISTER # ucast (drop_bit 8 addr) # ucast addr # replicate (1 + len) 0) t)"

definition reset_chip :: "LoraTransport \<Rightarrow> LoraTransport" where
  "reset_chip t = lora_log Reset t"

section \<open>Chip control\<close>

text \<open>\<open>(double) freq_hz / 52000000.0 * (1 << 18)\<close>: the quotient is rounded to 53 significant bits, the product is exact.\<close>

definition rnd64_pos :: "rat \<Rightarrow> rat" where
  "rnd64_pos x = (let u = 2 powi (expo x - 52) in of_int (round_half_even (x / u)) * u)"

definition rf_freq :: "u32 \<Rightarrow> u32" where
  "rf_freq freq_hz = (if freq_hz = 0 then 0 else of_int \<lfloor>rnd64_pos (of_nat (unat freq_hz) / 52000000) * 2 ^ 18\<rfloor>)"

definition set_frequency :: "LoraEnv \<Rightarrow> u32 \<Rightarrow> LoraTransport \<Rightarrow> LoraTransport" where
  "set_frequency e freq_hz t = (let f = rf_freq freq_hz
     in write_command e CMD_SET_RF_FREQUENCY [ucast (drop_bit 16 f), ucast (drop_bit 8 f), ucast f] t)"

definition set_tx_power :: "LoraEnv \<Rightarrow> i8 \<Rightarrow> LoraTransport \<Rightarrow> LoraTransport" where
  "set_tx_power e dbm t =
     (let d1 = (if sint dbm < - 18 then - 18 else sint dbm); d = (if 13 < d1 then 13 else d1)
      in write_command e CMD_SET_TX_PARAMS [of_int (d + 18), 0xE0] t)"

definition set_modulation_params :: "LoraEnv \<Rightarrow> u8 \<Rightarrow> u8 \<Rightarrow> u8 \<Rightarrow> LoraTransport \<Rightarrow> LoraTransport" where
  "set_modulation_params e sf bw cr t = write_command e CMD_SET_MOD_PARAMS [sf, bw, cr] t"

definition set_packet_params :: "LoraEnv \<Rightarrow> u8 \<Rightarrow> LoraTransport \<Rightarrow> LoraTransport" where
  "set_packet_params e payload_len t = write_command e CMD_SET_PACKET_PARAMS [0x20, 0x00, payload_len, 0x20, 0x40] t"

definition set_dio_irq :: "LoraEnv \<Rightarrow> u16 \<Rightarrow> LoraTransport \<Rightarrow> LoraTransport" where
  "set_dio_irq e irq_mask t = write_command e CMD_SET_DIO_IRQ_PARAMS
     [ucast (drop_bit 8 irq_mask), ucast irq_mask, ucast (drop_bit 8 irq_mask), ucast irq_mask, 0, 0, 0, 0] t"

definition enter_rx_continuous :: "LoraEnv \<Rightarrow> LoraTransport \<Rightarrow> LoraTransport" where
  "enter_rx_continuous e t =
     write_command e CMD_SET_RX [0x00, 0xFF, 0xFF]
       (write_command e CMD_CLR_IRQ_STATUS [0xFF, 0xFF]
         (set_dio_irq e (IRQ_TX_DONE OR IRQ_RX_DONE OR IRQ_CRC_ERROR)
           (set_packet_params e (of_nat LORA_MAX_PACKET) (set_rf_switch_rx t))))"

section \<open>Life cycle and configuration\<close>

definition cleanup_partial_init :: "LoraTransport \<Rightarrow> LoraTransport" where
  "cleanup_partial_init t = t\<lparr>lt_rx_task := False, lt_spi := False, lt_mutexes := False\<rparr>"

definition lora_init :: "LoraEnv \<Rightarrow> LoraTransport \<Rightarrow> LoraTransport" where
  "lora_init e t =
     (if lt_initialized t then t
      else if \<not> le_sems_ok e then cleanup_partial_init t
      else
        let t1 = t\<lparr>lt_mutexes := True, lt_rf_switch := lt_rf_switch t \<or> le_lilygo e\<rparr>; t2 = set_rf_switch_idle t1
        in if \<not> le_bus_ok e \<or> \<not> le_device_ok e then cleanup_partial_init t2
           else
             let t3 = write_command e CMD_SET_STANDBY [0x00] (reset_chip (t2\<lparr>lt_spi := True\<rparr>));
                 (fw, t4) = read_register e 0x0153 2 t3
             in if fw ! 0 = 0x00 \<or> fw ! 0 = 0xFF then cleanup_partial_init t4
                else
                  let t5 = write_command e CMD_SET_PACKET_TYPE [0x01] t4;
                      t6 = set_modulation_params e 0x70 0x18 0x01 (set_frequency e 2450000000 t5);
                      t7 = write_command e CMD_SET_BUFFER_BASE [0x00, 0x00] (set_tx_power e 13 t6)
                  in (enter_rx_continuous e (t7\<lparr>lt_rx_task := True\<rparr>))\<lparr>lt_initialized := True\<rparr>)"

definition lora_deinit :: "LoraEnv \<Rightarrow> LoraTransport \<Rightarrow> LoraTransport" where
  "lora_deinit e t =
     (if \<not> lt_initialized t then t
      else (cleanup_partial_init (set_rf_switch_idle (write_command e CMD_SET_SLEEP [0x00] t)))\<lparr>lt_initialized := False\<rparr>)"

definition sf_register :: "u8 \<Rightarrow> u8" where
  "sf_register sf = (if sf \<le> 5 then 0x50 else if sf \<le> 6 then 0x60 else if sf \<le> 7 then 0x70 else if sf \<le> 8 then 0x80
     else if sf \<le> 9 then 0x90 else if sf \<le> 10 then 0xA0 else if sf \<le> 11 then 0xB0 else 0xC0)"

definition bw_register :: "u32 \<Rightarrow> u8" where
  "bw_register bw = (if bw \<le> 200000 then 0x34 else if bw \<le> 400000 then 0x26 else if bw \<le> 800000 then 0x18 else 0x0A)"

definition configure :: "LoraEnv \<Rightarrow> u32 \<Rightarrow> u8 \<Rightarrow> u32 \<Rightarrow> LoraTransport \<Rightarrow> LoraTransport" where
  "configure e freq_hz sf bw_hz t =
     (if \<not> lt_initialized t then t
      else enter_rx_continuous e (set_modulation_params e (sf_register sf) (bw_register bw_hz) 0x01
             (set_frequency e freq_hz (write_command e CMD_SET_STANDBY [0x00] t))))"

definition set_spreading_factor :: "LoraEnv \<Rightarrow> u8 \<Rightarrow> LoraTransport \<Rightarrow> LoraTransport" where
  "set_spreading_factor e sf0 t =
     (if \<not> lt_initialized t then t
      else
        let sf = (if sf0 < 7 then 7 else if 10 < sf0 then 10 else sf0)
        in if sf = lt_current_sf t then t
           else configure e 2450000000 sf 800000 (t\<lparr>lt_current_sf := sf\<rparr>))"

section \<open>Transmission\<close>

abbreviation (input) ESP_ERR_TIMEOUT :: int where "ESP_ERR_TIMEOUT \<equiv> 0x107"

definition lora_send_raw :: "LoraEnv \<Rightarrow> bytes \<Rightarrow> LoraTransport \<Rightarrow> int \<times> LoraTransport" where
  "lora_send_raw e data t =
     (if \<not> lt_initialized t then (- 1, t)
      else if LORA_MAX_PACKET < length data then (- 1, t)
      else if lt_mutexes t \<and> \<not> le_radio_mutex e then (ESP_ERR_TIMEOUT, t)
      else
        let t1 = set_packet_params e (of_nat (length data)) (write_command e CMD_SET_STANDBY [0x00] t);
            t2 = write_command e CMD_CLR_IRQ_STATUS [0xFF, 0xFF] (write_buffer e 0x00 data t1);
            t3 = set_dio_irq e IRQ_TX_DONE t2;
            t4 = write_command e CMD_SET_TX [0x02, 0x13, 0x88] (set_rf_switch_tx t3)
        in if \<not> le_tx_done e then (- 1, enter_rx_continuous e (write_command e CMD_SET_STANDBY [0x00] t4))
           else (0, enter_rx_continuous e t4))"

section \<open>Reception\<close>

definition lora_slab :: "u8 \<Rightarrow> bytes \<Rightarrow> u8 \<Rightarrow> BufferSlab \<Rightarrow> BufferSlab" where
  "lora_slab pkt_len frame rssi_sync b =
     (let rssi = - (int (unat rssi_sync) div 2)
      in b\<lparr>bs_len := unat pkt_len, bs_source := LORA,
           bs_data := (if 0 < pkt_len then write_at 0 frame (bs_data b) else bs_data b),
           bs_rssi := of_int (if rssi < - 128 then - 128 else rssi)\<rparr>)"

text \<open>One turn of the receive task; the flag is the \<open>TxDone\<close> semaphore given.\<close>

definition rx_task_turn :: "LoraEnv \<Rightarrow> LoraTransport \<times> Rx \<Rightarrow> bool \<times> LoraTransport \<times> Rx" where
  "rx_task_turn e s =
     (let (t, q, p) = s
      in if \<not> le_dio1 e \<or> lt_mutexes t \<and> \<not> le_radio_mutex e then (False, s)
         else
           let (irq_raw, t1) = read_command e CMD_GET_IRQ_STATUS 2 t;
               irq = rd16 (irq_raw ! 1) (irq_raw ! 0);
               t2 = write_command e CMD_CLR_IRQ_STATUS [irq_raw ! 0, irq_raw ! 1] t1
           in if irq AND IRQ_TX_DONE \<noteq> 0 then (True, t2, q, p)
              else if irq AND IRQ_RX_DONE = 0 then (False, t2, q, p)
              else if irq AND IRQ_CRC_ERROR \<noteq> 0 then (False, t2, q, p)
              else
                let (rx_status, t3) = read_command e CMD_GET_RX_BUFFER_STATUS 2 t2;
                    pkt_len = rx_status ! 0
                in case pool_acquire p of
                     (None, p1) \<Rightarrow> (False, t3, q, p1)
                   | (Some slab, p1) \<Rightarrow>
                       let (frame, t4) = (if 0 < pkt_len then read_buffer e (rx_status ! 1) (unat pkt_len) t3 else ([], t3));
                           (pkt_status, t5) = read_command e CMD_GET_PACKET_STATUS 5 t4
                       in (False, t5, rx_enqueue slab frame (q, fill_slab slab (lora_slab pkt_len frame (pkt_status ! 0)) p1)))"

section \<open>What the radio was told\<close>

text \<open>
  The log read as the state of the radio according to its command set: the operating mode, the
  frequency register, the modulation, the payload length and buffer of the next packet, the interrupts
  raised on the DIO1 line, and the two pins of the RF switch. \<open>SetRx\<close> takes a time base and a count of
  16 bits: the count \<open>0xFFFF\<close> is continuous reception, 0 is reception of a single packet, any other count
  a timeout. The frequency register has 24 bits, sent most significant byte first.
\<close>

datatype radio_mode = Standby | Sleep | Transmitting | Rx_continuous | Rx_single | Rx_timed u16

definition rx_mode :: "bytes \<Rightarrow> radio_mode" where
  "rx_mode ps = (let count = rd16 (ps ! 2) (ps ! 1)
     in if count = 0xFFFF then Rx_continuous else if count = 0 then Rx_single else Rx_timed count)"

definition rd24 :: "bytes \<Rightarrow> nat" where
  "rd24 ps = (unat (ps ! 0) * 256 + unat (ps ! 1)) * 256 + unat (ps ! 2)"

record Sx1280 =
  ch_mode :: radio_mode
  ch_rf :: nat
  ch_sf :: u8
  ch_bw :: u8
  ch_len :: nat
  ch_buffer :: bytes
  ch_irq :: u16
  ch_rx_en :: bool
  ch_tx_en :: bool

definition Sx1280_new :: Sx1280 where
  "Sx1280_new = \<lparr>ch_mode = Standby, ch_rf = 0, ch_sf = 0, ch_bw = 0, ch_len = 0, ch_buffer = [], ch_irq = 0,
     ch_rx_en = False, ch_tx_en = False\<rparr>"

fun chip_op :: "lora_op \<Rightarrow> Sx1280 \<Rightarrow> Sx1280" where
  "chip_op (Rx_en b) c = c\<lparr>ch_rx_en := b\<rparr>"
| "chip_op (Tx_en b) c = c\<lparr>ch_tx_en := b\<rparr>"
| "chip_op Reset c = c\<lparr>ch_mode := Standby\<rparr>"
| "chip_op (Spi []) c = c"
| "chip_op (Spi (cmd # ps)) c =
     (if cmd = CMD_SET_STANDBY then c\<lparr>ch_mode := Standby\<rparr>
      else if cmd = CMD_SET_SLEEP then c\<lparr>ch_mode := Sleep\<rparr>
      else if cmd = CMD_SET_TX then c\<lparr>ch_mode := Transmitting\<rparr>
      else if cmd = CMD_SET_RX then c\<lparr>ch_mode := rx_mode ps\<rparr>
      else if cmd = CMD_SET_RF_FREQUENCY then c\<lparr>ch_rf := rd24 ps\<rparr>
      else if cmd = CMD_SET_DIO_IRQ_PARAMS then c\<lparr>ch_irq := rd16 (ps ! 1) (ps ! 0) AND rd16 (ps ! 3) (ps ! 2)\<rparr>
      else if cmd = CMD_SET_MOD_PARAMS then c\<lparr>ch_sf := ps ! 0, ch_bw := ps ! 1\<rparr>
      else if cmd = CMD_SET_PACKET_PARAMS then c\<lparr>ch_len := unat (ps ! 2)\<rparr>
      else if cmd = CMD_WRITE_BUFFER then c\<lparr>ch_buffer := write_at (unat (hd ps)) (tl ps) (ch_buffer c)\<rparr>
      else c)"

definition chip :: "LoraTransport \<Rightarrow> Sx1280" where
  "chip t = fold chip_op (lt_ops t) Sx1280_new"

definition spi_ok :: "LoraEnv \<Rightarrow> bool" where
  "spi_ok e \<longleftrightarrow> (\<forall>n. le_spi_mutex e n)"

lemma chip_log [simp]: "chip (lora_log x t) = chip_op x (chip t)"
  by (simp add: chip_def lora_log_def)

lemma chip_spi [simp]: "spi_ok e \<Longrightarrow> chip (spi_transmit e tx t) = chip_op (Spi tx) (chip t)"
  by (simp add: spi_transmit_def spi_ok_def)

lemma lora_log_fields [simp]:
  "lt_rf_switch (lora_log x t) = lt_rf_switch t" "lt_mutexes (lora_log x t) = lt_mutexes t"
  "lt_initialized (lora_log x t) = lt_initialized t" "lt_current_sf (lora_log x t) = lt_current_sf t"
  by (simp_all add: lora_log_def)

lemma spi_transmit_fields [simp]:
  "lt_rf_switch (spi_transmit e tx t) = lt_rf_switch t" "lt_mutexes (spi_transmit e tx t) = lt_mutexes t"
  "lt_initialized (spi_transmit e tx t) = lt_initialized t" "lt_current_sf (spi_transmit e tx t) = lt_current_sf t"
  by (simp_all add: spi_transmit_def)

lemma chip_fields [simp]:
  "chip (t\<lparr>lt_initialized := a\<rparr>) = chip t" "chip (t\<lparr>lt_current_sf := b\<rparr>) = chip t" "chip (t\<lparr>lt_rx_task := c\<rparr>) = chip t"
  by (simp_all add: chip_def)

lemmas lora_cmd_defs = write_command_def read_command_def write_buffer_def read_buffer_def set_modulation_params_def
  set_packet_params_def set_dio_irq_def set_rf_switch_rx_def set_rf_switch_tx_def Let_def

section \<open>Frequency\<close>

text \<open>
  The register value is the exact quotient rounded down, or one more where the rounding to 53
  significant bits crossed an integer: never less, because every integer below \<open>2 ^ 34\<close> is a multiple
  of the unit in the last place, so that rounding does not fall below it.
\<close>

lemma rnd64_pos_err:
  assumes "0 < x"
  shows "\<bar>rnd64_pos x - x\<bar> \<le> x / 2 ^ 53"
proof -
  define u :: rat where "u = 2 powi (expo x - 52)"
  have u: "0 < u" by (simp add: u_def)
  have "u * 2 ^ 52 = 2 powi expo x" by (simp add: u_def power_int_diff)
  then have ux: "u * 2 ^ 52 \<le> x" using expo_bounds [OF assms] by simp
  have "of_int (round_half_even (x / u)) * u - x = (of_int (round_half_even (x / u)) - x / u) * u"
    using u by (simp add: left_diff_distrib)
  then have "\<bar>rnd64_pos x - x\<bar> = \<bar>of_int (round_half_even (x / u)) - x / u\<bar> * u"
    using u by (simp add: rnd64_pos_def Let_def u_def [symmetric] abs_mult)
  also have "\<dots> \<le> 1/2 * u"
    by (rule mult_right_mono [OF round_half_even_err]) (use u in simp)
  finally show ?thesis using ux by simp
qed

lemma rnd64_pos_ge:
  assumes "0 < x" and "x < 2 ^ 34" and "of_int n \<le> x * 2 ^ 18"
  shows "of_int n \<le> rnd64_pos x * 2 ^ 18"
proof -
  define k where "k = 34 - expo x"
  define u :: rat where "u = 2 powi (expo x - 52)"
  have u: "0 < u" by (simp add: u_def)
  have "expo x < 34"
  proof (rule ccontr)
    assume "\<not> expo x < 34"
    then have "(2 :: rat) powi 34 \<le> 2 powi expo x" by (intro power_int_increasing) simp_all
    then have "(2 :: rat) ^ 34 \<le> 2 powi expo x" by simp
    with expo_bounds [OF assms(1)] assms(2) show False by linarith
  qed
  then have "0 \<le> k" by (simp add: k_def)
  then have k: "(2 :: rat) powi k = of_int (2 ^ nat k)" by (simp add: power_int_def)
  have "u * 2 powi (k + 18) = 2 powi (expo x - 52 + (k + 18))" unfolding u_def by (rule power_int_add [symmetric]) simp
  also have "\<dots> = 1" by (simp add: k_def)
  finally have "u * 2 powi (k + 18) = 1" .
  moreover have "(2 :: rat) powi (k + 18) = 2 powi k * 2 powi 18" by (rule power_int_add) simp
  ultimately have uk: "u * 2 powi k * 2 ^ 18 = 1" by (simp add: mult.assoc)
  define m where "m = n * 2 ^ nat k"
  have m: "of_int m * u * 2 ^ 18 = of_int n"
  proof -
    have "of_int m * u * 2 ^ 18 = of_int n * (u * 2 powi k * 2 ^ 18)" unfolding m_def k by simp
    then show ?thesis unfolding uk by simp
  qed
  have "of_int m * u * 2 ^ 18 \<le> x * 2 ^ 18" using assms(3) m by simp
  then have "of_int m * u \<le> x" by simp
  then have "of_int m \<le> x / u" using u by (simp add: pos_le_divide_eq)
  then have "m \<le> round_half_even (x / u)" by (auto simp: round_half_even_def Let_def le_floor_iff [symmetric])
  then have "of_int m * u \<le> rnd64_pos x" using u by (simp add: rnd64_pos_def u_def [symmetric])
  then have "of_int m * u * 2 ^ 18 \<le> rnd64_pos x * 2 ^ 18" by simp
  then show ?thesis unfolding m .
qed

lemma rf_freq_quotient:
  fixes freq_hz :: u32
  defines "q \<equiv> of_nat (unat freq_hz) * 2 ^ 18 / 52000000 :: rat"
  shows "\<lfloor>q\<rfloor> \<le> int (unat (rf_freq freq_hz))" and "of_nat (unat (rf_freq freq_hz)) \<le> q + 1 / 1000000"
proof -
  have "\<lfloor>q\<rfloor> \<le> int (unat (rf_freq freq_hz)) \<and> of_nat (unat (rf_freq freq_hz)) \<le> q + 1 / 1000000"
  proof (cases "freq_hz = 0")
    case False
    define x where "x = (of_nat (unat freq_hz) / 52000000 :: rat)"
    define y where "y = rnd64_pos x * 2 ^ 18"
    have "unat freq_hz \<noteq> 0" using False by (simp add: unat_eq_0)
    then have "(0 :: rat) < of_nat (unat freq_hz)" unfolding of_nat_0_less_iff by simp
    moreover have "of_nat (unat freq_hz) < (of_nat 4294967296 :: rat)" unfolding of_nat_less_iff by (rule unat_u32_bound)
    ultimately have x: "0 < x" "x < 83" by (simp_all add: x_def)
    have q: "q = x * 2 ^ 18" by (simp add: q_def x_def)
    have "\<bar>rnd64_pos x - x\<bar> * 2 ^ 18 \<le> x / 2 ^ 53 * 2 ^ 18" by (rule mult_right_mono [OF rnd64_pos_err [OF x(1)]]) simp
    moreover have "y - q = (rnd64_pos x - x) * 2 ^ 18" unfolding y_def q by (rule left_diff_distrib [symmetric])
    moreover have "(rnd64_pos x - x) * 2 ^ 18 \<le> \<bar>rnd64_pos x - x\<bar> * 2 ^ 18" by (rule mult_right_mono [OF abs_ge_self]) simp
    moreover have "x / 2 ^ 53 * 2 ^ 18 \<le> 1 / 1000000" using x(2) by simp
    ultimately have yu: "y \<le> q + 1 / 1000000" by linarith
    have "of_int \<lfloor>q\<rfloor> \<le> x * 2 ^ 18" unfolding q [symmetric] by simp
    from rnd64_pos_ge [OF x(1) _ this] x(2) have "of_int \<lfloor>q\<rfloor> \<le> y" by (simp add: y_def)
    then have ge: "\<lfloor>q\<rfloor> \<le> \<lfloor>y\<rfloor>" by (simp add: le_floor_iff)
    have "0 \<le> q" using x(1) by (simp add: q)
    then have fl: "0 \<le> \<lfloor>y\<rfloor>" using ge by (meson order_trans zero_le_floor)
    have "y < 30000000" using yu x(2) by (simp add: q)
    then have "\<lfloor>y\<rfloor> < 30000000" by (simp add: floor_less_iff)
    with fl have "uint (of_int \<lfloor>y\<rfloor> :: u32) = \<lfloor>y\<rfloor>" by (simp add: uint_word_of_int_eq take_bit_int_eq_self)
    then have "int (unat (of_int \<lfloor>y\<rfloor> :: u32)) = \<lfloor>y\<rfloor>" by (simp only: uint_nat [symmetric])
    moreover have "rf_freq freq_hz = of_int \<lfloor>y\<rfloor>" using False by (simp add: rf_freq_def y_def x_def)
    ultimately have r: "int (unat (rf_freq freq_hz)) = \<lfloor>y\<rfloor>" by simp
    have "of_int \<lfloor>y\<rfloor> \<le> q + 1 / 1000000" using yu of_int_floor_le [of y] by linarith
    then show ?thesis using ge r by (metis of_int_of_nat_eq)
  qed (simp add: rf_freq_def q_def)
  then show "\<lfloor>q\<rfloor> \<le> int (unat (rf_freq freq_hz))" and "of_nat (unat (rf_freq freq_hz)) \<le> q + 1 / 1000000" by simp_all
qed

text \<open>The three bytes sent are the low 24 bits of the value.\<close>

lemma rd24_split: "rd24 [ucast (drop_bit 16 f), ucast (drop_bit 8 f), ucast (f :: u32)] = unat f mod 2 ^ 24"
proof -
  have "unat (ucast (drop_bit k f) :: u8) = unat f div 2 ^ k mod 2 ^ 8" for k
  proof -
    have "unat (drop_bit k f) = unat f div 2 ^ k"
      by (simp add: unsigned_drop_bit_eq take_bit_nat_eq_self flip: drop_bit_eq_div)
    then show ?thesis by (simp only: unsigned_ucast_eq take_bit_eq_mod) simp
  qed
  note b = this [of 16] this [of 8] this [of 0]
  have "unat f mod (2 ^ 16 * 2 ^ 8) = 2 ^ 16 * (unat f div 2 ^ 16 mod 2 ^ 8) + unat f mod 2 ^ 16" by (rule mod_mult2_eq)
  moreover have "unat f mod (2 ^ 8 * 2 ^ 8) = 2 ^ 8 * (unat f div 2 ^ 8 mod 2 ^ 8) + unat f mod 2 ^ 8" by (rule mod_mult2_eq)
  ultimately show ?thesis using b by (simp add: rd24_def)
qed

lemma set_frequency_fields [simp]:
  "lt_rf_switch (set_frequency e f t) = lt_rf_switch t" "lt_mutexes (set_frequency e f t) = lt_mutexes t"
  "lt_initialized (set_frequency e f t) = lt_initialized t" "lt_current_sf (set_frequency e f t) = lt_current_sf t"
  by (simp_all add: set_frequency_def write_command_def Let_def)

lemma chip_set_frequency [simp]:
  "spi_ok e \<Longrightarrow> chip (set_frequency e f t) = (chip t)\<lparr>ch_rf := unat (rf_freq f) mod 2 ^ 24\<rparr>"
  using rd24_split [of "rf_freq f"] by (simp add: set_frequency_def write_command_def Let_def)

definition rf_step :: rat where
  "rf_step = 52000000 / 2 ^ 18"

lemma programmed_frequency:
  "\<bar>of_nat (unat (rf_freq freq_hz) mod 2 ^ 24) * rf_step -
      (of_nat (unat freq_hz) - (if unat freq_hz < 3328000000 then 0 else 3328000000))\<bar> < rf_step"
proof -
  define v where "v = unat (rf_freq freq_hz)"
  define F where "F = (of_nat (unat freq_hz) :: rat)"
  define q where "q = F * 2 ^ 18 / 52000000"
  have F: "F < 4294967296"
  proof -
    have "of_nat (unat freq_hz) < (of_nat 4294967296 :: rat)" unfolding of_nat_less_iff by (rule unat_u32_bound)
    then show ?thesis by (simp add: F_def)
  qed
  have v: "\<lfloor>q\<rfloor> \<le> int v" "of_nat v \<le> q + 1 / 1000000"
    using rf_freq_quotient [of freq_hz] by (simp_all add: v_def q_def F_def)
  then have lo: "q < of_nat v + 1" by linarith
  have vF: "\<bar>of_nat v * rf_step - F\<bar> < rf_step"
    using v(2) lo unfolding q_def abs_less_iff rf_step_def by simp
  have vb: "v < 2 * 2 ^ 24"
  proof -
    have "of_nat v < (of_nat (2 * 2 ^ 24) :: rat)" using v(2) F by (simp add: q_def)
    then show ?thesis unfolding of_nat_less_iff .
  qed
  show ?thesis
  proof (cases "unat freq_hz < 3328000000")
    case True
    then have "F \<le> of_nat 3327999999" unfolding F_def of_nat_le_iff by simp
    then have "of_nat v < (of_nat (2 ^ 24) :: rat)" using v(2) by (simp add: q_def)
    then have "v < 2 ^ 24" unfolding of_nat_less_iff .
    with vF True show ?thesis by (simp add: v_def [symmetric] F_def)
  next
    case False
    then have "of_nat 3328000000 \<le> F" unfolding F_def of_nat_le_iff by simp
    then have "2 ^ 24 \<le> q" by (simp add: q_def)
    then have "2 ^ 24 \<le> \<lfloor>q\<rfloor>" by (simp add: le_floor_iff)
    from order_trans [OF this v(1)] have g: "2 ^ 24 \<le> v" by simp
    then have "v mod 2 ^ 24 = v - 2 ^ 24" using vb by (simp add: le_mod_geq)
    then have "of_nat (v mod 2 ^ 24) = (of_nat v - 2 ^ 24 :: rat)" using g by (simp add: of_nat_diff)
    moreover have "2 ^ 24 * rf_step = 3328000000" by (simp add: rf_step_def)
    ultimately have "of_nat (v mod 2 ^ 24) * rf_step - (F - 3328000000) = of_nat v * rf_step - F"
      by (simp add: left_diff_distrib)
    then show ?thesis unfolding v_def [symmetric] F_def [symmetric] if_not_P [OF False] using vF by (simp only:)
  qed
qed

text \<open>
  C28. The programmed frequency. The SX1280 synthesises its 24-bit frequency register times 52 MHz /
  2^18, a step of about 198.4 Hz. After \<open>set_frequency\<close>, although the value is computed in floating
  point and its low 24 bits only are sent, the synthesised frequency is less than one step away from
  the requested one for every request below 3.328 GHz; from there on, where the value needs a 25th bit,
  the radio is tuned 3.328 GHz too low. Supposed is that the SPI mutex is obtained for the command.
\<close>

theorem rf_freq_accuracy:
  assumes "spi_ok e"
  shows "\<bar>of_nat (ch_rf (chip (set_frequency e freq_hz t))) * rf_step -
      (of_nat (unat freq_hz) - (if unat freq_hz < 3328000000 then 0 else 3328000000))\<bar> < rf_step"
  using programmed_frequency [of freq_hz] assms by simp

section \<open>Listening\<close>

lemma enter_rx_fields [simp]:
  "lt_rf_switch (enter_rx_continuous e t) = lt_rf_switch t" "lt_mutexes (enter_rx_continuous e t) = lt_mutexes t"
  "lt_initialized (enter_rx_continuous e t) = lt_initialized t" "lt_current_sf (enter_rx_continuous e t) = lt_current_sf t"
  by (simp_all add: enter_rx_continuous_def lora_cmd_defs)

lemma chip_enter_rx:
  assumes "spi_ok e"
  shows "chip (enter_rx_continuous e t) = (chip t)\<lparr>ch_mode := Rx_continuous, ch_len := 255, ch_irq := IRQ_TX_DONE OR IRQ_RX_DONE OR IRQ_CRC_ERROR,
    ch_rx_en := lt_rf_switch t \<or> ch_rx_en (chip t), ch_tx_en := \<not> lt_rf_switch t \<and> ch_tx_en (chip t)\<rparr>"
proof -
  have "rd16 0xFF 0xFF = (0xFFFF :: u16)" "rd16 0x43 0 = (0x43 :: u16)" by code_simp+
  then show ?thesis using assms by (simp add: enter_rx_continuous_def lora_cmd_defs rx_mode_def rd16_split)
qed

text \<open>The state between operations of an initialised driver.\<close>

definition lora_ready :: "LoraTransport \<Rightarrow> bool" where
  "lora_ready t \<longleftrightarrow> lt_initialized t \<and> ch_mode (chip t) = Rx_continuous \<and> ch_len (chip t) = LORA_MAX_PACKET \<and>
     ch_irq (chip t) = IRQ_TX_DONE OR IRQ_RX_DONE OR IRQ_CRC_ERROR \<and> ch_rf (chip t) = unat (rf_freq 2450000000) mod 2 ^ 24 \<and>
     7 \<le> lt_current_sf t \<and> lt_current_sf t \<le> 10 \<and> ch_sf (chip t) = sf_register (lt_current_sf t) \<and> ch_bw (chip t) = bw_register 800000 \<and>
     (lt_rf_switch t \<longrightarrow> ch_rx_en (chip t) \<and> \<not> ch_tx_en (chip t))"

lemma init_ready:
  assumes "spi_ok e" and "lt_initialized (lora_init e LoraTransport_new)"
  shows "lora_ready (lora_init e LoraTransport_new)"
proof -
  have "\<exists>t. lora_init e LoraTransport_new = (enter_rx_continuous e ((write_command e CMD_SET_BUFFER_BASE [0x00, 0x00]
      (set_tx_power e 13 (set_modulation_params e 0x70 0x18 0x01 (set_frequency e 2450000000 t))))\<lparr>lt_rx_task := True\<rparr>))\<lparr>lt_initialized := True\<rparr> \<and>
      lt_current_sf t = 7"
    using assms(2) unfolding lora_init_def
    by (simp add: Let_def case_prod_unfold cleanup_partial_init_def LoraTransport_new_def read_register_def write_command_def
        reset_chip_def set_rf_switch_idle_def split: if_splits) fastforce+
  then obtain t where i: "lora_init e LoraTransport_new = (enter_rx_continuous e ((write_command e CMD_SET_BUFFER_BASE [0x00, 0x00]
      (set_tx_power e 13 (set_modulation_params e 0x70 0x18 0x01 (set_frequency e 2450000000 t))))\<lparr>lt_rx_task := True\<rparr>))\<lparr>lt_initialized := True\<rparr>"
    and sf: "lt_current_sf t = 7" by blast
  show ?thesis
    using assms(1) sf unfolding i
    by (simp add: lora_ready_def chip_enter_rx lora_cmd_defs set_tx_power_def sf_register_def bw_register_def)
qed

lemma send_ready:
  assumes "spi_ok e" and "lora_ready t"
  shows "lora_ready (snd (lora_send_raw e data t))"
  using assms by (auto simp: lora_send_raw_def Let_def lora_ready_def chip_enter_rx lora_cmd_defs)

lemma set_sf_ready:
  assumes "spi_ok e" and "lora_ready t"
  shows "lora_ready (set_spreading_factor e sf t)"
  using assms by (auto simp: set_spreading_factor_def configure_def Let_def lora_ready_def chip_enter_rx lora_cmd_defs)

lemma ready_query:
  assumes "spi_ok e" and "lora_ready t" and "c \<in> {CMD_GET_IRQ_STATUS, CMD_CLR_IRQ_STATUS, CMD_GET_RX_BUFFER_STATUS, CMD_GET_PACKET_STATUS, CMD_READ_BUFFER}"
  shows "lora_ready (spi_transmit e (c # ps) t)"
proof -
  have "chip (spi_transmit e (c # ps) t) = chip t"
    using assms(3) chip_spi [OF assms(1), of "c # ps" t] by (elim insertE) simp_all
  then show ?thesis using assms(2) by (simp add: lora_ready_def)
qed

text \<open>The receive task only queries the radio and clears interrupts.\<close>

lemma rx_turn_ready:
  assumes "spi_ok e" and "lora_ready t" and "rx_task_turn e (t, q, p) = (b, t', s')"
  shows "lora_ready t'"
proof (cases "\<not> le_dio1 e \<or> lt_mutexes t \<and> \<not> le_radio_mutex e")
  case True
  then show ?thesis using assms(2,3) by (auto simp: rx_task_turn_def)
next
  case False
  note rq = ready_query [OF assms(1)]
  obtain irq t1 where 1: "read_command e CMD_GET_IRQ_STATUS 2 t = (irq, t1)" by (meson surj_pair)
  define t2 where "t2 = write_command e CMD_CLR_IRQ_STATUS [irq ! 0, irq ! 1] t1"
  obtain st t3 where 3: "read_command e CMD_GET_RX_BUFFER_STATUS 2 t2 = (st, t3)" by (meson surj_pair)
  obtain frame t4 where 4: "(if 0 < st ! 0 then read_buffer e (st ! 1) (unat (st ! 0)) t3 else ([], t3)) = (frame, t4)" by (meson surj_pair)
  obtain ps t5 where 5: "read_command e CMD_GET_PACKET_STATUS 5 t4 = (ps, t5)" by (meson surj_pair)
  have r1: "lora_ready t1" using 1 rq [OF assms(2)] by (auto simp: read_command_def)
  have r2: "lora_ready t2" unfolding t2_def write_command_def using rq [OF r1] by blast
  have r3: "lora_ready t3" using 3 rq [OF r2] by (auto simp: read_command_def)
  have r4: "lora_ready t4" using 4 r3 rq [OF r3] by (auto simp: read_buffer_def split: if_splits)
  have r5: "lora_ready t5" using 5 rq [OF r4] by (auto simp: read_command_def)
  have "t' = t2 \<or> t' = t3 \<or> t' = t5"
    using assms(3) unfolding rx_task_turn_def Let_def prod.case if_not_P [OF False] 1 t2_def [symmetric] 3 4 5
    by (auto split: if_splits prod.splits option.splits)
  then show ?thesis using r2 r3 r5 by blast
qed

text \<open>A history of the driver: transmissions, changes of the spreading factor and turns of the receive task.\<close>

datatype lora_event = Lora_send LoraEnv bytes | Lora_sf LoraEnv u8 | Lora_turn LoraEnv

fun lora_call :: "lora_event \<Rightarrow> LoraTransport \<times> Rx \<Rightarrow> LoraTransport \<times> Rx" where
  "lora_call (Lora_send e data) (t, s) = (snd (lora_send_raw e data t), s)"
| "lora_call (Lora_sf e sf) (t, s) = (set_spreading_factor e sf t, s)"
| "lora_call (Lora_turn e) (t, s) = snd (rx_task_turn e (t, s))"

fun lora_call_ok :: "lora_event \<Rightarrow> bool" where
  "lora_call_ok (Lora_send e data) = spi_ok e"
| "lora_call_ok (Lora_sf e sf) = spi_ok e"
| "lora_call_ok (Lora_turn e) = spi_ok e"

lemma lora_call_ready:
  assumes "lora_call_ok c" and "lora_ready t" and "lora_call c (t, s) = (t', s')"
  shows "lora_ready t'"
proof (cases c)
  case (Lora_send e data)
  then show ?thesis using assms send_ready by auto
next
  case (Lora_sf e sf)
  then show ?thesis using assms set_sf_ready by auto
next
  case (Lora_turn e)
  obtain q p where s: "s = (q, p)" by (meson surj_pair)
  obtain b t1 s1 where r: "rx_task_turn e (t, q, p) = (b, t1, s1)" by (metis surj_pair)
  then have "t' = t1" using assms(3) Lora_turn s by simp
  then show ?thesis using rx_turn_ready [OF _ assms(2) r] assms(1) Lora_turn by simp
qed

text \<open>
  C11. After any history on an initialised driver - packets sent, also with a \<open>TxDone\<close> that never came,
  interrupts handled, spreading factors requested, also nonsensical ones - the last \<open>SetRx\<close> put the
  radio into continuous reception, with a reception interrupt on DIO1, within one step of the
  synthesiser of 2.45 GHz, its RF switch is on reception, and its modulation is the spreading factor that
  the driver reports, which is between 7 and 10. Supposed is that each of these calls obtains the SPI
  mutex for every command (\<open>lora_call_ok\<close>): a command whose mutex times out is dropped silently.
\<close>

theorem lora_listens:
  assumes "lt_initialized (lora_init e0 LoraTransport_new)" and "spi_ok e0" and "list_all lora_call_ok calls"
    and "fold lora_call calls (lora_init e0 LoraTransport_new, rx) = (t, rx')"
  shows "ch_mode (chip t) = Rx_continuous \<and> ch_irq (chip t) AND IRQ_RX_DONE \<noteq> 0 \<and>
    \<bar>of_nat (ch_rf (chip t)) * rf_step - 2450000000\<bar> < rf_step \<and>
    (lt_rf_switch t \<longrightarrow> ch_rx_en (chip t) \<and> \<not> ch_tx_en (chip t)) \<and>
    ch_sf (chip t) = sf_register (lt_current_sf t) \<and> lt_current_sf t \<in> {7..10}"
proof -
  have "lora_ready t" if "lora_ready t0" "list_all lora_call_ok calls" "fold lora_call calls (t0, s0) = (t, rx')" for t0 s0 calls
    using that
  proof (induction calls arbitrary: t0 s0)
    case (Cons c cs)
    obtain t1 s1 where "lora_call c (t0, s0) = (t1, s1)" by (meson surj_pair)
    then show ?case using Cons lora_call_ready [of c t0 s0 t1 s1] by simp
  qed simp
  from this [OF init_ready [OF assms(2,1)] assms(3,4)] have r: "lora_ready t" .
  have "(IRQ_TX_DONE OR IRQ_RX_DONE OR IRQ_CRC_ERROR) AND IRQ_RX_DONE \<noteq> (0 :: u16)" by code_simp
  then show ?thesis using r programmed_frequency [of 2450000000] by (simp add: lora_ready_def)
qed

definition ex_lora :: LoraEnv where
  "ex_lora = \<lparr>le_spi_mutex = (\<lambda>_. True), le_answer = (\<lambda>_. [0, 0, 0, 0, 0xA9, 0xB7]), le_radio_mutex = True, le_tx_done = False, le_dio1 = True,
     le_lilygo = True, le_sems_ok = True, le_bus_ok = True, le_device_ok = True\<rparr>"

lemma ex_lora_init: "lt_initialized (lora_init ex_lora LoraTransport_new)" "spi_ok ex_lora"
  by (simp_all add: lora_init_def ex_lora_def LoraTransport_new_def Let_def read_register_def spi_answer_def spi_ok_def)

definition ex_rx_state :: Rx where
  "ex_rx_state = (\<lparr>rq_dual = True, rq_hi = [], rq_lo = []\<rparr>, BufferPool_new)"

theorem lora_listens_witness:
  "let t = fst (fold lora_call [Lora_sf ex_lora 12, Lora_send ex_lora [1, 2, 3]] (lora_init ex_lora LoraTransport_new, ex_rx_state))
   in ch_mode (chip t) = Rx_continuous \<and> ch_sf (chip t) = sf_register (lt_current_sf t)"
proof -
  have "list_all lora_call_ok [Lora_sf ex_lora 12, Lora_send ex_lora [1, 2, 3]]" using ex_lora_init(2) by simp
  from lora_listens [OF ex_lora_init this surjective_pairing] show ?thesis by (simp add: Let_def)
qed

theorem rf_freq_accuracy_witness:
  "\<bar>of_nat (ch_rf (chip (set_frequency ex_lora 2450000000 LoraTransport_new))) * rf_step - 2450000000\<bar> < rf_step \<and>
   \<bar>of_nat (ch_rf (chip (set_frequency ex_lora 4000000000 LoraTransport_new))) * rf_step - 672000000\<bar> < rf_step"
  using rf_freq_accuracy [OF ex_lora_init(2), of 2450000000 LoraTransport_new]
    rf_freq_accuracy [OF ex_lora_init(2), of 4000000000 LoraTransport_new] by simp

text \<open>The log of the second transport continues that of the first.\<close>

definition extends :: "LoraTransport \<Rightarrow> LoraTransport \<Rightarrow> bool" where
  "extends t t' \<longleftrightarrow> take (length (lt_ops t)) (lt_ops t') = lt_ops t"

lemma extends_refl: "extends t t"
  by (simp add: extends_def)

lemma extends_log: "extends t u \<Longrightarrow> extends t (lora_log x u)"
proof -
  assume e: "extends t u"
  then have "length (lt_ops t) \<le> length (lt_ops u)" unfolding extends_def by (metis length_take min.cobounded1)
  with e show "extends t (lora_log x u)" by (simp add: extends_def lora_log_def)
qed

lemma extends_spi: "extends t u \<Longrightarrow> extends t (spi_transmit e tx u)"
  by (simp add: spi_transmit_def extends_log)

lemma extends_cmd: "extends t u \<Longrightarrow> extends t (write_command e c ps u)"
  by (simp add: write_command_def extends_spi)

lemma extends_buffer: "extends t u \<Longrightarrow> extends t (write_buffer e off data u)"
  by (simp add: write_buffer_def extends_spi)

lemma extends_switch: "extends t u \<Longrightarrow> extends t (set_rf_switch_tx u)" "extends t u \<Longrightarrow> extends t (set_rf_switch_rx u)"
  by (simp_all add: set_rf_switch_tx_def set_rf_switch_rx_def extends_log)

lemma extends_rx: "extends t u \<Longrightarrow> extends t (enter_rx_continuous e u)"
  unfolding enter_rx_continuous_def set_packet_params_def set_dio_irq_def by (intro extends_cmd extends_switch)

text \<open>
  A transmission: at the moment the radio is switched to transmit, its buffer holds the packet from
  offset 0, the announced length is that of the packet and the RF switch is on transmission; the
  return code tells whether \<open>TxDone\<close> was seen.
\<close>

theorem lora_send_transmits:
  assumes "lt_initialized t" and "length data \<le> LORA_MAX_PACKET" and "lt_mutexes t \<longrightarrow> le_radio_mutex e" and "spi_ok e"
  shows "fst (lora_send_raw e data t) = (if le_tx_done e then TRANSPORT_SEND_OK else TRANSPORT_SEND_FAILED) \<and>
    (\<exists>t1. extends t t1 \<and> extends t1 (snd (lora_send_raw e data t)) \<and> ch_mode (chip t1) = Transmitting \<and>
       ch_len (chip t1) = length data \<and> take (length data) (ch_buffer (chip t1)) = data \<and> (lt_rf_switch t \<longrightarrow> ch_tx_en (chip t1)))"
proof -
  define t4 where "t4 = write_command e CMD_SET_TX [0x02, 0x13, 0x88] (set_rf_switch_tx (set_dio_irq e IRQ_TX_DONE
     (write_command e CMD_CLR_IRQ_STATUS [0xFF, 0xFF] (write_buffer e 0x00 data
       (set_packet_params e (of_nat (length data)) (write_command e CMD_SET_STANDBY [0x00] t))))))"
  have r: "lora_send_raw e data t = (if \<not> le_tx_done e then (- 1, enter_rx_continuous e (write_command e CMD_SET_STANDBY [0x00] t4))
      else (0, enter_rx_continuous e t4))"
    using assms(1-3) by (simp add: lora_send_raw_def t4_def Let_def)
  have "extends t t4"
    unfolding t4_def set_dio_irq_def set_packet_params_def
    by (intro extends_cmd extends_buffer extends_switch extends_refl)
  moreover have "extends t4 (snd (lora_send_raw e data t))"
    unfolding r using extends_rx [OF extends_refl] extends_rx [OF extends_cmd [OF extends_refl]] by simp
  moreover have "unat (of_nat (length data) :: u8) = length data" using assms(2) by (simp add: unat_of_nat)
  then have "ch_mode (chip t4) = Transmitting \<and> ch_len (chip t4) = length data \<and> take (length data) (ch_buffer (chip t4)) = data \<and>
      (lt_rf_switch t \<longrightarrow> ch_tx_en (chip t4))"
    using assms(4) by (simp add: t4_def lora_cmd_defs write_at_def)
  ultimately show ?thesis unfolding r by (intro conjI exI [of _ t4]) simp_all
qed

theorem lora_send_transmits_witness:
  "fst (lora_send_raw ex_lora [1, 2, 3] (LoraTransport_new\<lparr>lt_initialized := True\<rparr>)) = TRANSPORT_SEND_FAILED"
  using lora_send_transmits [of "LoraTransport_new\<lparr>lt_initialized := True\<rparr>" "[1, 2, 3]" ex_lora] ex_lora_init(2)
  by (simp add: LoraTransport_new_def ex_lora_def)

section \<open>Slabs\<close>

text \<open>The packet that a turn of the receive task reads: \<open>None\<close> when there is none or its checksum failed.\<close>

definition rx_frame :: "LoraEnv \<Rightarrow> LoraTransport \<Rightarrow> (u8 \<times> bytes \<times> u8) option" where
  "rx_frame e t =
     (let (irq_raw, t1) = read_command e CMD_GET_IRQ_STATUS 2 t;
          irq = rd16 (irq_raw ! 1) (irq_raw ! 0);
          t2 = write_command e CMD_CLR_IRQ_STATUS [irq_raw ! 0, irq_raw ! 1] t1;
          (st, t3) = read_command e CMD_GET_RX_BUFFER_STATUS 2 t2;
          (frame, t4) = (if 0 < st ! 0 then read_buffer e (st ! 1) (unat (st ! 0)) t3 else ([], t3))
      in if le_dio1 e \<and> (lt_mutexes t \<longrightarrow> le_radio_mutex e) \<and> irq AND IRQ_TX_DONE = 0 \<and> irq AND IRQ_RX_DONE \<noteq> 0 \<and> irq AND IRQ_CRC_ERROR = 0
         then Some (st ! 0, frame, fst (read_command e CMD_GET_PACKET_STATUS 5 t4) ! 0) else None)"

lemma rx_turn_slabs:
  "snd (snd (rx_task_turn e (t, q, p))) =
     (case rx_frame e t of None \<Rightarrow> (q, p)
      | Some (pkt_len, frame, rssi) \<Rightarrow>
          case pool_acquire p of (None, p1) \<Rightarrow> (q, p1)
          | (Some slab, p1) \<Rightarrow> rx_enqueue slab frame (q, fill_slab slab (lora_slab pkt_len frame rssi) p1))"
proof (cases "\<not> le_dio1 e \<or> lt_mutexes t \<and> \<not> le_radio_mutex e")
  case True
  then show ?thesis by (auto simp: rx_task_turn_def rx_frame_def case_prod_unfold Let_def)
next
  case False
  then have g: "le_dio1 e \<and> (lt_mutexes t \<longrightarrow> le_radio_mutex e)" by blast
  show ?thesis
    unfolding rx_task_turn_def rx_frame_def Let_def prod.case if_not_P [OF False]
    using g by (simp add: case_prod_unfold split: option.split)
qed

lemma rx_frame_length: "rx_frame e t = Some (pkt_len, frame, rssi) \<Longrightarrow> length frame = unat pkt_len"
  by (auto simp: rx_frame_def read_buffer_def spi_answer_def case_prod_unfold Let_def unat_eq_0 word_gt_0 split: if_splits)

lemma lora_slab_fields [simp]: "bs_refcount (lora_slab l f r b) = bs_refcount b" "bs_next_free (lora_slab l f r b) = bs_next_free b"
  by (simp_all add: lora_slab_def Let_def)

text \<open>
  C27. A turn of the receive task keeps every slab accounted for, with one exception: a packet of length
  0 that is received while the high-priority queue is full takes a slab that is neither queued nor
  ever released. After 353 of them the pool is empty.
\<close>

theorem lora_turn_slabs:
  assumes "rx_inv (q, p)" and "rq_dual q" and "rx_task_turn e (t, q, p) = (b, t', q', p')"
  shows "if (\<exists>rssi. rx_frame e t = Some (0, [], rssi)) \<and> length (rq_hi q) \<ge> kQueueDepth \<and> (\<exists>i < POOL_SIZE. refs p i = 0)
    then \<exists>i < POOL_SIZE. refs p i = 0 \<and> refs p' = (refs p)(i := 1) \<and> q' = q
    else rx_inv (q', p')"
proof -
  have inv: "pool_inv p" using assms(1) by (simp add: rx_inv_def)
  have qp: "(q', p') = snd (snd (rx_task_turn e (t, q, p)))" using assms(3) by simp
  show ?thesis
  proof (cases "rx_frame e t")
    case None
    then show ?thesis using qp assms(1) by (simp add: rx_turn_slabs)
  next
    case (Some r)
    obtain l frame rssi where r: "r = (l, frame, rssi)" by (metis surj_pair)
    obtain so p1 where a: "pool_acquire p = (so, p1)" by (meson surj_pair)
    show ?thesis
    proof (cases so)
      case None
      then have n: "\<forall>i < POOL_SIZE. 0 < refs p i" "refs p1 = refs p" "pool_inv p1" using bpool.acquire_None [OF inv] a by blast+
      have "(q', p') = (q, p1)" using qp None a Some r by (simp add: rx_turn_slabs)
      moreover have "rx_inv (q, p1)" using assms(1) n by (simp add: rx_inv_def)
      ultimately show ?thesis using n(1) by auto
    next
      case (Some slab)
      then obtain i where i: "i < POOL_SIZE" "slab = int i" "refs p i = 0" "refs p1 = (refs p)(i := 1)" "pool_inv p1"
        using bpool.acquire_Some [OF inv] a by blast
      have "0 < refs p1 (nat slab)" using i by simp
      note fl = fill_slab_pool [OF i(5) this, of "lora_slab l frame rssi", simplified i(2)]
      have e: "(q', p') = rx_enqueue (int i) frame (q, fill_slab (int i) (lora_slab l frame rssi) p1)"
        using qp Some a \<open>rx_frame e t = Some r\<close> r i(2) by (simp add: rx_turn_slabs)
      show ?thesis
      proof (cases "frame = [] \<and> kQueueDepth \<le> length (rq_hi q)")
        case True
        then have "l = 0" using rx_frame_length [of e t l frame rssi] \<open>rx_frame e t = Some r\<close> r by (simp add: unat_eq_0)
        moreover have "q' = q" "p' = fill_slab (int i) (lora_slab l frame rssi) p1" using e True by (simp_all add: rx_enqueue_def)
        ultimately show ?thesis using True \<open>rx_frame e t = Some r\<close> r i fl by auto
      next
        case False
        then have "rx_inv (q', p')"
          unfolding e by (intro rx_enqueue_inv [OF fl(1) assms(1) i(1,3)]) (use fl i(4) assms(2) in auto)
        then show ?thesis using False \<open>rx_frame e t = Some r\<close> r by auto
      qed
    qed
  qed
qed

text \<open>A node whose high-priority queue holds 256 slabs and a radio that reports an empty packet.\<close>

definition ex_busy_pool :: BufferPool where
  "ex_busy_pool = \<lparr>bp_exhaustion_count = 0, bp_overflow_count = 0, bp_free_count = 97,
     bp_slabs = Some (map (\<lambda>i. (init_slab [] i)\<lparr>bs_refcount := (if i < 256 then 1 else 0)\<rparr>) [0..<POOL_SIZE]), bp_top = 256\<rparr>"

definition ex_full_queue :: RxQueues where
  "ex_full_queue = \<lparr>rq_dual = True, rq_hi = map int [0..<256], rq_lo = []\<rparr>"

definition ex_empty_packet :: LoraEnv where
  "ex_empty_packet = ex_lora\<lparr>le_answer := (\<lambda>n. if n = 0 then [0, 0, 0x00, 0x02] else [])\<rparr>"

lemma prefix_queued_inv:
  assumes "m < POOL_SIZE" and "bp_top p = int m" and "bp_free_count p = int (POOL_SIZE - m)"
    and "bp_slabs p = Some (map (\<lambda>i. (init_slab [] i)\<lparr>bs_refcount := (if i < m then 1 else 0)\<rparr>) [0..<POOL_SIZE])"
  shows "rx_inv (\<lparr>rq_dual = True, rq_hi = map int [0..<m], rq_lo = []\<rparr>, p)"
proof -
  let ?ss = "map (\<lambda>i. (init_slab [] i)\<lparr>bs_refcount := (if i < m then 1 else 0)\<rparr>) [0..<POOL_SIZE]"
  have "free_chain ?ss (int m) [m..<POOL_SIZE]"
    by (rule free_chain_upto) (use assms(1) in \<open>simp_all add: init_slab_def del: POOL_SIZE_eq upt_rec_numeral\<close>)
  then have "pool_rel p [m..<POOL_SIZE]"
    using assms by (auto simp add: pool_rel_def simp del: POOL_SIZE_eq upt_rec_numeral)
  moreover have "refs p i = (if i < m then 1 else 0)" if "i < POOL_SIZE" for i
    using that assms(4) by (simp add: refs_def del: POOL_SIZE_eq upt_rec_numeral)
  ultimately show ?thesis
    using assms(1) by (auto simp add: rx_inv_def pool_inv_def distinct_map image_iff simp del: POOL_SIZE_eq upt_rec_numeral)
qed

lemma ex_full_inv: "rx_inv (ex_full_queue, ex_busy_pool)"
  unfolding ex_full_queue_def
  by (rule prefix_queued_inv) (unfold ex_busy_pool_def, simp_all only: BufferPool.simps, simp_all del: upt_rec_numeral)

theorem lora_turn_slabs_witness:
  "\<exists>b t' q' p' i. rx_task_turn ex_empty_packet (LoraTransport_new, ex_full_queue, ex_busy_pool) = (b, t', q', p') \<and>
     q' = ex_full_queue \<and> i < POOL_SIZE \<and> refs ex_busy_pool i = 0 \<and> refs p' = (refs ex_busy_pool)(i := 1)"
proof -
  obtain b t' q' p' where r: "rx_task_turn ex_empty_packet (LoraTransport_new, ex_full_queue, ex_busy_pool) = (b, t', q', p')"
    by (metis surj_pair)
  have "rx_frame ex_empty_packet LoraTransport_new = Some (0, [], 0)"
    by (simp add: rx_frame_def ex_empty_packet_def ex_lora_def LoraTransport_new_def read_command_def write_command_def spi_answer_def
        spi_transmit_def lora_log_def rd16_def Let_def)
  moreover have "refs ex_busy_pool 256 = 0"
    by (simp add: refs_def ex_busy_pool_def init_slab_def del: upt_rec_numeral)
  then have "\<exists>i < POOL_SIZE. refs ex_busy_pool i = 0" by (intro exI [of _ 256]) simp
  ultimately show ?thesis
    using lora_turn_slabs [OF ex_full_inv _ r] r by (auto simp add: ex_full_queue_def simp del: upt_rec_numeral)
qed

end
