(* ===== verification/Mesh_Run.thy ===== *)
theory Mesh_Run
  imports Transfer_Invariant Espnow_Transport Lora_Transport
begin

text \<open>
  The main loop of the mesh task (\<^verbatim>\<open>components/mesh/mesh_manager.cpp\<close>): draining the two receive queues,
  the deferred requests of other tasks and the periodic work, over the state of the whole node. The
  ESP-NOW driver contributes its peer table; the LoRa driver appears through the spreading factor.
  A turn of the loop reads the clock once for its periodic part and once for every packet. The
  snapshot for the display task and log lines are left out.

  Shown are what a turn takes from the queues, that slabs are neither lost nor used twice in any
  history of receptions and turns, that a backlog is worked off, and that the channel scan visits every
  channel.
\<close>

unbundle bit_operations_syntax

abbreviation (input) kMaxQueueDrainPerLoop :: nat where "kMaxQueueDrainPerLoop \<equiv> 64"
abbreviation (input) kDiscoveryIntervalMs :: u32 where "kDiscoveryIntervalMs \<equiv> 10000"
abbreviation (input) kPruneIntervalMs :: u32 where "kPruneIntervalMs \<equiv> 5000"
abbreviation (input) kNeighborStaleTimeoutMs :: u32 where "kNeighborStaleTimeoutMs \<equiv> 30000"
abbreviation (input) kEarlyStaleTimeoutMs :: u32 where "kEarlyStaleTimeoutMs \<equiv> 15000"
abbreviation (input) kBiasIntervalMs :: u32 where "kBiasIntervalMs \<equiv> 10000"
abbreviation (input) kTelemetryIntervalMs :: u32 where "kTelemetryIntervalMs \<equiv> 30000"
abbreviation (input) kChannelHopIntervalMs :: u32 where "kChannelHopIntervalMs \<equiv> 1500"
abbreviation (input) kMaxWifiChannels :: u8 where "kMaxWifiChannels \<equiv> 13"

section \<open>Requests of other tasks\<close>

definition mesh_set_has_internet :: "bool \<Rightarrow> MeshManager \<Rightarrow> MeshManager" where
  "mesh_set_has_internet v m =
     (if mm_has_internet m \<noteq> v
      then m\<lparr>mm_exit_offline_pending := mm_exit_offline_pending m \<or> \<not> v \<and> mm_has_internet m, mm_has_internet := v\<rparr>
      else m)"

definition broadcast_exit_offline :: "MeshEnv \<Rightarrow> u16 \<Rightarrow> MeshManager \<Rightarrow> MeshManager" where
  "broadcast_exit_offline e session m =
     (let buf = enc_header (own_header EXIT_OFFLINE EXIT_ANY_ADDR 0 m) @
            enc_exit_offline \<lparr>eo_session_id = session, eo_exit_node_addr = mm_my_addr m\<rparr>
      in snd (send_raw e T_LORA buf BROADCAST_ADDR (snd (send_raw e T_ESPNOW buf BROADCAST_ADDR m))))"

section \<open>Draining the receive queues\<close>

definition upd_pool :: "(BufferPool \<Rightarrow> BufferPool) \<Rightarrow> Node \<Rightarrow> Node" where
  "upd_pool f w = (fst w, (snd w)\<lparr>mm_buffer_pool := f (mm_buffer_pool (snd w))\<rparr>)"

definition handle_slab :: "EngineEnv \<Rightarrow> MeshEnv \<Rightarrow> int \<Rightarrow> Node \<Rightarrow> Node" where
  "handle_slab x e slab w =
     upd_pool (pool_release (Some slab))
       (process_slab (flp_ops x) e (the (bp_slabs (mm_buffer_pool (snd w))) ! nat slab) w)"

text \<open>\<open>drain\<close> counts the packets handled in this turn; the high-priority queue comes first.\<close>

fun drain_queue :: "EngineEnv \<Rightarrow> (nat \<Rightarrow> MeshEnv) \<Rightarrow> int list \<Rightarrow> nat \<Rightarrow> Node \<Rightarrow> int list \<times> nat \<times> Node" where
  "drain_queue x es [] drain w = ([], drain, w)"
| "drain_queue x es (slab # q) drain w =
     (if drain < kMaxQueueDrainPerLoop then drain_queue x es q (drain + 1) (handle_slab x (es drain) slab w)
      else (slab # q, drain, w))"

definition drain_queues :: "EngineEnv \<Rightarrow> (nat \<Rightarrow> MeshEnv) \<Rightarrow> RxQueues \<times> Node \<Rightarrow> RxQueues \<times> Node" where
  "drain_queues x es s =
     (let (q, w) = s;
          (hi, drain, w1) = drain_queue x es (rq_hi q) 0 w;
          (lo, _, w2) = drain_queue x es (rq_lo q) drain w1
      in (q\<lparr>rq_hi := hi, rq_lo := lo\<rparr>, w2))"

section \<open>Periodic work\<close>

definition prune_neighbors :: "MeshEnv \<Rightarrow> MeshManager \<Rightarrow> MeshManager" where
  "prune_neighbors e m =
     (if kPruneIntervalMs < me_now e - mm_prune_timer_ms m
      then
        let (rt, m1) = detect_early_stale (me_now e) kEarlyStaleTimeoutMs (send_route_error e) (mm_route_table m) m
        in m1\<lparr>mm_route_table := prune_stale (me_now e) kNeighborStaleTimeoutMs rt, mm_prune_timer_ms := me_now e\<rparr>
      else m)"

text \<open>The adaptive data rate; the constants are \<open>0.3f\<close>, \<open>0.6f\<close> and \<open>0.9f\<close>.\<close>

definition target_sf :: "rat \<Rightarrow> nat \<Rightarrow> u8" where
  "target_sf lora_success neighbors =
     (if lora_success < 10066330 / 33554432 \<and> neighbors < 2 then 10
      else if lora_success < 10066330 / 16777216 then 9
      else if 15099494 / 16777216 < lora_success \<and> 3 \<le> neighbors then 7
      else 7)"

definition adapt_rate :: "MeshEnv \<Rightarrow> MeshManager \<Rightarrow> MeshManager" where
  "adapt_rate e m =
     (if kBiasIntervalMs < me_now e - mm_bias_timer_ms m
      then
        let m1 = m\<lparr>mm_protocol_selector := recalculate_bias (mm_protocol_selector m)\<rparr>;
            sf = target_sf (lora_success_rate (mm_protocol_selector m1)) (length (rt_neighbors (mm_route_table m1)));
            m2 = (if me_lora_initialized e \<and> sf \<noteq> mm_lora_sf m1 then m1\<lparr>mm_lora_sf := sf, mm_out := mm_out m1 @ [Set_spreading_factor sf]\<rparr> else m1)
        in m2\<lparr>mm_bias_timer_ms := me_now e\<rparr>
      else m)"

definition periodic_discovery :: "MeshEnv \<Rightarrow> bool \<Rightarrow> MeshManager \<Rightarrow> MeshManager" where
  "periodic_discovery e transfer_active m =
     (if (if transfer_active then kDiscoveryIntervalMs * 3 else kDiscoveryIntervalMs) < me_now e - mm_discovery_timer_ms m
      then (send_discovery e m)\<lparr>mm_discovery_timer_ms := me_now e\<rparr> else m)"

definition periodic_telemetry :: "MeshEnv \<Rightarrow> MeshManager \<Rightarrow> MeshManager" where
  "periodic_telemetry e m =
     (if kTelemetryIntervalMs < me_now e - mm_topo_metrics_timer_ms m
      then (publish_all_telemetry e m)\<lparr>mm_topo_metrics_timer_ms := me_now e\<rparr> else m)"

definition next_channel :: "u8 \<Rightarrow> u8" where
  "next_channel idx = idx mod kMaxWifiChannels + 1"

definition hop_channel :: "MeshEnv \<Rightarrow> MeshManager \<Rightarrow> MeshManager" where
  "hop_channel e m =
     (if \<not> mm_has_internet m \<and> ROUTE_HOPS_UNKNOWN \<le> min_data_hops_to_internet (mm_route_table m) \<and>
         kChannelHopIntervalMs < me_now e - mm_channel_hop_timer_ms m
      then
        let idx = next_channel (mm_channel_hop_idx m);
            m1 = (wifi_set_channel e idx (m\<lparr>mm_channel_hop_idx := idx\<rparr>))\<lparr>mm_current_channel := idx\<rparr>
        in (send_discovery e m1)\<lparr>mm_discovery_timer_ms := me_now e, mm_channel_hop_timer_ms := me_now e\<rparr>
      else m)"

definition upd_mesh :: "(MeshManager \<Rightarrow> MeshManager) \<Rightarrow> Node \<Rightarrow> Node" where
  "upd_mesh f w = (fst w, f (snd w))"

definition deferred_requests :: "MeshEnv \<Rightarrow> EspNowTransport \<times> Node \<Rightarrow> EspNowTransport \<times> Node" where
  "deferred_requests e s =
     (let (t, w) = s;
          t1 = drain_pending_peers t;
          t2 = (if mm_espnow_peer_update_pending (snd w) then update_broadcast_peer t1 else t1);
          w1 = upd_mesh (\<lambda>m. m\<lparr>mm_espnow_peer_update_pending := False\<rparr>) w;
          w2 = upd_mesh (\<lambda>m. m\<lparr>mm_exit_offline_pending := False\<rparr>) w1
      in (t2, if mm_exit_offline_pending (snd w1) then upd_mesh (broadcast_exit_offline e (active_session_id (fst (fst w2)))) w2 else w2))"

definition periodic_work :: "EngineEnv \<Rightarrow> MeshEnv \<Rightarrow> Node \<Rightarrow> Node" where
  "periodic_work x e w =
     engine_tick x e (upd_mesh (\<lambda>m. drain_cmd_queue e (hop_channel e (periodic_telemetry e (adapt_rate e
       (prune_neighbors e (periodic_discovery e (at_active (te_transfer (fst (fst w)))) m)))))) w)"

type_synonym MeshTask = "EspNowTransport \<times> RxQueues \<times> Node"

definition mesh_turn :: "EngineEnv \<Rightarrow> (nat \<Rightarrow> MeshEnv) \<Rightarrow> MeshEnv \<Rightarrow> MeshTask \<Rightarrow> MeshTask" where
  "mesh_turn x es e s =
     (let (t, q, w) = s;
          (q1, w1) = drain_queues x es (q, w);
          (t2, w2) = deferred_requests e (t, w1)
      in (t2, q1, periodic_work x e w2))"

section \<open>What a turn takes from the queues\<close>

definition handle_slabs :: "EngineEnv \<Rightarrow> (nat \<Rightarrow> MeshEnv) \<Rightarrow> (nat \<times> int) list \<Rightarrow> Node \<Rightarrow> Node" where
  "handle_slabs x es = fold (\<lambda>(i, slab). handle_slab x (es i) slab)"

lemma drain_queue_eq:
  "d \<le> kMaxQueueDrainPerLoop \<Longrightarrow> drain_queue x es q d w =
     (drop (kMaxQueueDrainPerLoop - d) q, d + min (kMaxQueueDrainPerLoop - d) (length q),
      handle_slabs x es (enumerate d (take (kMaxQueueDrainPerLoop - d) q)) w)"
proof (induction q arbitrary: d w)
  case (Cons slab q)
  show ?case
  proof (cases "d < kMaxQueueDrainPerLoop")
    case True
    then obtain k where k: "kMaxQueueDrainPerLoop - d = Suc k" "kMaxQueueDrainPerLoop - (d + 1) = k" by (cases "kMaxQueueDrainPerLoop - d") auto
    have "drain_queue x es (slab # q) d w = drain_queue x es q (d + 1) (handle_slab x (es d) slab w)" using True by simp
    also have "\<dots> = (drop k q, d + 1 + min k (length q), handle_slabs x es (enumerate (d + 1) (take k q)) (handle_slab x (es d) slab w))"
      using Cons.IH [of "d + 1" "handle_slab x (es d) slab w"] True unfolding k(2) by simp
    finally show ?thesis unfolding k(1) by (simp add: handle_slabs_def)
  next
    case False
    then have "d = kMaxQueueDrainPerLoop" using Cons.prems by simp
    then show ?thesis by (simp add: handle_slabs_def)
  qed
qed (simp add: handle_slabs_def)

text \<open>
  The two bounded loops over the receive queues handle one sequence: the first 64 packets of the
  high-priority queue followed by the low-priority queue, each in order of arrival. What they leave is
  the rest of both queues, so that no packet is handled twice or skipped, and a packet of low priority
  is handled only when the high-priority queue has been emptied.
\<close>

lemma drain_queues_split:
  "drain_queues x es (q, w) =
     (q\<lparr>rq_hi := drop 64 (rq_hi q), rq_lo := drop (64 - length (rq_hi q)) (rq_lo q)\<rparr>,
      handle_slabs x es (enumerate 0 (take 64 (rq_hi q @ rq_lo q))) w)"
proof -
  have h: "drain_queue x es (rq_hi q) 0 w =
      (drop 64 (rq_hi q), min 64 (length (rq_hi q)), handle_slabs x es (enumerate 0 (take 64 (rq_hi q))) w)"
    using drain_queue_eq [of 0 x es "rq_hi q" w] by simp
  have m: "64 - min 64 (length (rq_hi q)) = 64 - length (rq_hi q)" by simp
  have e: "enumerate 0 (take 64 (rq_hi q @ rq_lo q)) =
      enumerate 0 (take 64 (rq_hi q)) @ enumerate (min 64 (length (rq_hi q))) (take (64 - length (rq_hi q)) (rq_lo q))"
    by (simp add: enumerate_append_eq min.commute)
  show ?thesis
    unfolding drain_queues_def prod.case Let_def h
      drain_queue_eq [of "min 64 (length (rq_hi q))" x es, OF min.cobounded1] m e
    by (simp add: handle_slabs_def)
qed

section \<open>The periodic work sends frames of this node only\<close>

lemma own_sends_two:
  "own_sends m (snd (send_raw e t (enc_header (own_header type dst sq m) @ payload) peer
     (snd (send_raw e t' (enc_header (own_header type dst sq m) @ payload) peer' m))))"
proof -
  let ?d = "enc_header (own_header type dst sq m) @ payload" and ?m1 = "snd (send_raw e t' (enc_header (own_header type dst sq m) @ payload) peer' m)"
  have o: "own_sends m ?m1" by (rule own_sends_send_raw)
  have "mm_my_addr ?m1 = mm_my_addr m" using o by (simp add: own_sends_def)
  then have "own_header type dst sq ?m1 = own_header type dst sq m" by (simp add: own_header_def)
  with own_sends_send_raw [of ?m1 e t type dst sq payload peer] show ?thesis using own_sends_trans [OF o] by simp
qed

lemma own_sends_track_parent: "own_sends m (track_parent m)"
  by (rule own_sends_same) (simp_all add: track_parent_def Let_def case_prod_unfold)

lemma own_sends_send_discovery: "own_sends m (send_discovery e m)"
proof -
  define m1 where "m1 = (if mm_has_internet m then m\<lparr>mm_my_inet_seq := mm_my_inet_seq m + 1\<rparr> else m)"
  let ?d = "enc_header (own_header DISCOVERY BROADCAST_ADDR 0 m1) @ enc_discovery (discovery_payload e m1)"
  define m2 where "m2 = snd (send_raw e T_ESPNOW ?d BROADCAST_ADDR m1)"
  have 1: "own_sends m m1" by (rule own_sends_same) (simp_all add: m1_def)
  have 2: "own_sends m1 m2" "own_sends m1 (snd (send_raw e T_LORA ?d BROADCAST_ADDR m2))"
    unfolding m2_def by (rule own_sends_send_raw, rule own_sends_two)
  have t: "own_sends m (if \<not> mm_has_internet m3 then track_parent m3 else m3)" if "own_sends m1 m3" for m3
    using own_sends_trans [OF own_sends_trans [OF 1 that] own_sends_track_parent] own_sends_trans [OF 1 that] by simp
  show ?thesis
    unfolding send_discovery_def Let_def m1_def [symmetric] m2_def [symmetric] by (rule t) (use 2 in simp)
qed

lemma own_sends_exit_offline: "own_sends m (broadcast_exit_offline e session m)"
  unfolding broadcast_exit_offline_def Let_def by (rule own_sends_two)

lemma early_stale_own:
  "early_stale_loop now ms (send_route_error e) ns m = (ns', m') \<Longrightarrow> own_sends m m'"
proof (induction ns arbitrary: m ns')
  case (Cons n ns)
  have "own_sends m m'" if "own_sends (send_route_error e a b c m) m'" for a b c
    using own_sends_trans [OF own_sends_send_packet that [unfolded send_route_error_def]] .
  with Cons show ?case by (auto simp: Let_def split: if_splits prod.splits) blast
qed simp

lemma own_sends_prune: "own_sends m (prune_neighbors e m)"
proof -
  obtain ns' m1 where l: "early_stale_loop (me_now e) kEarlyStaleTimeoutMs (send_route_error e) (rt_neighbors (mm_route_table m)) m = (ns', m1)"
    by (meson surj_pair)
  have "own_sends m (m1\<lparr>mm_route_table := t, mm_prune_timer_ms := n\<rparr>)" for t n
    by (rule own_sends_trans [OF early_stale_own [OF l]], rule own_sends_same) simp_all
  then show ?thesis by (simp add: prune_neighbors_def detect_early_stale_def l)
qed

lemma own_sends_adapt_rate: "own_sends m (adapt_rate e m)"
  by (auto simp: adapt_rate_def Let_def own_sends_def frame_from_def)

lemma own_sends_then_same:
  "own_sends m m1 \<Longrightarrow> mm_out m' = mm_out m1 \<Longrightarrow> mm_my_addr m' = mm_my_addr m1 \<Longrightarrow> mm_buffer_pool m' = mm_buffer_pool m1 \<Longrightarrow> own_sends m m'"
  by (erule own_sends_trans) (rule own_sends_same)

lemma own_sends_periodic_discovery: "own_sends m (periodic_discovery e a m)"
  using own_sends_then_same [OF own_sends_send_discovery] by (simp add: periodic_discovery_def)

lemma own_sends_periodic_telemetry: "own_sends m (periodic_telemetry e m)"
  using own_sends_then_same [OF own_sends_telemetry] by (simp add: periodic_telemetry_def)

lemma own_sends_hop_channel: "own_sends m (hop_channel e m)"
proof -
  define m1 where "m1 = (wifi_set_channel e (next_channel (mm_channel_hop_idx m)) (m\<lparr>mm_channel_hop_idx := next_channel (mm_channel_hop_idx m)\<rparr>))
    \<lparr>mm_current_channel := next_channel (mm_channel_hop_idx m)\<rparr>"
  have "own_sends m m1"
    by (rule own_sends_log [of _ _ "Set_wifi_channel (next_channel (mm_channel_hop_idx m))"]) (simp_all add: m1_def wifi_set_channel_def frame_from_def)
  from own_sends_then_same [OF own_sends_trans [OF this own_sends_send_discovery]]
  show ?thesis unfolding hop_channel_def Let_def m1_def [symmetric] by simp
qed

lemma own_sends_drain_cmd: "own_sends m (drain_cmd_queue e m)"
proof -
  have "own_sends m (fold (run_cmd e) cs m)" for cs
  proof (induction cs arbitrary: m)
    case (Cons c cs)
    have "own_sends m (run_cmd e c m)" using own_sends_mesh_cmd own_sends_send_packet by (simp add: run_cmd_def Let_def)
    with Cons show ?case using own_sends_trans by simp
  qed simp
  then show ?thesis by (simp add: drain_cmd_queue_def)
qed

lemmas periodic_own = own_sends_drain_cmd own_sends_hop_channel own_sends_periodic_telemetry own_sends_adapt_rate
  own_sends_prune own_sends_periodic_discovery

lemma own_sends_periodic_work: "own_sends (snd w) (snd (periodic_work x e w))"
proof -
  let ?m = "drain_cmd_queue e (hop_channel e (periodic_telemetry e (adapt_rate e
       (prune_neighbors e (periodic_discovery e (at_active (te_transfer (fst (fst w)))) (snd w))))))"
  have 1: "own_sends (snd w) ?m" by (meson periodic_own own_sends_trans)
  have "own_sends ?m (snd (engine_tick x e (fst w, ?m)))" using engine_tick_moves [of "(fst w, ?m)" x e] by (simp add: moves_def)
  with own_sends_trans [OF 1] show ?thesis by (simp add: periodic_work_def upd_mesh_def)
qed

lemma own_sends_deferred: "deferred_requests e (t, w) = (t', w') \<Longrightarrow> own_sends (snd w) (snd w')"
proof -
  assume d: "deferred_requests e (t, w) = (t', w')"
  let ?m = "(snd w)\<lparr>mm_espnow_peer_update_pending := False, mm_exit_offline_pending := False\<rparr>"
  have "own_sends (snd w) ?m" by (rule own_sends_same) simp_all
  then have "own_sends (snd w) ?m" "own_sends (snd w) (broadcast_exit_offline e session ?m)" for session
    using own_sends_exit_offline own_sends_trans by blast+
  with d show ?thesis by (auto simp: deferred_requests_def Let_def upd_mesh_def split: if_splits)
qed

section \<open>Slabs\<close>

lemma handle_slabs_pool:
  "mm_buffer_pool (snd (handle_slabs x es ps w)) = fold (\<lambda>(i, slab). pool_release (Some slab)) ps (mm_buffer_pool (snd w))"
proof (induction ps arbitrary: w)
  case (Cons p ps)
  have "mm_buffer_pool (snd (handle_slab x e slab w)) = pool_release (Some slab) (mm_buffer_pool (snd w))" for e slab
    by (simp add: handle_slab_def upd_pool_def flp.process_slab_pool)
  with Cons show ?case by (simp add: handle_slabs_def case_prod_unfold)
qed (simp add: handle_slabs_def)

lemma release_slabs: "slabs_used (s # ss) p \<Longrightarrow> slabs_used ss (pool_release (Some s) p)"
proof -
  assume u: "slabs_used (s # ss) p"
  then obtain i where i: "s = int i" "i < POOL_SIZE" unfolding slabs_used_def by (auto intro: that [of "nat s"])
  with u have "pool_inv p" "0 < refs p i" by (auto simp: slabs_used_def)
  from bpool.release_cnt [OF this(1) i(2) this(2)] u i show ?thesis by (auto simp: slabs_used_def)
qed

lemma release_all: "slabs_used (map snd ps @ rest) p \<Longrightarrow> slabs_used rest (fold (\<lambda>(i, slab). pool_release (Some slab)) ps p)"
  by (induction ps arbitrary: p) (auto simp: case_prod_unfold dest: release_slabs)

lemma mesh_turn_queues:
  assumes "mesh_turn x es e (t, q, w) = (t', q', w')"
  shows "q' = q\<lparr>rq_hi := drop 64 (rq_hi q), rq_lo := drop (64 - length (rq_hi q)) (rq_lo q)\<rparr>"
    and "mm_buffer_pool (snd w') = fold (\<lambda>(i, slab). pool_release (Some slab))
           (enumerate 0 (take 64 (rq_hi q @ rq_lo q))) (mm_buffer_pool (snd w))"
proof -
  let ?w1 = "handle_slabs x es (enumerate 0 (take 64 (rq_hi q @ rq_lo q))) w"
  obtain t2 w2 where d: "deferred_requests e (t, ?w1) = (t2, w2)" by (meson surj_pair)
  from assms have r: "q' = q\<lparr>rq_hi := drop 64 (rq_hi q), rq_lo := drop (64 - length (rq_hi q)) (rq_lo q)\<rparr>" "w' = periodic_work x e w2"
    unfolding mesh_turn_def Let_def prod.case drain_queues_split d by auto
  then show "q' = q\<lparr>rq_hi := drop 64 (rq_hi q), rq_lo := drop (64 - length (rq_hi q)) (rq_lo q)\<rparr>" by simp
  have "mm_buffer_pool (snd w') = mm_buffer_pool (snd ?w1)"
    using own_sends_deferred [OF d] own_sends_periodic_work [of w2 x e] r(2) by (simp add: own_sends_def)
  then show "mm_buffer_pool (snd w') = fold (\<lambda>(i, slab). pool_release (Some slab))
           (enumerate 0 (take 64 (rq_hi q @ rq_lo q))) (mm_buffer_pool (snd w))"
    unfolding handle_slabs_pool .
qed

lemma mesh_turn_lost:
  assumes "slabs_used (rx_queued q @ lost) (mm_buffer_pool (snd w))" and "mesh_turn x es e (t, q, w) = (t', q', w')"
  shows "slabs_used (rx_queued q' @ lost) (mm_buffer_pool (snd w'))"
proof -
  have "rx_queued q' = drop 64 (rx_queued q)" by (simp add: mesh_turn_queues(1) [OF assms(2)])
  then have "rx_queued q @ lost = map snd (enumerate 0 (take 64 (rx_queued q))) @ (rx_queued q' @ lost)"
    by (simp only: map_snd_enumerate append_assoc [symmetric] append_take_drop_id)
  then show ?thesis
    using assms(1) release_all unfolding mesh_turn_queues(2) [OF assms(2)] by metis
qed

lemma mesh_turn_slabs:
  assumes "rx_inv (q, mm_buffer_pool (snd w))" and "mesh_turn x es e (t, q, w) = (t', q', w')"
  shows "rx_inv (q', mm_buffer_pool (snd w'))"
  using mesh_turn_lost [OF _ assms(2), of "[]"] assms(1) by (simp add: rx_inv_slabs)

text \<open>
  The histories of a node: frames delivered by the ESP-NOW driver, turns of the LoRa receive task and
  turns of the mesh task, all of them whatever arrives. The list on the right collects the slabs
  that turns of the LoRa task lost: those of packets without a byte at a full high-priority queue.
\<close>

definition set_pool :: "BufferPool \<Rightarrow> Node \<Rightarrow> Node" where
  "set_pool p w = (fst w, (snd w)\<lparr>mm_buffer_pool := p\<rparr>)"

definition lora_lost :: "LoraEnv \<Rightarrow> LoraTransport \<Rightarrow> Rx \<Rightarrow> int list" where
  "lora_lost e l s = (case rx_frame e l of None \<Rightarrow> [] | Some (_, frame, _) \<Rightarrow> lost_slab frame s)"

inductive node_reach :: "EspNowTransport \<times> LoraTransport \<times> RxQueues \<times> Node \<Rightarrow> EspNowTransport \<times> LoraTransport \<times> RxQueues \<times> Node \<Rightarrow>
    int list \<Rightarrow> bool"
  for s0 where
  start: "node_reach s0 s0 []"
| espnow: "node_reach s0 (t, l, q, w) lost \<Longrightarrow> espnow_on_recv src rssi frame (t, q, mm_buffer_pool (snd w)) = (t', q', p') \<Longrightarrow>
    node_reach s0 (t', l, q', set_pool p' w) lost"
| lora: "node_reach s0 (t, l, q, w) lost \<Longrightarrow>
    rx_task_turn e (l, q, mm_buffer_pool (snd w)) = (tx_done, l', q', p') \<Longrightarrow>
    node_reach s0 (t, l', q', set_pool p' w) (lost @ lora_lost e l (q, mm_buffer_pool (snd w)))"
| turn: "node_reach s0 (t, l, q, w) lost \<Longrightarrow> mesh_turn x es e (t, q, w) = (t', q', w') \<Longrightarrow> node_reach s0 (t', l, q', w') lost"

lemma pool_init_rx_inv:
  assumes "pool_init (Some mem) BufferPool_new = Some p" and "rq_hi q = []" "rq_lo q = []"
  shows "rx_inv (q, p)"
proof -
  have "refs p k = 0" for k using assms(1) by (auto simp: refs_def pool_init_def init_slab_def)
  moreover have "pool_inv p" using pool_init_rel [OF assms(1)] by (auto simp: pool_inv_def)
  ultimately show ?thesis using assms(2,3) by (simp add: rx_inv_def)
qed

lemma espnow_recv_slabs:
  assumes "slabs_used (rx_queued q @ lost) p" and "rq_dual q" and "espnow_on_recv src rssi frame (t, q, p) = (t', q', p')"
  shows "slabs_used (rx_queued q' @ lost) p' \<and> rq_dual q'"
proof (cases "\<not> en_instance t \<or> frame = [] \<or> MAX_MTU < length frame")
  case True
  then show ?thesis using assms by (auto simp: espnow_on_recv_def)
next
  case False
  define f :: "BufferSlab \<Rightarrow> BufferSlab" where "f = (\<lambda>b. b\<lparr>bs_len := length frame, bs_data := write_at 0 frame (bs_data b), bs_source := ESPNOW,
     bs_rssi := (case rssi of Some r \<Rightarrow> r | None \<Rightarrow> - 90)\<rparr>)"
  have "rx_store frame f (q, p) = (q', p')"
    using assms(3) unfolding espnow_on_recv_def prod.case if_not_P [OF False] Let_def f_def [symmetric]
    by (auto simp: rx_store_def split: prod.splits option.splits)
  from rx_store_slabs [OF assms(1,2) this] show ?thesis using False by (simp add: f_def lost_slab_def)
qed

lemma lora_turn_keeps_slabs:
  assumes "slabs_used (rx_queued q @ lost) p" and "rq_dual q" and "rx_task_turn e (l, q, p) = (b, l', q', p')"
  shows "slabs_used (rx_queued q' @ lost @ lora_lost e l (q, p)) p' \<and> rq_dual q'"
proof -
  have qp: "(q', p') = snd (snd (rx_task_turn e (l, q, p)))" using assms(3) by simp
  show ?thesis
  proof (cases "rx_frame e l")
    case None
    then show ?thesis using qp assms(1,2) by (simp add: rx_turn_slabs lora_lost_def)
  next
    case (Some r)
    obtain n frame rssi where r: "r = (n, frame, rssi)" by (metis surj_pair)
    have "rx_store frame (lora_slab n frame rssi) (q, p) = (q', p')"
      using qp Some r by (simp add: rx_turn_slabs rx_store_def split: prod.split option.split)
    from rx_store_slabs [OF assms(1,2) this] show ?thesis using Some r by (simp add: lora_lost_def)
  qed
qed

lemma node_reach_slabs:
  assumes "node_reach (t0, l0, q0, w0) (t, l, q, w) lost" and "rx_inv (q0, mm_buffer_pool (snd w0))" and "rq_dual q0"
  shows "slabs_used (rx_queued q @ lost) (mm_buffer_pool (snd w)) \<and> rq_dual q"
proof -
  have "slabs_used (rx_queued (fst (snd (snd s))) @ ls) (mm_buffer_pool (snd (snd (snd (snd s))))) \<and> rq_dual (fst (snd (snd s)))"
    if "node_reach (t0, l0, q0, w0) s ls" for s ls
    using that
  proof (induction rule: node_reach.induct)
    case start
    then show ?case using assms(2,3) by (simp add: rx_inv_slabs)
  next
    case (espnow t l q w lost src rssi frame t' q' p')
    then show ?case using espnow_recv_slabs [OF _ _ espnow.hyps(2), of lost] by (simp add: set_pool_def)
  next
    case (lora t l q w lost e tx_done l' q' p')
    then show ?case using lora_turn_keeps_slabs [OF _ _ lora.hyps(2), of lost] by (simp add: set_pool_def)
  next
    case (turn t l q w lost x es e t' q' w')
    then show ?case using mesh_turn_lost [OF _ turn.hyps(2), of lost] mesh_turn_queues(1) [OF turn.hyps(2)] by simp
  qed
  from this [OF assms(1)] show ?thesis by simp
qed

lemma slabs_used_set:
  assumes "slabs_used ss p"
  shows "set ss = int ` ({..<POOL_SIZE} - {i. i < POOL_SIZE \<and> refs p i = 0})"
proof
  show "set ss \<subseteq> int ` ({..<POOL_SIZE} - {i. i < POOL_SIZE \<and> refs p i = 0})"
  proof
    fix s assume s: "s \<in> set ss"
    with assms have "s \<in> {0..<int POOL_SIZE}" unfolding slabs_used_def by blast
    then obtain i where "s = int i" "i < POOL_SIZE" by (cases s) auto
    with assms s show "s \<in> int ` ({..<POOL_SIZE} - {i. i < POOL_SIZE \<and> refs p i = 0})" by (auto simp: slabs_used_def)
  qed
qed (use assms in \<open>auto simp: slabs_used_def split: if_splits\<close>)

lemma slabs_used_free:
  assumes "slabs_used ss p"
  shows "card {i. i < POOL_SIZE \<and> refs p i = 0} + length ss = POOL_SIZE"
proof -
  let ?F = "{i. i < POOL_SIZE \<and> refs p i = 0}"
  have "length ss = card (set ss)" using assms by (simp add: slabs_used_def distinct_card)
  also have "\<dots> = card ({..<POOL_SIZE} - ?F)" unfolding slabs_used_set [OF assms] by (rule card_image) simp
  also have "\<dots> = POOL_SIZE - card ?F" by (subst card_Diff_subset) auto
  finally have "length ss = POOL_SIZE - card ?F" .
  moreover have "card ?F \<le> card {..<POOL_SIZE}" by (rule card_mono) auto
  ultimately show ?thesis by simp
qed

text \<open>
  C9. Slab accounting of the whole node. Whatever frames the two radios receive and however their
  tasks and the mesh task alternate, each of the 353 slabs of the pool is free, or stands in one of the
  two receive queues, exactly once, or is one of the lost slabs, which turns of the LoRa receive task took
  for a packet without a byte at a full high-priority queue. So no slab is handled twice or reused
  while it waits, no slab is lost in any other way, and a lost one never becomes free again.
\<close>

theorem node_slab_accounting:
  assumes "pool_init (Some mem) BufferPool_new = Some p0" and "mm_buffer_pool (snd w0) = p0" and "rq_dual q0" "rq_hi q0 = []" "rq_lo q0 = []"
    and "node_reach (t0, l0, q0, w0) (t, l, q, w) lost"
  defines "used \<equiv> rq_hi q @ rq_lo q @ lost" and "free \<equiv> {i. i < POOL_SIZE \<and> refs (mm_buffer_pool (snd w)) i = 0}"
  shows "distinct used \<and> set used = int ` ({..<POOL_SIZE} - free) \<and>
    card free + length (rq_hi q) + length (rq_lo q) + length lost = POOL_SIZE"
proof -
  have "rx_inv (q0, p0)" using pool_init_rx_inv [OF assms(1,4,5)] .
  with node_reach_slabs [OF assms(6)] assms(2,3) have u: "slabs_used used (mm_buffer_pool (snd w))"
    by (simp add: used_def)
  have "distinct used" using u unfolding slabs_used_def by blast
  moreover have "set used = int ` ({..<POOL_SIZE} - free)" unfolding free_def by (rule slabs_used_set [OF u])
  moreover have "card free + length used = POOL_SIZE" unfolding free_def by (rule slabs_used_free [OF u])
  moreover have "length used = length (rq_hi q) + length (rq_lo q) + length lost" unfolding used_def by simp
  ultimately show ?thesis by (simp only: add.assoc)
qed

definition ex_pooled :: "BufferPool \<Rightarrow> Node" where
  "ex_pooled p = set_pool p ex_node"

theorem node_slab_accounting_witness:
  "\<exists>t q p. node_reach (EspNowTransport_new\<lparr>en_instance := True\<rparr>, LoraTransport_new, ex_queues, (ex_pooled ex_pool))
       (t, LoraTransport_new, q, set_pool p (ex_pooled ex_pool)) [] \<and>
     card {i. i < POOL_SIZE \<and> refs p i = 0} + length (rq_hi q) + length (rq_lo q) = POOL_SIZE"
proof -
  let ?t = "EspNowTransport_new\<lparr>en_instance := True\<rparr>"
  obtain t q p where r: "espnow_on_recv [1, 2, 3, 4, 5, 6] None [0x41, 7] (?t, ex_queues, mm_buffer_pool (snd (ex_pooled ex_pool))) = (t, q, p)"
    by (metis surj_pair)
  have n: "node_reach (?t, LoraTransport_new, ex_queues, (ex_pooled ex_pool)) (t, LoraTransport_new, q, set_pool p (ex_pooled ex_pool)) []"
    by (rule node_reach.espnow [OF node_reach.start r])
  have i: "pool_init (Some (\<lambda>_. [])) BufferPool_new = Some ex_pool" by (simp add: ex_pool_def pool_init_def)
  have "mm_buffer_pool (snd (ex_pooled ex_pool)) = ex_pool" by (simp add: ex_pooled_def set_pool_def)
  from node_slab_accounting [OF i this _ _ _ n] have "card {i. i < POOL_SIZE \<and> refs p i = 0} + length (rq_hi q) + length (rq_lo q) = POOL_SIZE"
    by (simp add: ex_queues_def set_pool_def)
  with n show ?thesis by blast
qed

text \<open>
  C23. Progress of the main loop. When no further frame arrives, a backlog of \<open>n\<close> packets is worked off in
  \<open>n / 64\<close> turns, rounded up, whatever the packets contain: both queues are empty and every slab is free.
\<close>

theorem mesh_task_empties_queues:
  assumes "rx_inv (q, mm_buffer_pool (snd w))" and "length (rq_hi q) + length (rq_lo q) \<le> 64 * length turns"
    and "fold (\<lambda>(x, es, e). mesh_turn x es e) turns (t, q, w) = (t', q', w')"
  shows "rq_hi q' = [] \<and> rq_lo q' = [] \<and> (\<forall>i < POOL_SIZE. refs (mm_buffer_pool (snd w')) i = 0)"
  using assms
proof (induction turns arbitrary: t q w)
  case Nil
  then show ?case by (simp add: rx_inv_def)
next
  case (Cons c turns)
  obtain x es e where c: "c = (x, es, e)" by (metis surj_pair)
  obtain t1 q1 w1 where s: "mesh_turn x es e (t, q, w) = (t1, q1, w1)" by (metis surj_pair)
  have "length (rq_hi q1) + length (rq_lo q1) \<le> 64 * length turns"
    using Cons.prems(2) mesh_turn_queues(1) [OF s] by simp
  with Cons.IH [OF mesh_turn_slabs [OF Cons.prems(1) s]] Cons.prems(3) s c show ?case by simp
qed

theorem mesh_task_empties_queues_witness:
  "\<exists>t' q' w'. fold (\<lambda>(x, es, e). mesh_turn x es e) (replicate 4 (ex_engine_env, \<lambda>_. ex_mesh_env, ex_mesh_env))
       (EspNowTransport_new, ex_full_queue, ex_pooled ex_busy_pool) = (t', q', w') \<and>
     rq_hi q' = [] \<and> rq_lo q' = [] \<and> (\<forall>i < POOL_SIZE. refs (mm_buffer_pool (snd w')) i = 0)"
proof -
  let ?ts = "replicate 4 (ex_engine_env, \<lambda>_ :: nat. ex_mesh_env, ex_mesh_env)"
  obtain t' q' w' where r: "fold (\<lambda>(x, es, e). mesh_turn x es e) ?ts (EspNowTransport_new, ex_full_queue, ex_pooled ex_busy_pool) = (t', q', w')"
    by (metis surj_pair)
  have "rx_inv (ex_full_queue, mm_buffer_pool (snd (ex_pooled ex_busy_pool)))" using ex_full_inv by (simp add: ex_pooled_def set_pool_def)
  moreover have "length (rq_hi ex_full_queue) + length (rq_lo ex_full_queue) \<le> 64 * length ?ts" by (simp add: ex_full_queue_def)
  ultimately show ?thesis using mesh_task_empties_queues [OF _ _ r] r by blast
qed

section \<open>The channel scan\<close>

definition channels_of :: "mesh_out list \<Rightarrow> u8 list" where
  "channels_of outs = concat (map (\<lambda>x. case x of Set_wifi_channel ch \<Rightarrow> [ch] | _ \<Rightarrow> []) outs)"

lemma channels_of_simps [simp]:
  "channels_of [] = []" "channels_of (Set_wifi_channel ch # outs) = ch # channels_of outs"
  "channels_of (Radio t peer d # outs) = channels_of outs" "channels_of (xs @ ys) = channels_of xs @ channels_of ys"
  by (simp_all add: channels_of_def)

text \<open>An offline node without a neighbour that leads to the internet.\<close>

definition scanning :: "MeshManager \<Rightarrow> bool" where
  "scanning m \<longleftrightarrow> \<not> mm_has_internet m \<and> ROUTE_HOPS_UNKNOWN \<le> min_data_hops_to_internet (mm_route_table m)"

lemma route_view_fields [simp]:
  "ne_has_internet (route_view n) = ne_has_internet n" "ne_hops_to_internet (route_view n) = ne_hops_to_internet n"
  "ne_espnow_reachable (route_view n) = ne_espnow_reachable n"
  by (simp_all add: route_view_def)

lemma min_data_hops_view:
  assumes "map route_view (rt_neighbors t') = map route_view (rt_neighbors t)"
  shows "min_data_hops_to_internet t' = min_data_hops_to_internet t"
proof -
  let ?ok = "\<lambda>n. (ne_has_internet n \<or> ne_hops_to_internet n < ROUTE_HOPS_UNKNOWN) \<and> ne_espnow_reachable n"
  let ?f = "\<lambda>n best. if ?ok n \<and> ne_hops_to_internet n < best then ne_hops_to_internet n else best"
  have v: "fold ?f (map route_view ns) = fold ?f ns" for ns by (simp add: fold_map comp_def cong: if_cong)
  have "fold ?f (rt_neighbors t') = fold ?f (map route_view (rt_neighbors t'))" by (rule v [symmetric])
  also have "\<dots> = fold ?f (rt_neighbors t)" unfolding assms by (rule v)
  finally show ?thesis unfolding min_data_hops_to_internet_def min_hops_scan_def by (rule fun_cong)
qed

lemma sent_scan:
  assumes "sent m outs m'"
  shows "mm_channel_hop_idx m' = mm_channel_hop_idx m" and "scanning m' = scanning m"
proof -
  have "mesh_rest m' = mesh_rest m" using assms by (simp add: sent_def)
  from arg_cong [OF this, of mm_channel_hop_idx] show "mm_channel_hop_idx m' = mm_channel_hop_idx m" by (simp add: mesh_rest_def)
  have "map route_view (rt_neighbors (mm_route_table m')) = map route_view (rt_neighbors (mm_route_table m))"
    using sent_routes [OF assms] by (simp add: same_routes_def)
  from min_data_hops_view [OF this] show "scanning m' = scanning m" using sent_fields(2) [OF assms] by (simp add: scanning_def)
qed

lemma track_parent_scan:
  "mm_out (track_parent m) = mm_out m" "mm_channel_hop_idx (track_parent m) = mm_channel_hop_idx m" "scanning (track_parent m) = scanning m"
proof -
  have n: "rt_neighbors (snd (check_better_route c a t)) = rt_neighbors t" for c a t
    by (simp add: check_better_route_def Let_def split: prod.split)
  have "min_data_hops_to_internet (snd (check_better_route c a t)) = min_data_hops_to_internet t" for c a t
    by (rule min_data_hops_view) (simp add: n)
  then show "mm_out (track_parent m) = mm_out m" "mm_channel_hop_idx (track_parent m) = mm_channel_hop_idx m" "scanning (track_parent m) = scanning m"
    by (simp_all add: track_parent_def scanning_def Let_def case_prod_unfold)
qed

lemma send_discovery_scan:
  fixes e :: MeshEnv
  assumes "scanning m"
  defines "frame \<equiv> enc_header (own_header DISCOVERY BROADCAST_ADDR 0 m) @ enc_discovery (discovery_payload e m)"
  shows "\<exists>outs. mm_out (send_discovery e m) = mm_out m @ Radio T_ESPNOW BROADCAST_ADDR frame # outs \<and> channels_of outs = []"
    and "mm_channel_hop_idx (send_discovery e m) = mm_channel_hop_idx m" and "scanning (send_discovery e m)"
proof -
  have off: "\<not> mm_has_internet m" using assms(1) by (simp add: scanning_def)
  obtain c1 m2 where s1: "send_raw e T_ESPNOW frame BROADCAST_ADDR m = (c1, m2)" by (meson surj_pair)
  obtain c2 m3 where s2: "send_raw e T_LORA frame BROADCAST_ADDR m2 = (c2, m3)" by (meson surj_pair)
  have r: "sent m [Radio T_ESPNOW BROADCAST_ADDR frame] m2" using send_raw_sent [OF s1] by simp
  define lora where "lora \<longleftrightarrow> me_lora_initialized e \<and> (get_espnow_neighbor_count (mm_route_table m2) = 0 \<or>
     20000 < oldest_contact_age_ms (me_now e) (mm_route_table m2) \<or> ROUTE_HOPS_UNKNOWN \<le> disc_hops_to_internet (discovery_payload e m))"
  have d: "send_discovery e m = (let m' = if lora then m3 else m2 in if \<not> mm_has_internet m' then track_parent m' else m')"
    unfolding send_discovery_def Let_def if_not_P [OF off] frame_def [symmetric] s1 s2 snd_conv lora_def ..
  define m4 where "m4 = (if lora then m3 else m2)"
  obtain outs where o: "sent m (Radio T_ESPNOW BROADCAST_ADDR frame # outs) m4" "channels_of outs = []"
  proof (cases lora)
    case True
    with sent_trans [OF r send_raw_sent [OF s2]] show ?thesis by (intro that [of "if me_lora_initialized e then [Radio T_LORA BROADCAST_ADDR frame] else []"]) (auto simp: m4_def split: if_splits)
  qed (use r that [of "[]"] in \<open>simp add: m4_def\<close>)
  have d: "send_discovery e m = track_parent m4" using d off sent_fields(2) [OF o(1)] by (simp add: m4_def Let_def)
  show "\<exists>outs. mm_out (send_discovery e m) = mm_out m @ Radio T_ESPNOW BROADCAST_ADDR frame # outs \<and> channels_of outs = []"
    using sent_out [OF o(1)] o(2) by (simp add: d track_parent_scan)
  show "mm_channel_hop_idx (send_discovery e m) = mm_channel_hop_idx m" and "scanning (send_discovery e m)"
    using sent_scan [OF o(1)] assms(1) by (simp_all add: d track_parent_scan)
qed

lemma hop_channel_scan:
  assumes "scanning m" and "kChannelHopIntervalMs < me_now e - mm_channel_hop_timer_ms m"
  shows "\<exists>outs. mm_out (hop_channel e m) = mm_out m @ outs \<and> channels_of outs = [next_channel (mm_channel_hop_idx m)]"
    and "mm_channel_hop_idx (hop_channel e m) = next_channel (mm_channel_hop_idx m)" and "scanning (hop_channel e m)"
    and "mm_channel_hop_timer_ms (hop_channel e m) = me_now e"
proof -
  let ?idx = "next_channel (mm_channel_hop_idx m)"
  define m1 where "m1 = (wifi_set_channel e ?idx (m\<lparr>mm_channel_hop_idx := ?idx\<rparr>))\<lparr>mm_current_channel := ?idx\<rparr>"
  have h: "hop_channel e m = (send_discovery e m1)\<lparr>mm_discovery_timer_ms := me_now e, mm_channel_hop_timer_ms := me_now e\<rparr>"
    using assms by (simp add: hop_channel_def scanning_def m1_def Let_def)
  have sc: "scanning m1" using assms(1) by (simp add: m1_def scanning_def wifi_set_channel_def)
  note d = send_discovery_scan [OF sc, of e]
  from d(1) obtain f outs where "mm_out (send_discovery e m1) = mm_out m1 @ Radio T_ESPNOW BROADCAST_ADDR f # outs" "channels_of outs = []" by blast
  then have "mm_out (hop_channel e m) = mm_out m @ Set_wifi_channel ?idx # Radio T_ESPNOW BROADCAST_ADDR f # outs" "channels_of outs = []"
    by (simp_all add: h m1_def wifi_set_channel_def)
  then show "\<exists>outs. mm_out (hop_channel e m) = mm_out m @ outs \<and> channels_of outs = [?idx]"
    by (intro exI [of _ "Set_wifi_channel ?idx # Radio T_ESPNOW BROADCAST_ADDR f # outs"]) simp
  have "mm_channel_hop_idx m1 = ?idx" by (simp add: m1_def wifi_set_channel_def)
  then show "mm_channel_hop_idx (hop_channel e m) = ?idx" "scanning (hop_channel e m)" "mm_channel_hop_timer_ms (hop_channel e m) = me_now e"
    using d(2,3) by (simp_all add: h scanning_def)
qed

text \<open>The clock readings of turns that are more than the dwell time apart.\<close>

fun dwell_spaced :: "u32 \<Rightarrow> MeshEnv list \<Rightarrow> bool" where
  "dwell_spaced t [] = True"
| "dwell_spaced t (e # es) = (kChannelHopIntervalMs < me_now e - t \<and> dwell_spaced (me_now e) es)"

fun channel_run :: "nat \<Rightarrow> u8 \<Rightarrow> u8 list" where
  "channel_run 0 ch = []"
| "channel_run (Suc n) ch = next_channel ch # channel_run n (next_channel ch)"

lemma scan_channels:
  assumes "scanning m" and "dwell_spaced (mm_channel_hop_timer_ms m) es"
  shows "\<exists>outs. mm_out (fold hop_channel es m) = mm_out m @ outs \<and> channels_of outs = channel_run (length es) (mm_channel_hop_idx m)"
  using assms
proof (induction es arbitrary: m)
  case (Cons e es)
  have "kChannelHopIntervalMs < me_now e - mm_channel_hop_timer_ms m" using Cons.prems(2) by simp
  note h = hop_channel_scan [OF Cons.prems(1) this]
  from h(1) obtain o1 where o1: "mm_out (hop_channel e m) = mm_out m @ o1" "channels_of o1 = [next_channel (mm_channel_hop_idx m)]" by blast
  have "dwell_spaced (mm_channel_hop_timer_ms (hop_channel e m)) es" using Cons.prems(2) h(4) by simp
  from Cons.IH [OF h(3) this] obtain o2 where o2: "mm_out (fold hop_channel es (hop_channel e m)) = mm_out (hop_channel e m) @ o2"
    "channels_of o2 = channel_run (length es) (mm_channel_hop_idx (hop_channel e m))" by blast
  then show ?case using o1 h(2) by (intro exI [of _ "o1 @ o2"]) simp
qed simp

lemma full_run:
  assumes "ch \<in> {1, 2, 3, 4, 5, 6, 7, 8, 9, 10, 11, 12, 13}"
  shows "set (ch # channel_run 12 ch) = {1, 2, 3, 4, 5, 6, 7, 8, 9, 10, 11, 12, 13}"
proof -
  have n: "next_channel 1 = 2" "next_channel 2 = 3" "next_channel 3 = 4" "next_channel 4 = 5" "next_channel 5 = 6" "next_channel 6 = 7"
    "next_channel 7 = 8" "next_channel 8 = 9" "next_channel 9 = 10" "next_channel 10 = 11" "next_channel 11 = 12" "next_channel 12 = 13"
    "next_channel 13 = 1" by (simp_all add: next_channel_def)
  have "(12 :: nat) = Suc (Suc (Suc (Suc (Suc (Suc (Suc (Suc (Suc (Suc (Suc (Suc 0)))))))))))" by simp
  then have r: "channel_run 12 c = channel_run (Suc (Suc (Suc (Suc (Suc (Suc (Suc (Suc (Suc (Suc (Suc (Suc 0)))))))))))) c" for c by (rule arg_cong)
  from assms show ?thesis
    by (elim insertE emptyE) (simp_all only: r channel_run.simps n list.set insert_commute)
qed

lemma next_channel_range: "next_channel idx \<in> {1, 2, 3, 4, 5, 6, 7, 8, 9, 10, 11, 12, 13}"
proof -
  have "idx mod 13 < 13" by (rule word_mod_less_divisor) simp
  then have k: "unat (idx mod 13) < 13" by (simp add: word_less_nat_alt)
  define k where "k = unat (idx mod 13)"
  have "next_channel idx = of_nat k + 1" by (simp add: k_def next_channel_def)
  moreover have "k \<in> {0, 1, 2, 3, 4, 5, 6, 7, 8, 9, 10, 11, 12}" using k unfolding k_def [symmetric] insert_iff empty_iff by presburger
  ultimately show ?thesis by auto
qed

text \<open>
  C24. The channel scan is complete. A node that has neither an uplink nor a neighbour leading to one, and
  whose last hop was on any channel, sets the Wi-Fi channels 1 to 13, every one of them, within 13 expired
  dwell times; each change of channel is followed by a discovery probe.
\<close>

theorem channel_scan_complete:
  assumes "scanning m" and "dwell_spaced (mm_channel_hop_timer_ms m) es" and "length es = 13"
  shows "\<exists>outs. mm_out (fold hop_channel es m) = mm_out m @ outs \<and> set (channels_of outs) = {1, 2, 3, 4, 5, 6, 7, 8, 9, 10, 11, 12, 13}"
proof -
  obtain outs where o: "mm_out (fold hop_channel es m) = mm_out m @ outs" "channels_of outs = channel_run 13 (mm_channel_hop_idx m)"
    using scan_channels [OF assms(1,2)] assms(3) by auto
  have "channel_run 13 (mm_channel_hop_idx m) = next_channel (mm_channel_hop_idx m) # channel_run 12 (next_channel (mm_channel_hop_idx m))"
    using channel_run.simps(2) [of 12] by simp
  with o full_run [OF next_channel_range] show ?thesis by metis
qed

definition ex_scan_envs :: "MeshEnv list" where
  "ex_scan_envs = map (\<lambda>k. ex_mesh_env\<lparr>me_now := of_nat (2000 * k)\<rparr>) [1..<14]"

theorem channel_scan_complete_witness:
  "\<exists>outs. mm_out (fold hop_channel ex_scan_envs (MeshManager_new 0x0506 BufferPool_new 6 7)) = outs \<and> 7 \<in> set (channels_of outs)"
proof -
  let ?m = "MeshManager_new 0x0506 BufferPool_new 6 7"
  have "scanning ?m" by (simp add: scanning_def MeshManager_new_def RouteTable_new_def min_data_hops_to_internet_def min_hops_scan_def)
  moreover have "dwell_spaced (mm_channel_hop_timer_ms ?m) ex_scan_envs"
    by (simp add: ex_scan_envs_def MeshManager_new_def upt_rec)
  ultimately show ?thesis using channel_scan_complete [of ?m ex_scan_envs] by (auto simp: ex_scan_envs_def MeshManager_new_def)
qed

end
