(* ===== verification/Mesh_Init.thy ===== *)
theory Mesh_Init
  imports Mesh_Run
begin

text \<open>
  The start of the mesh manager (\<^verbatim>\<open>MeshManager::init\<close>): the address of the node from its MAC, the slab
  pool and the two receive queues, the timers and the list of blocked peers, which is read from the
  configuration string with \<open>strtok_r\<close> and \<open>strtoul\<close> (32-bit \<open>unsigned long\<close>). Shown is that a list of
  up to 21 addresses is read as written, and what becomes of a longer one.
\<close>

unbundle bit_operations_syntax

section \<open>The configured list of blocked peers\<close>

definition is_delim :: "char \<Rightarrow> bool" where
  "is_delim c \<longleftrightarrow> c = CHR '','' \<or> c = CHR '' ''"

text \<open>\<open>strtok_r\<close> called until it returns no token: \<open>tok\<close> is the token read so far.\<close>

fun strtok_all :: "string \<Rightarrow> string \<Rightarrow> string list" where
  "strtok_all tok [] = (if tok = [] then [] else [tok])"
| "strtok_all tok (c # cs) =
     (if is_delim c then (if tok = [] then strtok_all [] cs else tok # strtok_all [] cs) else strtok_all (tok @ [c]) cs)"

definition hex_val :: "char \<Rightarrow> nat option" where
  "hex_val c =
     (let n = of_char c :: nat
      in if 48 \<le> n \<and> n \<le> 57 then Some (n - 48) else if 65 \<le> n \<and> n \<le> 70 then Some (n - 55)
         else if 97 \<le> n \<and> n \<le> 102 then Some (n - 87) else None)"

definition is_space :: "char \<Rightarrow> bool" where
  "is_space c \<longleftrightarrow> (of_char c :: nat) \<in> {9, 10, 11, 12, 13, 32}"

definition strtoul16 :: "string \<Rightarrow> nat" where
  "strtoul16 s =
     (let s1 = dropWhile is_space s;
          neg = (s1 \<noteq> [] \<and> hd s1 = CHR ''-'');
          s2 = (if s1 \<noteq> [] \<and> hd s1 \<in> {CHR ''-'', CHR ''+''} then tl s1 else s1);
          s3 = (if take 2 s2 \<in> {''0x'', ''0X''} then drop 2 s2 else s2);
          v = foldl (\<lambda>acc c. 16 * acc + the (hex_val c)) 0 (takeWhile (\<lambda>c. hex_val c \<noteq> None) s3)
      in if 2 ^ 32 \<le> v then 2 ^ 32 - 1 else if neg then (2 ^ 32 - v) mod 2 ^ 32 else v)"

definition parse_blocked :: "string \<Rightarrow> u16 list" where
  "parse_blocked raw =
     (let buf = take 127 raw
      in map of_nat (filter (\<lambda>v. 0 < v \<and> v \<le> 0xFFFF) (map strtoul16 (strtok_all [] buf))))"

section \<open>Initialisation\<close>

definition node_address :: "bytes \<Rightarrow> u16" where
  "node_address mac = push_bit 8 (ucast (mac ! 4)) OR ucast (mac ! 5)"

text \<open>
  \<open>mem\<close> is the memory given to the pool, \<open>channel\<close> the current Wi-Fi channel, \<open>sf\<close> the spreading factor of the
  LoRa driver after its start. The queues are created empty and handed to both drivers.
\<close>

definition mesh_init :: "bytes \<Rightarrow> (nat \<Rightarrow> bytes) option \<Rightarrow> u32 \<Rightarrow> u8 \<Rightarrow> u8 \<Rightarrow> string \<Rightarrow> (RxQueues \<times> MeshManager) option" where
  "mesh_init mac mem now channel sf blocked_peer =
     (case pool_init mem BufferPool_new of
        None \<Rightarrow> None
      | Some pool \<Rightarrow>
          Some (\<lparr>rq_dual = True, rq_hi = [], rq_lo = []\<rparr>,
            (MeshManager_new (node_address mac) pool channel sf)
              \<lparr>mm_discovery_timer_ms := now, mm_channel_hop_timer_ms := now, mm_blocked_peers := parse_blocked blocked_peer\<rparr>))"

section \<open>Reading the list\<close>

text \<open>A list as the configuration help shows it: four hexadecimal digits each, separated by a comma and a space.\<close>

fun show_peers :: "u16 list \<Rightarrow> string" where
  "show_peers [] = []"
| "show_peers [a] = hex4 a"
| "show_peers (a # b # as) = hex4 a @ '', '' @ show_peers (b # as)"

lemma hex_val_digit: "n < 16 \<Longrightarrow> hex_val (hex_digit n) = Some n"
proof -
  have "list_all (\<lambda>n. hex_val (hex_digit n) = Some n) [0..<16]" by code_simp
  then show "n < 16 \<Longrightarrow> hex_val (hex_digit n) = Some n" by (simp add: list_all_iff)
qed

lemma hex_digit_plain: "n < 16 \<Longrightarrow> \<not> is_delim (hex_digit n) \<and> \<not> is_space (hex_digit n) \<and> hex_digit n \<notin> {CHR ''-'', CHR ''+'', CHR ''x'', CHR ''X''}"
proof -
  have "list_all (\<lambda>n. \<not> is_delim (hex_digit n) \<and> \<not> is_space (hex_digit n) \<and> hex_digit n \<notin> {CHR ''-'', CHR ''+'', CHR ''x'', CHR ''X''}) [0..<16]" by code_simp
  then show "n < 16 \<Longrightarrow> \<not> is_delim (hex_digit n) \<and> \<not> is_space (hex_digit n) \<and> hex_digit n \<notin> {CHR ''-'', CHR ''+'', CHR ''x'', CHR ''X''}"
    by (auto simp: list_all_iff)
qed

lemma strtoul16_digits:
  assumes "ds \<noteq> []" and "\<forall>d \<in> set ds. d < 16"
  shows "strtoul16 (map hex_digit ds) = (let v = foldl (\<lambda>acc d. 16 * acc + d) 0 ds in if 2 ^ 32 \<le> v then 2 ^ 32 - 1 else v)"
proof -
  note p = hex_digit_plain
  obtain d ds' where ds: "ds = d # ds'" using assms(1) by (cases ds) auto
  have s1: "dropWhile is_space (map hex_digit ds) = map hex_digit ds" using ds assms(2) p [of d] by simp
  have s2: "hd (map hex_digit ds) \<notin> {CHR ''-'', CHR ''+''}" using ds assms(2) p [of d] by simp
  have s3: "take 2 (map hex_digit ds) \<notin> {''0x'', ''0X''}" using assms(2) p by (cases ds'; simp add: ds)
  have t: "takeWhile (\<lambda>c. hex_val c \<noteq> None) (map hex_digit ds) = map hex_digit ds"
    using assms(2) by (auto simp: takeWhile_eq_all_conv hex_val_digit)
  have f: "foldl (\<lambda>acc c. 16 * acc + the (hex_val c)) a (map hex_digit ds) = foldl (\<lambda>acc d. 16 * acc + d) a ds"
    if "\<forall>d \<in> set ds. d < 16" for a and ds using that by (induction ds arbitrary: a) (auto simp: hex_val_digit)
  show ?thesis using s2 s3 f [OF assms(2)] by (simp add: strtoul16_def s1 t [unfolded not_None_eq] Let_def)
qed

lemma strtok_plain: "\<forall>c \<in> set cs. \<not> is_delim c \<Longrightarrow> strtok_all tok (cs @ rest) = strtok_all (tok @ cs) rest"
  by (induction cs arbitrary: tok) auto

definition peer_digits :: "u16 \<Rightarrow> nat list" where
  "peer_digits a = [unat a div 4096 mod 16, unat a div 256 mod 16, unat a div 16 mod 16, unat a mod 16]"

lemma peer_digits: "hex4 a = map hex_digit (peer_digits a)" "\<forall>d \<in> set (peer_digits a). d < 16"
  "foldl (\<lambda>acc d. 16 * acc + d) 0 (peer_digits a) = unat a"
proof -
  have b: "unat a div 4096 < 16" by (rule less_mult_imp_div_less) simp
  show "hex4 a = map hex_digit (peer_digits a)" by (simp add: hex4_def peer_digits_def)
  show "\<forall>d \<in> set (peer_digits a). d < 16" using b by (simp add: peer_digits_def)
  have "unat a = 16 * (unat a div 16) + unat a mod 16" "unat a div 16 = 16 * (unat a div 16 div 16) + unat a div 16 mod 16"
    "unat a div 16 div 16 = 16 * (unat a div 16 div 16 div 16) + unat a div 16 div 16 mod 16" by simp_all
  then show "foldl (\<lambda>acc d. 16 * acc + d) 0 (peer_digits a) = unat a" using b by (simp add: peer_digits_def div_mult2_eq [symmetric])
qed

lemma strtoul16_peer: "strtoul16 (hex4 a) = unat a"
proof -
  have "unat a < 2 ^ 32" by (rule less_trans [OF unat_u16_bound]) simp
  then show ?thesis using strtoul16_digits [OF _ peer_digits(2), of a] peer_digits(1,3) by (simp add: peer_digits_def Let_def)
qed

lemma peer_plain: "\<forall>c \<in> set (hex4 a). \<not> is_delim c"
  using peer_digits(2) [of a] hex_digit_plain by (auto simp: peer_digits(1))

lemma length_hex4 [simp]: "length (hex4 a) = 4"
  by (simp add: hex4_def)

definition peers_in :: "string \<Rightarrow> u16 list" where
  "peers_in buf = map of_nat (filter (\<lambda>v. 0 < v \<and> v \<le> 0xFFFF) (map strtoul16 (strtok_all [] buf)))"

lemma peers_in_peer_end: "a \<noteq> 0 \<Longrightarrow> peers_in (hex4 a) = [a]"
proof -
  assume "a \<noteq> 0"
  then have "0 < unat a" by (simp add: unat_gt_0)
  moreover have "unat a \<le> 65535" using unat_u16_bound [of a] by linarith
  moreover have "strtok_all [] (hex4 a) = [hex4 a]" using strtok_plain [OF peer_plain, of "[]" a "[]"] by (simp add: hex4_def)
  ultimately show ?thesis by (simp add: peers_in_def strtoul16_peer)
qed

lemma peers_in_peer: "a \<noteq> 0 \<Longrightarrow> peers_in (hex4 a @ '', '' @ rest) = a # peers_in rest"
proof -
  assume "a \<noteq> 0"
  then have "0 < unat a" by (simp add: unat_gt_0)
  moreover have "unat a \<le> 65535" using unat_u16_bound [of a] by linarith
  moreover have "strtok_all [] (hex4 a @ '', '' @ rest) = hex4 a # strtok_all [] rest"
    unfolding strtok_plain [OF peer_plain] by (simp add: is_delim_def hex4_def)
  ultimately show ?thesis by (simp add: peers_in_def strtoul16_peer)
qed

lemma peers_in_digit: "peers_in (take 1 (hex4 a)) = (let d = drop_bit 12 a in if d = 0 then [] else [d])"
proof -
  define d where "d = unat a div 4096"
  have d: "d < 16" unfolding d_def by (rule less_mult_imp_div_less) simp
  have "strtok_all [] [hex_digit d] = [[hex_digit d]]" using hex_digit_plain [OF d] by simp
  moreover have "strtoul16 [hex_digit d] = d" using strtoul16_digits [of "[d]"] d by simp
  moreover have "take 1 (hex4 a) = [hex_digit d]" using d by (simp add: hex4_def d_def)
  moreover have "unat (drop_bit 12 a) = d" unfolding unat_drop_bit_eq d_def by (simp add: drop_bit_eq_div)
  then have "drop_bit 12 a = of_nat d" by (metis of_nat_unat ucast_id)
  moreover have "(of_nat d :: u16) = 0 \<longleftrightarrow> d = 0" using d by (simp add: word_unat_eq_iff unat_of_nat)
  ultimately show ?thesis using d by (simp add: peers_in_def)
qed

lemma peers_in_cut:
  assumes "0 \<notin> set as"
  shows "peers_in (take (6 * n + 1) (show_peers as)) =
    (if length as \<le> n then as else take n as @ (let d = drop_bit 12 (as ! n) in if d = 0 then [] else [d]))"
  using assms
proof (induction n arbitrary: as)
  case 0
  show ?case
  proof (cases as rule: show_peers.cases)
    case 1
    then show ?thesis by (simp add: peers_in_def)
  qed (use peers_in_digit in \<open>simp_all add: hex4_def\<close>)
next
  case (Suc n)
  show ?case
  proof (cases as rule: show_peers.cases)
    case 1
    then show ?thesis by (simp add: peers_in_def)
  next
    case (2 a)
    then show ?thesis using Suc.prems peers_in_peer_end by simp
  next
    case (3 a b as')
    then have "take (6 * Suc n + 1) (show_peers as) = hex4 a @ '', '' @ take (6 * n + 1) (show_peers (b # as'))"
      by (simp add: numeral_3_eq_3)
    moreover have "a \<noteq> 0" "0 \<notin> set (b # as')" using Suc.prems 3 by auto
    ultimately show ?thesis using peers_in_peer [of a] Suc.IH [of "b # as'"] 3 by simp
  qed
qed

text \<open>
  C25. The list of blocked peers. Up to 21 addresses are read exactly as written. A longer list is cut
  silently at 127 characters: the 22nd address is reduced to its first digit, so that another node, with
  an address below 16, is blocked instead, and the rest of the list has no effect.
\<close>

theorem blocked_peers_read:
  assumes "0 \<notin> set as"
  shows "parse_blocked (show_peers as) =
    (if length as \<le> 21 then as else take 21 as @ (let d = drop_bit 12 (as ! 21) in if d = 0 then [] else [d]))"
  using peers_in_cut [OF assms, of 21] by (simp add: parse_blocked_def peers_in_def)

theorem blocked_peers_read_witness:
  "parse_blocked (show_peers (replicate 22 0xA1B2)) = replicate 21 0xA1B2 @ [0x000A]"
  using blocked_peers_read [of "replicate 22 0xA1B2"] by (simp add: Let_def)

end
