(* ===== verification/Sd_Cache.thy ===== *)
theory Sd_Cache
  imports Flp_Prelude
begin

text \<open>
  The SD card component (\<^verbatim>\<open>components/sdcard/sdcard.cpp\<close>): opening files, the uncached chunk read
  and the PSRAM read cache \<open>SdReadCache\<close> with its sequential window and its sixteen LRU pages.

  An open file is its contents; the contents do not change while the file is open. Every seek and
  every read of the card may fail or come back short, as the environment says for the running
  number of the operation. Buffer pointers passed in are not null, and a buffer freshly allocated
  holds zeros (its contents are never read before they are written). Offsets and lengths are natural
  numbers, so a definition adds them without the wrap of a 32-bit \<open>size_t\<close>: it agrees with the code on
  reads whose end stays below 2^32, as all of the callers' do, which read at most 32 KiB from inside a
  file of at most 10 MiB. Shown are that the cache is
  transparent: whatever the card does, a read returns a prefix of the requested bytes, and with a
  card that answers completely it returns what the uncached read returns.
\<close>

section \<open>State and environment\<close>

definition SD_MAX_FILE_SIZE :: nat where "SD_MAX_FILE_SIZE = 10 * 1024 * 1024"
definition MAX_CACHE_SIZE :: nat where "MAX_CACHE_SIZE = 512 * 1024"
definition kMinCacheSize :: nat where "kMinCacheSize = 32 * 1024"
definition RANDOM_PAGE_SIZE :: nat where "RANDOM_PAGE_SIZE = 4 * 1024"
definition RANDOM_PAGE_COUNT :: nat where "RANDOM_PAGE_COUNT = 16"

record RandomPageSlot =
  rs_page_index :: nat
  rs_valid_len :: nat
  rs_stamp :: u32
  rs_valid :: bool

definition RandomPageSlot_new :: RandomPageSlot where
  "RandomPageSlot_new = \<lparr>rs_page_index = 0, rs_valid_len = 0, rs_stamp = 0, rs_valid = False\<rparr>"

text \<open>\<open>sc_ios\<close> numbers the accesses to the card; it stands for the card's own state.\<close>

record SdReadCache =
  sc_file :: "bytes option"
  sc_cache_buf :: "bytes option"
  sc_random_cache_buf :: "bytes option"
  sc_file_size :: nat
  sc_cache_capacity :: nat
  sc_cache_start :: nat
  sc_cache_len :: nat
  sc_random_slots :: "RandomPageSlot list"
  sc_random_clock :: u32
  sc_random_hits :: u32
  sc_random_misses :: u32
  sc_hits :: u32
  sc_misses :: u32
  sc_ios :: nat

definition SdReadCache_new :: SdReadCache where
  "SdReadCache_new = \<lparr>sc_file = None, sc_cache_buf = None, sc_random_cache_buf = None, sc_file_size = 0,
     sc_cache_capacity = 0, sc_cache_start = 0, sc_cache_len = 0,
     sc_random_slots = replicate RANDOM_PAGE_COUNT RandomPageSlot_new, sc_random_clock = 0,
     sc_random_hits = 0, sc_random_misses = 0, sc_hits = 0, sc_misses = 0, sc_ios = 0\<rparr>"

text \<open>
  The card and the heap: whether it is mounted, the files, whether seek \<open>n\<close> succeeds, how many of the
  wanted bytes read \<open>n\<close> delivers, and which allocations succeed.
\<close>

record SdEnv =
  se_mounted :: bool
  se_fopen :: "string \<Rightarrow> bytes option"
  se_fseek :: "nat \<Rightarrow> bool"
  se_fread :: "nat \<Rightarrow> nat \<Rightarrow> nat"
  se_malloc :: "nat \<Rightarrow> bool"
  se_malloc_random :: bool

datatype esp_err = ESP_OK | ESP_ERR_INVALID_STATE | ESP_ERR_NOT_FOUND | ESP_ERR_INVALID_SIZE | ESP_ERR_NO_MEM | ESP_ERR_NOT_SUPPORTED | ESP_FAIL

section \<open>Mounting, and reading without the cache\<close>

text \<open>The arguments are the configuration and what the SPI and the mount calls return; the flag is \<open>s_mounted\<close>.\<close>

definition sdcard_init :: "bool \<Rightarrow> esp_err \<Rightarrow> esp_err \<Rightarrow> bool \<Rightarrow> esp_err \<times> bool" where
  "sdcard_init enabled bus_ret mount_ret mounted =
     (if \<not> enabled then (ESP_ERR_NOT_SUPPORTED, mounted)
      else if mounted then (ESP_OK, mounted)
      else if bus_ret \<noteq> ESP_OK then (bus_ret, mounted)
      else if mount_ret \<noteq> ESP_OK then (mount_ret, mounted)
      else (ESP_OK, True))"

definition fread_at :: "SdEnv \<Rightarrow> nat \<Rightarrow> bytes \<Rightarrow> nat \<Rightarrow> nat \<Rightarrow> bytes" where
  "fread_at e n file off want = take (min want (se_fread e n want)) (drop off file)"

definition sdcard_open :: "SdEnv \<Rightarrow> string \<Rightarrow> (bytes \<times> nat) option" where
  "sdcard_open e path =
     (if \<not> se_mounted e then None
      else case se_fopen e path of None \<Rightarrow> None
      | Some file \<Rightarrow>
          if length file = 0 then None
          else if SD_MAX_FILE_SIZE < length file then None
          else Some (file, length file))"

definition sdcard_read_chunk :: "SdEnv \<Rightarrow> nat \<Rightarrow> string \<Rightarrow> nat \<Rightarrow> nat \<Rightarrow> bytes" where
  "sdcard_read_chunk e n path offset len =
     (if \<not> se_mounted e then []
      else case se_fopen e path of None \<Rightarrow> []
      | Some file \<Rightarrow> if \<not> se_fseek e n then [] else fread_at e n file offset len)"

section \<open>The cache\<close>

definition count_io :: "SdReadCache \<Rightarrow> SdReadCache" where
  "count_io c = c\<lparr>sc_ios := sc_ios c + 1\<rparr>"

definition refill :: "SdEnv \<Rightarrow> nat \<Rightarrow> SdReadCache \<Rightarrow> bool \<times> SdReadCache" where
  "refill e offset c =
     (case sc_file c of None \<Rightarrow> (False, c)
      | Some file \<Rightarrow>
          if sc_cache_capacity c = 0 then (False, c)
          else
            let aligned = offset div sc_cache_capacity c * sc_cache_capacity c
            in if sc_file_size c \<le> aligned then (False, c)
               else if \<not> se_fseek e (sc_ios c) then (False, count_io c)
               else
                 let want = (if sc_file_size c < aligned + sc_cache_capacity c then sc_file_size c - aligned else sc_cache_capacity c);
                     got = fread_at e (sc_ios c) file aligned want
                 in (0 < length got,
                     (count_io c)\<lparr>sc_cache_buf := map_option (write_at 0 got) (sc_cache_buf c),
                        sc_cache_start := aligned, sc_cache_len := length got\<rparr>))"

definition find_random_page :: "nat \<Rightarrow> SdReadCache \<Rightarrow> nat option" where
  "find_random_page page_index c = find_idx (\<lambda>s. rs_valid s \<and> rs_page_index s = page_index) (sc_random_slots c)"

text \<open>The scan of \<open>choose_random_slot\<close>: \<open>i\<close> counts the slots, \<open>oldest\<close> is the oldest one so far and its stamp.\<close>

fun choose_slot :: "RandomPageSlot list \<Rightarrow> nat \<Rightarrow> (nat \<times> u32) option \<Rightarrow> nat option" where
  "choose_slot [] i oldest = map_option fst oldest"
| "choose_slot (s # ss) i oldest =
     (if \<not> rs_valid s then Some i
      else choose_slot ss (Suc i)
        (case oldest of None \<Rightarrow> Some (i, rs_stamp s)
         | Some (j, stamp) \<Rightarrow> if rs_stamp s < stamp then Some (i, rs_stamp s) else oldest))"

definition choose_random_slot :: "SdReadCache \<Rightarrow> nat option" where
  "choose_random_slot c = choose_slot (sc_random_slots c) 0 None"

definition load_random_page :: "SdEnv \<Rightarrow> nat \<Rightarrow> nat \<Rightarrow> SdReadCache \<Rightarrow> bool \<times> SdReadCache" where
  "load_random_page e page_index slot c =
     (case (sc_file c, sc_random_cache_buf c) of
        (Some file, Some rbuf) \<Rightarrow>
          if RANDOM_PAGE_COUNT \<le> slot then (False, c)
          else
            let page_start = page_index * RANDOM_PAGE_SIZE
            in if sc_file_size c \<le> page_start then (False, c)
               else if \<not> se_fseek e (sc_ios c) then (False, count_io c)
               else
                 let want = (if sc_file_size c < page_start + RANDOM_PAGE_SIZE then sc_file_size c - page_start else RANDOM_PAGE_SIZE);
                     got = fread_at e (sc_ios c) file page_start want
                 in if length got = 0 then (False, count_io c)
                    else (True, (count_io c)\<lparr>
                       sc_random_cache_buf := Some (write_at (slot * RANDOM_PAGE_SIZE) got rbuf),
                       sc_random_clock := sc_random_clock c + 1,
                       sc_random_slots := (sc_random_slots c)[slot := \<lparr>rs_page_index = page_index, rs_valid_len = length got,
                          rs_stamp = sc_random_clock c + 1, rs_valid = True\<rparr>]\<rparr>)
      | _ \<Rightarrow> (False, c))"

text \<open>Finding the page of the current position: the slot it is in, or \<open>None\<close> for the \<open>break\<close>s.\<close>

definition page_slot :: "SdEnv \<Rightarrow> nat \<Rightarrow> SdReadCache \<Rightarrow> nat option \<times> SdReadCache" where
  "page_slot e page_index c =
     (case find_random_page page_index c of
        Some slot \<Rightarrow>
          (Some slot, c\<lparr>sc_random_hits := sc_random_hits c + 1, sc_random_clock := sc_random_clock c + 1,
             sc_random_slots := (sc_random_slots c)[slot := (sc_random_slots c ! slot)\<lparr>rs_stamp := sc_random_clock c + 1\<rparr>]\<rparr>)
      | None \<Rightarrow>
          let c1 = c\<lparr>sc_random_misses := sc_random_misses c + 1\<rparr>
          in case choose_random_slot c1 of None \<Rightarrow> (None, c1)
             | Some slot \<Rightarrow>
                 let (ok, c2) = load_random_page e page_index slot c1
                 in (if ok then Some slot else None, c2))"

function random_loop :: "SdEnv \<Rightarrow> nat \<Rightarrow> nat \<Rightarrow> nat \<Rightarrow> bytes \<Rightarrow> SdReadCache \<Rightarrow> bytes \<times> SdReadCache" where
  "random_loop e offset len copied buf c =
     (if len \<le> copied then (buf, c)
      else
        let cur = offset + copied;
            page_off = cur mod RANDOM_PAGE_SIZE;
            chunk = min (RANDOM_PAGE_SIZE - page_off) (len - copied)
        in case sc_random_cache_buf c of
             None \<Rightarrow>
               if \<not> se_fseek e (sc_ios c) then (buf, count_io c)
               else
                 let got = fread_at e (sc_ios c) (the (sc_file c)) cur chunk
                 in if length got < chunk then (buf @ got, count_io c)
                    else random_loop e offset len (copied + length got) (buf @ got) (count_io c)
           | Some _ \<Rightarrow>
               case page_slot e (cur div RANDOM_PAGE_SIZE) c of
                 (None, c1) \<Rightarrow> (buf, c1)
               | (Some slot, c1) \<Rightarrow>
                   let avail = rs_valid_len (sc_random_slots c1 ! slot) - page_off;
                       n = min avail chunk;
                       got = take n (drop (slot * RANDOM_PAGE_SIZE + page_off) (the (sc_random_cache_buf c1)))
                   in if avail = 0 then (buf, c1)
                      else if n < chunk then (buf @ got, c1)
                      else random_loop e offset len (copied + n) (buf @ got) c1)"
  by pat_completeness auto
termination
proof (relation "measure (\<lambda>(e, offset, len, copied, buf, c). len - copied)", goal_cases)
  case (2 e offset len copied buf c cur page_off chunk got)
  have p: "cur mod RANDOM_PAGE_SIZE < RANDOM_PAGE_SIZE" by (simp add: RANDOM_PAGE_SIZE_def)
  have "0 < chunk" unfolding 2(4) using 2(1,3) p by simp
  moreover have "chunk \<le> length got" using 2(8) by simp
  ultimately show ?case using 2(1) by simp
next
  case (3 e offset len copied buf c cur page_off chunk b so c1 slot avail n got)
  have p: "cur mod RANDOM_PAGE_SIZE < RANDOM_PAGE_SIZE" by (simp add: RANDOM_PAGE_SIZE_def)
  have "0 < chunk" unfolding 3(4) using 3(1,3) p by simp
  moreover have "chunk \<le> n" using 3(12) by simp
  ultimately show ?case using 3(1) by simp
qed simp

declare random_loop.simps [simp del]

definition read_via_random_pages :: "SdEnv \<Rightarrow> nat \<Rightarrow> nat \<Rightarrow> SdReadCache \<Rightarrow> bytes \<times> SdReadCache" where
  "read_via_random_pages e offset len c =
     (if sc_file c = None \<or> len = 0 then ([], c) else random_loop e offset len 0 [] c)"

definition in_window :: "nat \<Rightarrow> nat \<Rightarrow> SdReadCache \<Rightarrow> bool" where
  "in_window offset len c \<longleftrightarrow> sc_cache_start c \<le> offset \<and> offset + len \<le> sc_cache_start c + sc_cache_len c"

definition window_bytes :: "nat \<Rightarrow> nat \<Rightarrow> SdReadCache \<Rightarrow> bytes" where
  "window_bytes offset len c = take len (drop (offset - sc_cache_start c) (the (sc_cache_buf c)))"

text \<open>The part of \<open>read\<close> after a miss that the pages did not serve.\<close>

definition read_refill :: "SdEnv \<Rightarrow> nat \<Rightarrow> nat \<Rightarrow> SdReadCache \<Rightarrow> bytes \<times> SdReadCache" where
  "read_refill e offset len c =
     (let (ok, c1) = refill e offset c
      in if \<not> ok then ([], c1)
         else if in_window offset len c1 then (window_bytes offset len c1, c1)
         else if offset < sc_cache_start c1 \<or> sc_cache_start c1 + sc_cache_len c1 \<le> offset then ([], c1)
         else
           let first = min (sc_cache_start c1 + sc_cache_len c1 - offset) len;
               head = window_bytes offset first c1;
               (ok2, c2) = refill e (offset + first) c1
           in if \<not> ok2 then (head, c2)
              else if in_window (offset + first) (len - first) c2
              then (head @ window_bytes (offset + first) (len - first) c2, c2)
              else (head, c2))"

definition sd_read :: "SdEnv \<Rightarrow> nat \<Rightarrow> nat \<Rightarrow> SdReadCache \<Rightarrow> bytes \<times> SdReadCache" where
  "sd_read e offset len0 c =
     (if sc_cache_buf c = None \<or> sc_file c = None \<or> sc_file_size c \<le> offset then ([], c)
      else
        let len = (if sc_file_size c < offset + len0 then sc_file_size c - offset else len0)
        in if in_window offset len c then (window_bytes offset len c, c\<lparr>sc_hits := sc_hits c + 1\<rparr>)
           else
             let c1 = c\<lparr>sc_misses := sc_misses c + 1\<rparr>
             in if 0 < sc_cache_len c1 \<and> len \<le> RANDOM_PAGE_SIZE
                then
                  let (got, c2) = read_via_random_pages e offset len c1
                  in if 0 < length got then (got, c2) else read_refill e offset len c2
                else read_refill e offset len c1)"

text \<open>The search for an affordable cache size; a file that starts below the minimum is never tried.\<close>

function choose_cache_size :: "SdEnv \<Rightarrow> nat \<Rightarrow> nat option" where
  "choose_cache_size e chosen_size =
     (if chosen_size < kMinCacheSize then None
      else if se_malloc e chosen_size then Some chosen_size
      else choose_cache_size e (chosen_size div 2))"
  by pat_completeness auto
termination by (relation "measure snd") (auto simp: kMinCacheSize_def)

declare choose_cache_size.simps [simp del]

definition sd_open :: "SdEnv \<Rightarrow> string \<Rightarrow> SdReadCache \<Rightarrow> esp_err \<times> SdReadCache" where
  "sd_open e path c =
     (if \<not> se_mounted e then (ESP_ERR_INVALID_STATE, c)
      else case se_fopen e path of None \<Rightarrow> (ESP_ERR_NOT_FOUND, c)
      | Some file \<Rightarrow>
          if length file = 0 then (ESP_ERR_INVALID_SIZE, c)
          else case choose_cache_size e (min (length file) MAX_CACHE_SIZE) of None \<Rightarrow> (ESP_ERR_NO_MEM, c)
          | Some chosen_size \<Rightarrow>
              (ESP_OK, snd (refill e 0 (c\<lparr>sc_file := Some file, sc_file_size := length file,
                 sc_cache_buf := Some (replicate chosen_size 0), sc_cache_capacity := chosen_size,
                 sc_cache_start := 0, sc_cache_len := 0, sc_random_clock := 0, sc_random_hits := 0, sc_random_misses := 0,
                 sc_random_slots := replicate RANDOM_PAGE_COUNT RandomPageSlot_new, sc_hits := 0, sc_misses := 0,
                 sc_random_cache_buf := (if se_malloc_random e then Some (replicate (RANDOM_PAGE_SIZE * RANDOM_PAGE_COUNT) 0) else None)\<rparr>))))"

definition sd_destroy :: "SdReadCache \<Rightarrow> SdReadCache" where
  "sd_destroy c = c\<lparr>sc_file := None, sc_cache_buf := None, sc_random_cache_buf := None\<rparr>"

definition fully_cached :: "SdReadCache \<Rightarrow> bool" where
  "fully_cached c \<longleftrightarrow> sc_file_size c \<le> sc_cache_capacity c"

section \<open>The cache holds bytes of the file\<close>

abbreviation slice :: "bytes \<Rightarrow> nat \<Rightarrow> nat \<Rightarrow> bytes" where
  "slice file off len \<equiv> take len (drop off file)"

lemma slice_of_eq:
  assumes "take n b = take n g" and "d + k \<le> n"
  shows "slice b d k = slice g d k"
proof -
  have "slice xs d k = drop d (take (d + k) (take n xs))" for xs :: bytes
    using assms(2) by (simp add: take_drop min_def ac_simps)
  then show ?thesis using assms(1) by metis
qed

lemma slice_append: "slice f d k @ slice f (d + k) l = slice f d (k + l)"
  by (simp add: take_add ac_simps)

lemma slice_write_same:
  assumes "o' + length src \<le> length dst"
  shows "slice (write_at o' src dst) o' (length src) = src"
  using assms by (simp add: write_at_def)

lemma slice_write_other:
  assumes "o' + length src \<le> length dst" and "d + k \<le> o' \<or> o' + length src \<le> d"
  shows "slice (write_at o' src dst) d k = slice dst d k"
proof (rule nth_equalityI)
  show len: "length (slice (write_at o' src dst) d k) = length (slice dst d k)" using assms(1) by simp
  fix i
  assume "i < length (slice (write_at o' src dst) d k)"
  then show "slice (write_at o' src dst) d k ! i = slice dst d k ! i"
    using assms by (auto simp: nth_write_at)
qed

definition slot_ok :: "bytes \<Rightarrow> bytes \<Rightarrow> nat \<Rightarrow> RandomPageSlot \<Rightarrow> bool" where
  "slot_ok file rbuf i s \<longleftrightarrow> (rs_valid s \<longrightarrow> rs_valid_len s \<le> RANDOM_PAGE_SIZE \<and>
     rs_page_index s * RANDOM_PAGE_SIZE + rs_valid_len s \<le> length file \<and>
     slice rbuf (i * RANDOM_PAGE_SIZE) (rs_valid_len s) = slice file (rs_page_index s * RANDOM_PAGE_SIZE) (rs_valid_len s))"

definition pages_ok :: "bytes \<Rightarrow> SdReadCache \<Rightarrow> bool" where
  "pages_ok file c \<longleftrightarrow> length (sc_random_slots c) = RANDOM_PAGE_COUNT \<and>
     (case sc_random_cache_buf c of None \<Rightarrow> True
      | Some rbuf \<Rightarrow> length rbuf = RANDOM_PAGE_SIZE * RANDOM_PAGE_COUNT \<and>
          (\<forall>i < RANDOM_PAGE_COUNT. slot_ok file rbuf i (sc_random_slots c ! i)))"

definition window_ok :: "bytes \<Rightarrow> SdReadCache \<Rightarrow> bool" where
  "window_ok file c \<longleftrightarrow> sc_file c = Some file \<and> sc_file_size c = length file \<and> 0 < sc_cache_capacity c \<and>
     sc_cache_len c \<le> sc_cache_capacity c \<and> sc_cache_start c + sc_cache_len c \<le> length file \<and>
     (case sc_cache_buf c of None \<Rightarrow> False
      | Some b \<Rightarrow> length b = sc_cache_capacity c \<and> take (sc_cache_len c) b = slice file (sc_cache_start c) (sc_cache_len c))"

definition cache_ok :: "bytes \<Rightarrow> SdReadCache \<Rightarrow> bool" where
  "cache_ok file c \<longleftrightarrow> window_ok file c \<and> pages_ok file c"

text \<open>Statistics do not matter to the contents.\<close>

lemma cache_ok_counters [simp]:
  "cache_ok file (c\<lparr>sc_ios := n\<rparr>) = cache_ok file c"
  "cache_ok file (c\<lparr>sc_hits := k\<rparr>) = cache_ok file c"
  "cache_ok file (c\<lparr>sc_misses := k\<rparr>) = cache_ok file c"
  "cache_ok file (c\<lparr>sc_random_hits := k\<rparr>) = cache_ok file c"
  "cache_ok file (c\<lparr>sc_random_misses := k\<rparr>) = cache_ok file c"
  "cache_ok file (c\<lparr>sc_random_clock := k\<rparr>) = cache_ok file c"
  by (simp_all add: cache_ok_def window_ok_def pages_ok_def split: option.split)

text \<open>A cache no read of which was cut short: the window and the pages reach their end or that of the file.\<close>

definition cache_full :: "SdReadCache \<Rightarrow> bool" where
  "cache_full c \<longleftrightarrow> (0 < sc_cache_len c \<longrightarrow> sc_cache_len c = min (sc_cache_capacity c) (sc_file_size c - sc_cache_start c)) \<and>
     (\<forall>s \<in> set (sc_random_slots c). rs_valid s \<longrightarrow>
        rs_valid_len s = min RANDOM_PAGE_SIZE (sc_file_size c - rs_page_index s * RANDOM_PAGE_SIZE))"

text \<open>A card on which every seek succeeds and every read is complete.\<close>

definition healthy :: "SdEnv \<Rightarrow> bool" where
  "healthy e \<longleftrightarrow> (\<forall>n. se_fseek e n) \<and> (\<forall>n k. k \<le> se_fread e n k)"

lemma fread_at_slice: "fread_at e n file off want = slice file off (length (fread_at e n file off want))"
  unfolding fread_at_def by (metis append_eq_conv_conj append_take_drop_id)

lemma fread_at_le: "length (fread_at e n file off want) \<le> want"
  by (simp add: fread_at_def)

lemma fread_at_end: "off < length file \<Longrightarrow> off + length (fread_at e n file off want) \<le> length file"
  by (auto simp: fread_at_def)

lemma fread_at_healthy: "healthy e \<Longrightarrow> fread_at e n file off want = slice file off want"
  by (simp add: fread_at_def healthy_def min_absorb1)

lemma window_bytes_slice:
  assumes "window_ok file c" and "in_window off len c"
  shows "window_bytes off len c = slice file off len"
proof -
  obtain b where b: "sc_cache_buf c = Some b" "take (sc_cache_len c) b = slice file (sc_cache_start c) (sc_cache_len c)"
    using assms(1) by (auto simp: window_ok_def split: option.splits)
  have "off - sc_cache_start c + len \<le> sc_cache_len c" "sc_cache_start c \<le> off" using assms(2) by (auto simp: in_window_def)
  then show ?thesis using slice_of_eq [OF b(2)] b(1) by (simp add: window_bytes_def)
qed

lemma refill_cases:
  assumes "sc_file c = Some file" and "refill e off c = (ok, c')"
  obtains "\<not> ok" and "c' = c \<or> c' = count_io c"
  | got where "off div sc_cache_capacity c * sc_cache_capacity c < sc_file_size c"
      and "length got \<le> sc_cache_capacity c" and "got = slice file (off div sc_cache_capacity c * sc_cache_capacity c) (length got)"
      and "c' = (count_io c)\<lparr>sc_cache_buf := map_option (write_at 0 got) (sc_cache_buf c),
         sc_cache_start := off div sc_cache_capacity c * sc_cache_capacity c, sc_cache_len := length got\<rparr>"
proof -
  let ?a = "off div sc_cache_capacity c * sc_cache_capacity c"
  let ?want = "if sc_file_size c < ?a + sc_cache_capacity c then sc_file_size c - ?a else sc_cache_capacity c"
  define got where "got = fread_at e (sc_ios c) file ?a ?want"
  have g: "length got \<le> sc_cache_capacity c" unfolding got_def by (rule order_trans [OF fread_at_le]) auto
  have s: "got = slice file ?a (length got)" unfolding got_def by (rule fread_at_slice)
  show ?thesis
  proof (cases "sc_cache_capacity c = 0 \<or> sc_file_size c \<le> ?a \<or> \<not> se_fseek e (sc_ios c)")
    case True
    then have "\<not> ok \<and> (c' = c \<or> c' = count_io c)"
      using assms by (auto simp: refill_def Let_def split: if_splits)
    then show ?thesis using that(1) by blast
  next
    case False
    then have a: "?a < sc_file_size c" by (simp add: not_le)
    have "c' = (count_io c)\<lparr>sc_cache_buf := map_option (write_at 0 got) (sc_cache_buf c),
         sc_cache_start := ?a, sc_cache_len := length got\<rparr>"
      using assms(2) False unfolding refill_def assms(1) option.case Let_def got_def [symmetric] by simp
    then show ?thesis by (rule that(2) [OF a g s])
  qed
qed

lemma refill_ok:
  assumes "cache_ok file c" and "refill e off c = (ok, c')"
  shows "cache_ok file c' \<and> sc_cache_capacity c' = sc_cache_capacity c \<and> (ok \<longrightarrow> sc_cache_start c' = off div sc_cache_capacity c * sc_cache_capacity c)"
proof -
  have w: "window_ok file c" "pages_ok file c" using assms(1) by (simp_all add: cache_ok_def)
  then have f: "sc_file c = Some file" "sc_file_size c = length file" by (simp_all add: window_ok_def)
  obtain b where b: "sc_cache_buf c = Some b" "length b = sc_cache_capacity c"
    using w(1) by (auto simp: window_ok_def split: option.splits)
  from f(1) assms(2) show ?thesis
  proof (cases rule: refill_cases)
    case 1
    then show ?thesis using assms(1) by (auto simp: count_io_def)
  next
    case (2 got)
    define a where "a = off div sc_cache_capacity c * sc_cache_capacity c"
    note r = 2 [folded a_def]
    have "a + length got \<le> length file"
      using arg_cong [OF r(3), of length] r(1) f(2) by simp
    moreover have "take (length got) (write_at 0 got b) = slice file a (length got)"
      using slice_write_same [of 0 got b] b(2) r(2,3) by simp
    moreover have "length (write_at 0 got b) = sc_cache_capacity c" using b(2) r(2) by simp
    ultimately show ?thesis
      using w b(1) r(2) unfolding r(4) a_def [symmetric]
      by (simp add: cache_ok_def window_ok_def pages_ok_def count_io_def split: option.splits)
  qed
qed

lemma refill_healthy:
  assumes "cache_ok file c" and "cache_full c" and "healthy e" and "off < length file"
  shows "\<exists>c'. refill e off c = (True, c') \<and> cache_full c' \<and>
    sc_cache_len c' = min (sc_cache_capacity c) (length file - off div sc_cache_capacity c * sc_cache_capacity c)"
proof -
  let ?a = "off div sc_cache_capacity c * sc_cache_capacity c"
  have c: "sc_file c = Some file" "sc_file_size c = length file" "0 < sc_cache_capacity c"
    using assms(1) by (auto simp: cache_ok_def window_ok_def)
  have a: "?a < length file" using assms(4) by (rule le_less_trans [rotated]) simp
  show ?thesis
    using assms(2,3) c a by (auto simp: refill_def Let_def fread_at_healthy cache_full_def count_io_def healthy_def)
qed

section \<open>Pages\<close>

lemma choose_slot_bound:
  "choose_slot ss i oldest = Some k \<Longrightarrow> (\<And>j st. oldest = Some (j, st) \<Longrightarrow> j < i) \<Longrightarrow> k < i + length ss"
proof (induction ss arbitrary: i oldest)
  case (Cons s ss)
  show ?case
  proof (cases "rs_valid s")
    case True
    then have "k < Suc i + length ss" using Cons.prems
      by (intro Cons.IH [of "Suc i"]) (auto split: option.splits if_splits intro: less_SucI)
    then show ?thesis by simp
  qed (use Cons.prems in simp)
qed fastforce

lemma choose_slot_total: "ss \<noteq> [] \<or> oldest \<noteq> None \<Longrightarrow> \<exists>k. choose_slot ss i oldest = Some k"
  by (induction ss arbitrary: i oldest) (auto split: option.splits)

lemma page_slot_cases:
  assumes "page_slot e p c = (so, c')" and "sc_file c = Some file" and "sc_random_cache_buf c = Some rbuf"
  obtains (hit) slot where "find_random_page p c = Some slot" and "so = Some slot"
      and "c' = c\<lparr>sc_random_hits := sc_random_hits c + 1, sc_random_clock := sc_random_clock c + 1,
             sc_random_slots := (sc_random_slots c)[slot := (sc_random_slots c ! slot)\<lparr>rs_stamp := sc_random_clock c + 1\<rparr>]\<rparr>"
  | (load) slot got where "choose_random_slot c = Some slot" and "so = Some slot" and "slot < RANDOM_PAGE_COUNT"
      and "p * RANDOM_PAGE_SIZE < sc_file_size c" and "got \<noteq> []" and "length got \<le> RANDOM_PAGE_SIZE"
      and "got = slice file (p * RANDOM_PAGE_SIZE) (length got)"
      and "healthy e \<Longrightarrow> sc_file_size c = length file \<Longrightarrow> length got = min RANDOM_PAGE_SIZE (sc_file_size c - p * RANDOM_PAGE_SIZE)"
      and "c' = c\<lparr>sc_random_misses := sc_random_misses c + 1, sc_ios := sc_ios c + 1,
             sc_random_cache_buf := Some (write_at (slot * RANDOM_PAGE_SIZE) got rbuf), sc_random_clock := sc_random_clock c + 1,
             sc_random_slots := (sc_random_slots c)[slot := \<lparr>rs_page_index = p, rs_valid_len = length got,
                rs_stamp = sc_random_clock c + 1, rs_valid = True\<rparr>]\<rparr>"
  | (fail) "so = None" and "\<exists>n. c' = c\<lparr>sc_random_misses := sc_random_misses c + 1, sc_ios := n\<rparr>"
      and "healthy e \<Longrightarrow> p * RANDOM_PAGE_SIZE < sc_file_size c \<Longrightarrow> sc_file_size c = length file \<Longrightarrow>
             length (sc_random_slots c) = RANDOM_PAGE_COUNT \<Longrightarrow> False"
proof (cases "find_random_page p c")
  case (Some slot)
  then show ?thesis using assms(1) by (intro hit) (auto simp: page_slot_def)
next
  case None
  let ?s = "p * RANDOM_PAGE_SIZE"
  let ?want = "if sc_file_size c < ?s + RANDOM_PAGE_SIZE then sc_file_size c - ?s else RANDOM_PAGE_SIZE"
  define got where "got = fread_at e (sc_ios c) file ?s ?want"
  have l: "length got \<le> RANDOM_PAGE_SIZE" unfolding got_def by (rule order_trans [OF fread_at_le]) auto
  have s: "got = slice file ?s (length got)" unfolding got_def by (rule fread_at_slice)
  have h: "length got = min RANDOM_PAGE_SIZE (sc_file_size c - ?s)" if "healthy e" "sc_file_size c = length file"
    using that by (auto simp: got_def fread_at_healthy)
  have cs: "choose_random_slot (c\<lparr>sc_random_misses := k\<rparr>) = choose_random_slot c" for k by (simp add: choose_random_slot_def)
  have ld: "load_random_page e p slot (c\<lparr>sc_random_misses := k\<rparr>) =
      (if RANDOM_PAGE_COUNT \<le> slot \<or> sc_file_size c \<le> ?s then (False, c\<lparr>sc_random_misses := k, sc_ios := sc_ios c\<rparr>)
       else if \<not> se_fseek e (sc_ios c) \<or> got = [] then (False, c\<lparr>sc_random_misses := k, sc_ios := sc_ios c + 1\<rparr>)
       else (True, c\<lparr>sc_random_misses := k, sc_ios := sc_ios c + 1,
             sc_random_cache_buf := Some (write_at (slot * RANDOM_PAGE_SIZE) got rbuf), sc_random_clock := sc_random_clock c + 1,
             sc_random_slots := (sc_random_slots c)[slot := \<lparr>rs_page_index = p, rs_valid_len = length got,
                rs_stamp = sc_random_clock c + 1, rs_valid = True\<rparr>]\<rparr>))" for slot k
    unfolding load_random_page_def got_def using assms(2,3) by (cases c) (simp add: Let_def count_io_def)
  define bad where "bad \<longleftrightarrow> choose_random_slot c = None \<or> RANDOM_PAGE_COUNT \<le> the (choose_random_slot c) \<or> sc_file_size c \<le> ?s \<or>
    \<not> se_fseek e (sc_ios c) \<or> got = []"
  show ?thesis
  proof (cases bad)
    case True
    have f: False if t: "healthy e" "?s < sc_file_size c" "sc_file_size c = length file" "length (sc_random_slots c) = RANDOM_PAGE_COUNT"
    proof -
      have "sc_random_slots c \<noteq> []" using t(4) by (auto simp: RANDOM_PAGE_COUNT_def)
      then obtain k where "choose_slot (sc_random_slots c) 0 None = Some k" using choose_slot_total by blast
      moreover from this have "k < RANDOM_PAGE_COUNT" using choose_slot_bound [of "sc_random_slots c" 0 None k] t(4) by simp
      moreover have "got \<noteq> []" using h [OF t(1,3)] t(2) by (auto simp: RANDOM_PAGE_SIZE_def)
      ultimately show False using True t(1,2) by (auto simp: bad_def choose_random_slot_def healthy_def)
    qed
    have "so = None \<and> (\<exists>n. c' = c\<lparr>sc_random_misses := sc_random_misses c + 1, sc_ios := n\<rparr>)"
    proof (cases "choose_random_slot c")
      case None
      with \<open>find_random_page p c = None\<close> assms(1) show ?thesis
        by (auto simp: page_slot_def cs Let_def intro: exI [of _ "sc_ios c"])
    next
      case (Some slot)
      then have "\<exists>n. load_random_page e p slot (c\<lparr>sc_random_misses := sc_random_misses c + 1\<rparr>) =
          (False, c\<lparr>sc_random_misses := sc_random_misses c + 1, sc_ios := n\<rparr>)"
      proof (cases "RANDOM_PAGE_COUNT \<le> slot \<or> sc_file_size c \<le> ?s")
        case True
        then show ?thesis by (intro exI [of _ "sc_ios c"]) (simp only: ld if_True)
      next
        case False
        then have "\<not> se_fseek e (sc_ios c) \<or> got = []" using \<open>bad\<close> Some by (simp add: bad_def)
        with False show ?thesis by (intro exI [of _ "sc_ios c + 1"]) (simp only: ld if_True if_False)
      qed
      then show ?thesis using Some \<open>find_random_page p c = None\<close> assms(1)
        by (auto simp: page_slot_def cs Let_def case_prod_unfold)
    qed
    then show ?thesis using f fail by blast
  next
    case False
    then obtain slot where slot: "choose_random_slot c = Some slot" "slot < RANDOM_PAGE_COUNT" "?s < sc_file_size c" "se_fseek e (sc_ios c)" "got \<noteq> []"
      by (auto simp: bad_def)
    have "so = Some slot \<and> c' = c\<lparr>sc_random_misses := sc_random_misses c + 1, sc_ios := sc_ios c + 1,
             sc_random_cache_buf := Some (write_at (slot * RANDOM_PAGE_SIZE) got rbuf), sc_random_clock := sc_random_clock c + 1,
             sc_random_slots := (sc_random_slots c)[slot := \<lparr>rs_page_index = p, rs_valid_len = length got,
                rs_stamp = sc_random_clock c + 1, rs_valid = True\<rparr>]\<rparr>"
      using assms(1) slot None by (simp add: page_slot_def cs ld Let_def)
    then show ?thesis using load [OF slot(1) _ slot(2,3,5) l s h] by blast
  qed
qed

lemma pages_ok_stamp:
  assumes "pages_ok file c" and "slot < RANDOM_PAGE_COUNT"
  shows "pages_ok file (c\<lparr>sc_random_slots := (sc_random_slots c)[slot := (sc_random_slots c ! slot)\<lparr>rs_stamp := st\<rparr>]\<rparr>)"
  using assms by (auto simp: pages_ok_def slot_ok_def nth_list_update split: option.splits)

lemma pages_ok_load:
  assumes "pages_ok file c" and "sc_random_cache_buf c = Some rbuf" and "slot < RANDOM_PAGE_COUNT"
    and "length got \<le> RANDOM_PAGE_SIZE" and "got = slice file (p * RANDOM_PAGE_SIZE) (length got)" and "p * RANDOM_PAGE_SIZE < length file"
  shows "pages_ok file (c\<lparr>sc_random_cache_buf := Some (write_at (slot * RANDOM_PAGE_SIZE) got rbuf),
     sc_random_slots := (sc_random_slots c)[slot := \<lparr>rs_page_index = p, rs_valid_len = length got, rs_stamp = st, rs_valid = True\<rparr>]\<rparr>)"
proof -
  have l: "length (sc_random_slots c) = RANDOM_PAGE_COUNT" "length rbuf = RANDOM_PAGE_SIZE * RANDOM_PAGE_COUNT"
    and o: "\<forall>i < RANDOM_PAGE_COUNT. slot_ok file rbuf i (sc_random_slots c ! i)"
    using assms(1,2) by (simp_all add: pages_ok_def)
  have "slot * RANDOM_PAGE_SIZE + RANDOM_PAGE_SIZE \<le> RANDOM_PAGE_SIZE * RANDOM_PAGE_COUNT"
    using mult_le_mono1 [of "Suc slot" RANDOM_PAGE_COUNT RANDOM_PAGE_SIZE] assms(3) by (simp add: ac_simps)
  then have fit: "slot * RANDOM_PAGE_SIZE + length got \<le> length rbuf" using assms(4) l(2) by simp
  let ?w = "write_at (slot * RANDOM_PAGE_SIZE) got rbuf"
  have "p * RANDOM_PAGE_SIZE + length got \<le> length file"
    using arg_cong [OF assms(5), of length] assms(6) by simp
  then have new: "slot_ok file ?w slot \<lparr>rs_page_index = p, rs_valid_len = length got, rs_stamp = st, rs_valid = True\<rparr>"
    using slice_write_same [OF fit] assms(4,5) by (simp add: slot_ok_def)
  have old: "slot_ok file ?w i (sc_random_slots c ! i)" if "i < RANDOM_PAGE_COUNT" "i \<noteq> slot" for i
  proof -
    have "i * RANDOM_PAGE_SIZE + RANDOM_PAGE_SIZE \<le> slot * RANDOM_PAGE_SIZE \<or> slot * RANDOM_PAGE_SIZE + RANDOM_PAGE_SIZE \<le> i * RANDOM_PAGE_SIZE"
      using that(2) mult_le_mono1 [of "Suc i" slot RANDOM_PAGE_SIZE] mult_le_mono1 [of "Suc slot" i RANDOM_PAGE_SIZE] by (cases "i < slot") auto
    then have "slice ?w (i * RANDOM_PAGE_SIZE) k = slice rbuf (i * RANDOM_PAGE_SIZE) k" if "k \<le> RANDOM_PAGE_SIZE" for k
      using assms(4) that by (intro slice_write_other [OF fit]) linarith
    then show ?thesis using o that(1) by (simp add: slot_ok_def)
  qed
  have "slot_ok file ?w i ((sc_random_slots c)[slot := \<lparr>rs_page_index = p, rs_valid_len = length got, rs_stamp = st, rs_valid = True\<rparr>] ! i)"
    if "i < RANDOM_PAGE_COUNT" for i
    using new old [OF that] l(1) that by (cases "i = slot") auto
  then show ?thesis using l fit by (simp add: pages_ok_def)
qed

lemma cache_full_slot:
  assumes "cache_full c" and "rs_valid s \<Longrightarrow> rs_valid_len s = min RANDOM_PAGE_SIZE (sc_file_size c - rs_page_index s * RANDOM_PAGE_SIZE)"
  shows "cache_full (c\<lparr>sc_random_slots := (sc_random_slots c)[i := s]\<rparr>)"
  using assms set_update_subset_insert [of "sc_random_slots c" i s] unfolding cache_full_def by auto

lemma cache_full_counters [simp]:
  "cache_full (c\<lparr>sc_ios := n\<rparr>) = cache_full c"
  "cache_full (c\<lparr>sc_hits := k\<rparr>) = cache_full c"
  "cache_full (c\<lparr>sc_misses := k\<rparr>) = cache_full c"
  "cache_full (c\<lparr>sc_random_hits := k\<rparr>) = cache_full c"
  "cache_full (c\<lparr>sc_random_misses := k\<rparr>) = cache_full c"
  "cache_full (c\<lparr>sc_random_clock := k\<rparr>) = cache_full c"
  "cache_full (c\<lparr>sc_random_cache_buf := b\<rparr>) = cache_full c"
  by (simp_all add: cache_full_def)

lemma page_slot_ok:
  assumes "cache_ok file c" and "sc_random_cache_buf c = Some rbuf" and "page_slot e p c = (so, c')" and "p * RANDOM_PAGE_SIZE < length file"
  shows "cache_ok file c' \<and> sc_random_cache_buf c' \<noteq> None \<and> sc_cache_capacity c' = sc_cache_capacity c \<and>
    (\<forall>slot. so = Some slot \<longrightarrow> slot < RANDOM_PAGE_COUNT \<and> rs_valid (sc_random_slots c' ! slot) \<and> rs_page_index (sc_random_slots c' ! slot) = p) \<and>
    (healthy e \<longrightarrow> cache_full c \<longrightarrow> so \<noteq> None \<and> cache_full c')"
proof -
  have w: "window_ok file c" "pages_ok file c" using assms(1) by (simp_all add: cache_ok_def)
  then have f: "sc_file c = Some file" "sc_file_size c = length file" "length (sc_random_slots c) = RANDOM_PAGE_COUNT"
    by (simp_all add: window_ok_def pages_ok_def)
  have wk: "window_ok file (c\<lparr>sc_random_slots := s\<rparr>)" "window_ok file (c\<lparr>sc_random_cache_buf := b, sc_random_slots := s\<rparr>)" for s b
    using w(1) by (simp_all add: window_ok_def split: option.splits)
  from assms(3) f(1) assms(2) show ?thesis
  proof (cases rule: page_slot_cases)
    case (hit slot)
    then have s: "slot < RANDOM_PAGE_COUNT" "rs_valid (sc_random_slots c ! slot)" "rs_page_index (sc_random_slots c ! slot) = p"
      using find_idx_SomeD [OF hit(1) [unfolded find_random_page_def]] f(3) by auto
    let ?s = "(sc_random_slots c ! slot)\<lparr>rs_stamp := sc_random_clock c + 1\<rparr>"
    have "cache_ok file (c\<lparr>sc_random_slots := (sc_random_slots c)[slot := ?s]\<rparr>)"
      using pages_ok_stamp [OF w(2) s(1)] wk(1) by (simp add: cache_ok_def)
    moreover have "cache_full (c\<lparr>sc_random_slots := (sc_random_slots c)[slot := ?s]\<rparr>)" if "cache_full c"
      using that s(1) f(3) by (intro cache_full_slot) (auto simp: cache_full_def)
    moreover have "c' = (c\<lparr>sc_random_slots := (sc_random_slots c)[slot := ?s]\<rparr>)\<lparr>sc_random_hits := sc_random_hits c + 1, sc_random_clock := sc_random_clock c + 1\<rparr>"
      using hit(3) by simp
    ultimately show ?thesis using hit(2) s f(3) assms(2) by simp
  next
    case (load slot got)
    let ?s = "\<lparr>rs_page_index = p, rs_valid_len = length got, rs_stamp = sc_random_clock c + 1, rs_valid = True\<rparr>"
    let ?c = "c\<lparr>sc_random_cache_buf := Some (write_at (slot * RANDOM_PAGE_SIZE) got rbuf), sc_random_slots := (sc_random_slots c)[slot := ?s]\<rparr>"
    have "cache_ok file ?c"
      using pages_ok_load [OF w(2) assms(2) load(3,6,7) assms(4)] wk(2) by (simp add: cache_ok_def)
    moreover have "cache_full ?c" if "cache_full c" "healthy e"
      using cache_full_slot [of "c\<lparr>sc_random_cache_buf := Some (write_at (slot * RANDOM_PAGE_SIZE) got rbuf)\<rparr>" ?s slot] that load(8) [OF that(2) f(2)]
      by simp
    moreover have "c' = ?c\<lparr>sc_random_misses := sc_random_misses c + 1, sc_ios := sc_ios c + 1, sc_random_clock := sc_random_clock c + 1\<rparr>"
      using load(9) by simp
    ultimately show ?thesis using load(2,3) f(3) by simp
  next
    case fail
    then show ?thesis using assms(1,2,4) f by auto
  qed
qed

section \<open>Reads\<close>

lemma page_bytes:
  assumes "cache_ok file c" and "sc_random_cache_buf c = Some rbuf" and "slot < RANDOM_PAGE_COUNT"
    and "rs_valid (sc_random_slots c ! slot)" and "off + n \<le> rs_valid_len (sc_random_slots c ! slot)"
  shows "slice rbuf (slot * RANDOM_PAGE_SIZE + off) n = slice file (rs_page_index (sc_random_slots c ! slot) * RANDOM_PAGE_SIZE + off) n"
proof -
  let ?s = "sc_random_slots c ! slot"
  have "slice rbuf (slot * RANDOM_PAGE_SIZE) (rs_valid_len ?s) = slice file (rs_page_index ?s * RANDOM_PAGE_SIZE) (rs_valid_len ?s)"
    using assms(1-4) by (simp add: cache_ok_def pages_ok_def slot_ok_def)
  from slice_of_eq [OF this assms(5)] show ?thesis by (simp add: add.commute)
qed

lemma page_arith:
  fixes q r cur m P v l :: nat
  assumes "q + r = cur" and "r < P" and "0 < l" and "cur + l \<le> m" and "v = min P (m - q)"
  shows "0 < v - r" and "min (v - r) (min (P - r) l) = min (P - r) l"
  using assms by (auto simp: min_def)

lemma random_loop_ok:
  assumes "cache_ok file c" and "buf = slice file offset copied" and "copied \<le> len" and "offset + len \<le> length file"
    and "random_loop e offset len copied buf c = (res, c')"
  shows "cache_ok file c' \<and> sc_cache_capacity c' = sc_cache_capacity c \<and> res = slice file offset (length res) \<and> length res \<le> len \<and>
    (healthy e \<longrightarrow> cache_full c \<longrightarrow> length res = len \<and> cache_full c')"
  using assms
proof (induction e offset len copied buf c rule: random_loop.induct)
  case (1 e offset len copied buf c)
  let ?cur = "offset + copied"
  let ?po = "?cur mod RANDOM_PAGE_SIZE"
  let ?chunk = "min (RANDOM_PAGE_SIZE - ?po) (len - copied)"
  note ok = 1(3) and buf = 1(4) and cl = 1(5) and ol = 1(6) and run = 1(7)
  have lb: "length buf = copied" using buf cl ol by simp
  have ext: "buf @ slice file ?cur k = slice file offset (copied + k)" for k by (simp only: buf slice_append)
  have el: "length (buf @ slice file ?cur k) = copied + k" if "k \<le> len - copied" for k
    using that cl ol by (simp add: lb)
  show ?case
  proof (cases "len \<le> copied")
    case True
    then have "res = buf" "c' = c" using run unfolding random_loop.simps [of e offset len copied buf c] by simp_all
    then show ?thesis using True buf cl lb ok by simp
  next
    case False
    show ?thesis
    proof (cases "sc_random_cache_buf c")
      case None
      define got where "got = fread_at e (sc_ios c) (the (sc_file c)) ?cur ?chunk"
      have fl: "sc_file c = Some file" using ok by (simp add: cache_ok_def window_ok_def)
      have g: "got = slice file ?cur (length got)" unfolding got_def fl option.sel by (rule fread_at_slice)
      have gl: "length got \<le> ?chunk" unfolding got_def by (rule fread_at_le)
      have gh: "length got = ?chunk" if "healthy e" using that ol by (simp add: got_def fl fread_at_healthy)
      have bg: "buf @ got = slice file offset (copied + length got)" using ext g by metis
      have r: "random_loop e offset len copied buf c =
          (if \<not> se_fseek e (sc_ios c) then (buf, count_io c)
           else if length got < ?chunk then (buf @ got, count_io c)
           else random_loop e offset len (copied + length got) (buf @ got) (count_io c))"
        using False None unfolding random_loop.simps [of e offset len copied buf c] got_def by (simp add: Let_def)
      consider (seek) "\<not> se_fseek e (sc_ios c)" | (short) "se_fseek e (sc_ios c)" "length got < ?chunk"
        | (more) "se_fseek e (sc_ios c)" "length got = ?chunk" using gl by linarith
      then show ?thesis
      proof cases
        case seek
        then show ?thesis using run r ok lb buf cl by (auto simp: healthy_def count_io_def)
      next
        case short
        then have rc: "res = buf @ got" "c' = count_io c" using run r by simp_all
        then have l: "length res = copied + length got" by (simp add: lb)
        have "res = slice file offset (length res)" unfolding l using rc(1) bg by simp
        moreover have "length res \<le> len" "\<not> healthy e" using l gl cl short(2) gh by auto
        ultimately show ?thesis using ok rc(2) by (simp add: count_io_def)
      next
        case more
        have "random_loop e offset len (copied + length got) (buf @ got) (count_io c) = (res, c')"
          using run r more by simp
        moreover have "cache_ok file (count_io c)" "cache_full c \<Longrightarrow> cache_full (count_io c)" "sc_cache_capacity (count_io c) = sc_cache_capacity c"
          using ok by (simp_all add: count_io_def)
        moreover have "copied + length got \<le> len" using more(2) cl by simp
        ultimately show ?thesis
          using 1(1) [OF False refl refl refl None _ got_def _ _ bg] more ol by auto
      qed
    next
      case (Some rbuf)
      obtain so c1 where ps: "page_slot e (?cur div RANDOM_PAGE_SIZE) c = (so, c1)" by (meson surj_pair)
      have "?cur div RANDOM_PAGE_SIZE * RANDOM_PAGE_SIZE \<le> ?cur" by simp
      then have pl: "?cur div RANDOM_PAGE_SIZE * RANDOM_PAGE_SIZE < length file" using False ol by linarith
      note p = page_slot_ok [OF ok Some ps pl]
      obtain rbuf1 where rb: "sc_random_cache_buf c1 = Some rbuf1" using p by blast
      show ?thesis
      proof (cases so)
        case None
        then have "res = buf" "c' = c1" using run False Some ps
          unfolding random_loop.simps [of e offset len copied buf c] by (simp_all add: Let_def)
        then show ?thesis using p None buf lb cl by auto
      next
        case (Some slot)
        let ?s = "sc_random_slots c1 ! slot"
        define n where "n = min (rs_valid_len ?s - ?po) ?chunk"
        define got where "got = slice rbuf1 (slot * RANDOM_PAGE_SIZE + ?po) n"
        have s: "slot < RANDOM_PAGE_COUNT" "rs_valid ?s" "rs_page_index ?s = ?cur div RANDOM_PAGE_SIZE" using p Some by auto
        have nl: "n \<le> len - copied" "n \<le> ?chunk" unfolding n_def by (auto intro: min.coboundedI2)
        have g: "got = slice file ?cur n"
        proof (cases "n = 0")
          case False
          then have "?po + n \<le> rs_valid_len ?s" by (auto simp: n_def)
          from page_bytes [OF _ rb s(1,2) this] p show ?thesis by (simp add: got_def s(3))
        qed (simp add: got_def)
        have bg: "buf @ got = slice file offset (copied + n)" "length (buf @ got) = copied + n"
          using ext [of n] el [OF nl(1)] by (simp_all add: g)
        have r: "random_loop e offset len copied buf c =
            (if rs_valid_len ?s - ?po = 0 then (buf, c1) else if n < ?chunk then (buf @ got, c1)
             else random_loop e offset len (copied + n) (buf @ got) c1)"
          using False \<open>sc_random_cache_buf c = Some rbuf\<close> ps Some rb
          unfolding random_loop.simps [of e offset len copied buf c] got_def n_def by (simp add: Let_def)
        have po: "?po < RANDOM_PAGE_SIZE" by (simp add: RANDOM_PAGE_SIZE_def)
        have nh: "n = ?chunk" "0 < rs_valid_len ?s - ?po" if "healthy e" "cache_full c"
        proof -
          have "cache_full c1" using p that by blast
          moreover have "?s \<in> set (sc_random_slots c1)" "sc_file_size c1 = length file"
            using p s(1) by (auto simp: cache_ok_def pages_ok_def window_ok_def)
          ultimately have "rs_valid_len ?s = min RANDOM_PAGE_SIZE (length file - ?cur div RANDOM_PAGE_SIZE * RANDOM_PAGE_SIZE)"
            using s(2,3) by (simp add: cache_full_def)
          moreover have "?cur div RANDOM_PAGE_SIZE * RANDOM_PAGE_SIZE + ?po = ?cur" by simp
          ultimately show "0 < rs_valid_len ?s - ?po" "n = ?chunk"
            using page_arith [where q = "?cur div RANDOM_PAGE_SIZE * RANDOM_PAGE_SIZE" and r = ?po and cur = ?cur and m = "length file"
                and l = "len - copied"] ol cl False po unfolding n_def by auto
        qed
        consider (none) "rs_valid_len ?s - ?po = 0" | (short) "0 < rs_valid_len ?s - ?po" "n < ?chunk"
          | (more) "0 < rs_valid_len ?s - ?po" "n = ?chunk" using nl(2) by linarith
        then show ?thesis
        proof cases
          case none
          then have "res = buf" "c' = c1" using run r by simp_all
          then show ?thesis using p nh none buf lb cl by auto
        next
          case short
          then have rc: "res = buf @ got" "c' = c1" using run r by simp_all
          have "res = slice file offset (length res)" unfolding rc(1) bg(2) by (rule bg(1))
          moreover have "length res \<le> len" "\<not> (healthy e \<and> cache_full c)" using rc bg(2) nl(1) cl short(2) nh by auto
          ultimately show ?thesis using p rc(2) by blast
        next
          case more
          have "random_loop e offset len (copied + n) (buf @ got) c1 = (res, c')" using run r more by simp
          moreover have "copied + n \<le> len" using nl(1) cl by simp
          ultimately show ?thesis
            using 1(2) [OF False refl refl refl \<open>sc_random_cache_buf c = Some rbuf\<close> ps [symmetric] Some refl n_def _ _ _ _ bg(1)]
              more p ol rb by (auto simp: got_def)
        qed
      qed
    qed
  qed
qed

lemma next_window: "0 < (k :: nat) \<Longrightarrow> (n div k * k + k) div k * k = n div k * k + k"
  by simp

lemma read_refill_ok:
  assumes "cache_ok file c" and "offset < length file" and "offset + len \<le> length file" and "read_refill e offset len c = (res, c')"
  shows "cache_ok file c' \<and> sc_cache_capacity c' = sc_cache_capacity c \<and> res = slice file offset (length res) \<and> length res \<le> len \<and>
    (healthy e \<longrightarrow> cache_full c \<longrightarrow> len \<le> sc_cache_capacity c \<longrightarrow> length res = len \<and> cache_full c')"
proof -
  let ?k = "sc_cache_capacity c" and ?a = "offset div sc_cache_capacity c * sc_cache_capacity c"
  obtain ok c1 where r1: "refill e offset c = (ok, c1)" by (meson surj_pair)
  note k1 = refill_ok [OF assms(1) r1]
  have h1: "ok" "cache_full c1" "sc_cache_len c1 = min ?k (length file - ?a)" if "healthy e" "cache_full c"
    using refill_healthy [OF assms(1) that(2,1) assms(2)] r1 by auto
  have pos: "0 < ?k" using assms(1) by (simp add: cache_ok_def window_ok_def)
  have a: "?a \<le> offset" "offset < ?a + ?k" using dividend_less_div_times [OF pos, of offset] by (simp_all add: ac_simps)
  have wb: "window_bytes off l d = slice file off l" if "cache_ok file d" "in_window off l d" for off l d
    using window_bytes_slice that by (simp add: cache_ok_def)
  have sl: "length (slice file off l) = l" if "off + l \<le> length file" for off l using that by simp
  define first where "first = min (sc_cache_start c1 + sc_cache_len c1 - offset) len"
  define head where "head = window_bytes offset first c1"
  obtain ok2 c2 where r2: "refill e (offset + first) c1 = (ok2, c2)" by (meson surj_pair)
  have e: "read_refill e offset len c = (if \<not> ok then ([], c1)
         else if in_window offset len c1 then (window_bytes offset len c1, c1)
         else if offset < sc_cache_start c1 \<or> sc_cache_start c1 + sc_cache_len c1 \<le> offset then ([], c1)
         else if \<not> ok2 then (head, c2)
         else if in_window (offset + first) (len - first) c2 then (head @ window_bytes (offset + first) (len - first) c2, c2)
         else (head, c2))"
    unfolding read_refill_def r1 prod.case Let_def first_def [symmetric] head_def [symmetric] r2 by simp
  consider (no) "\<not> ok" | (hit) "ok" "in_window offset len c1"
    | (out) "ok" "\<not> in_window offset len c1" "offset < sc_cache_start c1 \<or> sc_cache_start c1 + sc_cache_len c1 \<le> offset"
    | (split) "ok" "\<not> in_window offset len c1" "sc_cache_start c1 \<le> offset" "offset < sc_cache_start c1 + sc_cache_len c1" by linarith
  then show ?thesis
  proof cases
    case no
    then show ?thesis using e assms(4) k1 h1 by auto
  next
    case hit
    then have "res = slice file offset len" "c' = c1" using e assms(4) k1 wb by simp_all
    then show ?thesis using k1 h1 sl [OF assms(3)] by auto
  next
    case out
    then have rc: "res = []" "c' = c1" using e assms(4) by simp_all
    have "\<not> (healthy e \<and> cache_full c)" using out(3) h1(3) k1 out(1) a assms(2) by auto
    then show ?thesis using rc k1 by auto
  next
    case split
    have f: "first \<le> len" "in_window offset first c1" using split(3,4) by (auto simp: first_def in_window_def)
    have hd: "head = slice file offset first" unfolding head_def using wb k1 f(2) by blast
    have l1: "length head = first" unfolding hd using f(1) assms(3) by (intro sl) simp
    note k2 = refill_ok [OF conjunct1 [OF k1] r2]
    have in2: "ok2 \<and> cache_full c2 \<and> in_window (offset + first) (len - first) c2" if t: "healthy e" "cache_full c" "len \<le> ?k"
    proof -
      note h = h1 [OF t(1,2)]
      have st: "sc_cache_start c1 = ?a" "sc_cache_capacity c1 = ?k" using k1 split(1) by simp_all
      have over: "?a + sc_cache_len c1 < offset + len" using split(2) st a(1) by (simp add: in_window_def)
      then have clen: "sc_cache_len c1 = ?k" using h(3) assms(3) by (auto simp: min_def split: if_splits)
      have fst': "offset + first = ?a + ?k" using over clen st a by (simp add: first_def min_def)
      have "?a + ?k < length file" using over clen assms(3) by simp
      then have "offset + first < length file" using fst' by simp
      from refill_healthy [OF conjunct1 [OF k1] h(2) t(1) this] r2 have g: "ok2" "cache_full c2"
        "sc_cache_len c2 = min ?k (length file - (offset + first) div ?k * ?k)" by (simp_all add: st(2))
      have al: "(offset + first) div ?k * ?k = offset + first" unfolding fst' by (rule next_window [OF pos])
      then have "sc_cache_start c2 = offset + first" using k2 g(1) st(2) by simp
      then have "in_window (offset + first) (len - first) c2" using g(3) t(3) assms(3) f(1) unfolding al by (simp add: in_window_def)
      then show ?thesis using g by simp
    qed
    show ?thesis
    proof (cases "ok2 \<and> in_window (offset + first) (len - first) c2")
      case True
      then have "res = head @ window_bytes (offset + first) (len - first) c2" "c' = c2" using e assms(4) split by simp_all
      then have "res = slice file offset len" using True wb k2 f(1) slice_append [of first offset "file" "len - first"] by (simp add: hd)
      then show ?thesis using k1 k2 \<open>c' = c2\<close> in2 sl [OF assms(3)] by auto
    next
      case False
      then have rc: "res = head" "c' = c2" using e assms(4) split by (auto split: if_splits)
      have "res = slice file offset (length res)" unfolding rc(1) l1 by (rule hd)
      then show ?thesis using k1 k2 rc l1 f(1) in2 False by auto
    qed
  qed
qed

lemma sd_read_ok:
  assumes "cache_ok file c" and "sd_read e offset len c = (res, c')"
  shows "cache_ok file c' \<and> sc_cache_capacity c' = sc_cache_capacity c \<and> res = take (length res) (slice file offset len) \<and>
    (healthy e \<longrightarrow> cache_full c \<longrightarrow> len \<le> sc_cache_capacity c \<longrightarrow> res = slice file offset len \<and> cache_full c')"
proof (cases "offset < length file")
  case False
  then show ?thesis using assms by (auto simp: sd_read_def cache_ok_def window_ok_def)
next
  case True
  define n where "n = (if length file < offset + len then length file - offset else len)"
  have n: "offset + n \<le> length file" "slice file offset len = slice file offset n" "n \<le> len" using True by (auto simp: n_def)
  have f: "sc_file c = Some file" "sc_file_size c = length file" "sc_cache_buf c \<noteq> None"
    using assms(1) by (auto simp: cache_ok_def window_ok_def split: option.splits)
  let ?c1 = "c\<lparr>sc_misses := sc_misses c + 1\<rparr>"
  have ok1: "cache_ok file ?c1" "cache_full ?c1 = cache_full c" using assms(1) by simp_all
  obtain got c2 where rp: "read_via_random_pages e offset n ?c1 = (got, c2)" by (meson surj_pair)
  have e: "sd_read e offset len c = (if in_window offset n c then (window_bytes offset n c, c\<lparr>sc_hits := sc_hits c + 1\<rparr>)
      else if 0 < sc_cache_len c \<and> n \<le> RANDOM_PAGE_SIZE
      then if 0 < length got then (got, c2) else read_refill e offset n c2 else read_refill e offset n ?c1)"
  proof -
    have g: "\<not> (sc_cache_buf c = None \<or> Some file = None \<or> length file \<le> offset)" using f(3) True by simp
    show ?thesis unfolding sd_read_def f(1,2) Let_def n_def [symmetric] if_not_P [OF g] rp prod.case by simp
  qed
  have pages: "cache_ok file c2 \<and> sc_cache_capacity c2 = sc_cache_capacity c \<and> got = slice file offset (length got) \<and> length got \<le> n \<and>
      (healthy e \<longrightarrow> cache_full c \<longrightarrow> length got = n \<and> cache_full c2)"
  proof (cases "n = 0")
    case True
    then show ?thesis using rp ok1 by (auto simp: read_via_random_pages_def)
  next
    case False
    then have "random_loop e offset n 0 [] ?c1 = (got, c2)" using rp f by (simp add: read_via_random_pages_def)
    from random_loop_ok [OF ok1(1) _ _ n(1) this] show ?thesis using ok1(2) by simp
  qed
  have concl: ?thesis
    if "cache_ok file c' \<and> sc_cache_capacity c' = sc_cache_capacity c \<and> res = slice file offset (length res) \<and> length res \<le> n \<and>
      (healthy e \<longrightarrow> cache_full c \<longrightarrow> len \<le> sc_cache_capacity c \<longrightarrow> length res = n \<and> cache_full c')"
    using that n by (auto simp: min_absorb1)
  consider (hit) "in_window offset n c" | (page) "\<not> in_window offset n c" "0 < sc_cache_len c \<and> n \<le> RANDOM_PAGE_SIZE" "0 < length got"
    | (miss) "\<not> in_window offset n c" "0 < sc_cache_len c \<and> n \<le> RANDOM_PAGE_SIZE" "length got = 0"
    | (large) "\<not> in_window offset n c" "\<not> (0 < sc_cache_len c \<and> n \<le> RANDOM_PAGE_SIZE)" by blast
  then show ?thesis
  proof cases
    case hit
    then have "res = slice file offset n" "c' = c\<lparr>sc_hits := sc_hits c + 1\<rparr>"
      using e assms window_bytes_slice [of "file" c offset n] by (simp_all add: cache_ok_def)
    then show ?thesis using assms(1) n by (intro concl) simp
  next
    case page
    then show ?thesis using pages e assms(2) by (intro concl) auto
  next
    case miss
    then have "read_refill e offset n c2 = (res, c')" using e assms(2) by simp
    from read_refill_ok [OF conjunct1 [OF pages] True n(1) this] pages n(3) show ?thesis by (intro concl) auto
  next
    case large
    then have "read_refill e offset n ?c1 = (res, c')"
      using e assms(2) unfolding if_not_P [OF large(1)] if_not_P [OF large(2)] by simp
    from read_refill_ok [OF ok1(1) True n(1) this] ok1(2) n(3) show ?thesis by (intro concl) auto
  qed
qed

section \<open>Opening\<close>

lemma choose_cache_size_bound: "choose_cache_size e n = Some k \<Longrightarrow> kMinCacheSize \<le> k \<and> k \<le> n"
proof (induction e n rule: choose_cache_size.induct)
  case (1 e n)
  then show ?case using choose_cache_size.simps [of e n] div_le_dividend [of n 2] by (auto split: if_splits)
qed

lemma sd_open_ok:
  assumes "sd_open e path c = (ESP_OK, c')"
  shows "\<exists>file. se_mounted e \<and> se_fopen e path = Some file \<and> cache_ok file c' \<and> kMinCacheSize \<le> sc_cache_capacity c' \<and> (healthy e \<longrightarrow> cache_full c')"
proof -
  obtain f k where f: "se_mounted e" "se_fopen e path = Some f" "f \<noteq> []" and k: "choose_cache_size e (min (length f) MAX_CACHE_SIZE) = Some k"
    using assms by (auto simp: sd_open_def split: if_splits option.splits)
  define d where "d = c\<lparr>sc_file := Some f, sc_file_size := length f,
       sc_cache_buf := Some (replicate k 0), sc_cache_capacity := k,
       sc_cache_start := 0, sc_cache_len := 0, sc_random_clock := 0, sc_random_hits := 0, sc_random_misses := 0,
       sc_random_slots := replicate RANDOM_PAGE_COUNT RandomPageSlot_new, sc_hits := 0, sc_misses := 0,
       sc_random_cache_buf := (if se_malloc_random e then Some (replicate (RANDOM_PAGE_SIZE * RANDOM_PAGE_COUNT) 0) else None)\<rparr>"
  have c': "c' = snd (refill e 0 d)" using assms f k by (simp add: sd_open_def d_def)
  have kb: "kMinCacheSize \<le> k" using choose_cache_size_bound [OF k] by simp
  then have "0 < k" by (simp add: kMinCacheSize_def)
  then have ok: "cache_ok f d" by (simp add: d_def cache_ok_def window_ok_def pages_ok_def slot_ok_def RandomPageSlot_new_def)
  have full: "cache_full d" by (simp add: d_def cache_full_def RandomPageSlot_new_def)
  obtain b c1 where r: "refill e 0 d = (b, c1)" by (meson surj_pair)
  have "healthy e \<longrightarrow> cache_full c1" using refill_healthy [OF ok full, of e 0] f(3) r by auto
  moreover have "sc_cache_capacity d = k" by (simp add: d_def)
  ultimately show ?thesis using f c' r refill_ok [OF ok r] kb by auto
qed

text \<open>A sequence of reads through the cache.\<close>

fun sd_reads :: "SdEnv \<Rightarrow> (nat \<times> nat) list \<Rightarrow> SdReadCache \<Rightarrow> bytes list \<times> SdReadCache" where
  "sd_reads e [] c = ([], c)"
| "sd_reads e ((offset, len) # rs) c =
     (let (got, c1) = sd_read e offset len c; (gots, c2) = sd_reads e rs c1 in (got # gots, c2))"

lemma sd_reads_ok:
  "cache_ok file c \<Longrightarrow> sd_reads e rs c = (gots, c') \<Longrightarrow>
   list_all2 (\<lambda>(offset, len) got. got = take (length got) (slice file offset len)) rs gots \<and>
   (healthy e \<longrightarrow> cache_full c \<longrightarrow> (\<forall>r \<in> set rs. snd r \<le> sc_cache_capacity c) \<longrightarrow> gots = map (\<lambda>(offset, len). slice file offset len) rs)"
proof (induction rs arbitrary: c gots c')
  case (Cons r rs)
  obtain offset len where r: "r = (offset, len)" by (meson surj_pair)
  obtain got c1 where s: "sd_read e offset len c = (got, c1)" by (meson surj_pair)
  obtain gs c2 where t: "sd_reads e rs c1 = (gs, c2)" by (meson surj_pair)
  have g: "gots = got # gs" using Cons.prems(2) r s t by simp
  note k = sd_read_ok [OF Cons.prems(1) s]
  from Cons.IH [OF conjunct1 [OF k] t] k show ?case unfolding r g by (simp del: take_take)
qed simp

text \<open>
  Whatever the card does, also when seeks fail and reads come back short, every read through an
  opened cache returns a prefix of the bytes asked for: nothing stale and nothing from another
  place of the file.
\<close>

theorem cached_reads_authentic:
  assumes "sd_open e path c0 = (ESP_OK, c)" and "se_fopen e path = Some contents" and "sd_reads e rs c = (gots, c')"
  shows "list_all2 (\<lambda>(offset, len) got. got = take (length got) (take len (drop offset contents))) rs gots"
proof -
  have "cache_ok contents c" using sd_open_ok [OF assms(1)] assms(2) by auto
  from sd_reads_ok [OF this assms(3)] show ?thesis by (simp del: take_take)
qed

text \<open>
  C12. The cache is transparent: on a card that answers completely, any sequence of reads of up to 32
  KiB through the cache, hitting the window, the pages, or spanning two windows, returns exactly
  what the uncached \<open>sdcard_read_chunk\<close> returns.
\<close>

theorem cached_reads_equal_uncached:
  assumes "sd_open e path c0 = (ESP_OK, c)" and "healthy e" and "list_all (\<lambda>(offset, len). len \<le> kMinCacheSize) rs"
  shows "fst (sd_reads e rs c) = map (\<lambda>(offset, len). sdcard_read_chunk e n path offset len) rs"
proof -
  obtain f where f: "se_mounted e" "se_fopen e path = Some f" "cache_ok f c" "kMinCacheSize \<le> sc_cache_capacity c" "cache_full c"
    using sd_open_ok [OF assms(1)] assms(2) by blast
  obtain gots c' where r: "sd_reads e rs c = (gots, c')" by (meson surj_pair)
  have "\<forall>r \<in> set rs. snd r \<le> sc_cache_capacity c" using assms(3) f(4) by (auto simp: list_all_iff)
  then have "gots = map (\<lambda>(offset, len). slice f offset len) rs" using sd_reads_ok [OF f(3) r] assms(2) f(5) by blast
  then show ?thesis using r f(1,2) assms(2) by (simp add: sdcard_read_chunk_def fread_at_healthy healthy_def)
qed

lemma choose_cache_size_None_iff:
  "choose_cache_size e n = None \<longleftrightarrow> (\<forall>i. kMinCacheSize \<le> n div 2 ^ i \<longrightarrow> \<not> se_malloc e (n div 2 ^ i))"
proof (induction e n rule: choose_cache_size.induct)
  case (1 e n)
  have le: "n div 2 ^ i \<le> n" for i by simp
  have step: "(\<forall>i. P (n div 2 ^ i)) \<longleftrightarrow> P n \<and> (\<forall>i. P (n div 2 div 2 ^ i))" for P :: "nat \<Rightarrow> bool"
  proof -
    have "(\<forall>i. P (n div 2 ^ i)) \<longleftrightarrow> P (n div 2 ^ 0) \<and> (\<forall>i. P (n div 2 ^ Suc i))" by (metis not0_implies_Suc)
    then show ?thesis by (simp add: div_mult2_eq)
  qed
  show ?case
  proof (cases "n < kMinCacheSize")
    case True
    then have "\<not> kMinCacheSize \<le> n div 2 ^ i" for i using le [of i] by linarith
    with True show ?thesis by (simp add: choose_cache_size.simps [of e n])
  next
    case False
    show ?thesis
      unfolding step [where P = "\<lambda>k. kMinCacheSize \<le> k \<longrightarrow> \<not> se_malloc e k"]
      using False 1 by (auto simp: choose_cache_size.simps [of e n])
  qed
qed

text \<open>
  C26. Opening succeeds iff one of the sizes obtained by halving, starting from the smaller of file size
  and 512 KiB, is at least 32 KiB and can be allocated. A file smaller than 32 KiB can therefore
  never be opened through the cache, however much memory is free: the caller sees an out-of-memory
  error and the cache is unchanged.
\<close>

theorem open_outcome:
  assumes "se_mounted e" and "se_fopen e path = Some contents" and "contents \<noteq> []"
  shows "fst (sd_open e path c) =
      (if \<exists>i. kMinCacheSize \<le> min (length contents) MAX_CACHE_SIZE div 2 ^ i \<and> se_malloc e (min (length contents) MAX_CACHE_SIZE div 2 ^ i)
       then ESP_OK else ESP_ERR_NO_MEM) \<and>
    (length contents < kMinCacheSize \<longrightarrow> sd_open e path c = (ESP_ERR_NO_MEM, c))"
proof -
  let ?n = "min (length contents) MAX_CACHE_SIZE"
  have "choose_cache_size e ?n = None" if "length contents < kMinCacheSize"
  proof -
    have "?n < kMinCacheSize" using that by simp
    then show ?thesis unfolding choose_cache_size.simps [of e ?n] by (rule if_P)
  qed
  then show ?thesis
    using assms choose_cache_size_None_iff [of e ?n] by (auto simp: sd_open_def split: option.splits)
qed

definition ex_sd :: SdEnv where
  "ex_sd = \<lparr>se_mounted = True, se_fopen = (\<lambda>p. if p = ''a'' then Some [1, 2, 3] else if p = ''b'' then Some (replicate 40000 7) else None),
     se_fseek = (\<lambda>_. True), se_fread = (\<lambda>_ k. k), se_malloc = (\<lambda>_. True), se_malloc_random = True\<rparr>"

theorem open_outcome_witness: "sd_open ex_sd ''a'' SdReadCache_new = (ESP_ERR_NO_MEM, SdReadCache_new)"
  using open_outcome [of ex_sd "''a''" "[1, 2, 3]" SdReadCache_new] by (simp add: ex_sd_def kMinCacheSize_def)

lemma ex_sd_open: "sd_open ex_sd ''b'' SdReadCache_new = (ESP_OK, snd (sd_open ex_sd ''b'' SdReadCache_new))"
proof -
  have "choose_cache_size ex_sd (min (length (replicate 40000 (7 :: u8))) MAX_CACHE_SIZE) = Some 40000"
  proof -
    have "se_malloc ex_sd k" for k by (simp add: ex_sd_def)
    then show ?thesis by (simp add: choose_cache_size.simps [of ex_sd 40000] kMinCacheSize_def MAX_CACHE_SIZE_def)
  qed
  moreover have "se_mounted ex_sd" "se_fopen ex_sd ''b'' = Some (replicate 40000 7)" by (simp_all add: ex_sd_def)
  moreover have "replicate 40000 (7 :: u8) \<noteq> []" by simp
  ultimately show ?thesis by (simp add: sd_open_def)
qed

theorem cached_reads_authentic_witness:
  "list_all2 (\<lambda>(offset, len) got. got = take (length got) (take len (drop offset (replicate 40000 7)))) [(39990, 100), (5, 3)]
     (fst (sd_reads ex_sd [(39990, 100), (5, 3)] (snd (sd_open ex_sd ''b'' SdReadCache_new))))"
  by (rule cached_reads_authentic [OF ex_sd_open _ surjective_pairing]) (simp add: ex_sd_def)

theorem cached_reads_equal_uncached_witness:
  "fst (sd_reads ex_sd [(39998, 100), (5, 3)] (snd (sd_open ex_sd ''b'' SdReadCache_new))) = [[7, 7], [7, 7, 7]]"
proof -
  have h: "healthy ex_sd" by (simp add: ex_sd_def healthy_def)
  have r: "sdcard_read_chunk ex_sd 0 ''b'' off len = take len (drop off (replicate 40000 7))" for off len
    by (simp add: sdcard_read_chunk_def fread_at_def ex_sd_def)
  have "list_all (\<lambda>(offset, len). len \<le> kMinCacheSize) [(39998 :: nat, 100), (5, 3)]" by (simp add: kMinCacheSize_def)
  from cached_reads_equal_uncached [OF ex_sd_open h this, of 0]
  show ?thesis by (simp add: r numeral_2_eq_2 numeral_3_eq_3 del: sd_reads.simps)
qed

end
