(* ===== verification/Flp_Client.thy ===== *)
theory Flp_Client
  imports Sd_Cache Uart_Ingest Transfer_Invariant
begin






section \<open>The payload\<close>



section \<open>A transfer\<close>










section \<open>What the client sends\<close>










end
