(* ===== verification/Oled_Display.thy ===== *)
theory Oled_Display
  imports Mqtt_Client Mesh_Bridge
begin

text \<open>
  The OLED display (\<^verbatim>\<open>components/display/oled_display.cpp\<close>): the conversion of a rendered area to the page
  layout of the SSD1306, the texts of the three screens and the state machine that switches between
  them. LVGL is seen through what the code stores in it: the texts of the labels, the value of the
  progress bar and the screen loaded last. Widget creation, the start of the panel and animations are
  left out; \<open>now\<close> is the 64-bit microsecond clock.

  Shown are that the conversion copies exactly the pixels of the area, and what the transfer screen
  reports when a transfer begins while the end of the previous one is still displayed.
\<close>

unbundle bit_operations_syntax

abbreviation (input) LVGL_PALETTE_SIZE :: nat where "LVGL_PALETTE_SIZE \<equiv> 8"
abbreviation (input) OLED_W :: nat where "OLED_W \<equiv> 128"
abbreviation (input) OLED_H :: nat where "OLED_H \<equiv> 64"
abbreviation (input) SPLASH_DURATION_US :: int where "SPLASH_DURATION_US \<equiv> 2500000"
abbreviation (input) TRANSFER_HOLD_US :: int where "TRANSFER_HOLD_US \<equiv> 3000000"

section \<open>Pixels\<close>

text \<open>The rendered area: a palette, then rows of pixels, eight to a byte, the leftmost in the highest bit.\<close>

definition pixel_on :: "bytes \<Rightarrow> nat \<Rightarrow> nat \<Rightarrow> bool" where
  "pixel_on px_map x y \<longleftrightarrow> px_map ! (LVGL_PALETTE_SIZE + OLED_W div 8 * y + x div 8) AND push_bit (7 - x mod 8) 1 \<noteq> 0"

definition flush_pixel :: "bytes \<Rightarrow> nat \<times> nat \<Rightarrow> bytes \<Rightarrow> bytes" where
  "flush_pixel px_map p buf =
     (let (y, x) = p; i = OLED_W * (y div 8) + x
      in buf[i := if pixel_on px_map x y then buf ! i OR push_bit (y mod 8) 1 else buf ! i AND NOT (push_bit (y mod 8) 1)])"

definition lvgl_flush_cb :: "nat \<Rightarrow> nat \<Rightarrow> nat \<Rightarrow> nat \<Rightarrow> bytes \<Rightarrow> bytes \<Rightarrow> bytes" where
  "lvgl_flush_cb x1 y1 x2 y2 px_map = fold (flush_pixel px_map) (List.product [y1..<y2 + 1] [x1..<x2 + 1])"

text \<open>The display: eight rows to a page, the topmost in the lowest bit.\<close>

definition pixel_at :: "bytes \<Rightarrow> nat \<Rightarrow> nat \<Rightarrow> bool" where
  "pixel_at buf x y \<longleftrightarrow> bit (buf ! (OLED_W * (y div 8) + x)) (y mod 8)"

lemma length_flush_pixel [simp]: "length (flush_pixel px p buf) = length buf"
  by (simp add: flush_pixel_def case_prod_unfold Let_def)

lemma page_index:
  assumes "x < 128" and "x0 < 128"
  shows "128 * a + x = 128 * b + x0 \<longleftrightarrow> a = b \<and> x = (x0 :: nat)"
proof
  assume e: "128 * a + x = 128 * b + x0"
  then have "(128 * a + x) mod 128 = (128 * b + x0) mod 128" by simp
  then have "x = x0" using assms by simp
  with e show "a = b \<and> x = x0" by simp
qed simp

lemma flush_pixel_at:
  assumes "length buf = OLED_W * OLED_H div 8" and "x < OLED_W" "y < OLED_H" "x0 < OLED_W" "y0 < OLED_H"
  shows "pixel_at (flush_pixel px (y0, x0) buf) x y = (if (y, x) = (y0, x0) then pixel_on px x0 y0 else pixel_at buf x y)"
proof -
  have "y div 8 < 8" "y0 div 8 < 8" using assms(3,5) by auto
  then have i: "128 * (y div 8) + x < length buf" "128 * (y0 div 8) + x0 < length buf" using assms by auto
  show ?thesis
  proof (cases "x = x0 \<and> y div 8 = y0 div 8")
    case True
    have "y = y0 \<longleftrightarrow> y mod 8 = y0 mod 8" using True by (metis div_mult_mod_eq)
    then show ?thesis
      using True i by (auto simp: pixel_at_def flush_pixel_def bit_simps Let_def)
  next
    case False
    then have "128 * (y0 div 8) + x0 \<noteq> 128 * (y div 8) + x" using page_index [OF assms(4,2)] by auto
    then show ?thesis using False by (auto simp: pixel_at_def flush_pixel_def Let_def)
  qed
qed

lemma fold_flush_pixel:
  assumes "length buf = OLED_W * OLED_H div 8" and "\<forall>(y0, x0) \<in> set ps. x0 < OLED_W \<and> y0 < OLED_H" and "x < OLED_W" "y < OLED_H"
  shows "pixel_at (fold (flush_pixel px) ps buf) x y = (if (y, x) \<in> set ps then pixel_on px x y else pixel_at buf x y)"
  using assms
proof (induction ps arbitrary: buf)
  case (Cons p ps)
  obtain y0 x0 where p: "p = (y0, x0)" by (meson surj_pair)
  have "pixel_at (fold (flush_pixel px) (p # ps) buf) x y =
      (if (y, x) \<in> set ps then pixel_on px x y else pixel_at (flush_pixel px p buf) x y)"
    using Cons.IH [of "flush_pixel px p buf"] Cons.prems by simp
  also have "pixel_at (flush_pixel px p buf) x y = (if (y, x) = (y0, x0) then pixel_on px x0 y0 else pixel_at buf x y)"
    unfolding p by (rule flush_pixel_at) (use Cons.prems p in auto)
  finally show ?case by (auto simp: p)
qed simp

text \<open>
  Rendering. After LVGL has flushed an area of the screen, the display buffer shows the rendered pixel
  at every position of the area and is unchanged at every other one, although both the order of the
  bits and the direction in which bytes run differ.
\<close>

theorem flush_copies_area:
  assumes "length buf = OLED_W * OLED_H div 8" and "x2 < OLED_W" "y2 < OLED_H" and "x < OLED_W" "y < OLED_H"
  shows "pixel_at (lvgl_flush_cb x1 y1 x2 y2 px buf) x y =
    (if x1 \<le> x \<and> x \<le> x2 \<and> y1 \<le> y \<and> y \<le> y2 then pixel_on px x y else pixel_at buf x y)"
proof -
  have "\<forall>(y0, x0) \<in> set (List.product [y1..<y2 + 1] [x1..<x2 + 1]). x0 < OLED_W \<and> y0 < OLED_H" using assms(2,3) by auto
  from fold_flush_pixel [OF assms(1) this assms(4,5)] show ?thesis by (auto simp: lvgl_flush_cb_def)
qed

theorem flush_copies_area_witness:
  "pixel_at (lvgl_flush_cb 8 16 15 23 (replicate 1032 0xFF) (replicate 1024 0)) 9 17"
proof -
  have "pixel_on (replicate 1032 0xFF) 9 17" by (simp add: pixel_on_def)
  with flush_copies_area [of "replicate 1024 0" 15 23 9 17 8 16 "replicate 1032 0xFF"] show ?thesis by simp
qed

section \<open>Texts\<close>

datatype oled_label =
    Splash_addr | Splash_version
  | Status_title | Status_wifi | Status_mesh | Status_transfer | Status_cmd | Status_heap | Status_uptime
  | Xfer_title | Xfer_filename | Xfer_pct | Xfer_mesh | Xfer_heap

datatype OledState = OS_SPLASH | OS_STATUS | OS_TRANSFER

record NodeStatus =
  ns_node_addr :: u16
  ns_wifi_connected :: bool
  ns_espnow_peers :: u8
  ns_neighbor_count :: u8
  ns_control_hops :: u8
  ns_data_hops :: u8
  ns_transfer_active :: bool
  ns_filename :: "string option"
  ns_transfer_pct :: u8
  ns_free_heap_kb :: u32
  ns_uptime_s :: u32
  ns_cloud_cmd_received :: bool
  ns_config_cmd_received :: bool
  ns_topic_msg_received :: bool
  ns_topic_msg :: "string option"

record OledDisplay =
  od_initialized :: bool
  od_state :: OledState
  od_splash_start_us :: int
  od_splash_anim_started :: bool
  od_transfer_was_active :: bool
  od_show_complete :: bool
  od_transfer_done_us :: int
  od_text :: "oled_label \<Rightarrow> string"
  od_bar :: nat
  od_screen :: OledState

definition set_text :: "oled_label \<Rightarrow> string \<Rightarrow> OledDisplay \<Rightarrow> OledDisplay" where
  "set_text l s d = d\<lparr>od_text := (od_text d)(l := s)\<rparr>"

text \<open>Decimal output with a least width; \<open>line\<close> is \<open>snprintf\<close> into the 17 bytes of a line.\<close>

definition pad_dec :: "char \<Rightarrow> nat \<Rightarrow> nat \<Rightarrow> string" where
  "pad_dec c width n = replicate (width - length (dec_str n)) c @ dec_str n"

definition line_text :: "string \<Rightarrow> string" where
  "line_text s = take 16 s"

definition format_hops :: "u8 \<Rightarrow> string" where
  "format_hops hops = (if hops = 0xFF then ''--'' else if 99 < hops then ''99'' else dec_str (unat hops))"

definition title_text :: "bool \<Rightarrow> NodeStatus \<Rightarrow> string" where
  "title_text wifi_disabled s = line_text (''FLP-'' @ hex4 (ns_node_addr s) @ (if wifi_disabled then ''  RELAY'' else '' GATEWAY''))"

definition mesh_text :: "NodeStatus \<Rightarrow> string" where
  "mesh_text s = line_text (''N'' @ dec_str (unat (ns_neighbor_count s)) @ '' C'' @ format_hops (ns_control_hops s) @
     '' D'' @ format_hops (ns_data_hops s))"

definition heap_text :: "NodeStatus \<Rightarrow> string" where
  "heap_text s = line_text (dec_str (unat (ns_free_heap_kb s)) @ ''kB'')"

definition show_splash :: "string \<Rightarrow> NodeStatus \<Rightarrow> OledDisplay \<Rightarrow> OledDisplay" where
  "show_splash version s d = set_text Splash_version (take 23 (''Protocol v'' @ version)) (set_text Splash_addr (hex4 (ns_node_addr s)) d)"

definition show_status :: "bool \<Rightarrow> NodeStatus \<Rightarrow> OledDisplay \<Rightarrow> OledDisplay" where
  "show_status wifi_disabled s d =
     (let h = unat (ns_uptime_s s) div 3600; m = unat (ns_uptime_s s) mod 3600 div 60; sec = unat (ns_uptime_s s) mod 60;
          d1 = set_text Status_title (title_text wifi_disabled s) d;
          d2 = set_text Status_wifi (line_text ((if ns_wifi_connected s then ''W:OK'' else ''W:--'') @ '' Lo P:'' @ dec_str (unat (ns_espnow_peers s)))) d1;
          d3 = set_text Status_mesh (mesh_text s) d2;
          d4 = set_text Status_transfer (case (ns_transfer_active s, ns_filename s) of
                 (True, Some name) \<Rightarrow> line_text (take 8 name @ '' '' @ pad_dec (CHR '' '') 3 (unat (ns_transfer_pct s)) @ ''%'')
               | _ \<Rightarrow> ''Xfer: idle'') d3;
          d5 = set_text Status_cmd (if ns_topic_msg_received s \<and> ns_topic_msg s \<noteq> None \<and> the (ns_topic_msg s) \<noteq> [] then the (ns_topic_msg s)
               else if ns_config_cmd_received s then ''>> CFG CMD'' else if ns_cloud_cmd_received s then ''>> Cloud CMD'' else []) d4;
          d6 = set_text Status_heap (heap_text s) d5
      in set_text Status_uptime (line_text (pad_dec (CHR ''0'') 2 h @ '':'' @ pad_dec (CHR ''0'') 2 m @ '':'' @ pad_dec (CHR ''0'') 2 sec)) d6)"

definition show_transfer :: "bool \<Rightarrow> NodeStatus \<Rightarrow> OledDisplay \<Rightarrow> OledDisplay" where
  "show_transfer wifi_disabled s d =
     (let d1 = set_text Xfer_title (title_text wifi_disabled s) d;
          d2 = set_text Xfer_filename (case ns_filename s of Some name \<Rightarrow> name | None \<Rightarrow> ''unknown'') d1;
          d3 = (if od_show_complete d2 then (set_text Xfer_pct ''DONE'' d2)\<lparr>od_bar := 100\<rparr>
                else (set_text Xfer_pct (line_text (dec_str (unat (ns_transfer_pct s)) @ ''%'')) d2)\<lparr>od_bar := unat (ns_transfer_pct s)\<rparr>);
          d4 = set_text Xfer_mesh (mesh_text s) d3
      in set_text Xfer_heap (heap_text s) d4)"

section \<open>Screens\<close>

definition oled_update :: "string \<Rightarrow> bool \<Rightarrow> int \<Rightarrow> NodeStatus \<Rightarrow> OledDisplay \<Rightarrow> OledDisplay" where
  "oled_update version wifi_disabled now s d =
     (if \<not> od_initialized d then d
      else case od_state d of
        OS_SPLASH \<Rightarrow>
          let d1 = (show_splash version s d)\<lparr>od_splash_anim_started := True\<rparr>
          in if SPLASH_DURATION_US \<le> now - od_splash_start_us d1 then d1\<lparr>od_state := OS_STATUS, od_screen := OS_STATUS\<rparr> else d1
      | OS_STATUS \<Rightarrow>
          let d1 = show_status wifi_disabled s d
          in if ns_transfer_active s then d1\<lparr>od_state := OS_TRANSFER, od_screen := OS_TRANSFER\<rparr> else d1
      | OS_TRANSFER \<Rightarrow>
          show_transfer wifi_disabled s
            (if \<not> ns_transfer_active s then
               let d1 = (if od_transfer_was_active d
                         then d\<lparr>od_transfer_done_us := now, od_transfer_was_active := False, od_show_complete := True\<rparr> else d)
               in if TRANSFER_HOLD_US \<le> now - od_transfer_done_us d1
                  then d1\<lparr>od_state := OS_STATUS, od_show_complete := False, od_screen := OS_STATUS\<rparr> else d1
             else d\<lparr>od_transfer_was_active := True\<rparr>))"

text \<open>The display after a successful \<open>init\<close> at time \<open>now\<close>.\<close>

definition oled_started :: "int \<Rightarrow> OledDisplay" where
  "oled_started now = \<lparr>od_initialized = True, od_state = OS_SPLASH, od_splash_start_us = now, od_splash_anim_started = False,
     od_transfer_was_active = False, od_show_complete = False, od_transfer_done_us = 0, od_text = (\<lambda>_. []), od_bar = 0, od_screen = OS_SPLASH\<rparr>"

definition oled_run :: "string \<Rightarrow> bool \<Rightarrow> (int \<times> NodeStatus) list \<Rightarrow> OledDisplay \<Rightarrow> OledDisplay" where
  "oled_run version wifi_disabled = fold (\<lambda>(now, s). oled_update version wifi_disabled now s)"

lemma set_text_fields [simp]:
  "od_initialized (set_text l s d) = od_initialized d" "od_state (set_text l s d) = od_state d"
  "od_show_complete (set_text l s d) = od_show_complete d" "od_bar (set_text l s d) = od_bar d"
  "od_transfer_was_active (set_text l s d) = od_transfer_was_active d" "od_screen (set_text l s d) = od_screen d"
  "od_transfer_done_us (set_text l s d) = od_transfer_done_us d" "od_splash_start_us (set_text l s d) = od_splash_start_us d"
  "od_text (set_text l s d) = (od_text d)(l := s)"
  by (simp_all add: set_text_def)

lemma show_fields [simp]:
  "od_initialized (show_status w s d) = od_initialized d" "od_initialized (show_transfer w s d) = od_initialized d"
  "od_state (show_status w s d) = od_state d" "od_state (show_transfer w s d) = od_state d"
  "od_show_complete (show_status w s d) = od_show_complete d" "od_show_complete (show_transfer w s d) = od_show_complete d"
  "od_transfer_was_active (show_status w s d) = od_transfer_was_active d" "od_transfer_was_active (show_transfer w s d) = od_transfer_was_active d"
  "od_initialized (show_splash v s d) = od_initialized d" "od_state (show_splash v s d) = od_state d"
  "od_show_complete (show_splash v s d) = od_show_complete d" "od_transfer_was_active (show_splash v s d) = od_transfer_was_active d"
  "od_screen (show_status w s d) = od_screen d" "od_screen (show_transfer w s d) = od_screen d" "od_screen (show_splash v s d) = od_screen d"
  "od_splash_start_us (show_splash v s d) = od_splash_start_us d"
  by (simp_all add: show_splash_def show_status_def show_transfer_def Let_def)

lemma transfer_update:
  fixes v :: string and w :: bool and now :: int
  assumes "od_initialized d" and "od_state d = OS_TRANSFER" and "ns_transfer_active s"
  defines "d' \<equiv> oled_update v w now s d"
  shows "od_initialized d'" "od_state d' = OS_TRANSFER" "od_show_complete d' = od_show_complete d"
    and "od_text d' Xfer_pct = (if od_show_complete d then ''DONE'' else line_text (dec_str (unat (ns_transfer_pct s)) @ ''%''))"
  using assms(1-3) by (simp_all add: d'_def oled_update_def show_transfer_def Let_def)

text \<open>
  C29. What the transfer screen reports. While transfers are active the screen stays, and its percentage
  is the progress of the last update - unless the end of a previous transfer was being displayed when
  they began. Then the screen says DONE, however long the new transfer lasts and whatever its progress.
\<close>

theorem transfer_screen_reports:
  assumes "od_initialized d" and "od_state d = OS_TRANSFER" and "xs \<noteq> []" and "\<forall>(now, s) \<in> set xs. ns_transfer_active s"
  shows "od_state (oled_run v w xs d) = OS_TRANSFER \<and>
    od_text (oled_run v w xs d) Xfer_pct =
      (if od_show_complete d then ''DONE'' else line_text (dec_str (unat (ns_transfer_pct (snd (last xs)))) @ ''%''))"
  using assms
proof (induction xs arbitrary: d)
  case (Cons x xs)
  obtain now s where x: "x = (now, s)" by (meson surj_pair)
  have "ns_transfer_active s" using Cons.prems(4) x by simp
  note u = transfer_update [OF Cons.prems(1,2) this, of v w now]
  have r: "oled_run v w (x # xs) d = oled_run v w xs (oled_update v w now s d)" by (simp add: oled_run_def x)
  show ?case
  proof (cases "xs = []")
    case True
    then show ?thesis using u by (simp add: oled_run_def x)
  next
    case False
    then show ?thesis unfolding r using Cons.IH [OF u(1,2) False] Cons.prems(4) u(3) by simp
  qed
qed simp

definition ex_status :: "bool \<Rightarrow> u8 \<Rightarrow> NodeStatus" where
  "ex_status active pct = \<lparr>ns_node_addr = 0x0A0B, ns_wifi_connected = False, ns_espnow_peers = 0, ns_neighbor_count = 1, ns_control_hops = 1,
     ns_data_hops = 0xFF, ns_transfer_active = active, ns_filename = Some ''a.jpg'', ns_transfer_pct = pct, ns_free_heap_kb = 100,
     ns_uptime_s = 60, ns_cloud_cmd_received = False, ns_config_cmd_received = False, ns_topic_msg_received = False, ns_topic_msg = None\<rparr>"

text \<open>A node starts, transfers a file, and begins the next one half a second after the end of the first.\<close>

theorem transfer_screen_reports_witness:
  "od_text (oled_run ''1.0'' True [(5000000, ex_status True 10)]
     (oled_run ''1.0'' True [(2600000, ex_status False 0), (3100000, ex_status True 1), (3600000, ex_status True 90), (4500000, ex_status False 0)]
        (oled_started 0))) Xfer_pct = ''DONE''"
proof -
  let ?d = "oled_run ''1.0'' True [(2600000, ex_status False 0), (3100000, ex_status True 1), (3600000, ex_status True 90), (4500000, ex_status False 0)]
    (oled_started 0)"
  have "od_initialized ?d \<and> od_state ?d = OS_TRANSFER \<and> od_show_complete ?d"
    by (simp add: oled_run_def oled_update_def oled_started_def ex_status_def Let_def)
  then show ?thesis using transfer_screen_reports [of ?d "[(5000000, ex_status True 10)]" "''1.0''" True] by (simp add: ex_status_def)
qed

end
