(* ===== verification/Spec2Isabelle.thy ===== *)
theory Spec2Isabelle
  imports Arq_Receiver Topic_Table Mesh_Dedup Mesh_Discovery Mesh_Telemetry Transfer_Hazards Mesh_Init Flp_Client Oled_Display
begin

text \<open>
  Verification of the Forest Link Protocol firmware (\<^verbatim>\<open>flp-node\<close>): nodes in a forest form a mesh over ESP-NOW
  and LoRa, and send files through it to a node with an uplink, the exit, which publishes them over MQTT.

  \<^bold>\<open>Parts and their interaction.\<close> The two radio drivers copy received frames into slabs of a pool and put these
  into two queues by priority. The mesh task empties the queues: it drops duplicates and expired packets,
  maintains the route table, relays packets for others and hands the rest to the transfer engine. The
  engine of a source splits a file into fragments, adds parity, lets exits answer an advertisement, elects
  some and feeds each through a selective-repeat window; the engine of an exit gives the fragments to the
  MQTT client and acknowledges them to the source after the broker has taken them. Files enter through
  the UART interface, which spools them in PSRAM or on the SD card, or through the demo client.

  \<^bold>\<open>Which theory models what.\<close>
  \<^item> \<^verbatim>\<open>Flp_Prelude\<close>: machine integers, little-endian codecs, the contract \<^verbatim>\<open>wire_struct\<close> of packed structs, lemmas
    on lists and words. \<^verbatim>\<open>Float32\<close>: single precision as rounding of rationals.
  \<^item> \<^verbatim>\<open>Packet\<close> (\<^verbatim>\<open>packet.hpp\<close>): header, payload structs. \<^verbatim>\<open>Fec_Codec\<close> (\<^verbatim>\<open>fec_codec.hpp\<close>): parity encoder and decoder.
  \<^item> \<^verbatim>\<open>Selective_Repeat\<close>, \<^verbatim>\<open>Arq_Receiver\<close> (\<^verbatim>\<open>selective_repeat.cpp\<close>): sender window, retransmission and RTO; reassembly.
  \<^item> \<^verbatim>\<open>Buffer_Pool\<close> (\<^verbatim>\<open>buffer_pool.cpp\<close>): the free list of slabs, sequentially and at the grain of atomic accesses.
  \<^item> \<^verbatim>\<open>Radio_Rx\<close>, \<^verbatim>\<open>Espnow_Transport\<close>, \<^verbatim>\<open>Lora_Transport\<close> (\<^verbatim>\<open>espnow_transport.cpp\<close>, \<^verbatim>\<open>lora_transport.cpp\<close>): reception into the
    queues, transmit slots and peers, the command sequences of the LoRa radio.
  \<^item> \<^verbatim>\<open>Protocol_Selector\<close> (\<^verbatim>\<open>protocol_selector.cpp\<close>), \<^verbatim>\<open>Route_Table\<close> (\<^verbatim>\<open>route_table.hpp\<close>): choice of transport and next hop.
  \<^item> \<^verbatim>\<open>Mesh_Send\<close>, \<^verbatim>\<open>Mesh_Bridge\<close>, \<^verbatim>\<open>Mesh_Packets\<close>, \<^verbatim>\<open>Mesh_Run\<close>, \<^verbatim>\<open>Mesh_Init\<close> (\<^verbatim>\<open>mesh_manager*.cpp\<close>): state and send path, cloud
    bridge, packet processing, main loop, start. \<^verbatim>\<open>Mesh_Relay\<close>, \<^verbatim>\<open>Mesh_Dedup\<close>, \<^verbatim>\<open>Mesh_Discovery\<close>,
    \<^verbatim>\<open>Mesh_Telemetry\<close> hold their properties.
  \<^item> \<^verbatim>\<open>Topic_Table\<close>, \<^verbatim>\<open>Mqtt_Client\<close>, \<^verbatim>\<open>Mqtt_Custody\<close> (\<^verbatim>\<open>topic_table.hpp\<close>, \<^verbatim>\<open>mqtt_client.cpp\<close>): the uplink and what it promises.
  \<^item> \<^verbatim>\<open>Transfer_Engine\<close>, \<^verbatim>\<open>Transfer_Run\<close> (\<^verbatim>\<open>transfer_engine*.cpp\<close>): handlers and the periodic side; \<^verbatim>\<open>Transfer_Steps\<close>
    (the engine as a step relation), \<^verbatim>\<open>Transfer_Invariant\<close>, \<^verbatim>\<open>Transfer_Election\<close>, \<^verbatim>\<open>Transfer_Hazards\<close>: properties.
  \<^item> \<^verbatim>\<open>Uart_Ingest\<close>, \<^verbatim>\<open>Sd_Cache\<close>, \<^verbatim>\<open>Flp_Client\<close>, \<^verbatim>\<open>Oled_Display\<close> (\<^verbatim>\<open>uart_ingest.cpp\<close>, \<^verbatim>\<open>sdcard.cpp\<close>, \<^verbatim>\<open>flp_client.cpp\<close>,
    \<^verbatim>\<open>oled_display.cpp\<close>).

  \<^bold>\<open>How code becomes a definition.\<close> A class is a record with its fields under a prefix (\<^verbatim>\<open>te_\<close> for
  \<^verbatim>\<open>TransferEngine\<close>, \<^verbatim>\<open>mm_\<close> for \<^verbatim>\<open>MeshManager\<close>, \<^verbatim>\<open>sr_\<close> for \<^verbatim>\<open>SelectiveRepeat\<close>), a member function a function on it that
  returns the new state. Integers keep their width where the code can wrap. Calls that leave the node are
  logged in order (\<^verbatim>\<open>mm_out\<close>, \<^verbatim>\<open>mq_out\<close>, \<^verbatim>\<open>en_calls\<close>, \<^verbatim>\<open>lt_ops\<close>). An operation that crosses components acts on the pair of
  engine and MQTT client together with the mesh manager (\<^verbatim>\<open>Node\<close>); the mesh manager knows the engine only as
  the record of operations \<^verbatim>\<open>EngineOps\<close>, filled by \<^verbatim>\<open>flp_ops\<close>.

  \<^bold>\<open>What comes from the environment.\<close> The answers of FreeRTOS, the ESP-IDF, esp-mqtt, the ESP-NOW library, the radio,
  the card and the allocator, the clock, random numbers and the ROM checksum are fields of the environment
  records (\<^verbatim>\<open>MeshEnv\<close>, \<^verbatim>\<open>EngineEnv\<close>, \<^verbatim>\<open>MqttEnv\<close>, \<^verbatim>\<open>UartEnv\<close>, \<^verbatim>\<open>NowEnv\<close>, \<^verbatim>\<open>LoraEnv\<close>, \<^verbatim>\<open>SdEnv\<close>) and arbitrary unless a
  hypothesis restricts them. Tasks alternate between operations, except in the second part of \<^verbatim>\<open>Buffer_Pool\<close>.

  \<^bold>\<open>What the lemmas show.\<close>
  \<^item> Data: a file arriving in any order with duplicates and repairable losses is reassembled exactly; the sender
    window refines a map of unacknowledged fragments; the decoder repairs every single loss of a group and never
    invents a packet; the read cache is transparent.
  \<^item> Custody: an exit publishes only what it was given, a tracked number at most once per request, and acknowledges only
    what the broker has taken; the publishing loop drains its queue.
  \<^item> Mesh: relayed copies lose time to live at every hop and keep their content, route errors die out, a duplicate is
    recognised until its slot is reused, the next hop is of least cost, routes are adopted by serial number and
    switched with hysteresis, a telemetry report that reaches an exit is published once under its node's topic.
  \<^item> Resources: in every history of receptions and turns each slab is free, or queued exactly once, or one of those that
    the LoRa task lost on an empty packet; the mesh task works off any backlog; transmit slots are those of frames in
    flight; the LoRa radio listens whenever no operation is in progress, given the SPI mutex.
  \<^item> Election and transfer: the elected exits are the best answers in order; invariants of the engine hold after any
    packets and ticks.
  \<^item> Edges: the theorems of \<^verbatim>\<open>Transfer_Hazards\<close> and some of the others (as \<^verbatim>\<open>relay_drops_second_report\<close>) state exactly what happens where the code does not
    do what its comments intend.

  \<^bold>\<open>Interfaces.\<close> The contracts \<^verbatim>\<open>wire_struct\<close>, \<^verbatim>\<open>erasure_decoder\<close>, \<^verbatim>\<open>arq_window\<close>, \<^verbatim>\<open>slab_pool\<close>, \<^verbatim>\<open>name_registry\<close> and
  \<^verbatim>\<open>own_engine\<close> are locales, interpreted on the definitions of the component that provides them.

  \<^bold>\<open>Loops and fuel.\<close> Loops over data are structural or have a measure. The feeding loops of the engine take fuel:
  the number of sequence numbers that remain, one of which every iteration consumes, and the number of entries of a queue
  plus one. The main loops of the tasks are modelled turn by turn. A turn of the mesh task handles the
  packets queued when it begins, at most 64; frames that arrive during a turn belong to the next one.

  \<^bold>\<open>Not modelled.\<close> The start-up of the system in \<^verbatim>\<open>main.cpp\<close> and the configuration of peripherals, widget creation of
  the display, log lines, the display snapshot, the CSV telemetry of a transfer and statistics counters that no
  decision reads, and the heap monitor: sequences of calls without logic of their own. Wall-clock waiting inside an
  operation is represented by its outcome. Interrupts between the statements of an operation are considered for
  the buffer pool only. The cloud service, written in Go, appears as the messages it sends.
\<close>

end
